(* ===== verification/C_Prelude.thy ===== *)
theory C_Prelude
  imports Main "HOL-Library.Char_ord" "HOL-Library.List_Lexorder"
begin

text \<open>
  Shared material of the development: the parts of the C library that the sources use on strings
  (NUL-terminated strings as \<open>string\<close>, bounded printing, tokenising, \<open>fgets\<close>, \<open>strtol\<close>), the
  generic lemmas about them, and the two locales every component theory builds on: invariants of
  event-driven machines and validated path components.
\<close>

named_theorems cstr_simps \<open>rewrite rules for the C string functions\<close>
named_theorems machine_inv \<open>one-step preservation lemmas of the event-driven components\<close>

type_synonym path = string
type_synonym fs = "path \<Rightarrow> string option"

abbreviation NUL :: char where "NUL \<equiv> CHR 0x00"
abbreviation NL :: char where "NL \<equiv> CHR 0x0A"
abbreviation CR :: char where "CR \<equiv> CHR 0x0D"
abbreviation TAB :: char where "TAB \<equiv> CHR 0x09"
abbreviation SPC :: char where "SPC \<equiv> CHR 0x20"
abbreviation DQUOTE :: char where "DQUOTE \<equiv> CHR 0x22"
abbreviation BSLASH :: char where "BSLASH \<equiv> CHR 0x5C"
abbreviation SLASH :: char where "SLASH \<equiv> CHR 0x2F"

section \<open>C strings\<close>

text \<open>The C string held by a buffer: its bytes up to the first NUL.\<close>

definition cstr :: "string \<Rightarrow> string" where
  "cstr s = takeWhile (\<lambda>c. c \<noteq> NUL) s"

text \<open>\<open>snprintf(buf, n, "%s", s)\<close>: at most \<open>n - 1\<close> bytes and a terminator.\<close>

definition snprintf_s :: "nat \<Rightarrow> string \<Rightarrow> string" where
  "snprintf_s n s = take (n - 1) s"

definition has_prefix :: "string \<Rightarrow> string \<Rightarrow> bool" where
  "has_prefix p s \<longleftrightarrow> take (length p) s = p"

definition has_suffix :: "string \<Rightarrow> string \<Rightarrow> bool" where
  "has_suffix p s \<longleftrightarrow> length p \<le> length s \<and> drop (length s - length p) s = p"

text \<open>
  \<open>strtok_r\<close> as glibc implements it: skip leading delimiters, cut the token at the next one and
  leave the save pointer behind it (at the terminator when the string ends there).
\<close>

definition strtok_r :: "char \<Rightarrow> string \<Rightarrow> string option \<times> string" where
  "strtok_r d s =
     (let t = dropWhile (\<lambda>c. c = d) s
      in if t = [] then (None, [])
         else (Some (takeWhile (\<lambda>c. c \<noteq> d) t), tl (dropWhile (\<lambda>c. c \<noteq> d) t)))"

lemma strtok_r_shrinks:
  "strtok_r d s = (Some t, r) \<Longrightarrow> length r < length s"
proof -
  assume a: "strtok_r d s = (Some t, r)"
  let ?t = "dropWhile (\<lambda>c. c = d) s"
  have ne: "?t \<noteq> []" and r: "r = tl (dropWhile (\<lambda>c. c \<noteq> d) ?t)"
    using a by (auto simp: strtok_r_def Let_def split: if_splits)
  have "length (dropWhile (\<lambda>c. c \<noteq> d) ?t) \<le> length ?t" by (rule length_dropWhile_le)
  moreover have "length ?t \<le> length s" by (rule length_dropWhile_le)
  moreover have "0 < length ?t" using ne by simp
  moreover have "length r = length (dropWhile (\<lambda>c. c \<noteq> d) ?t) - 1" by (simp add: r)
  ultimately show ?thesis by linarith
qed

text \<open>All tokens of a string, the loop \<open>for (t = strtok_r(s, ...); t; t = strtok_r(NULL, ...))\<close>.\<close>

function strtok_all :: "char \<Rightarrow> string \<Rightarrow> string list" where
  "strtok_all d s = (case strtok_r d s of (None, _) \<Rightarrow> [] | (Some t, r) \<Rightarrow> t # strtok_all d r)"
  by pat_completeness auto
termination
  by (relation "measure (\<lambda>(d, s). length s)") (auto dest!: sym [of "(Some _, _)"] simp: strtok_r_shrinks)

declare strtok_all.simps [simp del]

text \<open>\<open>fgets(line, n, f)\<close>: at most \<open>n - 1\<close> bytes, up to and including a newline.\<close>

fun fgets_aux :: "nat \<Rightarrow> string \<Rightarrow> string \<times> string" where
  "fgets_aux 0 xs = ([], xs)"
| "fgets_aux (Suc n) [] = ([], [])"
| "fgets_aux (Suc n) (x # xs) =
     (if x = NL then ([x], xs) else (let (l, r) = fgets_aux n xs in (x # l, r)))"

lemma fgets_aux_length: "fgets_aux n xs = (l, r) \<Longrightarrow> length l + length r = length xs"
  by (induction n xs arbitrary: l r rule: fgets_aux.induct) (auto split: if_splits prod.splits)

lemma fgets_aux_nonempty: "0 < n \<Longrightarrow> xs \<noteq> [] \<Longrightarrow> fgets_aux n xs = (l, r) \<Longrightarrow> l \<noteq> []"
  by (cases n; cases xs) (auto split: if_splits prod.splits)

definition fgets :: "nat \<Rightarrow> string \<Rightarrow> (string \<times> string) option" where
  "fgets n xs = (if xs = [] \<or> n \<le> 1 then None else Some (fgets_aux (n - 1) xs))"

lemma fgets_shrinks: "fgets n xs = Some (l, r) \<Longrightarrow> length r < length xs"
  using fgets_aux_length [of "n - 1" xs l r] fgets_aux_nonempty [of "n - 1" xs l r]
  by (cases l) (auto simp: fgets_def split: if_splits)

text \<open>The buffers that \<open>while (fgets(line, n, f))\<close> sees.\<close>

function fgets_lines :: "nat \<Rightarrow> string \<Rightarrow> string list" where
  "fgets_lines n xs = (case fgets n xs of None \<Rightarrow> [] | Some (l, r) \<Rightarrow> l # fgets_lines n r)"
  by pat_completeness auto
termination
  by (relation "measure (\<lambda>(n, xs). length xs)") (auto simp: fgets_shrinks)

declare fgets_lines.simps [simp del]

lemma fgets_aux_line:
  "NL \<notin> set l \<Longrightarrow> length l < n \<Longrightarrow> fgets_aux n (l @ NL # r) = (l @ [NL], r)"
proof (induction l arbitrary: n)
  case Nil
  then show ?case by (cases n) auto
next
  case (Cons a l)
  then show ?case by (cases n) auto
qed

lemma fgets_lines_line [cstr_simps]:
  assumes "NL \<notin> set l" and "length l + 1 < n"
  shows "fgets_lines n (l @ NL # r) = (l @ [NL]) # fgets_lines n r"
  using assms fgets_aux_line [of l "n - 1" r]
  by (subst fgets_lines.simps) (auto simp: fgets_def)

lemma fgets_lines_Nil [cstr_simps, simp]: "fgets_lines n [] = []"
  by (subst fgets_lines.simps) (simp add: fgets_def)

text \<open>\<open>line[strcspn(line, "\n")] = '\0'\<close>.\<close>

definition chomp :: "string \<Rightarrow> string" where
  "chomp s = takeWhile (\<lambda>c. c \<noteq> NUL \<and> c \<noteq> NL) s"

lemma takeWhile_hit: "(\<And>x. x \<in> set xs \<Longrightarrow> P x) \<Longrightarrow> \<not> P y \<Longrightarrow> takeWhile P (xs @ y # zs) = xs"
  by (induction xs) auto

lemma dropWhile_hit: "(\<And>x. x \<in> set xs \<Longrightarrow> P x) \<Longrightarrow> \<not> P y \<Longrightarrow> dropWhile P (xs @ y # zs) = y # zs"
  by (induction xs) auto

lemma chomp_line [cstr_simps]: "NL \<notin> set l \<Longrightarrow> NUL \<notin> set l \<Longrightarrow> chomp (l @ [NL]) = l"
  unfolding chomp_def by (rule takeWhile_hit) auto

lemma strtok_r_hit [cstr_simps]:
  assumes "t \<noteq> []" and "d \<notin> set t"
  shows "strtok_r d (t @ d # r) = (Some t, r)"
proof -
  have "dropWhile (\<lambda>c. c = d) (t @ d # r) = t @ d # r"
    using assms by (cases t) auto
  moreover have "takeWhile (\<lambda>c. c \<noteq> d) (t @ d # r) = t"
    using assms by (intro takeWhile_hit) auto
  moreover have "dropWhile (\<lambda>c. c \<noteq> d) (t @ d # r) = d # r"
    using assms by (intro dropWhile_hit) auto
  ultimately show ?thesis by (simp add: strtok_r_def)
qed

lemma strtok_r_last [cstr_simps]:
  assumes "t \<noteq> []" and "d \<notin> set t"
  shows "strtok_r d t = (Some t, [])"
proof -
  have "dropWhile (\<lambda>c. c = d) t = t" using assms by (cases t) auto
  moreover have "takeWhile (\<lambda>c. c \<noteq> d) t = t" using assms by (auto simp: takeWhile_eq_all_conv)
  moreover have "tl (dropWhile (\<lambda>c. c \<noteq> d) t) = []"
    using assms dropWhile_eq_Nil_conv [of "\<lambda>c. c \<noteq> d" t] by (metis list.sel(2))
  ultimately show ?thesis using assms(1) by (simp only: strtok_r_def Let_def if_False)
qed

lemma strtok_all_Nil [cstr_simps, simp]: "strtok_all d [] = []"
  by (subst strtok_all.simps) (simp add: strtok_r_def)

lemma strtok_all_hit [cstr_simps]:
  "t \<noteq> [] \<Longrightarrow> d \<notin> set t \<Longrightarrow> strtok_all d (t @ d # r) = t # strtok_all d r"
  by (subst strtok_all.simps) (simp add: strtok_r_hit)

lemma strtok_all_last [cstr_simps]: "t \<noteq> [] \<Longrightarrow> d \<notin> set t \<Longrightarrow> strtok_all d t = [t]"
  by (subst strtok_all.simps) (simp add: strtok_r_last)

section \<open>Numbers in text\<close>

definition is_digit :: "char \<Rightarrow> bool" where
  "is_digit c \<longleftrightarrow> CHR ''0'' \<le> c \<and> c \<le> CHR ''9''"

definition digit_val :: "char \<Rightarrow> nat" where
  "digit_val c = of_char c - of_char (CHR ''0'')"

definition digit_chr :: "nat \<Rightarrow> char" where
  "digit_chr d = char_of (d + of_char (CHR ''0''))"

definition dec_val :: "string \<Rightarrow> nat" where
  "dec_val s = foldl (\<lambda>v c. v * 10 + digit_val c) 0 s"

text \<open>\<open>%ld\<close> without padding, on natural numbers and on integers.\<close>

fun show_nat :: "nat \<Rightarrow> string" where
  "show_nat n = (if n < 10 then [digit_chr n] else show_nat (n div 10) @ [digit_chr (n mod 10)])"

declare show_nat.simps [simp del]

definition show_int :: "int \<Rightarrow> string" where
  "show_int i = (if i < 0 then CHR ''-'' # show_nat (nat (- i)) else show_nat (nat i))"

lemma digit_chr_simps [simp]:
  assumes "d < 10"
  shows "digit_val (digit_chr d) = d" and "is_digit (digit_chr d)"
proof -
  have "of_char (digit_chr d) = d + (48 :: nat)"
    using assms by (simp add: digit_chr_def)
  then show "digit_val (digit_chr d) = d" and "is_digit (digit_chr d)"
    using assms by (auto simp: digit_val_def is_digit_def less_eq_char_def)
qed

lemma dec_val_snoc [simp]: "dec_val (s @ [c]) = dec_val s * 10 + digit_val c"
  by (simp add: dec_val_def)

lemma dec_val_show_nat [simp]: "dec_val (show_nat n) = n"
proof (induction n rule: show_nat.induct)
  case (1 n)
  show ?case
  proof (cases "n < 10")
    case True
    then show ?thesis by (subst show_nat.simps) (simp add: dec_val_def)
  next
    case False
    with 1 have "dec_val (show_nat (n div 10)) = n div 10" by simp
    with False show ?thesis by (subst show_nat.simps) simp
  qed
qed

lemma show_nat_nonempty [simp]: "show_nat n \<noteq> []"
  by (subst show_nat.simps) simp

lemma show_nat_digits: "c \<in> set (show_nat n) \<Longrightarrow> is_digit c"
proof (induction n rule: show_nat.induct)
  case (1 n)
  then show ?case
    by (cases "n < 10") (auto simp: show_nat.simps [of n])
qed

lemma show_nat_length: "n < 10 ^ Suc k \<Longrightarrow> length (show_nat n) \<le> Suc k"
proof (induction k arbitrary: n)
  case 0
  then show ?case by (simp add: show_nat.simps)
next
  case (Suc k)
  show ?case
  proof (cases "n < 10")
    case True
    then show ?thesis by (simp add: show_nat.simps)
  next
    case False
    have "n div 10 < 10 ^ Suc k" using Suc.prems by auto
    then show ?thesis using Suc.IH [of "n div 10"] False by (subst show_nat.simps) simp
  qed
qed

lemma is_digit_bounds: "is_digit c \<longleftrightarrow> (48::nat) \<le> of_char c \<and> of_char c \<le> (57::nat)"
  by (simp add: is_digit_def less_eq_char_def)

text \<open>
  \<open>strtol(s, &end, 10)\<close>: skip white space, an optional sign, digits; the value (clamped to
  \<open>long\<close>), the rest of the string behind the number, and whether \<open>errno\<close> became \<open>ERANGE\<close>.
\<close>

definition is_space :: "char \<Rightarrow> bool" where
  "is_space c \<longleftrightarrow> c = SPC \<or> (TAB \<le> c \<and> c \<le> CR)"

definition LONG_MAX :: int where "LONG_MAX = 2 ^ 63 - 1"
definition LONG_MIN :: int where "LONG_MIN = - (2 ^ 63)"

definition strtol :: "string \<Rightarrow> int \<times> string \<times> bool" where
  "strtol s =
     (let t = dropWhile is_space s;
          neg = (t \<noteq> [] \<and> hd t = CHR ''-'');
          u = (if t \<noteq> [] \<and> (hd t = CHR ''-'' \<or> hd t = CHR ''+'') then tl t else t);
          ds = takeWhile is_digit u;
          v = (if neg then - int (dec_val ds) else int (dec_val ds))
      in if ds = [] then (0, s, False)
         else if v > LONG_MAX then (LONG_MAX, dropWhile is_digit u, True)
         else if v < LONG_MIN then (LONG_MIN, dropWhile is_digit u, True)
         else (v, dropWhile is_digit u, False))"

lemma digit_not_space: "is_digit c \<Longrightarrow> \<not> is_space c"
  by (auto simp: is_digit_bounds is_space_def less_eq_char_def)

lemma digit_not_sign: "is_digit c \<Longrightarrow> c \<noteq> CHR ''-'' \<and> c \<noteq> CHR ''+''"
  by (auto simp: is_digit_bounds)

lemma strtol_range: "strtol s = (v, r, e) \<Longrightarrow> LONG_MIN \<le> v \<and> v \<le> LONG_MAX"
  by (auto simp: strtol_def Let_def LONG_MAX_def LONG_MIN_def split: if_splits)

lemma strtol_show_nat:
  assumes "int n \<le> LONG_MAX" and "r = [] \<or> \<not> is_digit (hd r)"
  shows "strtol (show_nat n @ r) = (int n, r, False)"
proof -
  obtain d ds where eq: "show_nat n = d # ds" by (cases "show_nat n") auto
  have dig: "\<And>c. c \<in> set (show_nat n) \<Longrightarrow> is_digit c" by (rule show_nat_digits)
  then have d: "is_digit d" by (simp add: eq)
  have "dropWhile is_space (show_nat n @ r) = show_nat n @ r"
    using digit_not_space [OF d] by (simp add: eq)
  moreover have "takeWhile is_digit (show_nat n @ r) = show_nat n"
    using dig assms(2) by (cases r) (auto simp: takeWhile_append)
  moreover have "dropWhile is_digit (show_nat n @ r) = r"
    using dig assms(2) by (cases r) (auto simp: dropWhile_append)
  moreover have "hd (show_nat n @ r) = d" by (simp add: eq)
  ultimately show ?thesis
    using digit_not_sign [OF d] assms(1) by (simp add: strtol_def LONG_MIN_def Let_def)
qed

section \<open>Zero-padded numbers and the order of names\<close>

definition pad0 :: "nat \<Rightarrow> string \<Rightarrow> string" where
  "pad0 w s = replicate (w - length s) (CHR ''0'') @ s"

text \<open>\<open>%0<w>ld\<close>.\<close>

definition show_padded :: "nat \<Rightarrow> int \<Rightarrow> string" where
  "show_padded w i =
     (if i < 0 then CHR ''-'' # pad0 (w - 1) (show_nat (nat (- i))) else pad0 w (show_nat (nat i)))"

lemma foldl_dec:
  "foldl (\<lambda>v c. v * 10 + digit_val c) a s = a * 10 ^ length s + foldl (\<lambda>v c. v * 10 + digit_val c) 0 s"
proof (induction s rule: rev_induct)
  case (snoc c s)
  let ?f = "\<lambda>a. foldl (\<lambda>v c. v * 10 + digit_val c) a s"
  have "?f a * 10 = (a * 10 ^ length s + ?f 0) * 10" by (rule arg_cong [OF snoc.IH])
  then show ?case by simp
qed simp

lemma dec_val_Cons: "dec_val (c # s) = digit_val c * 10 ^ length s + dec_val s"
  using foldl_dec [of "digit_val c" s] by (simp add: dec_val_def)

lemma digit_val_less: "is_digit c \<Longrightarrow> digit_val c < 10"
  unfolding is_digit_bounds digit_val_def by (elim conjE) simp

lemma dec_val_bound: "(\<And>c. c \<in> set s \<Longrightarrow> is_digit c) \<Longrightarrow> dec_val s < 10 ^ length s"
proof (induction s rule: rev_induct)
  case Nil
  then show ?case by (simp add: dec_val_def)
next
  case (snoc c s)
  have "digit_val c < 10" using snoc.prems by (intro digit_val_less) simp
  moreover have "dec_val s < 10 ^ length s" using snoc by simp
  ultimately have "dec_val s * 10 + digit_val c < 10 * 10 ^ length s" by simp
  then show ?case by simp
qed

lemma dec_val_pad0 [simp]: "dec_val (pad0 w s) = dec_val s"
proof -
  have "dec_val (replicate n (CHR ''0'') @ s) = dec_val s" for n
    by (induction n) (auto simp: dec_val_Cons digit_val_def)
  then show ?thesis by (simp add: pad0_def)
qed

lemma digit_order: "is_digit c \<Longrightarrow> is_digit d \<Longrightarrow> digit_val c < digit_val d \<Longrightarrow> c < d"
  by (simp add: digit_val_def less_char_def)

text \<open>On digit strings of one length the byte order is the numeric order.\<close>

lemma dec_val_order:
  assumes "length a = length b" and "\<And>c. c \<in> set a \<union> set b \<Longrightarrow> is_digit c" and "dec_val a < dec_val b"
  shows "a < b"
  using assms
proof (induction a b rule: list_induct2)
  case Nil
  then show ?case by simp
next
  case (Cons x xs y ys)
  have len: "dec_val xs < 10 ^ length xs" "dec_val ys < 10 ^ length xs"
    using Cons.prems(1) Cons.hyps dec_val_bound [of xs] dec_val_bound [of ys] by auto
  consider "digit_val x < digit_val y" | "digit_val x = digit_val y" | "digit_val y < digit_val x" by linarith
  then show ?case
  proof cases
    case 1
    then have "x < y" using Cons.prems(1) by (intro digit_order) auto
    then show ?thesis by simp
  next
    case 2
    moreover have "48 \<le> (of_char x :: nat)" "48 \<le> (of_char y :: nat)"
      using Cons.prems(1) is_digit_bounds by auto
    ultimately have "(of_char x :: nat) = of_char y" by (simp add: digit_val_def del: of_char_eq_iff)
    then have "x = y" by simp
    moreover have "xs < ys"
      using Cons 2 by (auto simp: dec_val_Cons)
    ultimately show ?thesis by simp
  next
    case 3
    then have "(digit_val y + 1) * 10 ^ length xs \<le> digit_val x * 10 ^ length xs" by (intro mult_le_mono1) simp
    then have "dec_val (y # ys) < dec_val (x # xs)"
      using len Cons.hyps by (simp add: dec_val_Cons algebra_simps)
    then show ?thesis using Cons.prems(2) by simp
  qed
qed

lemma append_order: "length a = length b \<Longrightarrow> a < b \<Longrightarrow> a @ x < b @ (y :: string)"
  by (induction a b rule: list_induct2) auto

lemma pad0_digits: "c \<in> set (pad0 w (show_nat n)) \<Longrightarrow> is_digit c"
  using show_nat_digits by (auto simp: pad0_def is_digit_def)

lemma pad0_length: "0 < w \<Longrightarrow> n < 10 ^ w \<Longrightarrow> length (pad0 w (show_nat n)) = w"
  using show_nat_length [of n "w - 1"] by (simp add: pad0_def)

lemma padded_order:
  assumes "0 < w" and "0 \<le> s" and "s < t" and "t < 10 ^ w"
  shows "show_padded w s @ x < show_padded w t @ y"
proof -
  have b: "nat s < 10 ^ w" "nat t < 10 ^ w" using assms by (simp_all add: nat_less_iff)
  have "pad0 w (show_nat (nat s)) < pad0 w (show_nat (nat t))"
    by (rule dec_val_order) (use assms b pad0_length pad0_digits in auto)
  then show ?thesis
    using assms b append_order pad0_length by (simp add: show_padded_def)
qed

section \<open>Machines driven by events\<close>

text \<open>
  The event handlers of the program are functions of an event and a state. A component's invariant
  is shown for one event; the locale lifts it to every sequence of events.
\<close>

locale event_machine =
  fixes step :: "'e \<Rightarrow> 's \<Rightarrow> 's"
    and inv :: "'s \<Rightarrow> bool"
  assumes step_inv: "inv s \<Longrightarrow> inv (step e s)"
begin

lemma run_inv: "inv s \<Longrightarrow> inv (fold step es s)"
  by (induction es arbitrary: s) (auto intro: step_inv)

lemma run_inv_prefix: "inv s \<Longrightarrow> inv (fold step (take n es) s)"
  by (rule run_inv)

end

text \<open>
  A component refines an abstract machine over the same events when its abstraction function commutes
  with every step from a state of the invariant.
\<close>

locale refinement = event_machine step inv
  for step :: "'e \<Rightarrow> 's \<Rightarrow> 's" and inv :: "'s \<Rightarrow> bool" +
  fixes spec :: "'e \<Rightarrow> 'v \<Rightarrow> 'v"
    and abs :: "'s \<Rightarrow> 'v"
  assumes step_abs: "inv s \<Longrightarrow> abs (step e s) = spec e (abs s)"
begin

lemma run_abs: "inv s \<Longrightarrow> abs (fold step es s) = fold spec es (abs s)"
  by (induction es arbitrary: s) (simp_all add: step_abs step_inv)

end

section \<open>Validated path components\<close>

text \<open>
  Two helpers build a path from a name given on the command line. What makes the result stay in its
  directory is the contract of their validators.
\<close>

definition basename :: "path \<Rightarrow> string" where
  "basename p = rev (takeWhile (\<lambda>c. c \<noteq> SLASH) (rev p))"

definition dirname :: "path \<Rightarrow> path" where
  "dirname p = rev (tl (dropWhile (\<lambda>c. c \<noteq> SLASH) (rev p)))"

lemma basename_join: "SLASH \<notin> set n \<Longrightarrow> basename (d @ SLASH # n) = n"
  using takeWhile_hit [of "rev n" "\<lambda>c. c \<noteq> SLASH" SLASH "rev d"] by (fastforce simp: basename_def)

lemma dirname_join: "SLASH \<notin> set n \<Longrightarrow> dirname (d @ SLASH # n) = d"
  using dropWhile_hit [of "rev n" "\<lambda>c. c \<noteq> SLASH" SLASH "rev d"] by (fastforce simp: dirname_def)

locale name_guard =
  fixes valid :: "string \<Rightarrow> bool"
    and maxlen :: nat
  assumes valid_nonempty: "valid s \<Longrightarrow> s \<noteq> []"
    and valid_length: "valid s \<Longrightarrow> length s \<le> maxlen"
    and valid_no_slash: "valid s \<Longrightarrow> SLASH \<notin> set s"
    and valid_no_nul: "valid s \<Longrightarrow> NUL \<notin> set s"
    and valid_first: "valid s \<Longrightarrow> hd s \<noteq> CHR ''.''"
begin

lemma confined:
  assumes "valid s" and "SLASH \<notin> set ext"
  shows "dirname (d @ SLASH # s @ ext) = d" and "basename (d @ SLASH # s @ ext) = s @ ext"
  using assms valid_no_slash [of s] by (auto intro!: dirname_join basename_join)

lemma not_dots: "valid s \<Longrightarrow> s @ ext \<noteq> ''.'' \<and> s @ ext \<noteq> ''..''"
  using valid_first [of s] valid_nonempty [of s] by (cases s) auto

lemma distinct_names: "valid s \<Longrightarrow> valid t \<Longrightarrow> d @ SLASH # s @ ext = d @ SLASH # t @ ext \<longleftrightarrow> s = t"
  by simp

end

end
