(* ===== verification/Posix_Files.thy ===== *)
theory Posix_Files
  imports C_Prelude
begin

text \<open>
  The file operations the helpers share. A file system is a map from paths to contents; what the
  kernel answers to a system call is an input of the model, so that every failure is a branch. The
  locale \<open>atomic_store\<close> is the contract of the three writers (write a temporary file, then rename
  it over the target).
\<close>

section \<open>Writing a buffer completely\<close>

text \<open>What one \<open>read\<close> call answers: bytes (none at the end of the input), \<open>EINTR\<close>, or another error.\<close>

datatype rd = Got string | Rd_EINTR | Rd_error

text \<open>What one \<open>write\<close> call answers: a count, \<open>EINTR\<close>, or another error.\<close>

datatype wr = Wrote nat | Wr_EINTR | Wr_error

text \<open>
  The loop \<open>while (off < len) { w = write(fd, data + off, len - off); ... off += w; }\<close>: the bytes
  already written, the bytes left, and the answers still to come. \<open>None\<close> means that the loop is
  still waiting when the answers run out. The result says whether every byte was written, what the
  file holds, and the unused answers.
\<close>

fun write_all :: "wr list \<Rightarrow> string \<Rightarrow> string \<Rightarrow> (bool \<times> string \<times> wr list) option" where
  "write_all ws acc [] = Some (True, acc, ws)"
| "write_all [] acc (x # xs) = None"
| "write_all (Wr_EINTR # ws) acc (x # xs) = write_all ws acc (x # xs)"
| "write_all (Wr_error # ws) acc (x # xs) = Some (False, acc, ws)"
| "write_all (Wrote k # ws) acc (x # xs) = write_all ws (acc @ take k (x # xs)) (drop k (x # xs))"

lemma write_all_complete:
  "write_all ws acc xs = Some (True, c, ws') \<Longrightarrow> c = acc @ xs"
  by (induction ws acc xs rule: write_all.induct) auto

lemma write_all_partial:
  "write_all ws acc xs = Some (False, c, ws') \<Longrightarrow> \<exists>k. c = acc @ take k xs"
proof (induction ws acc xs rule: write_all.induct)
  case (4 ws acc x xs)
  then show ?case by (auto intro: exI [of _ 0])
next
  case (5 k ws acc x xs)
  then obtain j where "c = (acc @ take k (x # xs)) @ take j (drop k (x # xs))" by auto
  then have "c = acc @ take (k + j) (x # xs)" by (simp add: take_add)
  then show ?case by blast
qed auto

text \<open>
  The loop ends: no error among the answers and enough answers that make progress. An answer
  \<open>Wrote 0\<close> makes none, and the C loop would spin on it.
\<close>

definition progress :: "wr list \<Rightarrow> nat" where
  "progress ws = length (filter (\<lambda>w. w \<noteq> Wr_EINTR) ws)"

lemma write_all_terminates:
  assumes "\<And>w. w \<in> set ws \<Longrightarrow> w = Wr_EINTR \<or> (\<exists>k. w = Wrote (Suc k))"
    and "length xs \<le> progress ws"
  shows "\<exists>ws'. write_all ws acc xs = Some (True, acc @ xs, ws')"
  using assms
proof (induction ws acc xs rule: write_all.induct)
  case (2 acc x xs)
  then show ?case by (simp add: progress_def)
next
  case (3 ws acc x xs)
  then show ?case by (simp add: progress_def)
next
  case (4 ws acc x xs)
  then show ?case by force
next
  case (5 k ws acc x xs)
  obtain m where k: "k = Suc m" using "5.prems"(1) [of "Wrote k"] by auto
  have "length (drop k (x # xs)) \<le> progress ws"
    using "5.prems"(2) by (simp add: k progress_def)
  then obtain ws' where
    "write_all ws (acc @ take k (x # xs)) (drop k (x # xs)) =
       Some (True, (acc @ take k (x # xs)) @ drop k (x # xs), ws')"
    using "5.IH" "5.prems"(1) by (metis list.set_intros(2))
  then show ?case by simp
qed auto

section \<open>Replacing a file atomically\<close>

locale atomic_store =
  fixes store :: "'env \<Rightarrow> string \<Rightarrow> fs \<Rightarrow> bool \<times> fs"
    and target :: path
    and scratch :: "'env \<Rightarrow> path"
  assumes store_ok: "store e d f = (True, f') \<Longrightarrow> f' target = Some d"
    and store_fail: "store e d f = (False, f') \<Longrightarrow> f' target = f target"
    and store_frame: "store e d f = (b, f') \<Longrightarrow> p \<noteq> target \<Longrightarrow> p \<noteq> scratch e \<Longrightarrow> f' p = f p"
begin

lemma old_or_new: "snd (store e d f) target = (if fst (store e d f) then Some d else f target)"
  by (cases "store e d f") (auto dest: store_ok store_fail)

text \<open>After any number of attempts a reader sees the original file or one complete new content.\<close>

lemma never_torn:
  "fold (\<lambda>(e, d) g. snd (store e d g)) es f target \<in> insert (f target) (Some ` snd ` set es)"
proof (induction es arbitrary: f)
  case Nil
  then show ?case by simp
next
  case (Cons ed es)
  obtain e d where ed: "ed = (e, d)" by fastforce
  have "snd (store e d f) target \<in> {f target, Some d}" by (simp add: old_or_new)
  with Cons [of "snd (store e d f)"] show ?case by (auto simp: ed)
qed

lemma content_inv:
  assumes "\<And>e d. (e, d) \<in> set es \<Longrightarrow> P (Some d)" and "P (f target)"
  shows "P (fold (\<lambda>(e, d) g. snd (store e d g)) es f target)"
  using never_torn [of es f] assms by force

end

end
