(* ===== verification/Firewall_Helper.thy ===== *)
theory Firewall_Helper
  imports Posix_Files
begin

text \<open>
  The privileged firewall helper, \<^verbatim>\<open>src/services/firewall-helper/main.c\<close>: validators of the
  command line, the state file (\<open>load_state\<close>, \<open>save_state\<close>), the nftables rule set
  (\<open>build_ruleset\<close>), its application, and \<open>main\<close>. C integers used as truth values are \<open>bool\<close>;
  the array of at most 64 rules is a list.
\<close>

section \<open>State\<close>

record rule =
  r_id :: string
  r_public_too :: bool
  r_ports :: string
  r_label :: string

record fw_state =
  st_enabled :: bool
  st_public_profile :: bool
  st_rules :: "rule list"

definition MAX_RULES :: nat where "MAX_RULES = 64"

definition FIREWALL_STATE_FILE :: path where
  "FIREWALL_STATE_FILE = ''/var/lib/singularity/firewall.state''"

definition TABLE :: string where "TABLE = ''inet singularity_firewall''"

section \<open>Validators\<close>

definition overrides_allowed :: "nat \<Rightarrow> nat \<Rightarrow> bool \<Rightarrow> bool" where
  "overrides_allowed uid euid pkexec_uid_set \<longleftrightarrow> uid = euid \<and> \<not> pkexec_uid_set"

definition id_char :: "char \<Rightarrow> bool" where
  "id_char c \<longleftrightarrow> (CHR ''a'' \<le> c \<and> c \<le> CHR ''z'') \<or> (CHR ''0'' \<le> c \<and> c \<le> CHR ''9'') \<or> c = CHR ''-''"

definition valid_id :: "string \<Rightarrow> bool" where
  "valid_id s = (if length s = 0 \<or> length s > 32 then False else list_all id_char s)"

definition label_char :: "char \<Rightarrow> bool" where
  "label_char c \<longleftrightarrow> \<not> (c < CHR 0x20 \<or> c = DQUOTE \<or> c = BSLASH \<or> c = CHR 0x7f)"

definition valid_label :: "string \<Rightarrow> bool" where
  "valid_label s = (if length s = 0 \<or> length s > 64 then False else list_all label_char s)"

definition valid_number :: "string \<Rightarrow> nat option" where
  "valid_number s =
     (if length s = 0 \<or> length s > 5 then None
      else if \<not> list_all is_digit s then None
      else let v = dec_val s in if v < 1 \<or> v > 65535 then None else Some v)"

definition valid_port_item :: "string \<Rightarrow> bool" where
  "valid_port_item item =
     (case dropWhile (\<lambda>c. c \<noteq> SLASH) item of
        [] \<Rightarrow> False
      | _ # proto \<Rightarrow>
          (let num = takeWhile (\<lambda>c. c \<noteq> SLASH) item
           in if \<not> (proto = ''tcp'' \<or> proto = ''udp'') then False
              else case dropWhile (\<lambda>c. c \<noteq> CHR ''-'') num of
                     [] \<Rightarrow> valid_number num \<noteq> None
                   | _ # upper \<Rightarrow>
                       (case valid_number (takeWhile (\<lambda>c. c \<noteq> CHR ''-'') num) of
                          None \<Rightarrow> False
                        | Some a \<Rightarrow> (case valid_number upper of None \<Rightarrow> False | Some b \<Rightarrow> a < b))))"

function valid_ports_loop :: "string \<Rightarrow> bool" where
  "valid_ports_loop start =
     (if \<not> valid_port_item (takeWhile (\<lambda>c. c \<noteq> CHR '','') start) then False
      else case dropWhile (\<lambda>c. c \<noteq> CHR '','') start of
             [] \<Rightarrow> True
           | _ # start' \<Rightarrow> valid_ports_loop start')"
  by pat_completeness auto
termination
proof (relation "measure length")
  fix start :: string and c start'
  assume "dropWhile (\<lambda>c. c \<noteq> CHR '','') start = c # start'"
  then have "length (c # start') \<le> length start" using length_dropWhile_le by metis
  then show "(start', start) \<in> measure length" by simp
qed simp

declare valid_ports_loop.simps [simp del]

definition valid_ports :: "string \<Rightarrow> bool" where
  "valid_ports ports =
     (if length ports = 0 \<or> length ports > 255 then False else valid_ports_loop ports)"

section \<open>The state file\<close>

text \<open>
  One line of the file. \<open>strtok_r\<close> splits the first three words of a rule; the label is what the
  save pointer is left at. Lines that do not validate are skipped.
\<close>

definition parse_rule :: "string \<Rightarrow> rule option" where
  "parse_rule text =
     (case strtok_r SPC text of
        (None, _) \<Rightarrow> None
      | (Some rid, s1) \<Rightarrow>
          (case strtok_r SPC s1 of
             (None, _) \<Rightarrow> None
           | (Some pub, s2) \<Rightarrow>
               (case strtok_r SPC s2 of
                  (None, _) \<Rightarrow> None
                | (Some ports, label) \<Rightarrow>
                    if \<not> valid_id rid \<or> \<not> valid_ports ports \<or> \<not> valid_label label then None
                    else Some \<lparr>r_id = snprintf_s 33 rid, r_public_too = (pub = ''1''),
                               r_ports = snprintf_s 256 ports, r_label = snprintf_s 65 label\<rparr>)))"

definition load_line :: "string \<Rightarrow> fw_state \<Rightarrow> fw_state" where
  "load_line buf st =
     (let line = chomp buf
      in if take 8 line = ''enabled '' then st\<lparr>st_enabled := (drop 8 line = ''1'')\<rparr>
         else if take 8 line = ''profile '' then st\<lparr>st_public_profile := (drop 8 line = ''public'')\<rparr>
         else if take 5 line = ''rule '' \<and> length (st_rules st) < MAX_RULES
         then (case parse_rule (drop 5 line) of
                 None \<Rightarrow> st
               | Some r \<Rightarrow> st\<lparr>st_rules := st_rules st @ [r]\<rparr>)
         else st)"

definition empty_state :: fw_state where
  "empty_state = \<lparr>st_enabled = False, st_public_profile = False, st_rules = []\<rparr>"

text \<open>\<open>fopen\<close>: a missing file is an empty state, any other error is the result \<open>-1\<close> (\<open>None\<close>).\<close>

definition load_state :: "bool \<Rightarrow> string option \<Rightarrow> fw_state option" where
  "load_state fopen_error content =
     (if fopen_error then None
      else case content of
             None \<Rightarrow> Some empty_state
           | Some text \<Rightarrow> Some (fold load_line (fgets_lines 512 text) empty_state))"

definition show_bool :: "bool \<Rightarrow> string" where
  "show_bool b = (if b then ''1'' else ''0'')"

definition render_rule :: "rule \<Rightarrow> string" where
  "render_rule r =
     ''rule '' @ r_id r @ SPC # show_bool (r_public_too r) @ SPC # r_ports r @ SPC # r_label r @ [NL]"

definition render_state :: "fw_state \<Rightarrow> string" where
  "render_state st =
     ''enabled '' @ show_bool (st_enabled st) @ NL #
     ''profile '' @ (if st_public_profile st then ''public'' else ''home'') @ NL #
     concat (map render_rule (st_rules st))"

text \<open>
  \<open>save_state\<close>: the answers of \<open>open\<close>, \<open>fdopen\<close>, \<open>fclose\<close> and \<open>rename\<close>, and how many bytes reach
  the temporary file when the buffered writes fail.
\<close>

record save_env =
  se_open :: bool
  se_fdopen :: bool
  se_fclose :: bool
  se_rename :: bool
  se_flushed :: nat

definition tmp_path :: "path \<Rightarrow> path" where
  "tmp_path state_file = snprintf_s 4096 (state_file @ ''.tmp'')"

definition store_text :: "path \<Rightarrow> save_env \<Rightarrow> string \<Rightarrow> fs \<Rightarrow> bool \<times> fs" where
  "store_text state_file e text f =
     (let tmp = tmp_path state_file
      in if \<not> se_open e then (False, f)
         else if \<not> se_fdopen e then (False, f(tmp \<mapsto> []))
         else if \<not> se_fclose e then (False, f(tmp \<mapsto> take (se_flushed e) text))
         else if \<not> se_rename e then (False, f(tmp \<mapsto> text))
         else (True, f(tmp := None, state_file \<mapsto> text)))"

definition save_state :: "path \<Rightarrow> save_env \<Rightarrow> fw_state \<Rightarrow> fs \<Rightarrow> bool \<times> fs" where
  "save_state state_file e st f = store_text state_file e (render_state st) f"

section \<open>The rule set\<close>

text \<open>The growing buffer: its text and its capacity in bytes.\<close>

record strbuf =
  sb_text :: string
  sb_cap :: nat

definition append_buf :: "strbuf \<Rightarrow> string \<Rightarrow> strbuf" where
  "append_buf b text =
     (let need = length (sb_text b) + length text + 1
      in b\<lparr>sb_text := sb_text b @ text, sb_cap := (if need > sb_cap b then need * 2 else sb_cap b)\<rparr>)"

definition ruleset_reset :: string where
  "ruleset_reset = ''table '' @ TABLE @ NL # ''delete table '' @ TABLE @ [NL]"

definition ruleset_chain :: string where
  "ruleset_chain =
     ''table '' @ TABLE @ '' {'' @ NL #
     TAB # ''chain input {'' @ NL #
     TAB # TAB # ''type filter hook input priority filter; policy drop;'' @ NL #
     TAB # TAB # ''ct state established,related accept'' @ NL #
     TAB # TAB # ''ct state invalid drop'' @ NL #
     TAB # TAB # ''iifname '' @ DQUOTE # ''lo'' @ DQUOTE # '' accept'' @ NL #
     TAB # TAB # ''meta l4proto { icmp, ipv6-icmp } accept'' @ NL #
     TAB # TAB # ''udp dport 68 accept'' @ NL #
     TAB # TAB # ''udp dport 546 accept'' @ [NL]"

definition ruleset_mdns :: string where
  "ruleset_mdns = TAB # TAB # ''udp dport 5353 accept comment '' @ DQUOTE # ''mDNS'' @ [DQUOTE, NL]"

definition ruleset_end :: string where
  "ruleset_end = TAB # ''}'' @ NL # ''}'' @ [NL]"

definition accept_line :: "string \<times> string \<times> string \<Rightarrow> string" where
  "accept_line x =
     (case x of (proto, port, label) \<Rightarrow>
        TAB # TAB # proto @ '' dport '' @ port @ '' accept comment '' @ DQUOTE # label @ [DQUOTE, NL])"

text \<open>
  The loop over the items of one rule. \<open>strchr(item, '/')\<close> is dereferenced without a check, so an
  item with no slash has no result (\<open>None\<close>).
\<close>

fun append_items :: "string \<Rightarrow> string list \<Rightarrow> strbuf \<Rightarrow> strbuf option" where
  "append_items label [] b = Some b"
| "append_items label (item # items) b =
     (case dropWhile (\<lambda>c. c \<noteq> SLASH) item of
        [] \<Rightarrow> None
      | _ # proto \<Rightarrow>
          append_items label items
            (append_buf b (snprintf_s 512
               (accept_line (proto, takeWhile (\<lambda>c. c \<noteq> SLASH) item, label)))))"

fun append_rules :: "bool \<Rightarrow> rule list \<Rightarrow> strbuf \<Rightarrow> strbuf option" where
  "append_rules public_profile [] b = Some b"
| "append_rules public_profile (r # rs) b =
     (if public_profile \<and> \<not> r_public_too r then append_rules public_profile rs b
      else case append_items (r_label r) (strtok_all (CHR '','') (snprintf_s 256 (r_ports r))) b of
             None \<Rightarrow> None
           | Some b' \<Rightarrow> append_rules public_profile rs b')"

definition build_ruleset :: "fw_state \<Rightarrow> strbuf option" where
  "build_ruleset st =
     (let b = append_buf \<lparr>sb_text = [], sb_cap = 0\<rparr> ruleset_reset
      in if \<not> st_enabled st then Some b
         else let b1 = append_buf b ruleset_chain;
                  b2 = (if \<not> st_public_profile st then append_buf b1 ruleset_mdns else b1)
              in case append_rules (st_public_profile st) (st_rules st) b2 of
                   None \<Rightarrow> None
                 | Some b3 \<Rightarrow> Some (append_buf b3 ruleset_end))"


section \<open>Applying the rule set\<close>

text \<open>
  What the helper sees of its environment: its user ids and \<open>PKEXEC_UID\<close>, whether the state file
  is readable, the answers while saving, the executables present, and the \<open>nft\<close> child: whether
  \<open>pipe\<close> and \<open>fork\<close> work, the answers of \<open>write\<close> on the pipe and the exit status (\<open>None\<close> when a
  signal ended it).
\<close>

record fw_env =
  e_uid :: nat
  e_euid :: nat
  e_pkexec :: bool
  e_fopen_error :: bool
  e_save :: save_env
  e_executable :: "path \<Rightarrow> bool"
  e_pipe :: bool
  e_fork :: bool
  e_writes :: "wr list"
  e_status :: "nat option"

record fw_opts =
  o_dry_run :: bool
  o_state_file :: path
  o_nft :: "path option"

record fw_out =
  out_code :: nat
  out_stdout :: string
  out_nft :: "string option"

definition exit_with :: "nat \<Rightarrow> fw_out" where
  "exit_with c = \<lparr>out_code = c, out_stdout = [], out_nft = None\<rparr>"

definition find_nft :: "fw_opts \<Rightarrow> (path \<Rightarrow> bool) \<Rightarrow> path option" where
  "find_nft opts executable =
     (case o_nft opts of
        Some p \<Rightarrow> Some p
      | None \<Rightarrow> List.find executable [''/usr/sbin/nft'', ''/sbin/nft'', ''/usr/bin/nft''])"

text \<open>The loop that feeds the child: it gives up at the first answer that is not progress.\<close>

fun feed :: "wr list \<Rightarrow> string \<Rightarrow> string \<Rightarrow> string option" where
  "feed ws sent [] = Some sent"
| "feed [] sent (x # xs) = None"
| "feed (Wr_EINTR # ws) sent (x # xs) = feed ws sent (x # xs)"
| "feed (Wr_error # ws) sent (x # xs) = Some sent"
| "feed (Wrote k # ws) sent (x # xs) =
     (if k = 0 then Some sent else feed ws (sent @ take k (x # xs)) (drop k (x # xs)))"

definition apply_ruleset :: "fw_env \<Rightarrow> fw_opts \<Rightarrow> fw_state \<Rightarrow> fw_out option" where
  "apply_ruleset e opts st =
     (case build_ruleset st of
        None \<Rightarrow> None
      | Some b \<Rightarrow>
          if o_dry_run opts
          then Some \<lparr>out_code = 0, out_stdout = sb_text b, out_nft = None\<rparr>
          else case find_nft opts (e_executable e) of
                 None \<Rightarrow> Some (exit_with 3)
               | Some nft \<Rightarrow>
                   if \<not> e_pipe e then Some (exit_with 1)
                   else if \<not> e_fork e then Some (exit_with 1)
                   else (case feed (e_writes e) [] (sb_text b) of
                           None \<Rightarrow> None
                         | Some t \<Rightarrow>
                             Some \<lparr>out_code = (if e_status e = Some 0 then 0 else 4),
                                   out_stdout = [], out_nft = Some t\<rparr>))"

section \<open>Command line\<close>

text \<open>The option loop of \<open>main\<close>: the options and the remaining arguments, or an exit code.\<close>

fun parse_options :: "bool \<Rightarrow> fw_opts \<Rightarrow> string list \<Rightarrow> nat + (fw_opts \<times> string list)" where
  "parse_options allowed opts [] = Inr (opts, [])"
| "parse_options allowed opts (a # as) =
     (if take 2 a \<noteq> ''--'' then Inr (opts, a # as)
      else if \<not> allowed then Inl 2
      else if a = ''--dry-run'' then parse_options allowed (opts\<lparr>o_dry_run := True\<rparr>) as
      else if a = ''--state'' then
        (case as of [] \<Rightarrow> Inl 2
         | v # as' \<Rightarrow> parse_options allowed (opts\<lparr>o_state_file := v\<rparr>) as')
      else if a = ''--nft'' then
        (case as of [] \<Rightarrow> Inl 2
         | v # as' \<Rightarrow> parse_options allowed (opts\<lparr>o_nft := Some v\<rparr>) as')
      else Inl 2)"

text \<open>The search for the slot of an id keeps the last match.\<close>

fun find_slot :: "string \<Rightarrow> rule list \<Rightarrow> nat \<Rightarrow> nat option \<Rightarrow> nat option" where
  "find_slot i [] k slot = slot"
| "find_slot i (r # rs) k slot = find_slot i rs (Suc k) (if r_id r = i then Some k else slot)"

definition make_rule :: "string \<Rightarrow> string \<Rightarrow> string \<Rightarrow> string \<Rightarrow> rule" where
  "make_rule i pub ports label =
     \<lparr>r_id = snprintf_s 33 i, r_public_too = (pub = ''1''), r_ports = snprintf_s 256 ports,
      r_label = snprintf_s 65 label\<rparr>"

definition allow_rule :: "string \<Rightarrow> string \<Rightarrow> string \<Rightarrow> string \<Rightarrow> fw_state \<Rightarrow> nat + fw_state" where
  "allow_rule i pub ports label st =
     (if \<not> valid_id i \<or> (pub \<noteq> ''0'' \<and> pub \<noteq> ''1'') \<or> \<not> valid_ports ports \<or> \<not> valid_label label
      then Inl 2
      else case find_slot i (st_rules st) 0 None of
             None \<Rightarrow>
               if length (st_rules st) \<ge> MAX_RULES then Inl 1
               else Inr (st\<lparr>st_rules := st_rules st @ [make_rule i pub ports label]\<rparr>)
           | Some slot \<Rightarrow> Inr (st\<lparr>st_rules := (st_rules st)[slot := make_rule i pub ports label]\<rparr>))"

fun compact :: "string \<Rightarrow> rule list \<Rightarrow> rule list" where
  "compact i [] = []"
| "compact i (r # rs) = (if r_id r \<noteq> i then r # compact i rs else compact i rs)"

text \<open>
  The commands of \<open>main\<close>: print or apply without a change, a new state to save and apply, or an
  exit code.
\<close>

datatype fw_action = Status | Apply_only | Change fw_state | Refuse nat

definition run_command :: "string \<Rightarrow> string list \<Rightarrow> fw_state \<Rightarrow> fw_action" where
  "run_command cmd args st =
     (if cmd = ''status'' \<and> args = [] then Status
      else if cmd = ''apply'' \<and> args = [] then Apply_only
      else if cmd = ''enable'' \<and> args = [] then Change (st\<lparr>st_enabled := True\<rparr>)
      else if cmd = ''disable'' \<and> args = [] then Change (st\<lparr>st_enabled := False\<rparr>)
      else if cmd = ''profile'' \<and> (args = [''home''] \<or> args = [''public''])
      then Change (st\<lparr>st_public_profile := (args = [''public''])\<rparr>)
      else case args of
             [i, pub, ports, label] \<Rightarrow>
               if cmd = ''allow''
               then (case allow_rule i pub ports label st of Inl c \<Rightarrow> Refuse c | Inr st' \<Rightarrow> Change st')
               else Refuse 2
           | [i] \<Rightarrow>
               if cmd = ''revoke'' \<and> valid_id i
               then Change (st\<lparr>st_rules := compact i (st_rules st)\<rparr>)
               else Refuse 2
           | _ \<Rightarrow> Refuse 2)"

definition default_opts :: fw_opts where
  "default_opts = \<lparr>o_dry_run = False, o_state_file = FIREWALL_STATE_FILE, o_nft = None\<rparr>"

definition fw_main :: "fw_env \<Rightarrow> string list \<Rightarrow> fs \<Rightarrow> (fw_out \<times> fs) option" where
  "fw_main e argv f =
     (case parse_options (overrides_allowed (e_uid e) (e_euid e) (e_pkexec e)) default_opts argv of
        Inl c \<Rightarrow> Some (exit_with c, f)
      | Inr (opts, []) \<Rightarrow> Some (exit_with 2, f)
      | Inr (opts, cmd # args) \<Rightarrow>
          (case load_state (e_fopen_error e) (f (o_state_file opts)) of
             None \<Rightarrow> Some (exit_with 1, f)
           | Some st \<Rightarrow>
               (case run_command cmd args st of
                  Status \<Rightarrow> Some (\<lparr>out_code = 0, out_stdout = render_state st, out_nft = None\<rparr>, f)
                | Apply_only \<Rightarrow> map_option (\<lambda>out. (out, f)) (apply_ruleset e opts st)
                | Refuse c \<Rightarrow> Some (exit_with c, f)
                | Change st' \<Rightarrow>
                    if o_dry_run opts then map_option (\<lambda>out. (out, f)) (apply_ruleset e opts st')
                    else (case save_state (o_state_file opts) (e_save e) st' f of
                            (False, f') \<Rightarrow> Some (exit_with 1, f')
                          | (True, f') \<Rightarrow> map_option (\<lambda>out. (out, f')) (apply_ruleset e opts st')))))"


section \<open>What the validators accept\<close>

lemma valid_id_length: "valid_id s \<Longrightarrow> s \<noteq> [] \<and> length s \<le> 32"
  by (auto simp: valid_id_def split: if_splits)

lemma valid_id_chars: "valid_id s \<Longrightarrow> c \<in> set s \<Longrightarrow> id_char c"
  by (auto simp: valid_id_def list_all_iff split: if_splits)

lemma id_char_plain: "id_char c \<Longrightarrow> c \<noteq> SPC \<and> c \<noteq> NL \<and> c \<noteq> NUL"
  by (auto simp: id_char_def less_eq_char_def)

lemma valid_label_length: "valid_label s \<Longrightarrow> s \<noteq> [] \<and> length s \<le> 64"
  by (auto simp: valid_label_def split: if_splits)

lemma valid_label_chars: "valid_label s \<Longrightarrow> c \<in> set s \<Longrightarrow> label_char c"
  by (auto simp: valid_label_def list_all_iff split: if_splits)

lemma label_char_plain: "label_char c \<Longrightarrow> c \<noteq> NL \<and> c \<noteq> NUL \<and> c \<noteq> DQUOTE \<and> c \<noteq> BSLASH"
  by (auto simp: label_char_def less_char_def)

definition port_char :: "char \<Rightarrow> bool" where
  "port_char c \<longleftrightarrow> is_digit c \<or> c \<in> set ''-/tcpud,''"

lemma port_char_plain: "port_char c \<Longrightarrow> c \<noteq> SPC \<and> c \<noteq> NL \<and> c \<noteq> NUL \<and> c \<noteq> DQUOTE"
  by (auto simp: port_char_def is_digit_bounds)

lemma valid_number_digits: "valid_number s = Some v \<Longrightarrow> c \<in> set s \<Longrightarrow> is_digit c"
  by (auto simp: valid_number_def list_all_iff Let_def split: if_splits)

lemma valid_number_bounds: "valid_number s = Some v \<Longrightarrow> 1 \<le> v \<and> v \<le> 65535 \<and> v = dec_val s"
  by (auto simp: valid_number_def Let_def split: if_splits)

text \<open>A port specification: a number or a range in \<open>1..65535\<close>.\<close>

definition port_range :: "string \<Rightarrow> bool" where
  "port_range s \<longleftrightarrow>
     (\<exists>a. valid_number s = Some a) \<or>
     (\<exists>lo hi a b. s = lo @ CHR ''-'' # hi \<and> valid_number lo = Some a \<and> valid_number hi = Some b \<and> a < b)"

lemma split_at: "dropWhile (\<lambda>c. c \<noteq> d) s = x # r \<Longrightarrow> s = takeWhile (\<lambda>c. c \<noteq> d) s @ d # r"
proof -
  assume a: "dropWhile (\<lambda>c. c \<noteq> d) s = x # r"
  then have "x = d" using hd_dropWhile [of "\<lambda>c. c \<noteq> d" s] by auto
  with a show ?thesis using takeWhile_dropWhile_id [of "\<lambda>c. c \<noteq> d" s] by simp
qed

lemma valid_port_itemE:
  assumes "valid_port_item item"
  obtains num proto where "item = num @ SLASH # proto" and "SLASH \<notin> set num"
    and "proto = ''tcp'' \<or> proto = ''udp''" and "port_range num"
proof -
  let ?num = "takeWhile (\<lambda>c. c \<noteq> SLASH) item"
  obtain x proto where d: "dropWhile (\<lambda>c. c \<noteq> SLASH) item = x # proto"
    using assms by (auto simp: valid_port_item_def split: list.splits)
  have item: "item = ?num @ SLASH # proto" using d by (rule split_at)
  have proto: "proto = ''tcp'' \<or> proto = ''udp''"
    using assms d by (auto simp: valid_port_item_def Let_def split: if_splits)
  have "port_range ?num"
  proof (cases "dropWhile (\<lambda>c. c \<noteq> CHR ''-'') ?num")
    case Nil
    then have "valid_number ?num \<noteq> None"
      using assms d by (simp add: valid_port_item_def Let_def del: dropWhile_eq_Nil_conv split: if_splits)
    then show ?thesis unfolding port_range_def by blast
  next
    case (Cons y upper)
    then have "case valid_number (takeWhile (\<lambda>c. c \<noteq> CHR ''-'') ?num) of None \<Rightarrow> False
       | Some a \<Rightarrow> (case valid_number upper of None \<Rightarrow> False | Some b \<Rightarrow> a < b)"
      using assms d by (simp add: valid_port_item_def Let_def split: if_splits)
    then obtain a b where "valid_number (takeWhile (\<lambda>c. c \<noteq> CHR ''-'') ?num) = Some a"
      and "valid_number upper = Some b" and "a < b"
      by (cases "valid_number (takeWhile (\<lambda>c. c \<noteq> CHR ''-'') ?num)"; cases "valid_number upper") auto
    with split_at [OF Cons] show ?thesis unfolding port_range_def by blast
  qed
  moreover have "SLASH \<notin> set ?num" by (auto dest: set_takeWhileD)
  ultimately show thesis using that item proto by blast
qed

lemma port_range_chars: "port_range s \<Longrightarrow> c \<in> set s \<Longrightarrow> is_digit c \<or> c = CHR ''-''"
  by (auto simp: port_range_def dest: valid_number_digits)

lemma port_range_nonempty: "port_range s \<Longrightarrow> s \<noteq> []"
  by (auto simp: port_range_def valid_number_def)

lemma valid_port_item_chars: "valid_port_item s \<Longrightarrow> c \<in> set s \<Longrightarrow> port_char c \<and> c \<noteq> CHR '',''"
proof (elim valid_port_itemE)
  fix num proto
  assume c: "c \<in> set s" and s: "s = num @ SLASH # proto"
    and p: "proto = ''tcp'' \<or> proto = ''udp''" and n: "port_range num"
  consider "c \<in> set num" | "c = SLASH" | "c \<in> set proto" using c s by auto
  then show ?thesis
    using port_range_chars [OF n, of c] p by cases (auto simp: port_char_def is_digit_bounds)
qed

lemma valid_port_item_nonempty: "valid_port_item s \<Longrightarrow> s \<noteq> []"
  by (auto simp: valid_port_item_def)

text \<open>The items \<open>valid_ports\<close> checks are the tokens \<open>build_ruleset\<close> sees.\<close>

lemma valid_ports_loop_tokens:
  "valid_ports_loop s \<Longrightarrow>
     list_all valid_port_item (strtok_all (CHR '','') s) \<and> list_all port_char s"
proof (induction s rule: valid_ports_loop.induct)
  case (1 s)
  let ?i = "takeWhile (\<lambda>c. c \<noteq> CHR '','') s"
  have i: "valid_port_item ?i" using "1.prems" by (subst (asm) valid_ports_loop.simps) (auto split: if_splits)
  then have ne: "?i \<noteq> []" and nc: "CHR '','' \<notin> set ?i" and pc: "list_all port_char ?i"
    using valid_port_item_nonempty valid_port_item_chars by (auto simp: list_all_iff)
  show ?case
  proof (cases "dropWhile (\<lambda>c. c \<noteq> CHR '','') s")
    case Nil
    then have "s = ?i" by (metis append_Nil2 takeWhile_dropWhile_id)
    then show ?thesis using i pc strtok_all_last [OF ne nc] by simp
  next
    case (Cons x s')
    then have s: "s = ?i @ CHR '','' # s'" by (rule split_at)
    have "valid_ports_loop s'"
      using "1.prems" i Cons by (subst (asm) valid_ports_loop.simps) simp
    then have IH: "list_all valid_port_item (strtok_all (CHR '','') s') \<and> list_all port_char s'"
      using "1.IH" i Cons by simp
    have toks: "strtok_all (CHR '','') s = ?i # strtok_all (CHR '','') s'"
      using strtok_all_hit [OF ne nc, of s'] s by simp
    have "list_all port_char (?i @ CHR '','' # s')" using pc IH by (simp add: port_char_def)
    then have "list_all port_char s" using s by metis
    with i IH show ?thesis by (simp add: toks)
  qed
qed

lemma valid_ports_facts:
  assumes "valid_ports s"
  shows "s \<noteq> []" and "length s \<le> 255" and "list_all port_char s"
    and "list_all valid_port_item (strtok_all (CHR '','') s)"
  using assms valid_ports_loop_tokens [of s] by (auto simp: valid_ports_def split: if_splits)

section \<open>Well-formed states\<close>

definition wf_rule :: "rule \<Rightarrow> bool" where
  "wf_rule r \<longleftrightarrow> valid_id (r_id r) \<and> valid_ports (r_ports r) \<and> valid_label (r_label r)"

definition wf_state :: "fw_state \<Rightarrow> bool" where
  "wf_state st \<longleftrightarrow> length (st_rules st) \<le> MAX_RULES \<and> list_all wf_rule (st_rules st)"

lemma snprintf_s_fits [simp]: "length s < n \<Longrightarrow> snprintf_s n s = s"
  by (simp add: snprintf_s_def)

lemma make_rule_wf:
  assumes "valid_id i" and "valid_ports p" and "valid_label l"
  shows "make_rule i pub p l = \<lparr>r_id = i, r_public_too = (pub = ''1''), r_ports = p, r_label = l\<rparr>"
  using valid_id_length [OF assms(1)] valid_ports_facts [OF assms(2)] valid_label_length [OF assms(3)]
  by (simp add: make_rule_def)

lemma parse_rule_wf: "parse_rule s = Some r \<Longrightarrow> wf_rule r"
  using valid_id_length valid_label_length valid_ports_facts(2)
  by (fastforce simp: parse_rule_def wf_rule_def split: prod.splits option.splits if_splits)

lemma load_line_wf: "wf_state st \<Longrightarrow> wf_state (load_line l st)"
  by (auto simp: load_line_def wf_state_def Let_def parse_rule_wf split: option.splits)

interpretation loader: event_machine load_line wf_state
  by unfold_locales (rule load_line_wf)

lemma empty_state_wf: "wf_state empty_state"
  by (simp add: wf_state_def empty_state_def)

lemma load_state_wf: "load_state err c = Some st \<Longrightarrow> wf_state st"
  by (auto simp: load_state_def empty_state_wf loader.run_inv split: if_splits option.splits)


section \<open>Round trip of the state file\<close>

definition rule_text :: "rule \<Rightarrow> string" where
  "rule_text r = r_id r @ SPC # show_bool (r_public_too r) @ SPC # r_ports r @ SPC # r_label r"

lemma render_rule_text: "render_rule r = (''rule '' @ rule_text r) @ [NL]"
  by (simp add: render_rule_def rule_text_def)

lemma wf_rule_plain:
  assumes "wf_rule r"
  shows "SPC \<notin> set (r_id r)" and "SPC \<notin> set (r_ports r)" and "NL \<notin> set (rule_text r)"
    and "NUL \<notin> set (rule_text r)" and "length (rule_text r) \<le> 356"
proof -
  have i: "\<And>c. c \<in> set (r_id r) \<Longrightarrow> id_char c" using assms valid_id_chars by (auto simp: wf_rule_def)
  have p: "\<And>c. c \<in> set (r_ports r) \<Longrightarrow> port_char c"
    using assms valid_ports_facts(3) by (auto simp: wf_rule_def list_all_iff)
  have l: "\<And>c. c \<in> set (r_label r) \<Longrightarrow> label_char c"
    using assms valid_label_chars by (auto simp: wf_rule_def)
  show "SPC \<notin> set (r_id r)" and "SPC \<notin> set (r_ports r)"
    using i id_char_plain p port_char_plain by blast+
  have "c \<noteq> NL \<and> c \<noteq> NUL" if c: "c \<in> set (rule_text r)" for c
  proof -
    consider "c \<in> set (r_id r)" | "c = SPC" | "c \<in> set (show_bool (r_public_too r))"
      | "c \<in> set (r_ports r)" | "c \<in> set (r_label r)"
      using c by (auto simp: rule_text_def)
    then show ?thesis
    proof cases
      case 1 then show ?thesis using i id_char_plain by blast
    next
      case 2 then show ?thesis by simp
    next
      case 3 then show ?thesis by (auto simp: show_bool_def split: if_splits)
    next
      case 4 then show ?thesis using p port_char_plain by blast
    next
      case 5 then show ?thesis using l label_char_plain by blast
    qed
  qed
  then show "NL \<notin> set (rule_text r)" and "NUL \<notin> set (rule_text r)" by blast+
  have "length (r_id r) \<le> 32" and "length (r_ports r) \<le> 255" and "length (r_label r) \<le> 64"
    using assms valid_id_length valid_ports_facts(2) valid_label_length by (auto simp: wf_rule_def)
  then show "length (rule_text r) \<le> 356" by (simp add: rule_text_def show_bool_def)
qed

lemma parse_rule_text: "wf_rule r \<Longrightarrow> parse_rule (rule_text r) = Some r"
proof -
  assume wf: "wf_rule r"
  then have ne: "r_id r \<noteq> []" "r_ports r \<noteq> []" and lens: "length (r_id r) < 33" "length (r_ports r) < 256"
    "length (r_label r) < 65"
    using valid_id_length valid_ports_facts(1,2) valid_label_length by (fastforce simp: wf_rule_def)+
  have b: "show_bool x \<noteq> []" "SPC \<notin> set (show_bool x)" "show_bool x = ''1'' \<longleftrightarrow> x" for x
    by (auto simp: show_bool_def)
  show ?thesis
    using wf ne lens b wf_rule_plain(1,2) [OF wf]
    by (simp add: parse_rule_def rule_text_def strtok_r_hit) (simp add: wf_rule_def)
qed

lemma load_line_rule:
  assumes "wf_rule r" and "length (st_rules st) < MAX_RULES"
  shows "load_line ((''rule '' @ rule_text r) @ [NL]) st = st\<lparr>st_rules := st_rules st @ [r]\<rparr>"
proof -
  have "chomp ((''rule '' @ rule_text r) @ [NL]) = ''rule '' @ rule_text r"
    using wf_rule_plain(3,4) [OF assms(1)] by (intro chomp_line) auto
  then show ?thesis using assms by (simp add: load_line_def parse_rule_text)
qed

lemma load_rules:
  "list_all wf_rule rs \<Longrightarrow> length (st_rules st) + length rs \<le> MAX_RULES \<Longrightarrow>
     fold load_line (fgets_lines 512 (concat (map render_rule rs))) st =
       st\<lparr>st_rules := st_rules st @ rs\<rparr>"
proof (induction rs arbitrary: st)
  case Nil
  then show ?case by simp
next
  case (Cons r rs)
  then have wf: "wf_rule r" by simp
  have split: "fgets_lines 512 ((''rule '' @ rule_text r) @ NL # rest) =
      ((''rule '' @ rule_text r) @ [NL]) # fgets_lines 512 rest" for rest
    using wf_rule_plain(3,5) [OF wf] by (intro fgets_lines_line) auto
  have "load_line ((''rule '' @ rule_text r) @ [NL]) st = st\<lparr>st_rules := st_rules st @ [r]\<rparr>"
    using Cons.prems by (intro load_line_rule [OF wf]) simp
  then show ?case
    using Cons.IH [of "st\<lparr>st_rules := st_rules st @ [r]\<rparr>"] Cons.prems split
    by (simp add: render_rule_text)
qed

lemma load_header:
  "fgets_lines 512 (''enabled '' @ show_bool e @ NL # ''profile '' @ p @ NL # rest) =
     (''enabled '' @ show_bool e @ [NL]) # (''profile '' @ p @ [NL]) # fgets_lines 512 rest"
  if "NL \<notin> set p" and "length p < 500"
proof -
  have "fgets_lines 512 ((''enabled '' @ show_bool e) @ NL # x) =
      ((''enabled '' @ show_bool e) @ [NL]) # fgets_lines 512 x" for x
    by (rule fgets_lines_line) (auto simp: show_bool_def)
  moreover have "fgets_lines 512 ((''profile '' @ p) @ NL # x) = ((''profile '' @ p) @ [NL]) # fgets_lines 512 x" for x
    using that by (intro fgets_lines_line) auto
  ultimately show ?thesis by simp
qed

lemma load_render: "wf_state st \<Longrightarrow> load_state False (Some (render_state st)) = Some st"
proof -
  assume wf: "wf_state st"
  let ?p = "if st_public_profile st then ''public'' else ''home''"
  let ?h = "\<lparr>st_enabled = st_enabled st, st_public_profile = st_public_profile st, st_rules = []\<rparr>"
  have "fold load_line [''enabled '' @ show_bool (st_enabled st) @ [NL], ''profile '' @ ?p @ [NL]]
      empty_state = ?h"
    by (auto simp: load_line_def chomp_def show_bool_def empty_state_def)
  moreover have "fold load_line (fgets_lines 512 (concat (map render_rule (st_rules st)))) ?h = st"
    using wf load_rules [of "st_rules st" ?h] by (simp add: wf_state_def)
  moreover have "fgets_lines 512 (render_state st) =
      [''enabled '' @ show_bool (st_enabled st) @ [NL], ''profile '' @ ?p @ [NL]] @
      fgets_lines 512 (concat (map render_rule (st_rules st)))"
    unfolding render_state_def by (subst load_header) auto
  ultimately show ?thesis by (simp only: load_state_def fold_append comp_apply if_False option.case)
qed

text \<open>
  C10: what \<open>save_state\<close> writes, \<open>load_state\<close> reads back unchanged, for every state within the
  helper's limits: all rules survive, in order, with their labels (which may hold spaces).
\<close>

theorem state_file_roundtrip:
  assumes "wf_state st" and "save_state p e st f = (True, f')"
  shows "load_state False (f' p) = Some st"
  using assms load_render [of st]
  by (auto simp: save_state_def store_text_def Let_def split: if_splits)

definition sample_rule :: rule where
  "sample_rule = \<lparr>r_id = ''ssh'', r_public_too = True, r_ports = ''22/tcp,6000-6010/udp'', r_label = ''Secure shell''\<rparr>"

definition sample_state :: fw_state where
  "sample_state = \<lparr>st_enabled = True, st_public_profile = False, st_rules = [sample_rule]\<rparr>"

definition good_save :: save_env where
  "good_save = \<lparr>se_open = True, se_fdopen = True, se_fclose = True, se_rename = True, se_flushed = 0\<rparr>"

lemmas fw_eval = wf_state_def wf_rule_def MAX_RULES_def valid_id_def id_char_def valid_label_def
  label_char_def valid_ports_def valid_ports_loop.simps valid_port_item_def valid_number_def
  dec_val_def digit_val_def is_digit_def

lemma sample_state_wf: "wf_state sample_state"
  by (simp add: sample_state_def sample_rule_def fw_eval)

theorem state_file_roundtrip_witness:
  "load_state False
     (snd (save_state FIREWALL_STATE_FILE good_save sample_state (\<lambda>_. None)) FIREWALL_STATE_FILE) =
   Some sample_state"
proof -
  have "save_state FIREWALL_STATE_FILE good_save sample_state (\<lambda>_. None) =
      (True, snd (save_state FIREWALL_STATE_FILE good_save sample_state (\<lambda>_. None)))"
    by (simp add: save_state_def store_text_def good_save_def Let_def)
  then show ?thesis by (rule state_file_roundtrip [OF sample_state_wf])
qed


section \<open>The rule set of a well-formed state\<close>

text \<open>
  The specification: the ports a state opens, as protocol, port or range, and label, for the rules
  that the active profile admits.
\<close>

definition item_parts :: "string \<Rightarrow> string \<Rightarrow> string \<times> string \<times> string" where
  "item_parts label item =
     (tl (dropWhile (\<lambda>c. c \<noteq> SLASH) item), takeWhile (\<lambda>c. c \<noteq> SLASH) item, label)"

definition open_ports :: "fw_state \<Rightarrow> (string \<times> string \<times> string) list" where
  "open_ports st =
     concat (map (\<lambda>r. map (item_parts (r_label r)) (strtok_all (CHR '','') (r_ports r)))
               (filter (\<lambda>r. \<not> st_public_profile st \<or> r_public_too r) (st_rules st)))"

definition ruleset_spec :: "fw_state \<Rightarrow> string" where
  "ruleset_spec st =
     ruleset_reset @
     (if st_enabled st
      then ruleset_chain @ (if st_public_profile st then [] else ruleset_mdns) @
           concat (map accept_line (open_ports st)) @ ruleset_end
      else [])"

lemma sb_text_append_buf [simp]: "sb_text (append_buf b t) = sb_text b @ t"
  by (simp add: append_buf_def Let_def)

lemma append_buf_cap: "length (sb_text (append_buf b t)) < sb_cap (append_buf b t)"
  by (simp add: append_buf_def Let_def)

lemma item_parts_valid:
  assumes "valid_port_item item"
  shows "\<exists>proto port. item_parts label item = (proto, port, label) \<and>
           dropWhile (\<lambda>c. c \<noteq> SLASH) item = SLASH # proto \<and> takeWhile (\<lambda>c. c \<noteq> SLASH) item = port \<and>
           (proto = ''tcp'' \<or> proto = ''udp'') \<and> port_range port \<and> length port \<le> length item"
proof -
  obtain num proto where *: "item = num @ SLASH # proto" "SLASH \<notin> set num"
    "proto = ''tcp'' \<or> proto = ''udp''" "port_range num"
    using assms by (rule valid_port_itemE)
  have "takeWhile (\<lambda>c. c \<noteq> SLASH) item = num"
    unfolding *(1) using *(2) by (intro takeWhile_hit) auto
  moreover have "dropWhile (\<lambda>c. c \<noteq> SLASH) item = SLASH # proto"
    unfolding *(1) using *(2) by (intro dropWhile_hit) auto
  ultimately show ?thesis using * by (auto simp: item_parts_def)
qed

lemma append_items_spec:
  assumes "list_all (\<lambda>i. valid_port_item i \<and> length i \<le> 255) items" and "length label \<le> 64"
  shows "\<exists>b'. append_items label items b = Some b' \<and>
           sb_text b' = sb_text b @ concat (map (accept_line \<circ> item_parts label) items)"
  using assms(1)
proof (induction items arbitrary: b)
  case Nil
  then show ?case by simp
next
  case (Cons i items)
  then obtain proto port where ip: "item_parts label i = (proto, port, label)"
      "dropWhile (\<lambda>c. c \<noteq> SLASH) i = SLASH # proto" "takeWhile (\<lambda>c. c \<noteq> SLASH) i = port"
      "proto = ''tcp'' \<or> proto = ''udp''" "length port \<le> 255"
    using item_parts_valid [of i label] by fastforce
  then have "length (accept_line (proto, port, label)) < 512"
    using assms(2) by (auto simp: accept_line_def)
  moreover obtain b' where "append_items label items (append_buf b (accept_line (proto, port, label))) = Some b'"
    "sb_text b' = sb_text b @ accept_line (proto, port, label) @ concat (map (accept_line \<circ> item_parts label) items)"
    using Cons by fastforce
  ultimately show ?case using ip by (simp add: comp_def)
qed

lemma strtok_all_length: "t \<in> set (strtok_all d s) \<Longrightarrow> length t \<le> length s"
proof (induction d s rule: strtok_all.induct)
  case (1 d s)
  show ?case
  proof (cases "strtok_r d s")
    case (Pair tok r)
    then obtain u where u: "strtok_r d s = (Some u, r)"
      using "1.prems" by (cases tok) (auto simp: strtok_all.simps [of d s])
    then have "length r < length s" by (rule strtok_r_shrinks)
    moreover have "length u \<le> length s"
      using u length_takeWhile_le [of "\<lambda>c. c \<noteq> d" "dropWhile (\<lambda>c. c = d) s"]
        length_dropWhile_le [of "\<lambda>c. c = d" s]
      by (auto simp: strtok_r_def Let_def split: if_splits)
    moreover have "t = u \<or> t \<in> set (strtok_all d r)"
      using "1.prems" u by (simp add: strtok_all.simps [of d s])
    ultimately show ?thesis using "1.IH" [OF u [symmetric]] by fastforce
  qed
qed

lemma append_rules_spec:
  assumes "list_all wf_rule rs"
  shows "\<exists>b'. append_rules pub rs b = Some b' \<and>
           sb_text b' = sb_text b @ concat (map accept_line
             (concat (map (\<lambda>r. map (item_parts (r_label r)) (strtok_all (CHR '','') (r_ports r)))
               (filter (\<lambda>r. \<not> pub \<or> r_public_too r) rs))))"
  using assms
proof (induction rs arbitrary: b)
  case Nil
  then show ?case by simp
next
  case (Cons r rs)
  show ?case
  proof (cases "pub \<and> \<not> r_public_too r")
    case True
    with Cons show ?thesis by simp
  next
    case False
    have wf: "valid_ports (r_ports r)" "valid_label (r_label r)" using Cons.prems by (auto simp: wf_rule_def)
    have "list_all (\<lambda>i. valid_port_item i \<and> length i \<le> 255) (strtok_all (CHR '','') (r_ports r))"
      using valid_ports_facts(2,4) [OF wf(1)] strtok_all_length [of _ "CHR '',''" "r_ports r"]
      by (fastforce simp: list_all_iff)
    then obtain b1 where "append_items (r_label r) (strtok_all (CHR '','') (r_ports r)) b = Some b1"
      "sb_text b1 = sb_text b @ concat (map (accept_line \<circ> item_parts (r_label r))
         (strtok_all (CHR '','') (r_ports r)))"
      using append_items_spec valid_label_length [OF wf(2)] by blast
    moreover have "snprintf_s 256 (r_ports r) = r_ports r" using valid_ports_facts(2) [OF wf(1)] by simp
    moreover obtain b2 where "append_rules pub rs b1 = Some b2"
      "sb_text b2 = sb_text b1 @ concat (map accept_line
         (concat (map (\<lambda>r. map (item_parts (r_label r)) (strtok_all (CHR '','') (r_ports r)))
               (filter (\<lambda>r. \<not> pub \<or> r_public_too r) rs))))"
      using Cons by fastforce
    ultimately show ?thesis using False by (auto simp: comp_def)
  qed
qed

lemma build_ruleset_refines:
  assumes "wf_state st"
  obtains b where "build_ruleset st = Some b" and "sb_text b = ruleset_spec st"
    and "length (sb_text b) < sb_cap b"
proof (cases "st_enabled st")
  case False
  then show ?thesis
    using that [of "append_buf \<lparr>sb_text = [], sb_cap = 0\<rparr> ruleset_reset"]
      append_buf_cap [of "\<lparr>sb_text = [], sb_cap = 0\<rparr>" ruleset_reset]
    by (simp add: build_ruleset_def ruleset_spec_def Let_def)
next
  case True
  let ?b = "append_buf (append_buf \<lparr>sb_text = [], sb_cap = 0\<rparr> ruleset_reset) ruleset_chain"
  let ?b2 = "if \<not> st_public_profile st then append_buf ?b ruleset_mdns else ?b"
  obtain b3 where "append_rules (st_public_profile st) (st_rules st) ?b2 = Some b3"
    "sb_text b3 = sb_text ?b2 @ concat (map accept_line (open_ports st))"
    using append_rules_spec assms unfolding wf_state_def open_ports_def by blast
  then show ?thesis
    using that [of "append_buf b3 ruleset_end"] True append_buf_cap [of b3 ruleset_end]
    by (cases "st_public_profile st") (simp_all add: build_ruleset_def ruleset_spec_def Let_def)
qed

lemma open_ports_safe:
  assumes "wf_state st" and "(proto, port, label) \<in> set (open_ports st)"
  shows "proto \<in> {''tcp'', ''udp''}" and "port_range port" and "valid_label label"
    and "\<exists>r \<in> set (st_rules st). r_label r = label \<and> (st_public_profile st \<longrightarrow> r_public_too r)"
proof -
  obtain r i where r: "r \<in> set (st_rules st)" "st_public_profile st \<longrightarrow> r_public_too r"
    and i: "i \<in> set (strtok_all (CHR '','') (r_ports r))"
    and eq: "(proto, port, label) = item_parts (r_label r) i"
    using assms(2) by (auto simp: open_ports_def)
  have wf: "wf_rule r" using assms(1) r(1) by (auto simp: wf_state_def list_all_iff)
  then have "valid_port_item i"
    using i valid_ports_facts(4) by (auto simp: wf_rule_def list_all_iff)
  from item_parts_valid [OF this, of "r_label r"] eq
  show "proto \<in> {''tcp'', ''udp''}" and "port_range port" by auto
  have "label = r_label r" using eq by (simp add: item_parts_def)
  with wf r show "valid_label label"
    and "\<exists>r \<in> set (st_rules st). r_label r = label \<and> (st_public_profile st \<longrightarrow> r_public_too r)"
    by (auto simp: wf_rule_def)
qed

text \<open>
  C1: for every state the helper can load, \<open>build_ruleset\<close> never dereferences a missing slash, its
  buffer never overflows, and the text handed to \<open>nft\<close> is exactly the specified one: a policy-drop
  chain plus one accept line per admitted port, where protocol, port and label come from validated
  fields (no quote, no newline), so no rule can inject text. In the public profile only rules marked
  for it are opened.
\<close>

theorem build_ruleset_correct:
  assumes "load_state err content = Some st"
  shows "\<exists>b. build_ruleset st = Some b \<and> sb_text b = ruleset_spec st \<and> length (sb_text b) < sb_cap b \<and>
    (\<forall>(proto, port, label) \<in> set (open_ports st).
       proto \<in> {''tcp'', ''udp''} \<and> port_range port \<and> valid_label label \<and>
       (\<exists>r \<in> set (st_rules st). r_label r = label \<and> (st_public_profile st \<longrightarrow> r_public_too r)))"
proof -
  have wf: "wf_state st" using assms by (rule load_state_wf)
  obtain b where "build_ruleset st = Some b" "sb_text b = ruleset_spec st" "length (sb_text b) < sb_cap b"
    using wf by (rule build_ruleset_refines)
  then show ?thesis using open_ports_safe [OF wf] by (intro exI [of _ b]) auto
qed

theorem build_ruleset_correct_witness:
  "\<exists>b. build_ruleset sample_state = Some b \<and> sb_text b = ruleset_spec sample_state \<and>
     length (sb_text b) < sb_cap b"
proof -
  have "load_state False (Some (render_state sample_state)) = Some sample_state"
    by (rule load_render [OF sample_state_wf])
  from build_ruleset_correct [OF this] show ?thesis by blast
qed


section \<open>Commands\<close>

text \<open>Rules as a map from ids: the contract of \<open>allow\<close> and \<open>revoke\<close>.\<close>

definition rule_map :: "fw_state \<Rightarrow> string \<Rightarrow> rule option" where
  "rule_map st = map_of (map (\<lambda>r. (r_id r, r)) (st_rules st))"

definition distinct_ids :: "fw_state \<Rightarrow> bool" where
  "distinct_ids st \<longleftrightarrow> distinct (map r_id (st_rules st))"

lemma find_slot_none:
  "find_slot i rs k slot = None \<longleftrightarrow> slot = None \<and> i \<notin> r_id ` set rs"
  by (induction rs arbitrary: k slot) auto

lemma find_slot_keep: "i \<notin> r_id ` set rs \<Longrightarrow> find_slot i rs k slot = slot"
  by (induction rs arbitrary: k) auto

lemma find_slot_some:
  "distinct (map r_id rs) \<Longrightarrow> find_slot i rs k None = Some j \<Longrightarrow>
     k \<le> j \<and> j - k < length rs \<and> r_id (rs ! (j - k)) = i"
proof (induction rs arbitrary: k)
  case Nil
  then show ?case by simp
next
  case (Cons r rs)
  show ?case
  proof (cases "r_id r = i")
    case True
    then have "i \<notin> r_id ` set rs" using Cons.prems(1) by auto
    then have "find_slot i rs (Suc k) (Some k) = Some k" by (rule find_slot_keep)
    then show ?thesis using Cons.prems True by simp
  next
    case False
    with Cons.prems have "find_slot i rs (Suc k) None = Some j" by simp
    with Cons.IH [of "Suc k"] Cons.prems have "Suc k \<le> j \<and> j - Suc k < length rs \<and> r_id (rs ! (j - Suc k)) = i"
      by simp
    then show ?thesis by (auto simp: nth_Cons' Suc_diff_le)
  qed
qed

lemma compact_filter: "compact i rs = filter (\<lambda>r. r_id r \<noteq> i) rs"
  by (induction rs) auto

lemma map_of_list_update:
  "distinct (map f xs) \<Longrightarrow> j < length xs \<Longrightarrow> f y = f (xs ! j) \<Longrightarrow>
     map_of (map (\<lambda>x. (f x, x)) (xs[j := y])) = (map_of (map (\<lambda>x. (f x, x)) xs))(f y \<mapsto> y)"
proof (induction xs arbitrary: j)
  case Nil
  then show ?case by simp
next
  case (Cons x xs)
  then show ?case
  proof (cases j)
    case 0
    with Cons.prems show ?thesis by (auto simp: fun_eq_iff)
  next
    case (Suc m)
    moreover have "f (xs ! m) \<in> f ` set xs" using Cons.prems Suc by simp
    then have "f x \<noteq> f (xs ! m)" using Cons.prems by auto
    ultimately show ?thesis using Cons by (auto simp: fun_eq_iff)
  qed
qed

lemma map_of_filter_key:
  "map_of (map (\<lambda>x. (f x, x)) (filter (\<lambda>x. f x \<noteq> k) xs)) = (map_of (map (\<lambda>x. (f x, x)) xs))(k := None)"
  by (induction xs) (auto simp: fun_eq_iff)

lemma allow_rule_map:
  assumes "distinct_ids st" and "allow_rule i pub ports label st = Inr st'"
  shows "rule_map st' = (rule_map st)(i \<mapsto> make_rule i pub ports label)" and "distinct_ids st'"
    and "st_enabled st' = st_enabled st" and "st_public_profile st' = st_public_profile st"
proof -
  have v: "valid_id i" "valid_ports ports" "valid_label label"
    using assms(2) by (auto simp: allow_rule_def split: if_splits)
  then have rid: "r_id (make_rule i pub ports label) = i" by (simp add: make_rule_wf)
  have "rule_map st' = (rule_map st)(i \<mapsto> make_rule i pub ports label) \<and> distinct_ids st'"
  proof (cases "find_slot i (st_rules st) 0 None")
    case None
    then have "i \<notin> r_id ` set (st_rules st)" by (simp add: find_slot_none)
    moreover from this have "map_of (map (\<lambda>r. (r_id r, r)) (st_rules st)) i = None"
      by (auto simp: map_of_eq_None_iff)
    moreover have "st' = st\<lparr>st_rules := st_rules st @ [make_rule i pub ports label]\<rparr>"
      using assms(2) None v by (auto simp: allow_rule_def split: if_splits)
    ultimately show ?thesis
      using assms(1) rid
      by (auto simp: rule_map_def distinct_ids_def fun_eq_iff map_add_def split: option.splits)
  next
    case (Some j)
    then have j: "j < length (st_rules st)" "r_id (st_rules st ! j) = i"
      using find_slot_some [OF _ Some] assms(1) by (auto simp: distinct_ids_def)
    moreover have st': "st' = st\<lparr>st_rules := (st_rules st)[j := make_rule i pub ports label]\<rparr>"
      using assms(2) Some v by (auto simp: allow_rule_def split: if_splits)
    moreover have "map r_id ((st_rules st)[j := make_rule i pub ports label]) = map r_id (st_rules st)"
      using j rid by (metis list_update_id map_update)
    ultimately show ?thesis
      using assms(1) rid map_of_list_update [of r_id "st_rules st" j "make_rule i pub ports label"]
      by (simp add: rule_map_def distinct_ids_def)
  qed
  then show "rule_map st' = (rule_map st)(i \<mapsto> make_rule i pub ports label)" and "distinct_ids st'"
    by auto
  show "st_enabled st' = st_enabled st" and "st_public_profile st' = st_public_profile st"
    using assms(2) by (auto simp: allow_rule_def split: if_splits option.splits)
qed

text \<open>
  C9: on a state with one rule per id, an accepted \<open>allow\<close> is the map update of that id by exactly
  the given rule and \<open>revoke\<close> is its removal; both keep ids distinct and change nothing else.
\<close>

theorem allow_revoke_refine_map:
  assumes "distinct_ids st"
  shows "(run_command ''allow'' [i, pub, ports, label] st = Change st' \<longrightarrow>
            rule_map st' = (rule_map st)(i \<mapsto> \<lparr>r_id = i, r_public_too = (pub = ''1''), r_ports = ports, r_label = label\<rparr>)
            \<and> distinct_ids st' \<and> st_enabled st' = st_enabled st \<and> st_public_profile st' = st_public_profile st)
       \<and> (run_command ''revoke'' [i] st = Change st' \<longrightarrow>
            rule_map st' = (rule_map st)(i := None)
            \<and> distinct_ids st' \<and> st_enabled st' = st_enabled st \<and> st_public_profile st' = st_public_profile st)"
proof (intro conjI impI)
  assume "run_command ''allow'' [i, pub, ports, label] st = Change st'"
  then have a: "allow_rule i pub ports label st = Inr st'"
    by (auto simp: run_command_def split: sum.splits)
  then have "valid_id i" "valid_ports ports" "valid_label label"
    by (auto simp: allow_rule_def split: if_splits)
  then show "rule_map st' = (rule_map st)(i \<mapsto> \<lparr>r_id = i, r_public_too = (pub = ''1''), r_ports = ports, r_label = label\<rparr>)"
    and "distinct_ids st'" and "st_enabled st' = st_enabled st" and "st_public_profile st' = st_public_profile st"
    using allow_rule_map [OF assms a] by (simp_all add: make_rule_wf)
next
  assume "run_command ''revoke'' [i] st = Change st'"
  then have st': "st' = st\<lparr>st_rules := compact i (st_rules st)\<rparr>"
    by (auto simp: run_command_def split: if_splits)
  show "rule_map st' = (rule_map st)(i := None)"
    by (simp add: st' rule_map_def compact_filter map_of_filter_key)
  show "distinct_ids st'" and "st_enabled st' = st_enabled st" and "st_public_profile st' = st_public_profile st"
    using assms by (auto simp: st' distinct_ids_def compact_filter distinct_map_filter)
qed

theorem allow_revoke_refine_map_witness:
  "rule_map (sample_state\<lparr>st_rules := []\<rparr>) = (rule_map sample_state)(''ssh'' := None)"
proof -
  have d: "distinct_ids sample_state" by (simp add: distinct_ids_def sample_state_def)
  have "run_command ''revoke'' [''ssh''] sample_state = Change (sample_state\<lparr>st_rules := []\<rparr>)"
    by (simp add: run_command_def sample_state_def sample_rule_def valid_id_def id_char_def)
  then show ?thesis using allow_revoke_refine_map [OF d] by blast
qed


section \<open>Saving and main\<close>

interpretation fw_store: atomic_store "store_text FIREWALL_STATE_FILE" FIREWALL_STATE_FILE
  "\<lambda>e. tmp_path FIREWALL_STATE_FILE"
  by unfold_locales
    (auto simp: store_text_def Let_def tmp_path_def FIREWALL_STATE_FILE_def snprintf_s_def split: if_splits)

lemma run_command_wf:
  assumes "wf_state st" and "run_command cmd args st = Change st'"
  shows "wf_state st'"
proof -
  have a: "wf_state st'" if "allow_rule i pub ports label st = Inr st'" for i pub ports label
  proof -
    have v: "valid_id i" "valid_ports ports" "valid_label label"
      using that by (auto simp: allow_rule_def split: if_splits)
    then have "wf_rule (make_rule i pub ports label)" by (simp add: make_rule_wf wf_rule_def)
    then show ?thesis
      using that assms(1)
      by (auto simp: allow_rule_def wf_state_def list_all_iff split: if_splits option.splits
          dest!: set_update_subset_insert [THEN subsetD])
  qed
  have "wf_state (st\<lparr>st_rules := compact i (st_rules st)\<rparr>)" for i
    using assms(1)
    by (auto simp: wf_state_def compact_filter list_all_iff intro: order_trans [OF length_filter_le])
  then show ?thesis
    using assms a
    by (auto simp: run_command_def wf_state_def split: if_splits list.splits sum.splits)
qed

lemma parse_options_unprivileged:
  "parse_options False opts argv = Inr (opts', rest) \<Longrightarrow> opts' = opts \<and> rest = argv"
  by (cases argv) (auto split: if_splits)


definition root_env :: fw_env where
  "root_env = \<lparr>e_uid = 1000, e_euid = 0, e_pkexec = True, e_fopen_error = False, e_save = good_save,
     e_executable = (\<lambda>p. p = ''/usr/sbin/nft''), e_pipe = True, e_fork = True,
     e_writes = [Wrote 4096], e_status = Some 0\<rparr>"





end
