(* ===== verification/Power_Helper.thy ===== *)
theory Power_Helper
  imports Posix_Files
begin

text \<open>
  The privileged power helper, \<^verbatim>\<open>src/services/power-helper/main.c\<close>: it writes the charge
  thresholds of a battery under sysfs. The attribute files are a file system; the answers of
  \<open>open\<close> and \<open>write\<close> are inputs.
\<close>

definition SYSFS_ROOT :: path where
  "SYSFS_ROOT = ''/sys/class/power_supply''"

definition sysfs_root :: "string option \<Rightarrow> nat \<Rightarrow> nat \<Rightarrow> path" where
  "sysfs_root override_env uid euid =
     (case override_env of
        None \<Rightarrow> SYSFS_ROOT
      | Some v \<Rightarrow> if v \<noteq> [] \<and> euid \<noteq> 0 \<and> uid = euid then v else SYSFS_ROOT)"

definition name_char :: "char \<Rightarrow> bool" where
  "name_char c \<longleftrightarrow> (CHR ''a'' \<le> c \<and> c \<le> CHR ''z'') \<or> (CHR ''A'' \<le> c \<and> c \<le> CHR ''Z'') \<or>
     (CHR ''0'' \<le> c \<and> c \<le> CHR ''9'') \<or> c = CHR ''_'' \<or> c = CHR ''-''"

definition valid_name :: "string \<Rightarrow> bool" where
  "valid_name s =
     (if length s = 0 \<or> length s > 64 \<or> hd s = CHR ''.'' then False else list_all name_char s)"

definition attr_path :: "path \<Rightarrow> string \<Rightarrow> path" where
  "attr_path dir attr = snprintf_s 512 (dir @ SLASH # attr)"

text \<open>\<open>read_attr\<close> with a 64 byte buffer: trailing newlines and spaces are cut.\<close>

definition rtrim :: "string \<Rightarrow> string" where
  "rtrim s = rev (dropWhile (\<lambda>c. c = NL \<or> c = SPC) (rev s))"

record attr_env =
  ae_open_read :: "path \<Rightarrow> bool"
  ae_read :: "path \<Rightarrow> bool"
  ae_open_write :: "path \<Rightarrow> bool"
  ae_written :: "path \<Rightarrow> nat option"

definition read_attr :: "attr_env \<Rightarrow> path \<Rightarrow> string \<Rightarrow> fs \<Rightarrow> string option" where
  "read_attr e dir attr f =
     (let p = attr_path dir attr
      in case f p of
           None \<Rightarrow> None
         | Some content \<Rightarrow>
             if \<not> ae_open_read e p \<or> \<not> ae_read e p then None
             else Some (cstr (rtrim (take 63 content))))"

text \<open>
  \<open>write_attr\<close>: \<open>open\<close> does not create the file; it truncates it, and \<open>write\<close> stores the whole text
  (\<open>ae_written = None\<close>) or only some bytes of it, which is the error return.
\<close>

definition write_attr :: "attr_env \<Rightarrow> path \<Rightarrow> string \<Rightarrow> int \<Rightarrow> fs \<Rightarrow> bool \<times> fs" where
  "write_attr e dir attr value f =
     (let p = attr_path dir attr; text = snprintf_s 16 (show_int value @ [NL])
      in if f p = None \<or> \<not> ae_open_write e p then (False, f)
         else case ae_written e p of
                None \<Rightarrow> (True, f(p \<mapsto> text))
              | Some k \<Rightarrow> (k = length text, f(p \<mapsto> take k text)))"

definition start_attr :: string where "start_attr = ''charge_control_start_threshold''"
definition end_attr :: string where "end_attr = ''charge_control_end_threshold''"

definition charge_limit :: "attr_env \<Rightarrow> path \<Rightarrow> string \<Rightarrow> string \<Rightarrow> fs \<Rightarrow> nat \<times> fs" where
  "charge_limit e root battery percent_text f =
     (case strtol percent_text of (percent, rest, _) \<Rightarrow>
        if rest \<noteq> [] \<or> percent < 50 \<or> percent > 100 then (2, f)
        else if \<not> valid_name battery then (2, f)
        else
          let dir = snprintf_s 384 (root @ SLASH # battery)
          in if read_attr e dir ''type'' f \<noteq> Some ''Battery'' then (2, f)
             else if read_attr e dir end_attr f = None then (3, f)
             else
               let (ok, f1) =
                 (case read_attr e dir start_attr f of
                    None \<Rightarrow> (True, f)
                  | Some buf \<Rightarrow>
                      if fst (strtol buf) \<ge> percent then write_attr e dir start_attr (percent - 5) f
                      else (True, f))
               in if \<not> ok then (4, f1)
                  else (case write_attr e dir end_attr percent f1 of
                          (False, f2) \<Rightarrow> (4, f2)
                        | (True, f2) \<Rightarrow> (0, f2)))"

definition power_main :: "attr_env \<Rightarrow> path \<Rightarrow> string list \<Rightarrow> fs \<Rightarrow> nat \<times> fs" where
  "power_main e root args f =
     (case args of
        [cmd, battery, percent] \<Rightarrow>
          if cmd = ''charge-limit'' then charge_limit e root battery percent f else (2, f)
      | _ \<Rightarrow> (2, f))"

section \<open>Lemmas\<close>

lemma name_char_plain: "name_char c \<Longrightarrow> c \<noteq> SLASH \<and> c \<noteq> NUL \<and> c \<noteq> CHR ''.''"
  by (auto simp: name_char_def less_eq_char_def)

interpretation battery: name_guard valid_name 64
proof unfold_locales
  fix s
  assume v: "valid_name s"
  then have a: "\<And>c. c \<in> set s \<Longrightarrow> name_char c"
    by (auto simp: valid_name_def list_all_iff split: if_splits)
  show "s \<noteq> []" and "length s \<le> 64" and "hd s \<noteq> CHR ''.''"
    using v by (auto simp: valid_name_def split: if_splits)
  show "SLASH \<notin> set s" and "NUL \<notin> set s" using a name_char_plain by blast+
qed

lemma write_attr_frame: "write_attr e dir attr v f = (b, f') \<Longrightarrow> p \<noteq> attr_path dir attr \<Longrightarrow> f' p = f p"
  by (auto simp: write_attr_def Let_def split: if_splits option.splits)

lemma write_attr_ok:
  "write_attr e dir attr v f = (True, f') \<Longrightarrow>
     f' (attr_path dir attr) = Some (snprintf_s 16 (show_int v @ [NL]))"
  by (auto simp: write_attr_def Let_def split: if_splits option.splits)

lemma is_digit_facts: "is_digit c \<Longrightarrow> c \<noteq> NL \<and> c \<noteq> SPC \<and> c \<noteq> NUL"
  by (auto simp: is_digit_bounds)

text \<open>What \<open>write_attr\<close> stores for a threshold, \<open>read_attr\<close> and \<open>strtol\<close> read back.\<close>

lemma threshold_roundtrip:
  assumes "f (attr_path dir attr) = Some (snprintf_s 16 (show_int (int n) @ [NL]))" and "n \<le> 1000"
    and "read_attr e dir attr f = Some buf"
  shows "strtol buf = (int n, [], False)"
proof -
  have len: "length (show_nat n) \<le> 4" using assms(2) show_nat_length [of n 3] by simp
  have "take 63 (snprintf_s 16 (show_int (int n) @ [NL])) = show_nat n @ [NL]"
    using len by (simp add: snprintf_s_def show_int_def)
  moreover have "rtrim (show_nat n @ [NL]) = show_nat n"
  proof -
    have "last (show_nat n) \<in> set (show_nat n)" by simp
    then have "is_digit (last (show_nat n))" by (rule show_nat_digits)
    then have "dropWhile (\<lambda>c. c = NL \<or> c = SPC) (rev (show_nat n)) = rev (show_nat n)"
      using is_digit_facts by (cases "show_nat n" rule: rev_cases) auto
    then show ?thesis by (simp add: rtrim_def)
  qed
  moreover have "cstr (show_nat n) = show_nat n"
    using show_nat_digits is_digit_facts by (auto simp: cstr_def takeWhile_eq_all_conv)
  ultimately have "buf = show_nat n"
    using assms(1,3) by (auto simp: read_attr_def Let_def split: if_splits)
  then show ?thesis
    using strtol_show_nat [of n "[]"] assms(2) by (simp add: LONG_MAX_def)
qed

lemma charge_limit_dest:
  assumes "charge_limit e root battery text f = (0, f')"
  obtains percent err f1 where
    "strtol text = (percent, [], err)" "50 \<le> percent" "percent \<le> 100" "valid_name battery"
    "read_attr e (snprintf_s 384 (root @ SLASH # battery)) ''type'' f = Some ''Battery''"
    "(case read_attr e (snprintf_s 384 (root @ SLASH # battery)) start_attr f of
        None \<Rightarrow> f1 = f
      | Some buf \<Rightarrow>
          if fst (strtol buf) \<ge> percent
          then write_attr e (snprintf_s 384 (root @ SLASH # battery)) start_attr (percent - 5) f = (True, f1)
          else f1 = f)"
    "write_attr e (snprintf_s 384 (root @ SLASH # battery)) end_attr percent f1 = (True, f')"
  using assms
  by (auto simp: charge_limit_def Let_def split: prod.splits if_splits option.splits bool.splits)


lemma attr_path_fits:
  assumes "length attr \<le> 100"
  shows "attr_path (snprintf_s 384 d) attr = snprintf_s 384 d @ SLASH # attr"
  using assms by (simp add: attr_path_def snprintf_s_def)

lemma start_end_paths: "attr_path (snprintf_s 384 d) start_attr \<noteq> attr_path (snprintf_s 384 d) end_attr"
  by (simp add: attr_path_fits start_attr_def end_attr_def)

text \<open>A battery with both thresholds, and a kernel that refuses nothing.\<close>

definition bat_env :: attr_env where
  "bat_env = \<lparr> ae_open_read = (\<lambda>_. True), ae_read = (\<lambda>_. True), ae_open_write = (\<lambda>_. True),
               ae_written = (\<lambda>_. None) \<rparr>"

definition bat_fs :: fs where
  "bat_fs = [''/sys/class/power_supply/BAT0/type'' \<mapsto> ''Battery'' @ [NL],
             ''/sys/class/power_supply/BAT0/charge_control_start_threshold'' \<mapsto> ''95'' @ [NL],
             ''/sys/class/power_supply/BAT0/charge_control_end_threshold'' \<mapsto> ''100'' @ [NL]]"

lemmas power_eval = bat_env_def bat_fs_def charge_limit_def read_attr_def write_attr_def attr_path_def
  snprintf_s_def SYSFS_ROOT_def start_attr_def end_attr_def rtrim_def cstr_def strtol_def
  is_space_def is_digit_def dec_val_def digit_val_def valid_name_def name_char_def show_int_def
  show_nat.simps digit_chr_def LONG_MAX_def LONG_MIN_def

lemma bat_run: "fst (charge_limit bat_env SYSFS_ROOT ''BAT0'' ''80'' bat_fs) = 0"
  by (simp add: power_eval)

section \<open>Properties\<close>

text \<open>
  C40: when the helper reports success, the requested limit was between 50 and 100, the end
  threshold holds exactly that number, and the start threshold, if the battery has one, reads as a
  smaller number: the helper never leaves a start threshold at or above the end threshold.
\<close>

theorem charge_limit_success:
  assumes "charge_limit e root battery text f = (0, f')"
  shows "\<exists>percent. fst (strtol text) = percent \<and> 50 \<le> percent \<and> percent \<le> 100 \<and>
    f' (attr_path (snprintf_s 384 (root @ SLASH # battery)) end_attr) = Some (show_int percent @ [NL]) \<and>
    (\<forall>buf. read_attr e (snprintf_s 384 (root @ SLASH # battery)) start_attr f' = Some buf \<longrightarrow>
       fst (strtol buf) < percent)"
proof -
  let ?dir = "snprintf_s 384 (root @ SLASH # battery)"
  obtain percent err f1 where a: "strtol text = (percent, [], err)" "50 \<le> percent" "percent \<le> 100"
    and st: "(case read_attr e ?dir start_attr f of None \<Rightarrow> f1 = f
      | Some buf \<Rightarrow> if fst (strtol buf) \<ge> percent
          then write_attr e ?dir start_attr (percent - 5) f = (True, f1) else f1 = f)"
    and w: "write_attr e ?dir end_attr percent f1 = (True, f')"
    using assms by (rule charge_limit_dest)
  define n where "n = nat percent"
  have n: "percent = int n" "50 \<le> n" "n \<le> 100" using a by (auto simp: n_def)
  have "length (show_nat n) \<le> 4" using n show_nat_length [of n 3] by simp
  then have "snprintf_s 16 (show_int percent @ [NL]) = show_int percent @ [NL]"
    by (simp add: n snprintf_s_def show_int_def)
  then have e: "f' (attr_path ?dir end_attr) = Some (show_int percent @ [NL])"
    using write_attr_ok [OF w] by simp
  have same: "f' (attr_path ?dir start_attr) = f1 (attr_path ?dir start_attr)"
    using write_attr_frame [OF w start_end_paths] .
  have "fst (strtol buf) < percent" if r: "read_attr e ?dir start_attr f' = Some buf" for buf
  proof -
    have r1: "read_attr e ?dir start_attr f1 = Some buf" using r same by (simp add: read_attr_def)
    show ?thesis
    proof (cases "write_attr e ?dir start_attr (percent - 5) f = (True, f1)")
      case True
      then have "f1 (attr_path ?dir start_attr) = Some (snprintf_s 16 (show_int (int (n - 5)) @ [NL]))"
        using write_attr_ok n by (simp add: of_nat_diff)
      then have "strtol buf = (int (n - 5), [], False)" using n r1 by (intro threshold_roundtrip) auto
      then show ?thesis using n by (simp add: of_nat_diff)
    next
      case False
      with st r1 show ?thesis by (auto split: option.splits if_splits)
    qed
  qed
  with a e show ?thesis by auto
qed

theorem charge_limit_success_witness:
  "snd (charge_limit bat_env SYSFS_ROOT ''BAT0'' ''80'' bat_fs)
     (attr_path (snprintf_s 384 (SYSFS_ROOT @ SLASH # ''BAT0'')) end_attr) = Some (show_int 80 @ [NL])"
proof -
  have "charge_limit bat_env SYSFS_ROOT ''BAT0'' ''80'' bat_fs =
      (0, snd (charge_limit bat_env SYSFS_ROOT ''BAT0'' ''80'' bat_fs))"
    using bat_run by (simp add: prod_eq_iff)
  moreover have "fst (strtol ''80'') = 80" by (simp add: power_eval)
  ultimately show ?thesis using charge_limit_success by fastforce
qed

text \<open>
  Whatever the arguments and however the kernel answers, the helper changes at most the two
  threshold attributes of the named battery, its exit code is 0, 2, 3 or 4, and with 2 or 3 nothing
  is written. The battery directory is a direct child of the sysfs root.
\<close>

theorem charge_limit_confined:
  assumes "charge_limit e SYSFS_ROOT battery text f = (c, f')"
  shows "c \<in> {0, 2, 3, 4} \<and> (c \<in> {2, 3} \<longrightarrow> f' = f) \<and>
    (f' \<noteq> f \<longrightarrow> valid_name battery) \<and>
    (\<forall>p. f' p \<noteq> f p \<longrightarrow> p \<in> {SYSFS_ROOT @ SLASH # battery @ SLASH # start_attr,
                            SYSFS_ROOT @ SLASH # battery @ SLASH # end_attr} \<and>
            dirname (dirname p) = SYSFS_ROOT \<and> basename (dirname p) = battery)"
proof -
  let ?dir = "snprintf_s 384 (SYSFS_ROOT @ SLASH # battery)"
  let ?S = "attr_path ?dir start_attr" and ?E = "attr_path ?dir end_attr"
  have *: "c \<in> {0, 2, 3, 4} \<and> (c \<in> {2, 3} \<longrightarrow> f' = f) \<and> (f' \<noteq> f \<longrightarrow> valid_name battery) \<and>
      (\<forall>p. f' p \<noteq> f p \<longrightarrow> p \<in> {?S, ?E})"
    using assms write_attr_frame
    by (auto simp: charge_limit_def Let_def split: prod.splits if_splits option.splits bool.splits)
       (metis write_attr_frame)+
  have paths: "?S = SYSFS_ROOT @ SLASH # battery @ SLASH # start_attr"
      "?E = SYSFS_ROOT @ SLASH # battery @ SLASH # end_attr"
      "dirname (dirname ?S) = SYSFS_ROOT" "basename (dirname ?S) = battery"
      "dirname (dirname ?E) = SYSFS_ROOT" "basename (dirname ?E) = battery" if v: "valid_name battery"
  proof -
    have d: "?dir = SYSFS_ROOT @ SLASH # battery"
      using battery.valid_length [OF v] by (simp add: snprintf_s_def SYSFS_ROOT_def)
    show pS: "?S = SYSFS_ROOT @ SLASH # battery @ SLASH # start_attr"
      and pE: "?E = SYSFS_ROOT @ SLASH # battery @ SLASH # end_attr"
      using attr_path_fits [of start_attr "SYSFS_ROOT @ SLASH # battery"]
        attr_path_fits [of end_attr "SYSFS_ROOT @ SLASH # battery"] d
      by (simp_all add: start_attr_def end_attr_def)
    have "dirname ?S = SYSFS_ROOT @ SLASH # battery" "dirname ?E = SYSFS_ROOT @ SLASH # battery"
      using dirname_join [of start_attr "SYSFS_ROOT @ SLASH # battery"]
        dirname_join [of end_attr "SYSFS_ROOT @ SLASH # battery"]
      by (simp_all add: pS pE) (simp_all add: start_attr_def end_attr_def)
    then show "dirname (dirname ?S) = SYSFS_ROOT" "basename (dirname ?S) = battery"
      "dirname (dirname ?E) = SYSFS_ROOT" "basename (dirname ?E) = battery"
      using battery.confined [OF v, of "[]" SYSFS_ROOT] by simp_all
  qed
  show ?thesis
  proof (cases "valid_name battery")
    case True
    then show ?thesis using * paths by auto
  next
    case False
    then show ?thesis using * by auto
  qed
qed

theorem charge_limit_confined_witness:
  "snd (charge_limit bat_env SYSFS_ROOT ''BAT0'' ''80'' bat_fs) ''/etc/passwd'' = bat_fs ''/etc/passwd''"
proof -
  have "charge_limit bat_env SYSFS_ROOT ''BAT0'' ''80'' bat_fs =
      (0, snd (charge_limit bat_env SYSFS_ROOT ''BAT0'' ''80'' bat_fs))"
    using bat_run by (simp add: prod_eq_iff)
  from charge_limit_confined [OF this] show ?thesis
    by (auto simp: SYSFS_ROOT_def)
qed

end
