(* ===== verification/Parental_Helper.thy ===== *)
theory Parental_Helper
  imports Posix_Files
begin

text \<open>
  The privileged parental-control helper, \<^verbatim>\<open>src/services/parental-helper/main.c\<close>: it stores or
  removes the policy file of one user. GLib's key file parser is a parameter, \<open>kf_groups\<close>: the group
  names of a text, or \<open>None\<close> when the text is not a key file. The user database, the environment and
  the answers of the system calls are inputs.
\<close>

definition MAX_POLICY_SIZE :: nat where "MAX_POLICY_SIZE = 64 * 1024"
definition SINGULARITY_PARENTAL_DIR :: path where
  "SINGULARITY_PARENTAL_DIR = ''/var/lib/singularity/parental''"

record par_proc =
  pp_uid :: nat
  pp_euid :: nat
  pp_pkexec :: "string option"
  pp_env_dir :: "string option"
  pp_getpwnam :: "string \<Rightarrow> nat option"

definition unprivileged_test_mode :: "par_proc \<Rightarrow> bool" where
  "unprivileged_test_mode pr \<longleftrightarrow> pp_uid pr \<noteq> 0 \<and> pp_euid pr = pp_uid pr \<and> pp_pkexec pr = None"

definition policy_dir :: "par_proc \<Rightarrow> path" where
  "policy_dir pr =
     (case pp_env_dir pr of
        None \<Rightarrow> SINGULARITY_PARENTAL_DIR
      | Some v \<Rightarrow> if v \<noteq> [] \<and> unprivileged_test_mode pr then v else SINGULARITY_PARENTAL_DIR)"

definition user_char :: "char \<Rightarrow> bool" where
  "user_char c \<longleftrightarrow> (CHR ''a'' \<le> c \<and> c \<le> CHR ''z'') \<or> (CHR ''A'' \<le> c \<and> c \<le> CHR ''Z'') \<or>
     (CHR ''0'' \<le> c \<and> c \<le> CHR ''9'') \<or> c = CHR ''_'' \<or> c = CHR ''-'' \<or> c = CHR ''.''"

definition valid_user :: "par_proc \<Rightarrow> string \<Rightarrow> bool" where
  "valid_user pr name =
     (if length name = 0 \<or> length name > 64 \<or> hd name = CHR ''-'' \<or> hd name = CHR ''.'' then False
      else if \<not> list_all user_char name then False
      else if unprivileged_test_mode pr then True
      else (case pp_getpwnam pr name of None \<Rightarrow> False | Some uid \<Rightarrow> uid \<noteq> 0))"

definition policy_groups :: "string list" where
  "policy_groups = [''Apps'', ''Time'', ''Web'']"

definition valid_policy :: "(string \<Rightarrow> string list option) \<Rightarrow> string \<Rightarrow> bool" where
  "valid_policy kf_groups data =
     (case kf_groups data of
        None \<Rightarrow> False
      | Some names \<Rightarrow> list_all (\<lambda>n. n \<in> set policy_groups) names)"

text \<open>
  Every failing \<open>read\<close> ends the loop, an interrupted one too. The outer option of \<open>read_stdin\<close> says whether the loop is done, the inner one is the \<open>NULL\<close> of the code.
\<close>

fun read_stdin :: "rd list \<Rightarrow> string \<Rightarrow> string option option" where
  "read_stdin [] buf = None"
| "read_stdin (Rd_error # rs) buf = Some None"
| "read_stdin (Rd_EINTR # rs) buf = Some None"
| "read_stdin (Got chunk # rs) buf =
     (let n = take 4096 chunk; buf' = buf @ n
      in if n = [] then Some (Some buf)
         else if length buf' > MAX_POLICY_SIZE then Some None
         else read_stdin rs buf')"

text \<open>\<open>ps_mkstemp\<close> is the suffix \<open>mkstemp\<close> chose, if it could create the file.\<close>

record par_sys =
  ps_reads :: "rd list"
  ps_mkdir :: bool
  ps_mkstemp :: "string option"
  ps_writes :: "wr list"
  ps_fchmod :: bool
  ps_fsync :: bool
  ps_close :: bool
  ps_rename :: bool
  ps_unlink :: bool

definition policy_path :: "path \<Rightarrow> string \<Rightarrow> path" where
  "policy_path dir user = dir @ SLASH # user @ ''.conf''"

definition policy_tmp :: "path \<Rightarrow> string \<Rightarrow> string \<Rightarrow> path" where
  "policy_tmp dir user suffix = dir @ SLASH # CHR ''.'' # user @ ''.conf.'' @ suffix"

text \<open>
  \<open>write_policy\<close> from \<open>g_mkdir_with_parents\<close> on: the exit code is 0 exactly when the result is true.
  A \<open>write_all\<close> that is still waiting counts as not finished: the temporary file holds a part.
\<close>

definition store_policy :: "path \<Rightarrow> string \<Rightarrow> par_sys \<Rightarrow> string \<Rightarrow> fs \<Rightarrow> (bool \<times> fs) option" where
  "store_policy dir user sy data f =
     (if \<not> ps_mkdir sy then Some (False, f)
      else case ps_mkstemp sy of
             None \<Rightarrow> Some (False, f)
           | Some suffix \<Rightarrow>
               let path = policy_path dir user; tmp = policy_tmp dir user suffix
               in case write_all (ps_writes sy) [] data of
                    None \<Rightarrow> None
                  | Some (False, _, _) \<Rightarrow> Some (False, f(tmp := None))
                  | Some (True, content, _) \<Rightarrow>
                      if \<not> ps_fchmod sy \<or> \<not> ps_fsync sy \<or> \<not> ps_close sy \<or> \<not> ps_rename sy
                      then Some (False, f(tmp := None))
                      else Some (True, f(tmp := None, path \<mapsto> content)))"

definition write_policy ::
  "(string \<Rightarrow> string list option) \<Rightarrow> par_proc \<Rightarrow> par_sys \<Rightarrow> string \<Rightarrow> fs \<Rightarrow> (nat \<times> fs) option" where
  "write_policy kf_groups pr sy user f =
     (case read_stdin (ps_reads sy) [] of
        None \<Rightarrow> None
      | Some None \<Rightarrow> Some (1, f)
      | Some (Some data) \<Rightarrow>
          if \<not> valid_policy kf_groups data then Some (1, f)
          else case store_policy (policy_dir pr) user sy data f of
                 None \<Rightarrow> None
               | Some (True, f') \<Rightarrow> Some (0, f')
               | Some (False, f') \<Rightarrow> Some (1, f'))"

definition clear_policy :: "par_proc \<Rightarrow> par_sys \<Rightarrow> string \<Rightarrow> fs \<Rightarrow> nat \<times> fs" where
  "clear_policy pr sy user f =
     (let path = policy_path (policy_dir pr) user
      in if f path = None then (0, f)
         else if \<not> ps_unlink sy then (1, f)
         else (0, f(path := None)))"

definition parental_main ::
  "(string \<Rightarrow> string list option) \<Rightarrow> par_proc \<Rightarrow> par_sys \<Rightarrow> string list \<Rightarrow> fs \<Rightarrow> (nat \<times> fs) option" where
  "parental_main kf_groups pr sy args f =
     (case args of
        [cmd, user] \<Rightarrow>
          if cmd \<noteq> ''set'' \<and> cmd \<noteq> ''clear'' then Some (2, f)
          else if pp_euid pr \<noteq> 0 \<and> \<not> unprivileged_test_mode pr then Some (1, f)
          else if \<not> valid_user pr user then Some (1, f)
          else if cmd = ''set'' then write_policy kf_groups pr sy user f
          else Some (clear_policy pr sy user f)
      | _ \<Rightarrow> Some (2, f))"

section \<open>Lemmas\<close>

lemma user_char_plain: "user_char c \<Longrightarrow> c \<noteq> SLASH \<and> c \<noteq> NUL"
  by (auto simp: user_char_def less_eq_char_def)

interpretation user: name_guard "valid_user pr" 64 for pr
proof unfold_locales
  fix s
  assume v: "valid_user pr s"
  then have a: "\<And>c. c \<in> set s \<Longrightarrow> user_char c"
    by (auto simp: valid_user_def list_all_iff split: if_splits)
  show "s \<noteq> []" and "length s \<le> 64" and "hd s \<noteq> CHR ''.''"
    using v by (auto simp: valid_user_def split: if_splits)
  show "SLASH \<notin> set s" and "NUL \<notin> set s" using a user_char_plain by blast+
qed

lemma paths_differ: "policy_tmp dir user suffix \<noteq> policy_path dir user"
proof
  assume "policy_tmp dir user suffix = policy_path dir user"
  then have "length (policy_tmp dir user suffix) = length (policy_path dir user)" by simp
  then show False by (simp add: policy_tmp_def policy_path_def)
qed

lemma tmp_not_policy:
  assumes "valid_user pr other"
  shows "policy_tmp dir user suffix \<noteq> policy_path dir other"
  using user.valid_first [OF assms] user.valid_nonempty [OF assms]
  by (cases other) (auto simp: policy_tmp_def policy_path_def)

lemma store_policy_ok:
  "store_policy dir user sy data f = Some (True, f') \<Longrightarrow> f' (policy_path dir user) = Some data"
  by (auto simp: store_policy_def Let_def dest: write_all_complete
      split: if_splits option.splits bool.splits prod.splits)

lemma store_policy_fail:
  "store_policy dir user sy data f = Some (False, f') \<Longrightarrow>
     f' (policy_path dir user) = f (policy_path dir user)"
  using paths_differ [of dir user]
  by (auto simp: store_policy_def Let_def fun_upd_def split: if_splits option.splits bool.splits prod.splits)
     metis+

lemma store_policy_frame:
  assumes "store_policy dir user sy data f = Some (b, f')" and "p \<noteq> policy_path dir user"
    and "\<And>suffix. ps_mkstemp sy = Some suffix \<Longrightarrow> p \<noteq> policy_tmp dir user suffix"
  shows "f' p = f p"
  using assms
  by (auto simp: store_policy_def Let_def split: if_splits option.splits bool.splits prod.splits)

text \<open>
  A finished attempt, as the store of \<open>atomic_store\<close>; one that is still waiting has not touched the
  target.
\<close>

definition policy_attempt :: "path \<Rightarrow> string \<Rightarrow> par_sys \<Rightarrow> string \<Rightarrow> fs \<Rightarrow> bool \<times> fs" where
  "policy_attempt dir user sy data f =
     (case store_policy dir user sy data f of None \<Rightarrow> (False, f) | Some r \<Rightarrow> r)"

interpretation policy: atomic_store "policy_attempt dir user" "policy_path dir user"
  "\<lambda>sy. case ps_mkstemp sy of None \<Rightarrow> policy_path dir user | Some s \<Rightarrow> policy_tmp dir user s"
  for dir user
proof unfold_locales
  fix e d f f'
  show "f' (policy_path dir user) = Some d" if "policy_attempt dir user e d f = (True, f')"
    using that by (auto simp: policy_attempt_def dest: store_policy_ok split: option.splits)
  show "f' (policy_path dir user) = f (policy_path dir user)"
    if "policy_attempt dir user e d f = (False, f')"
    using that by (auto simp: policy_attempt_def dest: store_policy_fail split: option.splits)
next
  fix e d f b f' p
  assume a: "policy_attempt dir user e d f = (b, f')" and p: "p \<noteq> policy_path dir user"
    "p \<noteq> (case ps_mkstemp e of None \<Rightarrow> policy_path dir user | Some s \<Rightarrow> policy_tmp dir user s)"
  show "f' p = f p"
    using a store_policy_frame [of dir user e d f b f' p] p
    by (auto simp: policy_attempt_def split: option.splits)
qed

lemma read_stdin_bound:
  "read_stdin rs buf = Some (Some d) \<Longrightarrow> length buf \<le> MAX_POLICY_SIZE \<Longrightarrow> length d \<le> MAX_POLICY_SIZE"
  by (induction rs buf rule: read_stdin.induct) (auto simp: Let_def split: if_splits)

text \<open>The bytes before the first empty answer, each answer at most one chunk.\<close>

fun input_bytes :: "rd list \<Rightarrow> string" where
  "input_bytes (Got chunk # rs) = (if take 4096 chunk = [] then [] else take 4096 chunk @ input_bytes rs)"
| "input_bytes _ = []"

lemma read_stdin_content: "read_stdin rs buf = Some (Some d) \<Longrightarrow> d = buf @ input_bytes rs"
  by (induction rs buf rule: read_stdin.induct) (auto simp: Let_def split: if_splits)

lemma policy_dir_privileged: "\<not> unprivileged_test_mode pr \<Longrightarrow> policy_dir pr = SINGULARITY_PARENTAL_DIR"
  by (auto simp: policy_dir_def split: option.splits)

lemma write_policy_cases:
  assumes "write_policy kf_groups pr sy user f = Some (code, f')"
  obtains (refused) "code = 1" "f' = f"
  | (stored) d b gs where "d = input_bytes (ps_reads sy)" "length d \<le> MAX_POLICY_SIZE"
      "kf_groups d = Some gs" "set gs \<subseteq> {''Apps'', ''Time'', ''Web''}"
      "store_policy (policy_dir pr) user sy d f = Some (b, f')" "code = (if b then 0 else 1)"
proof (cases "read_stdin (ps_reads sy) []")
  case None
  with assms show ?thesis by (simp add: write_policy_def)
next
  case r: (Some x)
  show ?thesis
  proof (cases "\<exists>d. x = Some d \<and> valid_policy kf_groups d")
    case False
    with assms r have "code = 1 \<and> f' = f"
      by (auto simp: write_policy_def split: option.splits)
    then show ?thesis using refused by simp
  next
    case True
    then obtain d where d: "x = Some d" "valid_policy kf_groups d" by blast
    then obtain gs where gs: "kf_groups d = Some gs" "set gs \<subseteq> {''Apps'', ''Time'', ''Web''}"
      by (auto simp: valid_policy_def policy_groups_def list_all_iff split: option.splits)
    have w: "write_policy kf_groups pr sy user f =
        (case store_policy (policy_dir pr) user sy d f of
           None \<Rightarrow> None | Some (True, g) \<Rightarrow> Some (0, g) | Some (False, g) \<Rightarrow> Some (1, g))"
      using r d by (simp add: write_policy_def)
    obtain b where b: "store_policy (policy_dir pr) user sy d f = Some (b, f')" "code = (if b then 0 else 1)"
    proof (cases "store_policy (policy_dir pr) user sy d f")
      case None
      with w assms show ?thesis by simp
    next
      case (Some bg)
      then obtain b g where bg: "store_policy (policy_dir pr) user sy d f = Some (b, g)" by (cases bg) auto
      show ?thesis by (rule that [of b]) (use w assms bg in \<open>cases b; simp\<close>)+
    qed
    have rd: "read_stdin (ps_reads sy) [] = Some (Some d)" using r d by simp
    have "d = input_bytes (ps_reads sy)" and "length d \<le> MAX_POLICY_SIZE"
      using read_stdin_content [OF rd] read_stdin_bound [OF rd] by simp_all
    then show ?thesis using stored gs b by blast
  qed
qed

section \<open>Properties\<close>

text \<open>
  C38: a run of \<open>set\<close> that reports success has replaced the policy by exactly the bytes of its
  standard input, at most 64 KiB of them, which parse as a key file whose groups are only Apps, Time
  and Web; every run that reports failure has left the old policy as it was.
\<close>

theorem parental_set_atomic:
  assumes "parental_main kf_groups pr sy [''set'', user] f = Some (code, f')"
  shows "if code = 0
    then f' (policy_path (policy_dir pr) user) = Some (input_bytes (ps_reads sy)) \<and>
      length (input_bytes (ps_reads sy)) \<le> MAX_POLICY_SIZE \<and>
      (\<exists>gs. kf_groups (input_bytes (ps_reads sy)) = Some gs \<and> set gs \<subseteq> {''Apps'', ''Time'', ''Web''})
    else code = 1 \<and> f' (policy_path (policy_dir pr) user) = f (policy_path (policy_dir pr) user)"
proof -
  consider "code = 1" "f' = f" | "write_policy kf_groups pr sy user f = Some (code, f')"
    using assms by (auto simp: parental_main_def split: if_splits)
  then show ?thesis
  proof cases
    case 1
    then show ?thesis by simp
  next
    case 2
    then show ?thesis by (cases rule: write_policy_cases) (auto dest: store_policy_ok store_policy_fail)
  qed
qed

definition sample_proc :: par_proc where
  "sample_proc = \<lparr>pp_uid = 0, pp_euid = 0, pp_pkexec = Some ''1000'', pp_env_dir = Some ''/tmp/x'',
     pp_getpwnam = [''kid'' \<mapsto> 1001, ''root'' \<mapsto> 0]\<rparr>"

definition sample_sys :: par_sys where
  "sample_sys = \<lparr>ps_reads = [Got ''[Apps]'', Got []], ps_mkdir = True, ps_mkstemp = Some ''a1b2c3'',
     ps_writes = [Wr_EINTR, Wrote 4, Wrote 2], ps_fchmod = True, ps_fsync = True, ps_close = True,
     ps_rename = True, ps_unlink = True\<rparr>"

definition sample_groups :: "string \<Rightarrow> string list option" where
  "sample_groups s = (if s = ''[Apps]'' then Some [''Apps''] else None)"

lemmas par_eval = sample_proc_def sample_sys_def sample_groups_def parental_main_def write_policy_def
  valid_user_def user_char_def unprivileged_test_mode_def MAX_POLICY_SIZE_def valid_policy_def
  policy_groups_def store_policy_def policy_dir_def SINGULARITY_PARENTAL_DIR_def policy_path_def
  policy_tmp_def

theorem parental_set_atomic_witness:
  "\<exists>f'. parental_main sample_groups sample_proc sample_sys [''set'', ''kid''] (\<lambda>_. None) = Some (0, f') \<and>
     f' ''/var/lib/singularity/parental/kid.conf'' = Some ''[Apps]''"
proof -
  obtain f' where r: "parental_main sample_groups sample_proc sample_sys [''set'', ''kid''] (\<lambda>_. None) = Some (0, f')"
    by (simp add: par_eval)
  moreover from parental_set_atomic [OF r] have "f' ''/var/lib/singularity/parental/kid.conf'' = Some ''[Apps]''"
    by (simp add: par_eval)
  ultimately show ?thesis by blast
qed

text \<open>
  C39: run with privileges, no argument and no environment variable can make the helper touch
  anything but the policy file of an existing non-root user, directly inside the fixed policy
  directory, and a hidden temporary file beside it; the policies of other users stay as they are.
\<close>

theorem parental_privileged_confined:
  assumes "\<not> unprivileged_test_mode pr" and "parental_main kf_groups pr sy args f = Some (code, f')"
    and "\<And>s. ps_mkstemp sy = Some s \<Longrightarrow> SLASH \<notin> set s"
    and "f' p \<noteq> f p"
  shows "\<exists>cmd user uid. args = [cmd, user] \<and> pp_euid pr = 0 \<and> pp_getpwnam pr user = Some uid \<and> uid \<noteq> 0 \<and>
    dirname p = SINGULARITY_PARENTAL_DIR \<and>
    (p = policy_path SINGULARITY_PARENTAL_DIR user \<or>
     (\<exists>suffix. ps_mkstemp sy = Some suffix \<and> p = policy_tmp SINGULARITY_PARENTAL_DIR user suffix)) \<and>
    (\<forall>other. valid_user pr other \<and> other \<noteq> user \<longrightarrow> p \<noteq> policy_path SINGULARITY_PARENTAL_DIR other)"
proof -
  let ?D = SINGULARITY_PARENTAL_DIR
  obtain cmd user where args: "args = [cmd, user]" and v: "valid_user pr user" and root: "pp_euid pr = 0"
    and run: "write_policy kf_groups pr sy user f = Some (code, f') \<or> clear_policy pr sy user f = (code, f')"
    using assms by (fastforce simp: parental_main_def split: list.splits if_splits)
  have p: "p = policy_path ?D user \<or> (\<exists>s. ps_mkstemp sy = Some s \<and> p = policy_tmp ?D user s)"
    using run
  proof
    assume "clear_policy pr sy user f = (code, f')"
    then show ?thesis using assms(4) policy_dir_privileged [OF assms(1)]
      by (auto simp: clear_policy_def Let_def split: if_splits)
  next
    assume "write_policy kf_groups pr sy user f = Some (code, f')"
    then show ?thesis
    proof (cases rule: write_policy_cases)
      case refused
      then show ?thesis using assms(4) by simp
    next
      case (stored d b gs)
      from store_policy_frame [OF stored(5), of p] show ?thesis
        using assms(4) policy_dir_privileged [OF assms(1)] by auto
    qed
  qed
  have slash: "SLASH \<notin> set user" by (rule user.valid_no_slash [OF v])
  have dir: "dirname p = ?D"
    using p assms(3) slash by (auto simp: policy_path_def policy_tmp_def intro!: dirname_join)
  have "p \<noteq> policy_path ?D other" if "valid_user pr other" "other \<noteq> user" for other
  proof
    assume eq: "p = policy_path ?D other"
    then have "p = policy_path ?D user" using p tmp_not_policy [OF that(1), of ?D user] by metis
    with eq that(2) show False by (simp add: policy_path_def)
  qed
  moreover obtain uid where "pp_getpwnam pr user = Some uid" "uid \<noteq> 0"
    using v assms(1) by (auto simp: valid_user_def split: if_splits option.splits)
  ultimately show ?thesis using args root p dir by auto
qed

theorem parental_privileged_confined_witness:
  "\<exists>user uid. pp_getpwnam sample_proc user = Some uid \<and> uid \<noteq> 0 \<and>
     dirname ''/var/lib/singularity/parental/kid.conf'' = SINGULARITY_PARENTAL_DIR"
proof -
  obtain f' where r: "parental_main sample_groups sample_proc sample_sys [''set'', ''kid''] (\<lambda>_. None) = Some (0, f')"
    and c: "f' ''/var/lib/singularity/parental/kid.conf'' = Some ''[Apps]''"
    by (simp add: par_eval)
  have n: "\<not> unprivileged_test_mode sample_proc" by (simp add: par_eval)
  show ?thesis
    using parental_privileged_confined [OF n r, of "''/var/lib/singularity/parental/kid.conf''"] c
    by (auto simp: sample_sys_def)
qed

end
