(* ===== verification/Crash_Handler.thy ===== *)
theory Crash_Handler
  imports Posix_Files
begin

text \<open>
  The crash handler, \<^verbatim>\<open>src/services/crash-handler/main.c\<close>, which the kernel starts with the core
  image on standard input. It stores a report and possibly the core in the crashing user's spool
  directory and keeps the number of both bounded. The user's directory is a map from names to
  contents; \<open>readdir\<close>'s order, the contents under \<^verbatim>\<open>/proc\<close> and the answers of the system calls are
  inputs.
\<close>

definition PATH_MAX :: nat where "PATH_MAX = 4096"

record config =
  spool_dir :: path
  enabled :: bool
  min_uid :: int
  keep_core :: bool
  max_core_mb :: int
  max_reports :: int
  max_cores :: int

section \<open>Configuration\<close>

definition trim_end :: "char \<Rightarrow> bool" where
  "trim_end c \<longleftrightarrow> c = NL \<or> c = CR \<or> c = SPC \<or> c = TAB"

definition trim :: "string \<Rightarrow> string" where
  "trim s = dropWhile (\<lambda>c. c = SPC \<or> c = TAB) (rev (dropWhile trim_end (rev s)))"

definition ascii_lower :: "char \<Rightarrow> char" where
  "ascii_lower c = (if CHR ''A'' \<le> c \<and> c \<le> CHR ''Z'' then char_of (of_char c + (32 :: nat)) else c)"

definition strcaseeq :: "string \<Rightarrow> string \<Rightarrow> bool" where
  "strcaseeq a b \<longleftrightarrow> map ascii_lower a = map ascii_lower b"

definition parse_bool :: "string \<Rightarrow> bool" where
  "parse_bool value \<longleftrightarrow> strcaseeq value ''true'' \<or> value = ''1'' \<or> strcaseeq value ''yes''"

definition CRASH_CONFIG_FILE :: path where
  "CRASH_CONFIG_FILE = ''/etc/xdg/singularity/crash-reporter.conf''"
definition CRASH_SPOOL_DIR :: path where
  "CRASH_SPOOL_DIR = ''/var/lib/singularity/crashes''"

definition config_path :: "string option \<Rightarrow> nat \<Rightarrow> nat \<Rightarrow> path" where
  "config_path override_env uid euid =
     (case override_env of
        None \<Rightarrow> CRASH_CONFIG_FILE
      | Some v \<Rightarrow> if v \<noteq> [] \<and> euid \<noteq> 0 \<and> uid = euid then v else CRASH_CONFIG_FILE)"

definition default_config :: config where
  "default_config = \<lparr>spool_dir = CRASH_SPOOL_DIR, enabled = True, min_uid = 1000, keep_core = True,
     max_core_mb = 256, max_reports = 20, max_cores = 3\<rparr>"

definition handler_key :: "string \<Rightarrow> string \<Rightarrow> config \<Rightarrow> config" where
  "handler_key key value cfg =
     (if key = ''Enabled'' then cfg\<lparr>enabled := parse_bool value\<rparr>
      else if key = ''MinUid'' then cfg\<lparr>min_uid := fst (strtol value)\<rparr>
      else if key = ''KeepCore'' then cfg\<lparr>keep_core := parse_bool value\<rparr>
      else if key = ''MaxCoreSizeMB'' then cfg\<lparr>max_core_mb := fst (strtol value)\<rparr>
      else if key = ''MaxReports'' then cfg\<lparr>max_reports := fst (strtol value)\<rparr>
      else if key = ''MaxCores'' then cfg\<lparr>max_cores := fst (strtol value)\<rparr>
      else cfg)"

text \<open>One round of the loop over the lines, on the current group and configuration.\<close>

definition config_line :: "string \<Rightarrow> string \<times> config \<Rightarrow> string \<times> config" where
  "config_line buf gc =
     (case gc of (grp, cfg) \<Rightarrow>
      let line = trim (cstr buf)
      in if line = [] \<or> hd line = CHR ''#'' \<or> hd line = CHR '';'' then (grp, cfg)
         else if hd line = CHR ''['' then
           if CHR '']'' \<in> set line
           then (take 127 (tl (takeWhile (\<lambda>c. c \<noteq> CHR '']'') line)), cfg)
           else (grp, cfg)
         else if CHR ''='' \<notin> set line then (grp, cfg)
         else
           let key = trim (takeWhile (\<lambda>c. c \<noteq> CHR ''='') line);
               value = trim (tl (dropWhile (\<lambda>c. c \<noteq> CHR ''='') line))
           in if grp = ''Crash Reporter'' \<and> key = ''SpoolDir'' \<and> value \<noteq> [] \<and> hd value = SLASH
              then (grp, cfg\<lparr>spool_dir := snprintf_s PATH_MAX value\<rparr>)
              else if grp = ''Handler'' then (grp, handler_key key value cfg)
              else (grp, cfg))"

definition clamp_config :: "config \<Rightarrow> config" where
  "clamp_config cfg =
     cfg\<lparr>max_reports := max 1 (max_reports cfg), max_cores := max 0 (max_cores cfg),
         max_core_mb := max 0 (max_core_mb cfg)\<rparr>"

definition load_config :: "string option \<Rightarrow> config" where
  "load_config content =
     (case content of
        None \<Rightarrow> default_config
      | Some text \<Rightarrow> clamp_config (snd (fold config_line (fgets_lines 1024 text) ([], default_config))))"

definition parse_long :: "string \<Rightarrow> int option" where
  "parse_long s =
     (if s = [] then None
      else case strtol s of (v, rest, erange) \<Rightarrow> if erange \<or> rest \<noteq> [] then None else Some v)"

section \<open>What is known about the process\<close>

definition sanitize :: "string \<Rightarrow> string" where
  "sanitize s = map (\<lambda>c. if c < CHR 0x20 \<or> c = CHR 0x7F \<or> c = BSLASH then CHR ''?'' else c) (cstr s)"

text \<open>\<open>read_proc\<close>: the bytes of the file that fit in the buffer; \<open>None\<close> when it cannot be opened.\<close>

definition read_proc :: "string option \<Rightarrow> nat \<Rightarrow> string option" where
  "read_proc content bufsize = map_option (take (bufsize - 1)) content"

definition read_executable :: "string option \<Rightarrow> nat \<Rightarrow> string" where
  "read_executable link bufsize =
     (case link of
        None \<Rightarrow> []
      | Some target \<Rightarrow>
          let out = cstr (take (bufsize - 1) target); deleted = '' (deleted)''
          in sanitize
               (if length out > length deleted \<and> drop (length out - length deleted) out = deleted
                then take (length out - length deleted) out else out))"

definition read_cmdline :: "string option \<Rightarrow> nat \<Rightarrow> string" where
  "read_cmdline content bufsize =
     (case read_proc content bufsize of
        None \<Rightarrow> []
      | Some out \<Rightarrow> if out = [] then [] else sanitize (trim (map (\<lambda>c. if c = NUL then SPC else c) out)))"

definition desktop_key :: string where "desktop_key = ''GIO_LAUNCHED_DESKTOP_FILE=''"

function find_desktop :: "string \<Rightarrow> nat \<Rightarrow> string" where
  "find_desktop env bufsize =
     (if env = [] then []
      else
        let item = takeWhile (\<lambda>c. c \<noteq> NUL) env
        in if length item > length desktop_key \<and> take (length desktop_key) item = desktop_key
           then sanitize (snprintf_s bufsize (drop (length desktop_key) item))
           else find_desktop (drop (length item + 1) env) bufsize)"
  by pat_completeness auto
termination
  by (relation "measure (\<lambda>(env, bufsize). length env)") auto

declare find_desktop.simps [simp del]

definition read_desktop_file :: "string option \<Rightarrow> nat \<Rightarrow> string" where
  "read_desktop_file content bufsize =
     (case read_proc content 65536 of None \<Rightarrow> [] | Some env \<Rightarrow> find_desktop env bufsize)"

section \<open>The spool directory\<close>

text \<open>
  \<open>open_user_dir\<close>: the steps that can fail, and the owner \<open>fstat\<close> reports. The result is the path
  of the directory and its owner afterwards.
\<close>

record dir_sys =
  ds_mkdir :: bool
  ds_open :: bool
  ds_mkdirat :: bool
  ds_openat :: bool
  ds_fstat :: "nat option"
  ds_fchown :: bool

definition open_user_dir :: "dir_sys \<Rightarrow> config \<Rightarrow> nat \<Rightarrow> nat \<Rightarrow> (path \<times> nat) option" where
  "open_user_dir ds cfg euid uid =
     (let name = snprintf_s 32 (show_nat uid); dir = spool_dir cfg @ SLASH # name
      in if \<not> ds_mkdir ds then None
         else if \<not> ds_open ds then None
         else if \<not> ds_mkdirat ds then None
         else if \<not> ds_openat ds then None
         else case ds_fstat ds of
                None \<Rightarrow> None
              | Some owner \<Rightarrow>
                  if euid = 0 then
                    if owner \<noteq> uid \<and> \<not> ds_fchown ds then None else Some (dir, uid)
                  else if owner \<noteq> euid then None
                  else Some (dir, owner))"

text \<open>
  \<open>prune\<close>: the loop over \<open>readdir\<close> with a list that grows by \<open>realloc\<close> (which may refuse a
  capacity), then the removal of all but the last \<open>keep\<close> names in \<open>strcmp\<close> order.
\<close>

definition keepable :: "string \<Rightarrow> string \<Rightarrow> bool" where
  "keepable suffix n \<longleftrightarrow>
     \<not> (length n \<le> length suffix \<or> drop (length n - length suffix) n \<noteq> suffix \<or> length n \<ge> 256)"

fun collect :: "(nat \<Rightarrow> bool) \<Rightarrow> string \<Rightarrow> nat \<Rightarrow> string list \<Rightarrow> string list \<Rightarrow> string list" where
  "collect grow suffix cap found [] = found"
| "collect grow suffix cap found (n # ns) =
     (if \<not> keepable suffix n then collect grow suffix cap found ns
      else if length found = cap then
        let ncap = (if cap \<noteq> 0 then cap * 2 else 32)
        in if \<not> grow ncap then found
           else collect grow suffix ncap (found @ [snprintf_s 256 n]) ns
      else collect grow suffix cap (found @ [snprintf_s 256 n]) ns)"

record prune_sys =
  pr_open :: bool
  pr_readdir :: "fs \<Rightarrow> string list"
  pr_grow :: "nat \<Rightarrow> bool"
  pr_unlink :: "string \<Rightarrow> bool"

definition size_t_of :: "int \<Rightarrow> nat" where
  "size_t_of k = nat (k mod 2 ^ 64)"

definition unlink_one :: "(string \<Rightarrow> bool) \<Rightarrow> string \<Rightarrow> fs \<Rightarrow> fs" where
  "unlink_one ok n d = (if ok n then d(n := None) else d)"

definition prune :: "prune_sys \<Rightarrow> string \<Rightarrow> int \<Rightarrow> fs \<Rightarrow> fs" where
  "prune sy suffix keep d =
     (if \<not> pr_open sy then d
      else
        let found = collect (pr_grow sy) suffix 0 [] (pr_readdir sy d)
        in if length found > size_t_of keep
           then fold (unlink_one (pr_unlink sy)) (take (length found - size_t_of keep) (sort found)) d
           else d)"

record file_sys =
  fs_open :: bool
  fs_reads :: "rd list"
  fs_writes :: "wr list"
  fs_fchown :: bool
  fs_rename :: bool

definition tmp_name :: "string \<Rightarrow> string" where
  "tmp_name name = snprintf_s 300 (name @ ''.tmp'')"

text \<open>
  The copy loop of \<open>write_core\<close>: the answers of \<open>read\<close> and \<open>write\<close> still to come, the byte count
  and the bytes in the file. \<open>None\<close> means that the loop still waits for an answer.
\<close>

fun copy_core :: "int \<Rightarrow> rd list \<Rightarrow> wr list \<Rightarrow> int \<Rightarrow> string \<Rightarrow> (bool \<times> int \<times> string) option" where
  "copy_core max_bytes [] ws tot acc = None"
| "copy_core max_bytes (Rd_EINTR # rs) ws tot acc = copy_core max_bytes rs ws tot acc"
| "copy_core max_bytes (Rd_error # rs) ws tot acc = Some (False, tot, acc)"
| "copy_core max_bytes (Got chunk # rs) ws tot acc =
     (let buf = take 65536 chunk; tot' = tot + int (length buf)
      in if buf = [] then Some (True, tot, acc)
         else if tot' > max_bytes then Some (False, tot', acc)
         else case write_all ws acc buf of
                None \<Rightarrow> None
              | Some (False, acc', _) \<Rightarrow> Some (False, tot', acc')
              | Some (True, acc', ws') \<Rightarrow> copy_core max_bytes rs ws' tot' acc')"

definition write_core :: "file_sys \<Rightarrow> nat \<Rightarrow> string \<Rightarrow> int \<Rightarrow> fs \<Rightarrow> (bool \<times> fs) option" where
  "write_core sy euid name max_bytes d =
     (let tmp = tmp_name name
      in if \<not> fs_open sy \<or> d tmp \<noteq> None then Some (False, d)
         else case copy_core max_bytes (fs_reads sy) (fs_writes sy) 0 [] of
                None \<Rightarrow> None
              | Some (ok0, tot, content) \<Rightarrow>
                  let ok = (ok0 \<and> \<not> (tot > 0 \<and> euid = 0 \<and> \<not> fs_fchown sy))
                  in if \<not> ok \<or> tot = 0 then Some (False, d(tmp := None))
                     else if \<not> fs_rename sy then Some (False, d(tmp := None))
                     else Some (True, d(tmp := None, name \<mapsto> content)))"

definition write_report :: "file_sys \<Rightarrow> nat \<Rightarrow> string \<Rightarrow> string \<Rightarrow> fs \<Rightarrow> (bool \<times> fs) option" where
  "write_report sy euid name content d =
     (let tmp = tmp_name name
      in if \<not> fs_open sy \<or> d tmp \<noteq> None then Some (False, d)
         else case write_all (fs_writes sy) [] content of
                None \<Rightarrow> None
              | Some (ok0, text, _) \<Rightarrow>
                  let ok = (ok0 \<and> \<not> (euid = 0 \<and> \<not> fs_fchown sy))
                  in if \<not> ok \<or> \<not> fs_rename sy then Some (False, d(tmp := None))
                     else Some (True, d(tmp := None, name \<mapsto> text)))"

section \<open>The handler\<close>

record crash_args =
  ca_pid :: int
  ca_uid :: int
  ca_gid :: int
  ca_sig :: int
  ca_when :: int
  ca_dumpable :: int
  ca_comm :: "string option"

definition parse_args :: "string list \<Rightarrow> crash_args option" where
  "parse_args argv =
     (case argv of
        p # u # g # s # w # dm # rest \<Rightarrow>
          (case (parse_long p, parse_long u, parse_long g, parse_long s, parse_long w, parse_long dm) of
             (Some pid, Some uid, Some gid, Some sig, Some when, Some dumpable) \<Rightarrow>
               if pid \<le> 0 \<or> uid < 0 \<or> gid < 0 then None
               else Some \<lparr>ca_pid = pid, ca_uid = uid, ca_gid = gid, ca_sig = sig, ca_when = when,
                          ca_dumpable = dumpable,
                          ca_comm = (case rest of [] \<Rightarrow> None | c # _ \<Rightarrow> Some c)\<rparr>
           | _ \<Rightarrow> None)
      | _ \<Rightarrow> None)"

definition uid_t_of :: "int \<Rightarrow> nat" where
  "uid_t_of u = nat (u mod 2 ^ 32)"

definition base_name :: "int \<Rightarrow> int \<Rightarrow> string" where
  "base_name when pid = snprintf_s 96 (show_padded 10 when @ ''-'' @ show_int pid)"

definition report_text :: "int \<Rightarrow> int \<Rightarrow> int \<Rightarrow> int \<Rightarrow> string \<Rightarrow> string \<Rightarrow> string \<Rightarrow> string \<Rightarrow> string" where
  "report_text pid uid sig when exe cmdline desktop core_name =
     snprintf_s 8192
      (''[Crash]'' @ [NL] @ ''Source=handler'' @ [NL] @
       ''Pid='' @ show_int pid @ [NL] @ ''Uid='' @ show_int uid @ [NL] @
       ''Signal='' @ show_int sig @ [NL] @ ''Time='' @ show_int when @ [NL] @
       ''Executable='' @ exe @ [NL] @ ''CommandLine='' @ cmdline @ [NL] @
       ''DesktopFile='' @ desktop @ [NL] @ ''Core='' @ core_name @ [NL])"

text \<open>A \<open>long\<close> product, wrapped to 64 bits as two's complement arithmetic does.\<close>

definition wrap64 :: "int \<Rightarrow> int" where
  "wrap64 v = (v + 2 ^ 63) mod 2 ^ 64 - 2 ^ 63"

record crash_env =
  ce_euid :: nat
  ce_config :: "string option"
  ce_dir :: dir_sys
  ce_exe :: "string option"
  ce_cmdline :: "string option"
  ce_environ :: "string option"
  ce_prune_reports :: prune_sys
  ce_core :: file_sys
  ce_prune_cores :: prune_sys
  ce_report :: file_sys

text \<open>
  The part of \<open>main\<close> that keeps the core: the new \<open>core_name\<close> (empty when none was stored) and the
  directory.
\<close>

definition store_core :: "crash_env \<Rightarrow> config \<Rightarrow> crash_args \<Rightarrow> fs \<Rightarrow> (string \<times> fs) option" where
  "store_core e cfg a d =
     (if keep_core cfg \<and> max_cores cfg > 0 \<and> ca_dumpable a = 1 \<and> max_core_mb cfg > 0 then
        let candidate = snprintf_s 128 (base_name (ca_when a) (ca_pid a) @ ''.core'')
        in case write_core (ce_core e) (ce_euid e) candidate (wrap64 (max_core_mb cfg * 1024 * 1024)) d of
             None \<Rightarrow> None
           | Some (True, d') \<Rightarrow> Some (snprintf_s 128 candidate, prune (ce_prune_cores e) ''.core'' (max_cores cfg) d')
           | Some (False, d') \<Rightarrow> Some ([], d')
      else Some ([], d))"

definition describe_executable :: "crash_env \<Rightarrow> crash_args \<Rightarrow> string" where
  "describe_executable e a =
     (let exe = read_executable (ce_exe e) PATH_MAX
      in case ca_comm a of
           Some comm \<Rightarrow> if exe = [] then sanitize (snprintf_s PATH_MAX comm) else exe
         | None \<Rightarrow> exe)"

definition crash_main :: "crash_env \<Rightarrow> string list \<Rightarrow> fs \<Rightarrow> (nat \<times> fs) option" where
  "crash_main e argv d =
     (case parse_args argv of
        None \<Rightarrow> Some (2, d)
      | Some a \<Rightarrow>
          let cfg = load_config (ce_config e); uid = uid_t_of (ca_uid a)
          in if \<not> enabled cfg \<or> ca_uid a < min_uid cfg then Some (0, d)
             else if ce_euid e \<noteq> 0 \<and> ce_euid e \<noteq> uid then Some (1, d)
             else if open_user_dir (ce_dir e) cfg (ce_euid e) uid = None then Some (1, d)
             else
               let exe = describe_executable e a;
                   cmdline = read_cmdline (ce_cmdline e) 2048;
                   desktop = read_desktop_file (ce_environ e) PATH_MAX;
                   base = base_name (ca_when a) (ca_pid a);
                   d1 = prune (ce_prune_reports e) ''.crash'' (max_reports cfg - 1) d
               in case store_core e cfg a d1 of
                    None \<Rightarrow> None
                  | Some (core_name, d2) \<Rightarrow>
                      let report = report_text (ca_pid a) (ca_uid a) (ca_sig a) (ca_when a)
                                     exe cmdline desktop core_name;
                          report_name = snprintf_s 128 (base @ ''.crash'')
                      in case write_report (ce_report e) (ce_euid e) report_name report d2 of
                           None \<Rightarrow> None
                         | Some (ok, d3) \<Rightarrow> Some (if ok then 0 else 1, d3))"

section \<open>Lemmas on the configuration and the process description\<close>

definition config_ok :: "config \<Rightarrow> bool" where
  "config_ok cfg \<longleftrightarrow> 1 \<le> max_reports cfg \<and> 0 \<le> max_cores cfg \<and> 0 \<le> max_core_mb cfg \<and>
     max_reports cfg \<le> LONG_MAX \<and> max_cores cfg \<le> LONG_MAX \<and> spool_dir cfg \<noteq> [] \<and>
     hd (spool_dir cfg) = SLASH \<and> length (spool_dir cfg) < PATH_MAX"

definition long_config :: "string \<times> config \<Rightarrow> bool" where
  "long_config gc \<longleftrightarrow> max_reports (snd gc) \<le> LONG_MAX \<and> max_cores (snd gc) \<le> LONG_MAX \<and>
     spool_dir (snd gc) \<noteq> [] \<and> hd (spool_dir (snd gc)) = SLASH \<and> length (spool_dir (snd gc)) < PATH_MAX"

lemma fst_strtol_le: "fst (strtol s) \<le> LONG_MAX"
  by (cases "strtol s") (auto dest: strtol_range)

lemma handler_key_long: "long_config (g, cfg) \<Longrightarrow> long_config (g', handler_key k v cfg)"
  by (auto simp: long_config_def handler_key_def fst_strtol_le)

lemma spool_dir_long:
  assumes "long_config (g, cfg)" and "v \<noteq> []" and "hd v = SLASH"
  shows "long_config (g', cfg\<lparr>spool_dir := snprintf_s PATH_MAX v\<rparr>)"
  using assms by (auto simp: long_config_def snprintf_s_def PATH_MAX_def hd_take)

lemma config_line_long: "long_config gc \<Longrightarrow> long_config (config_line l gc)"
proof -
  assume a: "long_config gc"
  obtain g cfg where gc: "gc = (g, cfg)" by (cases gc)
  have same: "long_config (g', cfg)" for g' using a by (simp add: long_config_def gc)
  show ?thesis
    unfolding config_line_def gc Let_def prod.case
    using handler_key_long [OF a [unfolded gc]] spool_dir_long [OF a [unfolded gc]] same
    by (simp only: split: if_split) blast
qed

interpretation config_loop: event_machine config_line long_config
  by unfold_locales (rule config_line_long)

lemma load_config_ok: "config_ok (load_config c)"
proof -
  have d: "long_config ([], default_config)"
    by (simp add: long_config_def default_config_def LONG_MAX_def CRASH_SPOOL_DIR_def PATH_MAX_def)
  show ?thesis
  proof (cases c)
    case None
    then show ?thesis
      by (simp add: load_config_def config_ok_def default_config_def LONG_MAX_def CRASH_SPOOL_DIR_def PATH_MAX_def)
  next
    case (Some t)
    have "long_config (fold config_line (fgets_lines 1024 t) ([], default_config))"
      by (rule config_loop.run_inv [OF d])
    then show ?thesis
      by (auto simp: Some load_config_def clamp_config_def config_ok_def long_config_def LONG_MAX_def)
  qed
qed

definition plain_char :: "char \<Rightarrow> bool" where
  "plain_char c \<longleftrightarrow> \<not> (c < CHR 0x20 \<or> c = CHR 0x7F \<or> c = BSLASH)"

definition plain :: "string \<Rightarrow> bool" where
  "plain s \<longleftrightarrow> list_all plain_char s"

lemma sanitize_plain [simp]: "plain (sanitize s)"
  by (auto simp: plain_def plain_char_def list_all_iff sanitize_def less_char_def)

lemma plain_simps [simp]:
  "plain []" "plain (c # s) \<longleftrightarrow> plain_char c \<and> plain s" "plain (a @ b) \<longleftrightarrow> plain a \<and> plain b"
  by (simp_all add: plain_def)

lemma plain_take [simp]: "plain a \<Longrightarrow> plain (take n a)"
  by (auto simp: plain_def list_all_iff dest: in_set_takeD)

lemma plain_no_newline: "plain s \<Longrightarrow> NL \<notin> set s \<and> NUL \<notin> set s"
proof -
  assume "plain s"
  then have "\<And>c. c \<in> set s \<Longrightarrow> plain_char c" by (simp add: plain_def list_all_iff)
  moreover have "\<not> plain_char NL" "\<not> plain_char NUL" by (simp_all add: plain_char_def less_char_def)
  ultimately show ?thesis by blast
qed

lemma is_digit_plain: "is_digit c \<Longrightarrow> plain_char c"
proof -
  assume "is_digit c"
  then have b: "48 \<le> (of_char c :: nat)" "of_char c \<le> (57 :: nat)" by (simp_all add: is_digit_bounds)
  then have "c \<noteq> CHR 0x7F" "c \<noteq> BSLASH" by auto
  with b show ?thesis by (simp add: plain_char_def less_char_def)
qed

lemma digits_plain: "(\<And>c. c \<in> set s \<Longrightarrow> is_digit c) \<Longrightarrow> plain s"
  unfolding plain_def list_all_iff using is_digit_plain by blast

lemma minus_plain [simp]: "plain_char (CHR ''-'')"
  by (simp add: plain_char_def less_char_def)

lemma show_int_plain [simp]: "plain (show_int i)"
proof -
  have "plain (show_nat n)" for n by (rule digits_plain) (rule show_nat_digits)
  then show ?thesis by (simp add: show_int_def)
qed

lemma show_padded_plain [simp]: "plain (show_padded w i)"
proof -
  have "plain (pad0 v (show_nat n))" for v n by (rule digits_plain) (rule pad0_digits)
  then show ?thesis by (simp add: show_padded_def)
qed

lemma read_executable_plain [simp]: "plain (read_executable l n)"
  by (auto simp: read_executable_def Let_def split: option.splits)

lemma read_cmdline_plain [simp]: "plain (read_cmdline l n)"
  by (auto simp: read_cmdline_def split: option.splits)

lemma find_desktop_plain [simp]: "plain (find_desktop env n)"
proof (induction env n rule: find_desktop.induct)
  case (1 env n)
  then show ?case by (subst find_desktop.simps) (auto simp: Let_def)
qed

lemma read_desktop_file_plain [simp]: "plain (read_desktop_file l n)"
  by (auto simp: read_desktop_file_def split: option.splits)

lemma describe_executable_plain [simp]: "plain (describe_executable e a)"
  by (auto simp: describe_executable_def Let_def split: option.splits)

lemma base_name_plain [simp]: "plain (base_name w p)"
  unfolding base_name_def snprintf_s_def by (rule plain_take) simp

section \<open>Lemmas on pruning\<close>

lemma collect_all:
  assumes "\<And>n. grow n"
  shows "collect grow suffix cap found ns = found @ filter (keepable suffix) ns"
  using assms
proof (induction grow suffix cap found ns rule: collect.induct)
  case (2 grow suffix cap found n ns)
  then show ?case by (auto simp: Let_def keepable_def snprintf_s_def)
qed simp

lemma unlink_fold:
  assumes "\<And>n. ok n"
  shows "fold (unlink_one ok) ns d = (\<lambda>n. if n \<in> set ns then None else d n)"
  using assms by (induction ns arbitrary: d) (auto simp: unlink_one_def)

text \<open>The first names of a sorted list are below the others.\<close>

lemma sorted_split_less:
  assumes "distinct xs" and "x \<in> set (take m (sort xs))" and "y \<in> set (drop m (sort xs))"
  shows "x < (y :: string)"
proof -
  have "sorted (take m (sort xs) @ drop m (sort xs))" by simp
  then have "x \<le> y" using assms(2,3) by (subst (asm) sorted_append) blast
  moreover have "distinct (take m (sort xs) @ drop m (sort xs))" using assms(1) by simp
  then have "x \<noteq> y" using assms(2,3) by (subst (asm) distinct_append) blast
  ultimately show ?thesis by simp
qed

text \<open>The laws of \<open>readdir\<close>, \<open>realloc\<close> and \<open>unlinkat\<close> that hold when nothing fails.\<close>

definition dir_works :: "prune_sys \<Rightarrow> bool" where
  "dir_works sy \<longleftrightarrow> pr_open sy \<and> (\<forall>n. pr_grow sy n) \<and> (\<forall>n. pr_unlink sy n) \<and>
     (\<forall>d. finite (dom d) \<longrightarrow> set (pr_readdir sy d) = dom d \<and> distinct (pr_readdir sy d))"

definition suffixed :: "string \<Rightarrow> fs \<Rightarrow> string set" where
  "suffixed suffix d = {n \<in> dom d. keepable suffix n}"

lemma prune_spec:
  assumes "dir_works sy" and "finite (dom d)" and "0 \<le> keep" and "keep < 2 ^ 64"
  shows "\<exists>K \<subseteq> suffixed suffix d. card K = min (card (suffixed suffix d)) (nat keep) \<and>
    prune sy suffix keep d = (\<lambda>n. if n \<in> suffixed suffix d - K then None else d n) \<and>
    (\<forall>x \<in> suffixed suffix d - K. \<forall>y \<in> K. x < y)"
proof -
  let ?S = "suffixed suffix d"
  define xs where "xs = filter (keepable suffix) (pr_readdir sy d)"
  let ?m = "length xs - nat keep"
  have d: "distinct xs" and sx: "set xs = ?S"
    using assms(1,2) by (auto simp: xs_def dir_works_def suffixed_def)
  have k: "size_t_of keep = nat keep" using assms(3,4) by (simp add: size_t_of_def)
  have c: "collect (pr_grow sy) suffix 0 [] (pr_readdir sy d) = xs"
    using assms(1) collect_all by (simp add: xs_def dir_works_def)
  have len: "length xs = card ?S" using distinct_card [OF d] sx by simp
  define K where "K = set (drop ?m (sort xs))"
  have un: "set (take ?m (sort xs)) \<union> K = ?S"
    unfolding K_def set_append [symmetric] append_take_drop_id by (simp add: sx)
  have dj: "set (take ?m (sort xs)) \<inter> K = {}"
    using d unfolding K_def by (intro set_take_disj_set_drop_if_distinct) auto
  then have diff: "?S - K = set (take ?m (sort xs))" using un by blast
  have "card K = length (drop ?m (sort xs))" unfolding K_def using d by (intro distinct_card) simp
  then have card: "card K = min (card ?S) (nat keep)" by (simp add: len)
  have pr: "prune sy suffix keep d = (\<lambda>n. if n \<in> ?S - K then None else d n)"
  proof (cases "length xs > nat keep")
    case True
    then show ?thesis
      using assms(1) unlink_fold [of "pr_unlink sy"] by (simp add: prune_def dir_works_def c k diff)
  next
    case False
    then show ?thesis using assms(1) by (simp add: prune_def dir_works_def c k diff)
  qed
  have "\<forall>x \<in> ?S - K. \<forall>y \<in> K. x < y"
    unfolding diff using sorted_split_less [OF d] by (auto simp: K_def)
  then show ?thesis using card pr un by blast
qed

text \<open>Whatever fails, pruning only ever removes names with the suffix.\<close>

lemma unlink_fold_frame: "fold (unlink_one ok) ns d n = d n \<or> (n \<in> set ns \<and> fold (unlink_one ok) ns d n = None)"
proof (induction ns arbitrary: d)
  case (Cons a ns)
  have "unlink_one ok a d n = d n \<or> n = a \<and> unlink_one ok a d n = None" by (simp add: unlink_one_def)
  then show ?case using Cons.IH [of "unlink_one ok a d"] by auto
qed simp

lemma collect_keepable: "n \<in> set (collect grow suffix cap found ns) \<Longrightarrow> n \<in> set found \<or> keepable suffix n"
  by (induction grow suffix cap found ns rule: collect.induct)
    (auto simp: Let_def keepable_def snprintf_s_def split: if_splits)

lemma prune_frame: "prune sy suffix keep d n = d n \<or> (keepable suffix n \<and> prune sy suffix keep d n = None)"
proof (cases "pr_open sy \<and> length (collect (pr_grow sy) suffix 0 [] (pr_readdir sy d)) > size_t_of keep")
  case True
  let ?xs = "collect (pr_grow sy) suffix 0 [] (pr_readdir sy d)"
  have "set (take (length ?xs - size_t_of keep) (sort ?xs)) \<subseteq> Collect (keepable suffix)"
    using collect_keepable set_take_subset by fastforce
  then show ?thesis
    using True unlink_fold_frame [of "pr_unlink sy" "take (length ?xs - size_t_of keep) (sort ?xs)" d n]
    by (auto simp: prune_def Let_def)
next
  case False
  then show ?thesis by (auto simp: prune_def Let_def)
qed

lemma prune_dom: "dom (prune sy suffix keep d) \<subseteq> dom d"
proof
  fix n
  assume "n \<in> dom (prune sy suffix keep d)"
  then show "n \<in> dom d" using prune_frame [of sy suffix keep d n] by auto
qed

section \<open>Lemmas on names and stores\<close>

lemma LONG_MAX_digits: "0 \<le> p \<Longrightarrow> p \<le> LONG_MAX \<Longrightarrow> length (show_int p) \<le> 19"
  using show_nat_length [of "nat p" 18] by (simp add: show_int_def LONG_MAX_def nat_less_iff)

lemma base_name_fits:
  assumes "0 \<le> w" "w < 10 ^ 10" "0 \<le> p" "p \<le> LONG_MAX"
  shows "base_name w p = show_padded 10 w @ ''-'' @ show_int p"
proof -
  have "length (show_padded 10 w) = 10"
    using assms(1,2) pad0_length [of 10 "nat w"] by (simp add: show_padded_def nat_less_iff)
  then show ?thesis using LONG_MAX_digits [OF assms(3,4)] by (simp add: base_name_def snprintf_s_def)
qed

lemma base_name_order:
  assumes "0 \<le> w" "w < w'" "w' < 10 ^ 10" "0 \<le> p" "p \<le> LONG_MAX" "0 \<le> p'" "p' \<le> LONG_MAX"
  shows "base_name w p @ x < base_name w' p' @ y"
  using assms padded_order [of 10 w w'] by (simp add: base_name_fits)

lemma base_name_length: "length (base_name w p) \<le> 95"
  by (simp add: base_name_def snprintf_s_def)

lemma base_name_nonempty: "base_name w p \<noteq> []"
proof -
  have "show_padded 10 w \<noteq> []" by (simp add: show_padded_def pad0_def)
  then show ?thesis by (simp add: base_name_def snprintf_s_def)
qed

lemma tmp_name_fits: "length name \<le> 127 \<Longrightarrow> tmp_name name = name @ ''.tmp''"
  by (simp add: tmp_name_def snprintf_s_def)

lemma keepable_last:
  assumes "keepable suffix m" and "suffix \<noteq> []"
  shows "last m = last suffix"
proof -
  let ?k = "length m - length suffix"
  have "drop ?k m = suffix" and "?k < length m"
    using assms by (auto simp: keepable_def intro: diff_less)
  then show ?thesis by (metis last_drop)
qed

lemma last_tmp_name: "length name \<le> 127 \<Longrightarrow> last (tmp_name name) = CHR ''p''"
  by (simp add: tmp_name_fits)

fun core_bytes :: "rd list \<Rightarrow> string" where
  "core_bytes (Got chunk # rs) = (if take 65536 chunk = [] then [] else take 65536 chunk @ core_bytes rs)"
| "core_bytes (Rd_EINTR # rs) = core_bytes rs"
| "core_bytes _ = []"

lemma copy_core_ok:
  "copy_core mx rs ws t acc = Some (True, t', c) \<Longrightarrow>
     c = acc @ core_bytes rs \<and> t' = t + int (length (core_bytes rs)) \<and> (core_bytes rs \<noteq> [] \<longrightarrow> t' \<le> mx)"
proof (induction mx rs ws t acc rule: copy_core.induct)
  case (4 mx chunk rs ws t acc)
  let ?b = "take 65536 chunk"
  show ?case
  proof (cases "?b = []")
    case True
    with "4.prems" show ?thesis by (simp add: Let_def)
  next
    case False
    with "4.prems" have le: "t + int (length ?b) \<le> mx" by (auto simp: Let_def split: if_splits)
    then obtain acc' ws' where w: "write_all ws acc ?b = Some (True, acc', ws')"
      and r: "copy_core mx rs ws' (t + int (length ?b)) acc' = Some (True, t', c)"
      using "4.prems" False by (auto simp: Let_def split: option.splits bool.splits)
    have "acc' = acc @ ?b" using write_all_complete [OF w] .
    moreover have "c = acc' @ core_bytes rs \<and> t' = t + int (length ?b) + int (length (core_bytes rs)) \<and>
        (core_bytes rs \<noteq> [] \<longrightarrow> t' \<le> mx)"
      using 4(1) [of ?b "t + int (length ?b)" "(True, acc', ws')" True "(acc', ws')" acc' ws'] False le w r
      by auto
    ultimately show ?thesis using False le by auto
  qed
qed auto

lemma write_core_cases:
  assumes "write_core sy euid name mx d = Some (b, d')"
  obtains (failed) "\<not> b" "d' = d \<or> d' = d(tmp_name name := None)"
  | (stored) "b" "d' = d(tmp_name name := None, name \<mapsto> core_bytes (fs_reads sy))"
      "core_bytes (fs_reads sy) \<noteq> []" "int (length (core_bytes (fs_reads sy))) \<le> mx"
proof (cases b)
  case False
  then have "d' = d \<or> d' = d(tmp_name name := None)"
    using assms by (auto simp: write_core_def Let_def split: if_splits option.splits prod.splits)
  then show ?thesis using failed False by blast
next
  case True
  then obtain t c where cp: "copy_core mx (fs_reads sy) (fs_writes sy) 0 [] = Some (True, t, c)" "t \<noteq> 0"
    and d': "d' = d(tmp_name name := None, name \<mapsto> c)"
    using assms by (auto simp: write_core_def Let_def split: if_splits option.splits prod.splits)
  have "c = core_bytes (fs_reads sy)" "core_bytes (fs_reads sy) \<noteq> []" "int (length (core_bytes (fs_reads sy))) \<le> mx"
    using copy_core_ok [OF cp(1)] cp(2) by auto
  then show ?thesis using stored True d' by blast
qed

definition report_attempt :: "string \<Rightarrow> file_sys \<times> nat \<Rightarrow> string \<Rightarrow> fs \<Rightarrow> bool \<times> fs" where
  "report_attempt name se content d =
     (case write_report (fst se) (snd se) (snprintf_s 128 name) content d of None \<Rightarrow> (False, d) | Some r \<Rightarrow> r)"

lemma snprintf_128 [simp]: "length (snprintf_s 128 name) \<le> 127"
  by (simp add: snprintf_s_def)

lemma tmp_name_differs: "length name \<le> 127 \<Longrightarrow> tmp_name name \<noteq> name"
  by (simp add: tmp_name_fits)

lemma write_report_ok:
  "write_report sy euid name content d = Some (True, d') \<Longrightarrow>
     d' = d(tmp_name name := None, name \<mapsto> content)"
  by (auto simp: write_report_def Let_def dest: write_all_complete split: if_splits option.splits prod.splits)

lemma write_report_fail:
  "write_report sy euid name content d = Some (False, d') \<Longrightarrow> d' = d \<or> d' = d(tmp_name name := None)"
  by (auto simp: write_report_def Let_def split: if_splits option.splits prod.splits)

interpretation report_store: atomic_store "report_attempt name" "snprintf_s 128 name"
  "\<lambda>se. tmp_name (snprintf_s 128 name)" for name
proof unfold_locales
  fix e d f f'
  show "f' (snprintf_s 128 name) = Some d" if "report_attempt name e d f = (True, f')"
    using that by (auto simp: report_attempt_def dest!: write_report_ok split: option.splits)
  show "f' (snprintf_s 128 name) = f (snprintf_s 128 name)" if "report_attempt name e d f = (False, f')"
    using that tmp_name_differs [of "snprintf_s 128 name"]
    by (auto simp: report_attempt_def dest!: write_report_fail split: option.splits)
next
  fix e d f b f' p
  assume "report_attempt name e d f = (b, f')" and "p \<noteq> snprintf_s 128 name"
    and "p \<noteq> tmp_name (snprintf_s 128 name)"
  then show "f' p = f p"
    by (cases b) (auto simp: report_attempt_def dest!: write_report_ok write_report_fail split: option.splits)
qed

lemma store_core_frame:
  assumes "store_core e cfg a d = Some (core, d')" and "keepable ''.crash'' n"
  shows "d' n = d n"
proof (cases "d' = d")
  case False
  let ?c = "snprintf_s 128 (base_name (ca_when a) (ca_pid a) @ ''.core'')"
  obtain b d1 where w: "write_core (ce_core e) (ce_euid e) ?c (wrap64 (max_core_mb cfg * 1024 * 1024)) d = Some (b, d1)"
    and d': "d' = (if b then prune (ce_prune_cores e) ''.core'' (max_cores cfg) d1 else d1)"
    using assms(1) False by (auto simp: store_core_def Let_def split: if_splits option.splits bool.splits)
  have c: "?c = base_name (ca_when a) (ca_pid a) @ ''.core''"
    using base_name_length [of "ca_when a" "ca_pid a"] by (simp add: snprintf_s_def)
  have n: "last n = CHR ''h''" using keepable_last [OF assms(2)] by simp
  have "last ?c = CHR ''e''" unfolding c by simp
  with n have nc: "n \<noteq> ?c" by auto
  have nt: "n \<noteq> tmp_name ?c" using n last_tmp_name [of ?c] by auto
  have nk: "\<not> keepable ''.core'' n" using n keepable_last [of "''.core''" n] by auto
  have "d1 n = d n" using w by (cases rule: write_core_cases) (auto simp: nc nt)
  then show ?thesis
    using prune_frame [of "ce_prune_cores e" "''.core''" "max_cores cfg" d1 n] nk d' by auto
qed simp

definition report_for :: "crash_env \<Rightarrow> crash_args \<Rightarrow> string \<Rightarrow> string" where
  "report_for e a core_name =
     report_text (ca_pid a) (ca_uid a) (ca_sig a) (ca_when a) (describe_executable e a)
       (read_cmdline (ce_cmdline e) 2048) (read_desktop_file (ce_environ e) PATH_MAX) core_name"

definition report_file :: "crash_args \<Rightarrow> string" where
  "report_file a = snprintf_s 128 (base_name (ca_when a) (ca_pid a) @ ''.crash'')"

text \<open>A run that gets past its guards, as the sequence of its three steps on the directory.\<close>

definition accepts :: "crash_env \<Rightarrow> crash_args \<Rightarrow> bool" where
  "accepts e a \<longleftrightarrow>
     (let cfg = load_config (ce_config e); uid = uid_t_of (ca_uid a)
      in enabled cfg \<and> min_uid cfg \<le> ca_uid a \<and> (ce_euid e = 0 \<or> ce_euid e = uid) \<and>
         open_user_dir (ce_dir e) cfg (ce_euid e) uid \<noteq> None)"

lemma crash_main_accepts:
  assumes "parse_args argv = Some a" and "accepts e a"
  shows "crash_main e argv d =
    (case store_core e (load_config (ce_config e)) a
            (prune (ce_prune_reports e) ''.crash'' (max_reports (load_config (ce_config e)) - 1) d) of
       None \<Rightarrow> None
     | Some (core, d2) \<Rightarrow>
         (case write_report (ce_report e) (ce_euid e) (report_file a) (report_for e a core) d2 of
            None \<Rightarrow> None | Some (ok, d3) \<Rightarrow> Some (if ok then 0 else 1, d3)))"
  using assms unfolding crash_main_def accepts_def Let_def report_for_def report_file_def
  by (auto cong: option.case_cong)

lemma crash_main_rejects:
  assumes "parse_args argv = Some a" and "\<not> accepts e a"
  shows "\<exists>c. crash_main e argv d = Some (c, d)"
  using assms by (auto simp: crash_main_def accepts_def Let_def)

lemma crash_main_cases:
  assumes "crash_main e argv d = Some (code, d')"
  obtains (rejected) "d' = d"
  | (handled) a core d2 ok where "parse_args argv = Some a" "accepts e a"
      "store_core e (load_config (ce_config e)) a
         (prune (ce_prune_reports e) ''.crash'' (max_reports (load_config (ce_config e)) - 1) d) = Some (core, d2)"
      "write_report (ce_report e) (ce_euid e) (report_file a) (report_for e a core) d2 = Some (ok, d')"
      "code = (if ok then 0 else 1)"
proof (cases "\<exists>a. parse_args argv = Some a \<and> accepts e a")
  case False
  then have "d' = d"
    using assms crash_main_rejects [of argv _ e d]
    by (cases "parse_args argv") (fastforce simp: crash_main_def)+
  then show ?thesis by (rule rejected)
next
  case True
  then obtain a where a: "parse_args argv = Some a" "accepts e a" by blast
  show ?thesis
    using assms a crash_main_accepts [OF a, of d] handled [OF a]
    by (auto split: option.splits prod.splits)
qed

lemma write_report_count:
  assumes w: "write_report sy euid (report_file a) content d = Some (ok, d')" and fin: "finite (suffixed sfx d)"
  shows "card (suffixed sfx d') \<le> Suc (card (suffixed sfx d))"
proof -
  have "suffixed sfx d' \<subseteq> insert (report_file a) (suffixed sfx d)"
    using write_report_ok [of sy euid "report_file a" content d d']
      write_report_fail [of sy euid "report_file a" content d d'] w
    by (cases ok) (auto simp: suffixed_def split: if_splits)
  then have "card (suffixed sfx d') \<le> card (insert (report_file a) (suffixed sfx d))"
    using fin by (intro card_mono) auto
  also have "\<dots> \<le> Suc (card (suffixed sfx d))" by (rule card_insert_le_m1) auto
  finally show ?thesis .
qed

definition core_file :: "crash_args \<Rightarrow> string" where
  "core_file a = snprintf_s 128 (base_name (ca_when a) (ca_pid a) @ ''.core'')"

lemma core_file_facts:
  "core_file a = base_name (ca_when a) (ca_pid a) @ ''.core''" "length (core_file a) \<le> 127"
  "snprintf_s 128 (core_file a) = core_file a" "last (core_file a) = CHR ''e''"
  using base_name_length [of "ca_when a" "ca_pid a"] by (simp_all add: core_file_def snprintf_s_def)

lemma report_file_facts:
  "report_file a = base_name (ca_when a) (ca_pid a) @ ''.crash''" "length (report_file a) \<le> 127"
  "last (report_file a) = CHR ''h''"
  using base_name_length [of "ca_when a" "ca_pid a"] by (simp_all add: report_file_def snprintf_s_def)

lemma store_core_cases:
  assumes "store_core e cfg a d = Some (core, d')"
  obtains (none) "core = []"
  | (stored) d1 where "core = core_file a" "0 < max_cores cfg" "core_bytes (fs_reads (ce_core e)) \<noteq> []"
      "int (length (core_bytes (fs_reads (ce_core e)))) \<le> wrap64 (max_core_mb cfg * 1024 * 1024)"
      "d1 = d(tmp_name core := None, core \<mapsto> core_bytes (fs_reads (ce_core e)))"
      "d' = prune (ce_prune_cores e) ''.core'' (max_cores cfg) d1"
proof (cases "core = []")
  case True
  then show ?thesis by (rule none)
next
  case False
  let ?w = "write_core (ce_core e) (ce_euid e) (core_file a) (wrap64 (max_core_mb cfg * 1024 * 1024)) d"
  have eq: "store_core e cfg a d =
      (if keep_core cfg \<and> max_cores cfg > 0 \<and> ca_dumpable a = 1 \<and> max_core_mb cfg > 0
       then case ?w of None \<Rightarrow> None
            | Some (True, d') \<Rightarrow> Some (core_file a, prune (ce_prune_cores e) ''.core'' (max_cores cfg) d')
            | Some (False, d') \<Rightarrow> Some ([], d')
       else Some ([], d))"
    unfolding store_core_def Let_def core_file_def [symmetric] core_file_facts(3) ..
  obtain bd where bd: "?w = Some bd" "max_cores cfg > 0"
    using assms False unfolding eq by (cases ?w) (auto split: if_splits)
  obtain b d1 where b: "bd = (b, d1)" by (cases bd)
  have w: "?w = Some (True, d1)"
    and r: "core = core_file a" "0 < max_cores cfg" "d' = prune (ce_prune_cores e) ''.core'' (max_cores cfg) d1"
    using assms False bd b unfolding eq by (cases b; auto split: if_splits)+
  from w show ?thesis by (cases rule: write_core_cases) (use stored r in auto)
qed

text \<open>A file whose name is above every other one with its suffix survives.\<close>

lemma prune_keeps_last:
  assumes "dir_works sy" and "finite (dom d)" and "0 < keep" and "keep < 2 ^ 64"
    and "n \<in> suffixed suffix d" and "\<And>m. m \<in> suffixed suffix d \<Longrightarrow> m \<le> n"
  shows "prune sy suffix keep d n = d n"
proof -
  obtain K where K: "K \<subseteq> suffixed suffix d" "card K = min (card (suffixed suffix d)) (nat keep)"
    "prune sy suffix keep d = (\<lambda>n. if n \<in> suffixed suffix d - K then None else d n)"
    "\<forall>x \<in> suffixed suffix d - K. \<forall>y \<in> K. x < y"
    using prune_spec [OF assms(1,2) order_less_imp_le [OF assms(3)] assms(4), of suffix] by blast
  have fin: "finite (suffixed suffix d)" using assms(2) by (auto simp: suffixed_def intro: finite_subset)
  have "n \<in> K"
  proof (rule ccontr)
    assume n: "n \<notin> K"
    have "0 < card (suffixed suffix d)" using fin assms(5) by (auto simp: card_gt_0_iff)
    then have "K \<noteq> {}" using K(2) assms(3) by auto
    then obtain y where "y \<in> K" by blast
    then have "n < y" and "y \<le> n" using K(1,4) n assms(5,6) by auto
    then show False by simp
  qed
  then show ?thesis using K(3) by simp
qed

section \<open>Properties\<close>

text \<open>
  Pruning keeps exactly the \<open>keep\<close> last names with the suffix (all of them when there are
  fewer), removes the others and touches no other file; among the handler's own names that means
  that no kept file is older than a removed one.
\<close>

theorem prune_keeps_newest:
  assumes "dir_works sy" and "finite (dom d)" and "0 \<le> keep" and "keep < 2 ^ 64"
  shows "\<exists>K \<subseteq> suffixed suffix d. card K = min (card (suffixed suffix d)) (nat keep) \<and>
    (\<forall>n. prune sy suffix keep d n = (if n \<in> suffixed suffix d - K then None else d n)) \<and>
    (\<forall>w p w' p'. base_name w p @ suffix \<in> suffixed suffix d - K \<and> base_name w' p' @ suffix \<in> K \<and>
       {w, w'} \<subseteq> {0 ..< 10 ^ 10} \<and> {p, p'} \<subseteq> {0 .. LONG_MAX} \<longrightarrow> w \<le> w')"
proof -
  obtain K where K: "K \<subseteq> suffixed suffix d" "card K = min (card (suffixed suffix d)) (nat keep)"
    "prune sy suffix keep d = (\<lambda>n. if n \<in> suffixed suffix d - K then None else d n)"
    "\<forall>x \<in> suffixed suffix d - K. \<forall>y \<in> K. x < y"
    using prune_spec [OF assms] by blast
  have "w \<le> w'" if "base_name w p @ suffix \<in> suffixed suffix d - K" "base_name w' p' @ suffix \<in> K"
    "{w, w'} \<subseteq> {0 ..< 10 ^ 10}" "{p, p'} \<subseteq> {0 .. LONG_MAX}" for w p w' p'
  proof (rule ccontr)
    assume "\<not> w \<le> w'"
    then have "base_name w' p' @ suffix < base_name w p @ suffix"
      using that(3,4) by (intro base_name_order) auto
    moreover have "base_name w p @ suffix < base_name w' p' @ suffix" using K(4) that(1,2) by blast
    ultimately show False by simp
  qed
  then show ?thesis using K(1,2,3) by (intro exI [of _ K]) auto
qed

text \<open>
  C12: whatever the configuration file says, a crash that is handled leaves at most
  \<open>max_reports\<close> reports in the user's directory, the new one included.
\<close>

theorem crash_main_bounded:
  assumes "crash_main e argv d = Some (code, d')" and "d' \<noteq> d" and "finite (dom d)"
    and "dir_works (ce_prune_reports e)"
  shows "int (card (suffixed ''.crash'' d')) \<le> max_reports (load_config (ce_config e))"
  using assms(1)
proof (cases rule: crash_main_cases)
  case rejected
  then show ?thesis using assms(2) by simp
next
  case (handled a core d2 ok)
  let ?cfg = "load_config (ce_config e)"
  let ?d1 = "prune (ce_prune_reports e) ''.crash'' (max_reports ?cfg - 1) d"
  have cfg: "1 \<le> max_reports ?cfg" "max_reports ?cfg - 1 < 2 ^ 64"
    using load_config_ok [of "ce_config e"] by (auto simp: config_ok_def LONG_MAX_def)
  obtain K where K: "K \<subseteq> suffixed ''.crash'' d" "card K \<le> nat (max_reports ?cfg - 1)"
    "?d1 = (\<lambda>n. if n \<in> suffixed ''.crash'' d - K then None else d n)"
    using prune_spec [OF assms(4,3), of "max_reports ?cfg - 1" "''.crash''"] cfg by auto
  have "suffixed ''.crash'' ?d1 = K" using K(1) by (auto simp: K(3) suffixed_def split: if_splits)
  moreover have "suffixed ''.crash'' d2 = suffixed ''.crash'' ?d1"
    using store_core_frame [OF handled(3)] by (auto simp: suffixed_def dom_def)
  ultimately have "suffixed ''.crash'' d2 = K" by simp
  moreover have "finite K" using K(1) assms(3) by (auto simp: suffixed_def intro: finite_subset)
  ultimately have "card (suffixed ''.crash'' d') \<le> Suc (card K)"
    using write_report_count [OF handled(4), of "''.crash''"] by simp
  then show ?thesis using K(2) cfg by linarith
qed

text \<open>
  C11: a handled crash that exits with 0 has stored exactly its report under the name built from the
  time and the process id. The report names a core file only if the whole core image was read, is
  not empty and is within the configured limit; and when that core is the newest, it is in the
  directory with exactly the bytes of standard input.
\<close>

theorem crash_main_stores:
  assumes "parse_args argv = Some a" and "accepts e a" and "crash_main e argv d = Some (0, d')"
    and "finite (dom d)"
  shows "\<exists>core. d' (report_file a) = Some (report_for e a core) \<and>
    (core = [] \<or>
     core = core_file a \<and> core_bytes (fs_reads (ce_core e)) \<noteq> [] \<and>
     int (length (core_bytes (fs_reads (ce_core e)))) \<le>
       wrap64 (max_core_mb (load_config (ce_config e)) * 1024 * 1024) \<and>
     (dir_works (ce_prune_cores e) \<and> (\<forall>n \<in> suffixed ''.core'' d. n \<le> core) \<longrightarrow>
        d' core = Some (core_bytes (fs_reads (ce_core e)))))"
proof -
  let ?cfg = "load_config (ce_config e)"
  let ?p = "prune (ce_prune_reports e) ''.crash'' (max_reports ?cfg - 1) d"
  obtain core d2 where st: "store_core e ?cfg a ?p = Some (core, d2)"
    and wr: "write_report (ce_report e) (ce_euid e) (report_file a) (report_for e a core) d2 = Some (True, d')"
    using assms(3) crash_main_accepts [OF assms(1,2), of d]
    by (auto split: option.splits prod.splits if_splits)
  have d': "d' = d2(tmp_name (report_file a) := None, report_file a \<mapsto> report_for e a core)"
    by (rule write_report_ok [OF wr])
  from st show ?thesis
  proof (cases rule: store_core_cases)
    case none
    then show ?thesis by (intro exI [of _ core]) (simp add: d')
  next
    case (stored d1)
    have "d' core = Some (core_bytes (fs_reads (ce_core e)))"
      if works: "dir_works (ce_prune_cores e)" and newest: "\<forall>n \<in> suffixed ''.core'' d. n \<le> core"
    proof -
      have sub: "dom d1 \<subseteq> insert core (dom d)"
        using prune_dom [of "ce_prune_reports e" "''.crash''" "max_reports ?cfg - 1" d]
        by (auto simp: stored(5) split: if_splits)
      then have fin: "finite (dom d1)" using assms(4) by (meson finite.insertI finite_subset)
      have k: "keepable ''.core'' core"
        using core_file_facts(1,2) [of a] base_name_nonempty [of "ca_when a" "ca_pid a"]
        by (simp add: stored(1) keepable_def)
      have "max_cores ?cfg < 2 ^ 64"
        using load_config_ok [of "ce_config e"] by (simp add: config_ok_def LONG_MAX_def)
      moreover have "core \<in> suffixed ''.core'' d1" using k by (simp add: suffixed_def stored(5))
      moreover have "\<And>m. m \<in> suffixed ''.core'' d1 \<Longrightarrow> m \<le> core"
        using sub newest by (auto simp: suffixed_def)
      ultimately have "d2 core = d1 core"
        unfolding stored(6) using works fin stored(2) by (intro prune_keeps_last) auto
      moreover have "core \<noteq> report_file a" "core \<noteq> tmp_name (report_file a)"
        using core_file_facts(4) [of a] report_file_facts(2,3) [of a] last_tmp_name [of "report_file a"]
        by (auto simp: stored(1))
      ultimately show ?thesis by (simp add: d' stored(5))
    qed
    then show ?thesis using stored(1,3,4) by (intro exI [of _ core]) (simp add: d')
  qed
qed

text \<open>The ten lines a report is meant to have.\<close>

definition report_lines :: "crash_env \<Rightarrow> crash_args \<Rightarrow> string \<Rightarrow> string list" where
  "report_lines e a core =
     [''[Crash]'', ''Source=handler'', ''Pid='' @ show_int (ca_pid a), ''Uid='' @ show_int (ca_uid a),
      ''Signal='' @ show_int (ca_sig a), ''Time='' @ show_int (ca_when a),
      ''Executable='' @ describe_executable e a, ''CommandLine='' @ read_cmdline (ce_cmdline e) 2048,
      ''DesktopFile='' @ read_desktop_file (ce_environ e) PATH_MAX, ''Core='' @ core]"

definition unlines :: "string list \<Rightarrow> string" where
  "unlines ls = concat (map (\<lambda>l. l @ [NL]) ls)"

lemma fgets_unlines:
  assumes "\<And>l. l \<in> set ls \<Longrightarrow> NL \<notin> set l \<and> NUL \<notin> set l" and "length (unlines ls) < n"
  shows "map chomp (fgets_lines n (unlines ls)) = ls"
  using assms
proof (induction ls)
  case (Cons l ls)
  then have "fgets_lines n (l @ NL # unlines ls) = (l @ [NL]) # fgets_lines n (unlines ls)"
    by (intro fgets_lines_line) (auto simp: unlines_def)
  then show ?case using Cons by (simp add: unlines_def chomp_line)
qed (simp add: unlines_def)

lemma report_lines_plain: "plain core \<Longrightarrow> l \<in> set (report_lines e a core) \<Longrightarrow> plain l"
  by (auto simp: report_lines_def plain_char_def less_char_def)

text \<open>
  C13: a crashing process cannot forge report entries. Whatever its executable name, arguments and
  environment contain, the report is the ten specified lines in order, cut at 8191 bytes; none of
  them holds a newline, another control character or a backslash, and when nothing is cut a line
  reader gets back exactly these ten lines.
\<close>

theorem report_no_injection:
  assumes "core = [] \<or> core = core_file a"
  shows "report_for e a core = take 8191 (unlines (report_lines e a core)) \<and>
    (\<forall>l \<in> set (report_lines e a core). plain l \<and> NL \<notin> set l) \<and>
    (length (unlines (report_lines e a core)) \<le> 8191 \<longrightarrow>
       map chomp (fgets_lines 8192 (report_for e a core)) = report_lines e a core)"
proof -
  have "plain core" using assms core_file_facts(1) [of a] by (auto simp: plain_char_def less_char_def)
  then have pl: "\<And>l. l \<in> set (report_lines e a core) \<Longrightarrow> plain l" by (rule report_lines_plain)
  have eq: "report_for e a core = take 8191 (unlines (report_lines e a core))"
    by (simp add: report_for_def report_text_def report_lines_def unlines_def snprintf_s_def)
  have "map chomp (fgets_lines 8192 (report_for e a core)) = report_lines e a core"
    if "length (unlines (report_lines e a core)) \<le> 8191"
    using fgets_unlines [of "report_lines e a core" 8192] that pl plain_no_newline by (simp add: eq)
  then show ?thesis using eq pl plain_no_newline by blast
qed

section \<open>Witnesses\<close>

definition calm_dir :: prune_sys where
  "calm_dir = \<lparr>pr_open = True, pr_readdir = (\<lambda>d. sorted_list_of_set (dom d)), pr_grow = (\<lambda>_. True),
     pr_unlink = (\<lambda>_. True)\<rparr>"

lemma calm_dir_works: "dir_works calm_dir"
  by (simp add: dir_works_def calm_dir_def)

definition sample_env :: crash_env where
  "sample_env = \<lparr>ce_euid = 0, ce_config = None,
     ce_dir = \<lparr>ds_mkdir = True, ds_open = True, ds_mkdirat = True, ds_openat = True,
               ds_fstat = Some 1000, ds_fchown = True\<rparr>,
     ce_exe = Some ''/usr/bin/x (deleted)'', ce_cmdline = Some (''x'' @ [NUL] @ ''-a'' @ [NL]),
     ce_environ = None,
     ce_prune_reports = calm_dir,
     ce_core = \<lparr>fs_open = True, fs_reads = [Got ''ELF'', Rd_EINTR, Got []], fs_writes = [Wrote 3],
                fs_fchown = True, fs_rename = True\<rparr>,
     ce_prune_cores = calm_dir,
     ce_report = \<lparr>fs_open = True, fs_reads = [], fs_writes = [Wrote 8191], fs_fchown = True,
                  fs_rename = True\<rparr>\<rparr>"

definition sample_argv :: "string list" where
  "sample_argv = [''42'', ''1000'', ''1000'', ''11'', ''1700000000'', ''1'']"

definition sample_args :: crash_args where
  "sample_args = \<lparr>ca_pid = 42, ca_uid = 1000, ca_gid = 1000, ca_sig = 11, ca_when = 1700000000,
     ca_dumpable = 1, ca_comm = None\<rparr>"

lemma sample_parse: "parse_args sample_argv = Some sample_args"
  by (simp add: sample_argv_def sample_args_def parse_args_def parse_long_def strtol_def is_space_def
      is_digit_def dec_val_def digit_val_def LONG_MAX_def LONG_MIN_def)

lemma sample_accepts: "accepts sample_env sample_args"
  by (simp add: accepts_def sample_env_def sample_args_def load_config_def default_config_def
      uid_t_of_def open_user_dir_def Let_def)

lemma write_all_whole: "xs \<noteq> [] \<Longrightarrow> length xs \<le> k \<Longrightarrow> write_all [Wrote k] [] xs = Some (True, xs, [])"
  by (cases xs) auto

lemma report_for_bound: "report_for e a core \<noteq> [] \<and> length (report_for e a core) \<le> 8191"
  by (simp add: report_for_def report_text_def snprintf_s_def)

lemma sample_run:
  "\<exists>d'. crash_main sample_env sample_argv (\<lambda>_. None) = Some (0, d') \<and> d' \<noteq> (\<lambda>_. None)"
proof -
  let ?cfg = "load_config (ce_config sample_env)"
  let ?c = "core_file sample_args"
  have p: "prune calm_dir s k (\<lambda>_. None) = (\<lambda>_. None)" for s k
    by (simp add: prune_def calm_dir_def)
  have "\<exists>d2 core. store_core sample_env ?cfg sample_args (\<lambda>_. None) = Some (core, d2) \<and> d2 (tmp_name (report_file sample_args)) = None"
  proof -
    let ?d1 = "[?c \<mapsto> ''ELF'']"
    have "store_core sample_env ?cfg sample_args (\<lambda>_. None) = Some (?c, prune calm_dir ''.core'' 3 ?d1)"
      unfolding store_core_def Let_def core_file_def [symmetric] core_file_facts(3)
      by (simp add: sample_env_def load_config_def default_config_def write_core_def wrap64_def)
        (simp add: sample_args_def)
    moreover have "dom (prune calm_dir ''.core'' 3 ?d1) \<subseteq> {?c}" using prune_dom [of calm_dir "''.core''" 3 ?d1] by simp
    moreover have "tmp_name (report_file sample_args) \<noteq> ?c"
      using last_tmp_name [of "report_file sample_args"] report_file_facts(2) [of sample_args] core_file_facts(4) [of sample_args] by auto
    ultimately show ?thesis by blast
  qed
  then obtain d2 core where st: "store_core sample_env ?cfg sample_args (\<lambda>_. None) = Some (core, d2)"
    and free: "d2 (tmp_name (report_file sample_args)) = None" by blast
  let ?d = "d2(tmp_name (report_file sample_args) := None, report_file sample_args \<mapsto> report_for sample_env sample_args core)"
  have "write_report (ce_report sample_env) (ce_euid sample_env) (report_file sample_args) (report_for sample_env sample_args core) d2 = Some (True, ?d)"
    using free write_all_whole [of "report_for sample_env sample_args core" 8191] report_for_bound [of sample_env sample_args core]
    by (simp add: write_report_def Let_def) (simp add: sample_env_def)
  moreover have "ce_prune_reports sample_env = calm_dir" by (simp add: sample_env_def)
  ultimately have "crash_main sample_env sample_argv (\<lambda>_. None) = Some (0, ?d)"
    unfolding crash_main_accepts [OF sample_parse sample_accepts] using st p by simp
  moreover have "?d \<noteq> (\<lambda>_. None)" by (metis fun_upd_same option.distinct(1))
  ultimately show ?thesis by blast
qed

definition two_cores :: fs where
  "two_cores = [''0000000001-7.core'' \<mapsto> ''a'', ''0000000002-7.core'' \<mapsto> ''b'']"

lemma two_cores_suffixed: "suffixed ''.core'' two_cores = {''0000000001-7.core'', ''0000000002-7.core''}"
  by (auto simp: suffixed_def two_cores_def keepable_def)

theorem prune_keeps_newest_witness:
  "\<exists>K \<subseteq> {''0000000001-7.core'', ''0000000002-7.core''}. card K = 1 \<and>
     (\<forall>n. prune calm_dir ''.core'' 1 two_cores n =
        (if n \<in> {''0000000001-7.core'', ''0000000002-7.core''} - K then None else two_cores n))"
proof -
  have f: "finite (dom two_cores)" by (simp add: two_cores_def)
  have c: "min (card {''0000000001-7.core'', ''0000000002-7.core''}) (nat 1) = 1" by simp
  show ?thesis
    using prune_keeps_newest [OF calm_dir_works f, of 1 "''.core''", simplified] c
    unfolding two_cores_suffixed by (elim exE conjE) (intro exI conjI; assumption?; simp)
qed

theorem crash_main_bounded_witness:
  "\<exists>d'. crash_main sample_env sample_argv (\<lambda>_. None) = Some (0, d') \<and>
     int (card (suffixed ''.crash'' d')) \<le> 20"
proof -
  obtain d' where r: "crash_main sample_env sample_argv (\<lambda>_. None) = Some (0, d')" "d' \<noteq> (\<lambda>_. None)"
    using sample_run by blast
  have "int (card (suffixed ''.crash'' d')) \<le> max_reports (load_config (ce_config sample_env))"
    by (rule crash_main_bounded [OF r]) (simp_all add: sample_env_def calm_dir_works)
  then show ?thesis using r(1) by (auto simp: sample_env_def load_config_def default_config_def)
qed

theorem crash_main_stores_witness:
  "\<exists>d' core. crash_main sample_env sample_argv (\<lambda>_. None) = Some (0, d') \<and>
     d' (report_file sample_args) = Some (report_for sample_env sample_args core)"
  using sample_run crash_main_stores [OF sample_parse sample_accepts] by (metis dom_empty finite.emptyI)

theorem report_no_injection_witness:
  "report_for sample_env sample_args (core_file sample_args) =
     take 8191 (unlines (report_lines sample_env sample_args (core_file sample_args))) \<and>
   plain (read_cmdline (ce_cmdline sample_env) 2048)"
  using report_no_injection [of "core_file sample_args" sample_args sample_env] by simp

end
