(* ===== verification/Wayland_Client.thy ===== *)
theory Wayland_Client
  imports C_Prelude
begin

text \<open>
  What the Wayland clients of the program share: the blocking dispatch loop, and loops that may
  fail in the middle. A batch is what one \<open>wl_display_dispatch\<close> call delivers, \<open>None\<close> when the
  connection is lost.
\<close>

fun fold_opt :: "('a \<Rightarrow> 's \<Rightarrow> 's option) \<Rightarrow> 'a list \<Rightarrow> 's \<Rightarrow> 's option" where
  "fold_opt f [] s = Some s"
| "fold_opt f (x # xs) s = (case f x s of None \<Rightarrow> None | Some s' \<Rightarrow> fold_opt f xs s')"

lemma fold_opt_snoc:
  "fold_opt f (xs @ [x]) s = (case fold_opt f xs s of None \<Rightarrow> None | Some s' \<Rightarrow> f x s')"
  by (induction xs arbitrary: s) (auto split: option.splits)

text \<open>
  \<open>while (!stop) if (wl_display_dispatch(display) < 0) ...\<close>. The result is \<open>None\<close> while the loop
  waits for a batch; otherwise it says whether the loop was left by its condition, and gives the
  state and the batches that are left.
\<close>

fun dispatch_until ::
  "('s \<Rightarrow> bool) \<Rightarrow> ('e \<Rightarrow> 's \<Rightarrow> 's) \<Rightarrow> 'e list option list \<Rightarrow> 's \<Rightarrow> (bool \<times> 's \<times> 'e list option list) option" where
  "dispatch_until stop handle bs s =
     (if stop s then Some (True, s, bs)
      else case bs of
             [] \<Rightarrow> None
           | None # bs' \<Rightarrow> Some (False, s, bs')
           | Some es # bs' \<Rightarrow> dispatch_until stop handle bs' (fold handle es s))"

declare dispatch_until.simps [simp del]

lemma dispatch_until_simps [simp]:
  "stop s \<Longrightarrow> dispatch_until stop handle bs s = Some (True, s, bs)"
  "\<not> stop s \<Longrightarrow> dispatch_until stop handle [] s = None"
  "\<not> stop s \<Longrightarrow> dispatch_until stop handle (None # bs) s = Some (False, s, bs)"
  "\<not> stop s \<Longrightarrow> dispatch_until stop handle (Some es # bs) s = dispatch_until stop handle bs (fold handle es s)"
  by (subst dispatch_until.simps; simp)+

lemma dispatch_until_induct [case_names stop empty lost batch]:
  assumes "\<And>bs s. stop s \<Longrightarrow> P bs s" and "\<And>s. \<not> stop s \<Longrightarrow> P [] s"
    and "\<And>bs s. \<not> stop s \<Longrightarrow> P (None # bs) s"
    and "\<And>es bs s. \<not> stop s \<Longrightarrow> P bs (fold handle es s) \<Longrightarrow> P (Some es # bs) s"
  shows "P bs s"
proof (induction bs arbitrary: s)
  case Nil
  then show ?case using assms(1,2) by blast
next
  case (Cons b bs)
  then show ?case using assms(1,3,4) by (cases b; cases "stop s") auto
qed

lemma dispatch_until_stop: "dispatch_until stop handle bs s = Some (True, s', bs') \<Longrightarrow> stop s'"
  by (induction bs s rule: dispatch_until_induct [of stop _ handle]) auto

text \<open>What every event keeps holds when the loop is left, whatever was delivered.\<close>

lemma dispatch_until_keeps:
  assumes "\<And>e s. P s \<Longrightarrow> P (handle e s)"
  shows "P s \<Longrightarrow> dispatch_until stop handle bs s = Some (b, s', bs') \<Longrightarrow> P s'"
proof (induction bs s rule: dispatch_until_induct [of stop _ handle])
  case (batch es bs s)
  have "P (fold handle es s)" using batch.prems(1) by (induction es arbitrary: s) (auto intro: assms)
  then show ?case using batch by simp
qed auto

text \<open>The loop ends once a batch brings the stop condition or the connection is lost.\<close>

lemma dispatch_until_returns:
  assumes "None \<in> set bs \<or> stop (fold (fold handle) (map the bs) s)"
  shows "\<exists>r. dispatch_until stop handle bs s = Some r"
  using assms
  by (induction bs s rule: dispatch_until_induct [of stop _ handle]) auto

end
