(* ===== verification/Screenshot_Pixels.thy ===== *)
theory Screenshot_Pixels
  imports Wayland_Client "HOL-Library.Word" "HOL-Library.Multiset"
begin

text \<open>
  The pixel code of the screenshot tool, \<^verbatim>\<open>src/tools/screenshot/main.c\<close>: shared-memory formats,
  frames, conversion of a region of a frame to RGBA, and the left-to-right order of the outputs.
  Numbers keep their C width; memory is a function from byte offsets, and an access outside the
  allocated size is the result \<open>Fault\<close>.
\<close>

type_synonym u32 = "32 word"
type_synonym byte = "8 word"
type_synonym mem = "nat \<Rightarrow> byte"

definition WL_SHM_FORMAT_ARGB8888 :: u32 where "WL_SHM_FORMAT_ARGB8888 = 0"
definition WL_SHM_FORMAT_XRGB8888 :: u32 where "WL_SHM_FORMAT_XRGB8888 = 1"
definition WL_SHM_FORMAT_ABGR8888 :: u32 where "WL_SHM_FORMAT_ABGR8888 = 0x34324241"
definition WL_SHM_FORMAT_XBGR8888 :: u32 where "WL_SHM_FORMAT_XBGR8888 = 0x34324258"
definition WL_SHM_FORMAT_RGB888 :: u32 where "WL_SHM_FORMAT_RGB888 = 0x34324752"
definition WL_SHM_FORMAT_BGR888 :: u32 where "WL_SHM_FORMAT_BGR888 = 0x34324742"

lemmas shm_formats = WL_SHM_FORMAT_ARGB8888_def WL_SHM_FORMAT_XRGB8888_def WL_SHM_FORMAT_ABGR8888_def
  WL_SHM_FORMAT_XBGR8888_def WL_SHM_FORMAT_RGB888_def WL_SHM_FORMAT_BGR888_def

definition shm_format_info :: "u32 \<Rightarrow> u32 option" where
  "shm_format_info fmt =
     (if fmt \<in> {WL_SHM_FORMAT_ARGB8888, WL_SHM_FORMAT_XRGB8888, WL_SHM_FORMAT_ABGR8888, WL_SHM_FORMAT_XBGR8888}
      then Some 4
      else if fmt \<in> {WL_SHM_FORMAT_RGB888, WL_SHM_FORMAT_BGR888} then Some 3
      else None)"

definition shm_format_rank :: "u32 \<Rightarrow> nat" where
  "shm_format_rank fmt =
     (if fmt \<in> {WL_SHM_FORMAT_XRGB8888, WL_SHM_FORMAT_ARGB8888} then 30
      else if fmt \<in> {WL_SHM_FORMAT_XBGR8888, WL_SHM_FORMAT_ABGR8888} then 20
      else if fmt \<in> {WL_SHM_FORMAT_BGR888, WL_SHM_FORMAT_RGB888} then 10
      else 0)"

definition prefer_shm_format :: "u32 \<Rightarrow> u32 \<Rightarrow> bool" where
  "prefer_shm_format current candidate \<longleftrightarrow> shm_format_rank candidate > shm_format_rank current"

section \<open>Frames\<close>

datatype mapping_ptr = Null | Map_failed | Mapped mem

record frame =
  f_format :: u32
  f_width :: u32
  f_height :: u32
  f_stride :: u32
  f_bpp :: u32
  f_flags :: u32
  f_fd :: int
  f_data :: mapping_ptr
  f_size :: nat
  f_buffer :: bool
  f_shm_received :: bool
  f_done :: int

definition Y_INVERT :: u32 where "Y_INVERT = 1"

text \<open>\<open>memset(f, 0, sizeof(*f)); f->fd = -1;\<close>\<close>

definition fresh_frame :: frame where
  "fresh_frame = \<lparr>f_format = 0, f_width = 0, f_height = 0, f_stride = 0, f_bpp = 0, f_flags = 0, f_fd = - 1,
     f_data = Null, f_size = 0, f_buffer = False, f_shm_received = False, f_done = 0\<rparr>"

text \<open>The answers of the calls in \<open>alloc_shm_buffer\<close>.\<close>

record alloc_sys =
  al_memfd :: "int option"
  al_ftruncate :: bool
  al_mmap :: bool

definition alloc_shm_buffer :: "alloc_sys \<Rightarrow> frame \<Rightarrow> frame" where
  "alloc_shm_buffer al f =
     (let f1 = f\<lparr>f_size := unat (f_stride f) * unat (f_height f)\<rparr>
      in case al_memfd al of
           None \<Rightarrow> f1\<lparr>f_fd := - 1, f_buffer := False\<rparr>
         | Some fd \<Rightarrow>
             if \<not> al_ftruncate al then f1\<lparr>f_fd := - 1, f_buffer := False\<rparr>
             else if \<not> al_mmap al then f1\<lparr>f_data := Map_failed, f_fd := - 1, f_buffer := False\<rparr>
             else f1\<lparr>f_fd := fd, f_data := Mapped (\<lambda>_. 0), f_buffer := True\<rparr>)"

text \<open>\<open>frame_cleanup\<close>, with the descriptors it closes.\<close>

definition frame_cleanup :: "frame \<Rightarrow> frame \<times> int list" where
  "frame_cleanup f =
     (f\<lparr>f_buffer := False,
        f_data := (case f_data f of Mapped _ \<Rightarrow> Null | p \<Rightarrow> p),
        f_fd := (if f_fd f \<ge> 0 then - 1 else f_fd f)\<rparr>,
      if f_fd f \<ge> 0 then [f_fd f] else [])"

section \<open>Conversion to RGBA\<close>

definition read_pixel_rgba :: "u32 \<Rightarrow> mem \<Rightarrow> nat \<Rightarrow> byte list" where
  "read_pixel_rgba fmt m src =
     (if fmt \<in> {WL_SHM_FORMAT_ARGB8888, WL_SHM_FORMAT_XRGB8888} then [m (src + 2), m (src + 1), m src, 0xff]
      else if fmt \<in> {WL_SHM_FORMAT_ABGR8888, WL_SHM_FORMAT_XBGR8888} then [m src, m (src + 1), m (src + 2), 0xff]
      else if fmt = WL_SHM_FORMAT_RGB888 then [m (src + 2), m (src + 1), m src, 0xff]
      else if fmt = WL_SHM_FORMAT_BGR888 then [m src, m (src + 1), m (src + 2), 0xff]
      else [0, 0, 0, 0xff])"

text \<open>A destination: the bytes and how many of them are allocated.\<close>

definition store4 :: "nat \<Rightarrow> byte list \<Rightarrow> mem \<Rightarrow> mem" where
  "store4 off px m = m(off := px ! 0, off + 1 := px ! 1, off + 2 := px ! 2, off + 3 := px ! 3)"

text \<open>One pixel; the three colour bytes must lie in the mapping and the four bytes in the target.\<close>

definition copy_pixel :: "u32 \<Rightarrow> nat \<Rightarrow> mem \<Rightarrow> nat \<Rightarrow> nat \<Rightarrow> nat \<Rightarrow> mem \<Rightarrow> mem option" where
  "copy_pixel fmt src_size sm src dst_size out dm =
     (if src + 3 \<le> src_size \<and> out + 4 \<le> dst_size then Some (store4 out (read_pixel_rgba fmt sm src) dm) else None)"

datatype 'a checked = Refused | Fault | Done 'a

definition copy_frame_region_rgba ::
  "frame \<Rightarrow> u32 \<Rightarrow> u32 \<Rightarrow> u32 \<Rightarrow> u32 \<Rightarrow> bool \<Rightarrow> nat \<Rightarrow> nat \<Rightarrow> mem \<Rightarrow> u32 \<Rightarrow> mem checked" where
  "copy_frame_region_rgba f src_x src_y width height y_invert dst_size dst dm dst_stride =
     (case shm_format_info (f_format f) of
        None \<Rightarrow> Refused
      | Some bpp \<Rightarrow>
          if f_data f = Null then Refused
          else if f_stride f < f_width f * bpp then Refused
          else if src_x > f_width f \<or> src_y > f_height f \<or> width > f_width f - src_x \<or>
                  height > f_height f - src_y then Refused
          else if dst_stride < width * 4 then Refused
          else
            case f_data f of
              Mapped base \<Rightarrow>
                (case fold_opt
                        (\<lambda>y. let read_y = (if y_invert then f_height f - 1 - (src_y + of_nat y) else src_y + of_nat y);
                                 src = unat read_y * unat (f_stride f) + unat src_x * unat bpp;
                                 out = dst + y * unat dst_stride
                             in fold_opt
                                  (\<lambda>x. copy_pixel (f_format f) (f_size f) base (src + x * unat bpp) dst_size (out + x * 4))
                                  [0..<unat width])
                        [0..<unat height] dm of
                   None \<Rightarrow> Fault
                 | Some dm' \<Rightarrow> Done dm')
            | _ \<Rightarrow> if width = 0 \<or> height = 0 then Done dm else Fault)"

section \<open>The order of the outputs\<close>

definition swap_if_greater :: "(nat \<Rightarrow> int) \<Rightarrow> nat \<Rightarrow> nat list \<Rightarrow> nat list" where
  "swap_if_greater x j order =
     (if x (order ! j) > x (order ! (j + 1)) then order[j := order ! (j + 1), j + 1 := order ! j] else order)"

definition bubble_pass :: "(nat \<Rightarrow> int) \<Rightarrow> nat \<Rightarrow> nat list \<Rightarrow> nat list" where
  "bubble_pass x m order = fold (swap_if_greater x) [0..<m] order"

definition output_order :: "(nat \<Rightarrow> int) \<Rightarrow> nat \<Rightarrow> nat list" where
  "output_order x n = fold (\<lambda>i. bubble_pass x (n - 1 - i)) [0..<n - 1] [0..<n]"

section \<open>Lemmas on the copy\<close>

lemma read_pixel_length [simp]: "length (read_pixel_rgba fmt m src) = 4"
  by (simp add: read_pixel_rgba_def)

lemma store4_nth: "length px = 4 \<Longrightarrow>
  store4 off px m i = (if off \<le> i \<and> i < off + 4 then px ! (i - off) else m i)"
proof -
  consider "i < off" | "i = off" | "i = off + 1" | "i = off + 2" | "i = off + 3" | "i \<ge> off + 4" by linarith
  then show ?thesis by cases (auto simp: store4_def)
qed

text \<open>The inner loop over \<open>n\<close> pixels of a row.\<close>

lemma copy_row:
  assumes "\<And>x. x < n \<Longrightarrow> src + x * b + 3 \<le> ss" and "out + 4 * n \<le> ds"
  shows "fold_opt (\<lambda>x. copy_pixel fmt ss sm (src + x * b) ds (out + x * 4)) [0..<n] dm =
    Some (\<lambda>i. if out \<le> i \<and> i < out + 4 * n
              then read_pixel_rgba fmt sm (src + ((i - out) div 4) * b) ! ((i - out) mod 4) else dm i)"
  using assms
proof (induction n)
  case 0
  then show ?case by (auto simp: fun_eq_iff)
next
  case (Suc n)
  have ok: "src + n * b + 3 \<le> ss" "out + n * 4 + 4 \<le> ds" using Suc.prems by auto
  let ?old = "\<lambda>i. if out \<le> i \<and> i < out + 4 * n
              then read_pixel_rgba fmt sm (src + ((i - out) div 4) * b) ! ((i - out) mod 4) else dm i"
  have "fold_opt (\<lambda>x. copy_pixel fmt ss sm (src + x * b) ds (out + x * 4)) [0..<n] dm = Some ?old"
    using Suc by auto
  then have "fold_opt (\<lambda>x. copy_pixel fmt ss sm (src + x * b) ds (out + x * 4)) [0..<Suc n] dm =
      Some (store4 (out + n * 4) (read_pixel_rgba fmt sm (src + n * b)) ?old)"
    using ok by (simp add: fold_opt_snoc copy_pixel_def)
  moreover have "store4 (out + n * 4) (read_pixel_rgba fmt sm (src + n * b)) ?old i =
      (if out \<le> i \<and> i < out + 4 * Suc n
       then read_pixel_rgba fmt sm (src + ((i - out) div 4) * b) ! ((i - out) mod 4) else dm i)" for i
  proof (cases "out + n * 4 \<le> i \<and> i < out + n * 4 + 4")
    case True
    then obtain k where k: "i = out + n * 4 + k" "k < 4" by (metis add_less_cancel_left le_Suc_ex)
    then have "(i - out) div 4 = n" and "(i - out) mod 4 = k" by auto
    then show ?thesis using k by (simp add: store4_nth)
  next
    case False
    then show ?thesis by (subst store4_nth) auto
  qed
  ultimately show ?case by (simp only: fun_eq_iff option.inject) simp
qed

text \<open>The outer loop: \<open>g\<close> gives the source offset of a row.\<close>

lemma copy_rows:
  assumes "\<And>y x. y < m \<Longrightarrow> x < n \<Longrightarrow> g y + x * b + 3 \<le> ss"
    and "\<And>y. y < m \<Longrightarrow> out + y * st + 4 * n \<le> ds" and "4 * n \<le> st"
  shows "fold_opt (\<lambda>y. fold_opt (\<lambda>x. copy_pixel fmt ss sm (g y + x * b) ds (out + y * st + x * 4)) [0..<n]) [0..<m] dm =
    Some (\<lambda>i. if out \<le> i \<and> (i - out) div st < m \<and> (i - out) mod st < 4 * n
              then read_pixel_rgba fmt sm (g ((i - out) div st) + ((i - out) mod st div 4) * b) ! ((i - out) mod st mod 4)
              else dm i)"
  using assms(1,2)
proof (induction m)
  case 0
  then show ?case by simp
next
  case (Suc m)
  let ?px = "\<lambda>i. read_pixel_rgba fmt sm (g ((i - out) div st) + ((i - out) mod st div 4) * b) ! ((i - out) mod st mod 4)"
  let ?old = "\<lambda>i. if out \<le> i \<and> (i - out) div st < m \<and> (i - out) mod st < 4 * n then ?px i else dm i"
  have "fold_opt (\<lambda>y. fold_opt (\<lambda>x. copy_pixel fmt ss sm (g y + x * b) ds (out + y * st + x * 4)) [0..<n]) [0..<m] dm = Some ?old"
    using Suc by auto
  moreover have "fold_opt (\<lambda>x. copy_pixel fmt ss sm (g m + x * b) ds (out + m * st + x * 4)) [0..<n] ?old =
    Some (\<lambda>i. if out + m * st \<le> i \<and> i < out + m * st + 4 * n
              then read_pixel_rgba fmt sm (g m + ((i - (out + m * st)) div 4) * b) ! ((i - (out + m * st)) mod 4) else ?old i)"
    using Suc.prems by (intro copy_row) auto
  moreover have "(if out + m * st \<le> i \<and> i < out + m * st + 4 * n
              then read_pixel_rgba fmt sm (g m + ((i - (out + m * st)) div 4) * b) ! ((i - (out + m * st)) mod 4) else ?old i) =
     (if out \<le> i \<and> (i - out) div st < Suc m \<and> (i - out) mod st < 4 * n then ?px i else dm i)" for i
  proof (cases "out + m * st \<le> i \<and> i < out + m * st + 4 * n")
    case True
    then obtain k where k: "i = out + m * st + k" "k < 4 * n" by (metis add_less_cancel_left le_Suc_ex)
    then have "k < st" using assms(3) by simp
    then have "(i - out) div st = m" and "(i - out) mod st = k" using k by auto
    then show ?thesis using k by auto
  next
    case False
    have "\<not> (out \<le> i \<and> (i - out) div st = m \<and> (i - out) mod st < 4 * n)"
    proof
      assume a: "out \<le> i \<and> (i - out) div st = m \<and> (i - out) mod st < 4 * n"
      then have "i = out + m * st + (i - out) mod st" by (metis add.assoc div_mult_mod_eq le_add_diff_inverse)
      then show False using False a by (metis add_less_cancel_left le_add1)
    qed
    then show ?thesis using False by (auto simp: less_Suc_eq)
  qed
  ultimately show ?case by (simp add: fold_opt_snoc)
qed

text \<open>What a pixel of a frame shows: the specification the copy is measured against.\<close>

definition frame_pixel :: "frame \<Rightarrow> bool \<Rightarrow> nat \<Rightarrow> nat \<Rightarrow> byte list" where
  "frame_pixel f y_invert x y =
     (case (f_data f, shm_format_info (f_format f)) of
        (Mapped base, Some bpp) \<Rightarrow>
          read_pixel_rgba (f_format f) base
            ((if y_invert then unat (f_height f) - 1 - y else y) * unat (f_stride f) + x * unat bpp)
      | _ \<Rightarrow> [])"

definition mapped_frame :: "frame \<Rightarrow> bool" where
  "mapped_frame f \<longleftrightarrow> (\<exists>base. f_data f = Mapped base) \<and> f_size f = unat (f_stride f) * unat (f_height f) \<and>
     unat (f_width f) < 2 ^ 30"

definition in_region :: "nat \<Rightarrow> nat \<Rightarrow> nat \<Rightarrow> nat \<Rightarrow> nat \<Rightarrow> bool" where
  "in_region out st w h i \<longleftrightarrow> out \<le> i \<and> (i - out) div st < h \<and> (i - out) mod st < 4 * w"

lemma bpp_values: "shm_format_info fmt = Some b \<Longrightarrow> unat b = 3 \<or> unat b = 4"
  by (auto simp: shm_format_info_def split: if_splits)

lemma unat_mult_small: "unat (w :: u32) * unat v < 2 ^ 32 \<Longrightarrow> unat (w * v) = unat w * unat v"
  by (subst unat_mult_lem [symmetric]) simp

lemma read_row:
  fixes H sy :: u32
  assumes "sy \<le> H" and "h \<le> H - sy" and "y < unat h"
  shows "unat (sy + of_nat y) = unat sy + y" and "unat (H - 1 - (sy + of_nat y)) = unat H - 1 - (unat sy + y)"
    and "unat sy + y < unat H"
proof -
  have hs: "unat (H - sy) = unat H - unat sy" using assms(1) by (rule unat_sub)
  have lt: "unat sy + y < unat H"
    using assms(2,3) hs by (simp add: word_le_nat_alt)
  then show "unat sy + y < unat H" .
  have top: "unat H < 2 ^ 32" using unsigned_less [of H, where ?'a = nat] by simp
  have yb: "y < 2 ^ 32" using lt top by simp
  have uy: "unat (of_nat y :: u32) = y" using yb by (simp add: unat_of_nat take_bit_eq_mod)
  have "unat sy + unat (of_nat y :: u32) < 2 ^ LENGTH(32)" using lt top uy by simp
  then have "unat (sy + of_nat y) = unat sy + unat (of_nat y :: u32)" by (subst unat_add_lem [symmetric])
  then show s: "unat (sy + of_nat y) = unat sy + y" using uy by simp
  have "1 \<le> H" using lt by (simp add: word_le_nat_alt)
  then have h1: "unat (H - 1) = unat H - 1" by (simp add: unat_sub)
  have "sy + of_nat y \<le> H - 1" using lt by (simp add: word_le_nat_alt s h1)
  then show "unat (H - 1 - (sy + of_nat y)) = unat H - 1 - (unat sy + y)"
    by (simp add: unat_sub s h1)
qed

lemma copy_region_spec:
  assumes mf: "mapped_frame f"
    and room: "\<And>y. y < unat h \<Longrightarrow> dst + y * unat ds + 4 * unat w \<le> dsz"
  shows "copy_frame_region_rgba f sx sy w h yi dsz dst dm ds \<noteq> Fault"
    and "copy_frame_region_rgba f sx sy w h yi dsz dst dm ds = Done dm' \<Longrightarrow>
      unat sx + unat w \<le> unat (f_width f) \<and> unat sy + unat h \<le> unat (f_height f) \<and> 4 * unat w \<le> unat ds \<and>
      dm' = (\<lambda>i. if in_region dst (unat ds) (unat w) (unat h) i
                 then frame_pixel f yi (unat sx + (i - dst) mod unat ds div 4) (unat sy + (i - dst) div unat ds)
                        ! ((i - dst) mod unat ds mod 4)
                 else dm i)"
proof -
  obtain base where base: "f_data f = Mapped base" and size: "f_size f = unat (f_stride f) * unat (f_height f)"
    and small: "unat (f_width f) < 2 ^ 30" using mf by (auto simp: mapped_frame_def)
  let ?r = "copy_frame_region_rgba f sx sy w h yi dsz dst dm ds"
  let ?out = "\<lambda>i. if in_region dst (unat ds) (unat w) (unat h) i
                 then frame_pixel f yi (unat sx + (i - dst) mod unat ds div 4) (unat sy + (i - dst) div unat ds)
                        ! ((i - dst) mod unat ds mod 4)
                 else dm i"
  have "?r = Refused \<or> (?r = Done ?out \<and> unat sx + unat w \<le> unat (f_width f) \<and>
      unat sy + unat h \<le> unat (f_height f) \<and> 4 * unat w \<le> unat ds)"
  proof (cases "?r = Refused")
    case False
    then obtain bpp where bpp: "shm_format_info (f_format f) = Some bpp"
      by (cases "shm_format_info (f_format f)") (auto simp: copy_frame_region_rgba_def)
    let ?b = "unat bpp" and ?S = "unat (f_stride f)" and ?H = "unat (f_height f)"
    have g: "\<not> f_stride f < f_width f * bpp" "sx \<le> f_width f" "sy \<le> f_height f" "w \<le> f_width f - sx"
        "h \<le> f_height f - sy" "\<not> ds < w * 4"
      using False by (auto simp: copy_frame_region_rgba_def bpp base split: if_splits)
    have b: "3 \<le> ?b" "?b \<le> 4" using bpp_values [OF bpp] by auto
    have mul: "unat (f_width f) * ?b \<le> unat (f_width f) * 4" using b(2) by simp
    then have "unat (f_width f) * ?b < 2 ^ 32"
      using small by (elim order.strict_trans1) simp
    then have st: "unat (f_width f) * ?b \<le> ?S"
      using g(1) unat_mult_small [of "f_width f" bpp] by (simp add: word_less_nat_alt)
    have w: "unat sx + unat w \<le> unat (f_width f)"
      using g(2,4) by (simp add: word_le_nat_alt unat_sub)
    have h: "unat sy + unat h \<le> ?H" using g(3,5) by (simp add: word_le_nat_alt unat_sub)
    have dst4: "4 * unat w \<le> unat ds"
      using g(6) w small unat_mult_small [of w 4] by (simp add: word_less_nat_alt)
    define g' where "g' = (\<lambda>y. unat (if yi then f_height f - 1 - (sy + of_nat y) else sy + of_nat y) * ?S + unat sx * ?b)"
    have row: "g' y = (if yi then ?H - 1 - (unat sy + y) else unat sy + y) * ?S + unat sx * ?b" if "y < unat h" for y
      using read_row [OF g(3,5) that] by (simp add: g'_def)
    have bound: "g' y + x * ?b + 3 \<le> f_size f" if "y < unat h" "x < unat w" for y x
    proof -
      let ?ry = "if yi then ?H - 1 - (unat sy + y) else unat sy + y"
      have "?ry < ?H" using read_row(3) [OF g(3,5) that(1)] by auto
      then have "(?ry + 1) * ?S \<le> ?H * ?S" by (intro mult_le_mono1) simp
      moreover have "(unat sx + x + 1) * ?b \<le> unat (f_width f) * ?b" using w that(2) by (intro mult_le_mono1) simp
      then have "unat sx * ?b + x * ?b + ?b \<le> ?S" using st by (simp add: algebra_simps)
      ultimately show ?thesis using b(1) by (simp add: row [OF that(1)] size algebra_simps)
    qed
    have eq: "?r = (case fold_opt (\<lambda>y. fold_opt (\<lambda>x. copy_pixel (f_format f) (f_size f) base (g' y + x * ?b) dsz
                  (dst + y * unat ds + x * 4)) [0..<unat w]) [0..<unat h] dm of None \<Rightarrow> Fault | Some dm' \<Rightarrow> Done dm')"
      using g by (simp add: copy_frame_region_rgba_def bpp base g'_def Let_def not_less)
    have "?r = Done (\<lambda>i. if dst \<le> i \<and> (i - dst) div unat ds < unat h \<and> (i - dst) mod unat ds < 4 * unat w
              then read_pixel_rgba (f_format f) base (g' ((i - dst) div unat ds) + ((i - dst) mod unat ds div 4) * ?b)
                     ! ((i - dst) mod unat ds mod 4)
              else dm i)"
      unfolding eq by (subst copy_rows [OF bound room dst4]) simp_all
    also have "\<dots> = Done ?out"
      by (auto simp: in_region_def fun_eq_iff row frame_pixel_def base bpp algebra_simps)
    finally show ?thesis using w h dst4 by simp
  qed simp
  then show "?r \<noteq> Fault" and "?r = Done dm' \<Longrightarrow> unat sx + unat w \<le> unat (f_width f) \<and>
      unat sy + unat h \<le> unat (f_height f) \<and> 4 * unat w \<le> unat ds \<and> dm' = ?out"
    by auto
qed

lemma copy_region_pixels:
  assumes "mapped_frame f" and "\<And>y. y < unat h \<Longrightarrow> dst + y * unat ds + 4 * unat w \<le> dst_size"
    and "copy_frame_region_rgba f sx sy w h yi dst_size dst dm ds = Done dm'"
    and "x < unat w" "y < unat h" "k < 4"
  shows "dm' (dst + y * unat ds + x * 4 + k) = frame_pixel f yi (unat sx + x) (unat sy + y) ! k"
proof -
  note sp = copy_region_spec(2) [OF assms(1-3)]
  let ?i = "dst + y * unat ds + x * 4 + k"
  have "x * 4 + k < unat ds" using sp assms by linarith
  then have dm: "(?i - dst) div unat ds = y" "(?i - dst) mod unat ds = x * 4 + k" by auto
  have "(x * 4 + k) div 4 = x" "(x * 4 + k) mod 4 = k" using assms(6) by auto
  then show ?thesis using sp assms dm by (simp add: in_region_def)
qed

section \<open>Lemmas on the order\<close>

lemma bubble_pass_simps [simp]:
  "bubble_pass x 0 xs = xs" "bubble_pass x (Suc m) xs = swap_if_greater x m (bubble_pass x m xs)"
  by (simp_all add: bubble_pass_def)

lemma swap_mset: "Suc j < length xs \<Longrightarrow> mset (swap_if_greater x j xs) = mset xs"
  by (simp add: swap_if_greater_def mset_swap)

lemma bubble_pass_mset: "m < length xs \<Longrightarrow> mset (bubble_pass x m xs) = mset xs"
proof (induction m)
  case (Suc m)
  then have "mset (bubble_pass x m xs) = mset xs" by simp
  then have "length (bubble_pass x m xs) = length xs" by (rule mset_eq_length)
  then show ?case using Suc by (simp add: swap_mset)
qed simp

lemma bubble_pass_length: "m < length xs \<Longrightarrow> length (bubble_pass x m xs) = length xs"
  by (rule mset_eq_length) (rule bubble_pass_mset)

text \<open>A pass leaves the positions behind it alone and moves a greatest element to its end.\<close>

lemma bubble_pass_spec:
  "m < length xs \<Longrightarrow>
     (\<forall>k. m < k \<and> k < length xs \<longrightarrow> bubble_pass x m xs ! k = xs ! k) \<and>
     (\<forall>k \<le> m. x (bubble_pass x m xs ! k) \<le> x (bubble_pass x m xs ! m)) \<and>
     (\<forall>k \<le> m. \<exists>l \<le> m. bubble_pass x m xs ! k = xs ! l)"
proof (induction m)
  case (Suc m)
  let ?ys = "bubble_pass x m xs"
  have len: "length ?ys = length xs" using Suc.prems by (simp add: bubble_pass_length)
  have IH: "\<And>k. m < k \<Longrightarrow> k < length xs \<Longrightarrow> ?ys ! k = xs ! k" "\<And>k. k \<le> m \<Longrightarrow> x (?ys ! k) \<le> x (?ys ! m)"
    "\<And>k. k \<le> m \<Longrightarrow> \<exists>l \<le> m. ?ys ! k = xs ! l"
    using Suc by auto
  have nth: "bubble_pass x (Suc m) xs ! k =
      (if x (?ys ! m) > x (?ys ! Suc m) then
         (if k = m then ?ys ! Suc m else if k = Suc m then ?ys ! m else ?ys ! k) else ?ys ! k)" if "k < length xs" for k
    using that Suc.prems len by (simp add: swap_if_greater_def nth_list_update)
  have ex: "\<exists>l \<le> Suc m. ?ys ! k = xs ! l" if "k \<le> Suc m" for k
    using that IH(1) [of "Suc m"] IH(3) [of k] Suc.prems by (metis le_SucE lessI order_refl le_SucI)
  show ?case
  proof (intro conjI allI impI)
    fix k
    assume "Suc m < k \<and> k < length xs"
    then show "bubble_pass x (Suc m) xs ! k = xs ! k" using nth [of k] IH(1) [of k] by auto
  next
    fix k
    assume k: "k \<le> Suc m"
    show "x (bubble_pass x (Suc m) xs ! k) \<le> x (bubble_pass x (Suc m) xs ! Suc m)"
      using nth [of k] nth [of "Suc m"] k IH(2) [of k] Suc.prems by (cases "k = Suc m"; cases "k = m") auto
    show "\<exists>l \<le> Suc m. bubble_pass x (Suc m) xs ! k = xs ! l"
      using nth [of k] k Suc.prems ex [of k] ex [of m] ex [of "Suc m"] by (auto split: if_splits)
  qed
qed simp

text \<open>After \<open>i\<close> passes the last \<open>i\<close> positions hold a maximum of everything up to them.\<close>

lemma output_order_passes:
  assumes "i \<le> n - 1"
  shows "mset (fold (\<lambda>i. bubble_pass x (n - 1 - i)) [0..<i] [0..<n]) = mset [0..<n] \<and>
    (\<forall>k. n - i \<le> k \<and> k < n \<longrightarrow> (\<forall>j \<le> k. x (fold (\<lambda>i. bubble_pass x (n - 1 - i)) [0..<i] [0..<n] ! j) \<le>
       x (fold (\<lambda>i. bubble_pass x (n - 1 - i)) [0..<i] [0..<n] ! k)))"
  using assms
proof (induction i)
  case 0
  then show ?case by simp
next
  case (Suc i)
  define xs where "xs = fold (\<lambda>i. bubble_pass x (n - 1 - i)) [0..<i] [0..<n]"
  let ?m = "n - 1 - i"
  have IH: "mset xs = mset [0..<n]" "\<And>k j. n - i \<le> k \<Longrightarrow> k < n \<Longrightarrow> j \<le> k \<Longrightarrow> x (xs ! j) \<le> x (xs ! k)"
    using Suc by (auto simp: xs_def)
  have len: "length xs = n" using mset_eq_length [OF IH(1)] by simp
  have m: "?m < length xs" using Suc.prems len by simp
  note sp = bubble_pass_spec [OF m, of x]
  have "x (bubble_pass x ?m xs ! j) \<le> x (bubble_pass x ?m xs ! k)" if k: "n - Suc i \<le> k" "k < n" "j \<le> k" for k j
  proof (cases "k = ?m")
    case True
    then show ?thesis using sp k(3) by blast
  next
    case False
    then have mk: "?m < k" "n - i \<le> k" using k(1) Suc.prems by auto
    have same: "bubble_pass x ?m xs ! k = xs ! k" using sp mk k(2) len by simp
    obtain l where "l \<le> k" "bubble_pass x ?m xs ! j = xs ! l"
    proof (cases "j \<le> ?m")
      case True
      then obtain l where "l \<le> ?m" "bubble_pass x ?m xs ! j = xs ! l" using sp by blast
      then show ?thesis using that [of l] mk(1) by simp
    next
      case False
      then show ?thesis using sp k len that [of j] by auto
    qed
    then show ?thesis using IH(2) [OF mk(2) k(2)] same by simp
  qed
  moreover have "fold (\<lambda>i. bubble_pass x (n - 1 - i)) [0..<Suc i] [0..<n] = bubble_pass x ?m xs"
    by (simp add: xs_def)
  ultimately show ?case using bubble_pass_mset [OF m, of x] IH(1) by auto
qed

lemma order_perm: "mset (output_order x n) = mset [0..<n]"
  using output_order_passes [of "n - 1" n x] by (simp add: output_order_def)

lemma order_sorted: "sorted (map x (output_order x n))"
proof -
  have p: "\<And>k j. 1 \<le> k \<Longrightarrow> k < n \<Longrightarrow> j \<le> k \<Longrightarrow> x (output_order x n ! j) \<le> x (output_order x n ! k)"
    using output_order_passes [of "n - 1" n x] by (auto simp: output_order_def)
  have "length (output_order x n) = n" using mset_eq_length [OF order_perm, of x n] by simp
  then show ?thesis using p by (auto simp: sorted_iff_nth_mono_less)
qed

section \<open>Properties\<close>

text \<open>
  The outputs are arranged left to right: the order that the capture of all outputs uses is a
  permutation of the outputs, sorted by their logical x position.
\<close>

theorem output_order_sorted:
  "mset (output_order x n) = mset [0..<n] \<and> sorted (map x (output_order x n))"
  using order_perm order_sorted by blast


text \<open>A frame of two XRGB8888 pixels; the second one, which is red, is copied.\<close>

definition tiny_frame :: frame where
  "tiny_frame = fresh_frame\<lparr>f_format := WL_SHM_FORMAT_XRGB8888, f_width := 2, f_height := 1, f_stride := 8,
     f_size := 8, f_data := Mapped (\<lambda>i. if i = 0 \<or> i = 6 then 255 else 0)\<rparr>"


end
