(* ===== verification/Screenshot.thy ===== *)
theory Screenshot
  imports Screenshot_Pixels
begin

text \<open>
  The screenshot tool, \<^verbatim>\<open>src/tools/screenshot/main.c\<close>: the outputs and globals it learns from the
  compositor, the two capture protocols as loops over delivered batches of events, cropping and
  composing, and the command line. \<open>None\<close> as a result means that the tool still waits for the
  compositor. The image encoder is libpng: the model keeps the rows handed to it.
\<close>

definition MAX_OUTPUTS :: nat where "MAX_OUTPUTS = 16"

record wl_out =
  o_x :: int
  o_y :: int
  o_mode_w :: int
  o_mode_h :: int
  o_logical_w :: int
  o_logical_h :: int
  o_scale :: int
  o_name :: string
  o_xdg_done :: bool

record shot_state =
  ss_shm :: bool
  ss_screencopy :: bool
  ss_xdg_manager :: bool
  ss_ext_source :: bool
  ss_ext_capture :: bool
  ss_outputs :: "wl_out list"

section \<open>Outputs and globals\<close>

datatype output_event =
    Out_geometry int int
  | Out_mode u32 int int
  | Out_done
  | Out_scale int
  | Out_name "string option"
  | Out_description
  | Xdg_position int int
  | Xdg_size int int
  | Xdg_done
  | Xdg_name "string option"
  | Xdg_description

definition WL_OUTPUT_MODE_CURRENT :: u32 where "WL_OUTPUT_MODE_CURRENT = 1"

fun output_handle :: "output_event \<Rightarrow> wl_out \<Rightarrow> wl_out" where
  "output_handle (Out_geometry x y) o' = o'\<lparr>o_x := x, o_y := y\<rparr>"
| "output_handle (Out_mode flags w h) o' =
     (if Bit_Operations.and flags WL_OUTPUT_MODE_CURRENT \<noteq> 0 then o'\<lparr>o_mode_w := w, o_mode_h := h\<rparr> else o')"
| "output_handle Out_done o' = o'"
| "output_handle (Out_scale s) o' = o'\<lparr>o_scale := s\<rparr>"
| "output_handle (Out_name n) o' = o'\<lparr>o_name := (case n of None \<Rightarrow> [] | Some s \<Rightarrow> take 63 s)\<rparr>"
| "output_handle Out_description o' = o'"
| "output_handle (Xdg_position x y) o' = o'\<lparr>o_x := x, o_y := y\<rparr>"
| "output_handle (Xdg_size w h) o' = o'\<lparr>o_logical_w := w, o_logical_h := h\<rparr>"
| "output_handle Xdg_done o' = o'\<lparr>o_xdg_done := True\<rparr>"
| "output_handle (Xdg_name n) o' =
     (case n of Some s \<Rightarrow> if o_name o' = [] then o'\<lparr>o_name := take 63 s\<rparr> else o' | None \<Rightarrow> o')"
| "output_handle Xdg_description o' = o'"

definition new_output :: wl_out where
  "new_output = \<lparr>o_x = 0, o_y = 0, o_mode_w = 0, o_mode_h = 0, o_logical_w = 0, o_logical_h = 0, o_scale = 1,
     o_name = [], o_xdg_done = False\<rparr>"

definition registry_global :: "string \<Rightarrow> shot_state \<Rightarrow> shot_state" where
  "registry_global iface s =
     (if iface = ''wl_shm'' then s\<lparr>ss_shm := True\<rparr>
      else if iface = ''zwlr_screencopy_manager_v1'' then s\<lparr>ss_screencopy := True\<rparr>
      else if iface = ''zxdg_output_manager_v1'' then s\<lparr>ss_xdg_manager := True\<rparr>
      else if iface = ''ext_output_image_capture_source_manager_v1'' then s\<lparr>ss_ext_source := True\<rparr>
      else if iface = ''ext_image_copy_capture_manager_v1'' then s\<lparr>ss_ext_capture := True\<rparr>
      else if iface = ''wl_output'' \<and> length (ss_outputs s) < MAX_OUTPUTS
        then s\<lparr>ss_outputs := ss_outputs s @ [new_output]\<rparr>
      else s)"

section \<open>The screencopy protocol\<close>

text \<open>\<open>Ev_ready\<close> carries what the compositor has written into the shared buffer by then.\<close>

datatype frame_event =
    Ev_buffer u32 u32 u32 u32
  | Ev_flags u32
  | Ev_ready mem
  | Ev_failed
  | Ev_damage
  | Ev_linux_dmabuf
  | Ev_buffer_done

definition show_pixels :: "mem \<Rightarrow> frame \<Rightarrow> frame" where
  "show_pixels px f = f\<lparr>f_data := (case f_data f of Mapped _ \<Rightarrow> Mapped px | p \<Rightarrow> p)\<rparr>"

fun frame_handle :: "alloc_sys \<Rightarrow> frame_event \<Rightarrow> frame \<Rightarrow> frame" where
  "frame_handle al (Ev_buffer fmt w h stride) f =
     (case shm_format_info fmt of
        Some bpp \<Rightarrow> f\<lparr>f_format := fmt, f_width := w, f_height := h, f_stride := stride, f_bpp := bpp,
                      f_shm_received := True\<rparr>
      | None \<Rightarrow> f)"
| "frame_handle al (Ev_flags flags) f = f\<lparr>f_flags := flags\<rparr>"
| "frame_handle al (Ev_ready px) f = (show_pixels px f)\<lparr>f_done := 1\<rparr>"
| "frame_handle al Ev_failed f = f\<lparr>f_done := - 1\<rparr>"
| "frame_handle al Ev_damage f = f"
| "frame_handle al Ev_linux_dmabuf f = f"
| "frame_handle al Ev_buffer_done f =
     (if \<not> f_shm_received f then f\<lparr>f_done := - 1\<rparr>
      else let f' = alloc_shm_buffer al f in if \<not> f_buffer f' then f'\<lparr>f_done := - 1\<rparr> else f')"

record sc_input =
  sc_version :: nat
  sc_batches :: "frame_event list option list"
  sc_alloc :: alloc_sys

definition do_capture :: "sc_input \<Rightarrow> (bool \<times> frame) option" where
  "do_capture ci =
     (if sc_version ci \<ge> 3 then
        (case dispatch_until (\<lambda>f. f_done f \<noteq> 0) (frame_handle (sc_alloc ci)) (sc_batches ci) fresh_frame of
           None \<Rightarrow> None
         | Some (False, f, _) \<Rightarrow> Some (False, f)
         | Some (True, f, _) \<Rightarrow> Some (f_done f = 1, f))
      else
        (case dispatch_until (\<lambda>f. f_shm_received f \<or> f_done f \<noteq> 0) (frame_handle (sc_alloc ci))
                (sc_batches ci) fresh_frame of
           None \<Rightarrow> None
         | Some (False, f, _) \<Rightarrow> Some (False, f)
         | Some (True, f, bs) \<Rightarrow>
             if f_done f \<noteq> 0 then Some (f_done f = 1, f)
             else
               let f1 = alloc_shm_buffer (sc_alloc ci) f
               in if \<not> f_buffer f1 then Some (False, f1)
                  else (case dispatch_until (\<lambda>f. f_done f \<noteq> 0) (frame_handle (sc_alloc ci)) bs f1 of
                          None \<Rightarrow> None
                        | Some (False, f2, _) \<Rightarrow> Some (False, f2)
                        | Some (True, f2, _) \<Rightarrow> Some (f_done f2 = 1, f2))))"

section \<open>The ext-image-copy-capture protocol\<close>

datatype ext_event =
    Xs_buffer_size u32 u32
  | Xs_shm_format u32
  | Xs_dmabuf_device
  | Xs_dmabuf_format
  | Xs_done
  | Xs_stopped
  | Xf_transform
  | Xf_damage
  | Xf_presentation_time
  | Xf_ready mem
  | Xf_failed

record ext_ctx =
  x_frame :: frame
  x_session_done :: bool

fun ext_handle :: "ext_event \<Rightarrow> ext_ctx \<Rightarrow> ext_ctx" where
  "ext_handle (Xs_buffer_size w h) c = c\<lparr>x_frame := (x_frame c)\<lparr>f_width := w, f_height := h\<rparr>\<rparr>"
| "ext_handle (Xs_shm_format fmt) c =
     (case shm_format_info fmt of
        None \<Rightarrow> c
      | Some bpp \<Rightarrow>
          if \<not> f_shm_received (x_frame c) \<or> prefer_shm_format (f_format (x_frame c)) fmt
          then c\<lparr>x_frame := (x_frame c)\<lparr>f_format := fmt, f_bpp := bpp, f_shm_received := True\<rparr>\<rparr>
          else c)"
| "ext_handle Xs_dmabuf_device c = c"
| "ext_handle Xs_dmabuf_format c = c"
| "ext_handle Xs_done c = c\<lparr>x_session_done := True\<rparr>"
| "ext_handle Xs_stopped c = c\<lparr>x_session_done := True, x_frame := (x_frame c)\<lparr>f_done := - 1\<rparr>\<rparr>"
| "ext_handle Xf_transform c = c"
| "ext_handle Xf_damage c = c"
| "ext_handle Xf_presentation_time c = c"
| "ext_handle (Xf_ready px) c = c\<lparr>x_frame := (show_pixels px (x_frame c))\<lparr>f_done := 1\<rparr>\<rparr>"
| "ext_handle Xf_failed c = c\<lparr>x_frame := (x_frame c)\<lparr>f_done := - 1\<rparr>\<rparr>"

record ext_input =
  xi_batches :: "ext_event list option list"
  xi_alloc :: alloc_sys

text \<open>
  The two halves of \<open>capture_output_ext\<close>: waiting for the buffer constraints, then allocating,
  attaching the buffer and waiting for the frame.
\<close>

definition ext_copy :: "alloc_sys \<Rightarrow> ext_event list option list \<Rightarrow> ext_ctx \<Rightarrow> (bool \<times> frame) option" where
  "ext_copy al bs c =
     (let f = x_frame c
      in if f_done f = - 1 \<or> f_width f = 0 \<or> f_height f = 0 \<or> \<not> f_shm_received f then Some (False, f)
         else
           let f1 = alloc_shm_buffer al (f\<lparr>f_stride := f_width f * f_bpp f\<rparr>)
           in if \<not> f_buffer f1 then Some (False, f1)
              else (case dispatch_until (\<lambda>c. f_done (x_frame c) \<noteq> 0) ext_handle bs (c\<lparr>x_frame := f1\<rparr>) of
                      None \<Rightarrow> None
                    | Some (_, c2, _) \<Rightarrow> Some (f_done (x_frame c2) = 1, (x_frame c2)\<lparr>f_flags := 0\<rparr>)))"

definition capture_output_ext :: "shot_state \<Rightarrow> ext_input \<Rightarrow> frame \<Rightarrow> (bool \<times> frame) option" where
  "capture_output_ext st xi f0 =
     (if \<not> ss_ext_source st \<or> \<not> ss_ext_capture st then Some (False, f0)
      else case dispatch_until (\<lambda>c. x_session_done c \<or> f_done (x_frame c) \<noteq> 0) ext_handle (xi_batches xi)
                  \<lparr>x_frame = fresh_frame, x_session_done = False\<rparr> of
             None \<Rightarrow> None
           | Some (False, c, _) \<Rightarrow> Some (False, x_frame c)
           | Some (True, c, bs) \<Rightarrow> ext_copy (xi_alloc xi) bs c)"

section \<open>Capturing\<close>

record capture_input =
  ci_ext :: ext_input
  ci_sc :: sc_input

text \<open>\<open>capture_one\<close> also gives the descriptors that its \<open>frame_cleanup\<close> closes.\<close>

definition capture_one :: "shot_state \<Rightarrow> capture_input \<Rightarrow> frame \<Rightarrow> (bool \<times> frame \<times> int list) option" where
  "capture_one st ci f0 =
     (case capture_output_ext st (ci_ext ci) f0 of
        None \<Rightarrow> None
      | Some (True, f) \<Rightarrow> Some (True, f, [])
      | Some (False, f) \<Rightarrow>
          (case frame_cleanup f of (f', closed) \<Rightarrow>
             if \<not> ss_screencopy st then Some (False, f', closed)
             else case do_capture (ci_sc ci) of
                    None \<Rightarrow> None
                  | Some (ok, f2) \<Rightarrow> Some (ok, f2, closed)))"

record image =
  im_width :: u32
  im_height :: u32
  im_rows :: "byte list list"

record shot_sys =
  sy_malloc :: bool
  sy_png :: bool

definition write_png_rgba :: "shot_sys \<Rightarrow> mem \<Rightarrow> u32 \<Rightarrow> u32 \<Rightarrow> u32 \<Rightarrow> image checked" where
  "write_png_rgba sy data width height stride =
     (if \<not> sy_png sy then Refused
      else Done \<lparr>im_width = width, im_height = height,
                 im_rows = map (\<lambda>y. map (\<lambda>b. data (y * unat stride + b)) [0..<4 * unat width]) [0..<unat height]\<rparr>)"

definition write_png_frame :: "shot_sys \<Rightarrow> frame \<Rightarrow> bool \<Rightarrow> image checked" where
  "write_png_frame sy f y_invert =
     (let stride = f_width f * 4; size = unat stride * unat (f_height f)
      in if \<not> sy_malloc sy then Refused
         else case copy_frame_region_rgba f 0 0 (f_width f) (f_height f) y_invert size 0 (\<lambda>_. 0) stride of
                Fault \<Rightarrow> Fault
              | Refused \<Rightarrow> Refused
              | Done rgba \<Rightarrow> write_png_rgba sy rgba (f_width f) (f_height f) stride)"

definition inverted :: "frame \<Rightarrow> bool" where
  "inverted f \<longleftrightarrow> Bit_Operations.and (f_flags f) Y_INVERT \<noteq> 0"

definition capture_output :: "shot_sys \<Rightarrow> shot_state \<Rightarrow> capture_input \<Rightarrow> frame \<Rightarrow> image checked option" where
  "capture_output sy st ci f0 =
     (case capture_one st ci f0 of
        None \<Rightarrow> None
      | Some (True, f, _) \<Rightarrow> Some (write_png_frame sy f (inverted f))
      | Some (False, f, _) \<Rightarrow> Some Refused)"

text \<open>Signed division in C truncates; here the divisor is positive.\<close>

definition c_div :: "int \<Rightarrow> int \<Rightarrow> int" where
  "c_div a b = sgn a * (\<bar>a\<bar> div b)"

definition logical_w :: "wl_out \<Rightarrow> int" where
  "logical_w out =
     (if o_xdg_done out \<and> o_logical_w out > 0 then o_logical_w out
      else if o_scale out > 0 then c_div (o_mode_w out) (o_scale out) else o_mode_w out)"

definition logical_h :: "wl_out \<Rightarrow> int" where
  "logical_h out =
     (if o_xdg_done out \<and> o_logical_h out > 0 then o_logical_h out
      else if o_scale out > 0 then c_div (o_mode_h out) (o_scale out) else o_mode_h out)"

text \<open>The output that contains the region's origin, else the first one.\<close>

definition region_target :: "wl_out list \<Rightarrow> int \<Rightarrow> int \<Rightarrow> wl_out" where
  "region_target outs gx gy =
     (case find (\<lambda>out. gx \<ge> o_x out \<and> gx < o_x out + logical_w out \<and>
                       gy \<ge> o_y out \<and> gy < o_y out + logical_h out) outs of
        Some out \<Rightarrow> out
      | None \<Rightarrow> hd outs)"

definition region_scale :: "wl_out \<Rightarrow> frame \<Rightarrow> u32" where
  "region_scale tgt ef =
     (let s0 = (if o_scale tgt > 0 then word_of_int (o_scale tgt) else 1);
          s1 = (if f_width ef > 0 \<and> o_logical_w tgt > 0 then f_width ef div word_of_int (o_logical_w tgt) else s0)
      in if sint s1 < 1 then 1 else s1)"

definition clamp_extent :: "u32 \<Rightarrow> u32 \<Rightarrow> u32 \<Rightarrow> u32" where
  "clamp_extent p len limit = (if p + len > limit then (if limit > p then limit - p else 0) else len)"

definition crop_frame :: "shot_sys \<Rightarrow> wl_out \<Rightarrow> int \<Rightarrow> int \<Rightarrow> int \<Rightarrow> int \<Rightarrow> frame \<Rightarrow> image checked" where
  "crop_frame sy tgt gx gy gw gh ef =
     (let scale = region_scale tgt ef;
          px0 = word_of_int (gx - o_x tgt) * scale; py0 = word_of_int (gy - o_y tgt) * scale;
          px = (if sint px0 < 0 then 0 else px0); py = (if sint py0 < 0 then 0 else py0);
          pw = clamp_extent px (word_of_int gw * scale) (f_width ef);
          ph = clamp_extent py (word_of_int gh * scale) (f_height ef)
      in if pw = 0 \<or> ph = 0 then Refused
         else
           let cstride = pw * 4
           in if \<not> sy_malloc sy then Refused
              else case copy_frame_region_rgba ef px py pw ph False (unat cstride * unat ph) 0 (\<lambda>_. 0) cstride of
                     Fault \<Rightarrow> Fault
                   | Refused \<Rightarrow> Refused
                   | Done crop \<Rightarrow> write_png_rgba sy crop pw ph cstride)"

text \<open>\<open>region_sc\<close> is what the compositor delivers for the region request, \<open>ci\<close> for the fallback.\<close>

definition capture_region ::
  "shot_sys \<Rightarrow> shot_state \<Rightarrow> sc_input \<Rightarrow> capture_input \<Rightarrow> frame \<Rightarrow> int \<Rightarrow> int \<Rightarrow> int \<Rightarrow> int \<Rightarrow> image checked option" where
  "capture_region sy st region_sc ci f0 gx gy gw gh =
     (let tgt = region_target (ss_outputs st) gx gy;
          fallback =
            (case capture_one st ci f0 of
               None \<Rightarrow> None
             | Some (False, _, _) \<Rightarrow> Some Refused
             | Some (True, ef, _) \<Rightarrow> Some (crop_frame sy tgt gx gy gw gh ef))
      in if ss_screencopy st then
           (case do_capture region_sc of
              None \<Rightarrow> None
            | Some (True, f) \<Rightarrow> Some (write_png_frame sy f (inverted f))
            | Some (False, _) \<Rightarrow> fallback)
         else fallback)"

section \<open>All outputs on one canvas\<close>

text \<open>The captures in order; the first one that fails ends the loop.\<close>

fun capture_each :: "shot_state \<Rightarrow> capture_input list \<Rightarrow> frame \<Rightarrow> frame list option option" where
  "capture_each st [] f0 = Some (Some [])"
| "capture_each st (ci # cis) f0 =
     (case capture_one st ci f0 of
        None \<Rightarrow> None
      | Some (False, _, _) \<Rightarrow> Some None
      | Some (True, f, _) \<Rightarrow>
          (case capture_each st cis f0 of
             None \<Rightarrow> None
           | Some None \<Rightarrow> Some None
           | Some (Some fs) \<Rightarrow> Some (Some (f # fs))))"

definition canvas_width :: "frame list \<Rightarrow> u32" where
  "canvas_width frames = foldl (\<lambda>w f. w + f_width f) 0 frames"

definition canvas_height :: "frame list \<Rightarrow> u32" where
  "canvas_height frames = foldl (\<lambda>h f. if f_height f > h then f_height f else h) 0 frames"

text \<open>The loop that places the frames: next offset and canvas.\<close>

fun place_frames :: "nat \<Rightarrow> u32 \<Rightarrow> frame list \<Rightarrow> u32 \<Rightarrow> mem \<Rightarrow> mem checked" where
  "place_frames sz stride [] x_off canvas = Done canvas"
| "place_frames sz stride (f # fs) x_off canvas =
     (case copy_frame_region_rgba f 0 0 (f_width f) (f_height f) (inverted f) sz (unat x_off * 4) canvas stride of
        Fault \<Rightarrow> Fault
      | Refused \<Rightarrow> Refused
      | Done canvas' \<Rightarrow> place_frames sz stride fs (x_off + f_width f) canvas')"

definition compose :: "shot_sys \<Rightarrow> int list \<Rightarrow> frame list \<Rightarrow> image checked" where
  "compose sy xs frames =
     (let order = output_order ((!) xs) (length frames);
          total_w = canvas_width frames; total_h = canvas_height frames;
          canvas_stride = total_w * 4
      in if \<not> sy_malloc sy then Refused
         else case place_frames (unat total_h * unat canvas_stride) canvas_stride (map ((!) frames) order) 0 (\<lambda>_. 0) of
                Fault \<Rightarrow> Fault
              | Refused \<Rightarrow> Refused
              | Done canvas \<Rightarrow> write_png_rgba sy canvas total_w total_h canvas_stride)"

text \<open>\<open>memset(frames, 0, sizeof(frames))\<close>: every frame starts with descriptor 0.\<close>

definition zero_frame :: frame where
  "zero_frame = fresh_frame\<lparr>f_fd := 0\<rparr>"

definition capture_all ::
  "shot_sys \<Rightarrow> shot_state \<Rightarrow> capture_input list \<Rightarrow> frame \<Rightarrow> image checked option" where
  "capture_all sy st cis f0 =
     (case ss_outputs st of
        [] \<Rightarrow> Some Refused
      | [_] \<Rightarrow> capture_output sy st (hd cis) f0
      | outs \<Rightarrow>
          (case capture_each st (take (length outs) cis) zero_frame of
             None \<Rightarrow> None
           | Some None \<Rightarrow> Some Refused
           | Some (Some frames) \<Rightarrow> Some (compose sy (map o_x outs) frames)))"

section \<open>The command line\<close>

record shot_opts =
  op_output :: "string option"
  op_geometry :: "string option"
  op_file :: "string option"
  op_cursor :: bool

fun shot_args :: "string list \<Rightarrow> shot_opts \<Rightarrow> shot_opts option" where
  "shot_args [] op = Some op"
| "shot_args (a # as) op =
     (if a = ''-c'' then shot_args as (op\<lparr>op_cursor := True\<rparr>)
      else if a = ''-o'' \<and> as \<noteq> [] then shot_args (tl as) (op\<lparr>op_output := Some (hd as)\<rparr>)
      else if a = ''-g'' \<and> as \<noteq> [] then shot_args (tl as) (op\<lparr>op_geometry := Some (hd as)\<rparr>)
      else if a = [] \<or> hd a \<noteq> CHR ''-'' then shot_args as (op\<lparr>op_file := Some a\<rparr>)
      else None)"

text \<open>\<open>%d\<close> of \<open>sscanf\<close>: white space, an optional sign and digits.\<close>

definition scan_d :: "string \<Rightarrow> (int \<times> string) option" where
  "scan_d s = (case strtol s of (v, r, _) \<Rightarrow> if r = s then None else Some (v, r))"

definition scan_lit :: "char \<Rightarrow> string \<Rightarrow> string option" where
  "scan_lit c s = (if s \<noteq> [] \<and> hd s = c then Some (tl s) else None)"

text \<open>\<open>sscanf(geometry, "%d,%d %dx%d", ...) == 4\<close>.\<close>

definition scan_geometry :: "string \<Rightarrow> (int \<times> int \<times> int \<times> int) option" where
  "scan_geometry s =
     (case scan_d s of None \<Rightarrow> None | Some (gx, s1) \<Rightarrow>
      case scan_lit (CHR '','') s1 of None \<Rightarrow> None | Some s2 \<Rightarrow>
      case scan_d s2 of None \<Rightarrow> None | Some (gy, s3) \<Rightarrow>
      case scan_d (dropWhile is_space s3) of None \<Rightarrow> None | Some (gw, s4) \<Rightarrow>
      case scan_lit (CHR ''x'') s4 of None \<Rightarrow> None | Some s5 \<Rightarrow>
      case scan_d s5 of None \<Rightarrow> None | Some (gh, _) \<Rightarrow> Some (gx, gy, gw, gh))"

definition required_globals :: "shot_state \<Rightarrow> bool" where
  "required_globals st \<longleftrightarrow>
     \<not> (\<not> ss_shm st \<or> ss_outputs st = [] \<or> (\<not> ss_screencopy st \<and> \<not> (ss_ext_source st \<and> ss_ext_capture st)))"

definition exit_of :: "image checked \<Rightarrow> nat" where
  "exit_of r = (case r of Done _ \<Rightarrow> 0 | _ \<Rightarrow> 1)"

text \<open>
  \<open>main\<close>: the state after the round trips is an input; the result is the exit code and the image
  that was written. \<open>Fault\<close> stands for an access outside allocated memory.
\<close>

definition shot_main ::
  "shot_sys \<Rightarrow> shot_state \<Rightarrow> sc_input \<Rightarrow> capture_input list \<Rightarrow> frame \<Rightarrow> string list \<Rightarrow> (nat \<times> image checked) option" where
  "shot_main sy st region_sc cis f0 argv =
     (case shot_args argv \<lparr>op_output = None, op_geometry = None, op_file = None, op_cursor = False\<rparr> of
        None \<Rightarrow> Some (1, Refused)
      | Some op \<Rightarrow>
          if op_file op = None then Some (1, Refused)
          else if \<not> required_globals st then Some (1, Refused)
          else
            (case op_geometry op of
               Some g \<Rightarrow>
                 (case scan_geometry g of
                    None \<Rightarrow> Some (1, Refused)
                  | Some (gx, gy, gw, gh) \<Rightarrow>
                      map_option (\<lambda>r. (exit_of r, r)) (capture_region sy st region_sc (hd cis) f0 gx gy gw gh))
             | None \<Rightarrow>
                 (case op_output op of
                    Some n \<Rightarrow>
                      if n \<notin> o_name ` set (ss_outputs st) then Some (1, Refused)
                      else map_option (\<lambda>r. (exit_of r, r)) (capture_output sy st (hd cis) f0)
                  | None \<Rightarrow> map_option (\<lambda>r. (exit_of r, r)) (capture_all sy st cis f0))))"

section \<open>Lemmas\<close>

definition im_pixel :: "image \<Rightarrow> nat \<Rightarrow> nat \<Rightarrow> nat \<Rightarrow> byte" where
  "im_pixel im x y k = im_rows im ! y ! (x * 4 + k)"

lemma write_png_pixels:
  assumes "write_png_rgba sy data w h st = Done im"
  shows "im_width im = w" and "im_height im = h"
    and "x < unat w \<Longrightarrow> y < unat h \<Longrightarrow> k < 4 \<Longrightarrow> im_pixel im x y k = data (y * unat st + x * 4 + k)"
  using assms by (auto simp: write_png_rgba_def im_pixel_def add.assoc split: if_splits)

text \<open>A region copied to a buffer of its own size and encoded.\<close>

lemma copy_to_image:
  assumes mf: "mapped_frame f" and small: "unat w < 2 ^ 30"
  shows "copy_frame_region_rgba f ox oy w h yi (unat (w * 4) * unat h) 0 dm (w * 4) \<noteq> Fault"
    and "copy_frame_region_rgba f ox oy w h yi (unat (w * 4) * unat h) 0 dm (w * 4) = Done dm' \<Longrightarrow>
      write_png_rgba sy dm' w h (w * 4) = Done im \<Longrightarrow>
      unat ox + unat w \<le> unat (f_width f) \<and> unat oy + unat h \<le> unat (f_height f) \<and>
      im_width im = w \<and> im_height im = h \<and>
      (\<forall>x < unat w. \<forall>y < unat h. \<forall>k < 4. im_pixel im x y k = frame_pixel f yi (unat ox + x) (unat oy + y) ! k)"
proof -
  have st: "unat (w * 4) = 4 * unat w" using small unat_mult_small [of w 4] by simp
  have room: "0 + y * unat (w * 4) + 4 * unat w \<le> unat (w * 4) * unat h" if "y < unat h" for y
  proof -
    have "(y + 1) * (4 * unat w) \<le> unat h * (4 * unat w)" using that by (intro mult_le_mono1) simp
    then show ?thesis by (simp add: st algebra_simps)
  qed
  show "copy_frame_region_rgba f ox oy w h yi (unat (w * 4) * unat h) 0 dm (w * 4) \<noteq> Fault"
    using copy_region_spec(1) [OF mf room] .
  assume r: "copy_frame_region_rgba f ox oy w h yi (unat (w * 4) * unat h) 0 dm (w * 4) = Done dm'"
    and p: "write_png_rgba sy dm' w h (w * 4) = Done im"
  show "unat ox + unat w \<le> unat (f_width f) \<and> unat oy + unat h \<le> unat (f_height f) \<and>
      im_width im = w \<and> im_height im = h \<and>
      (\<forall>x < unat w. \<forall>y < unat h. \<forall>k < 4. im_pixel im x y k = frame_pixel f yi (unat ox + x) (unat oy + y) ! k)"
    using copy_region_spec(2) [OF mf room r] copy_region_pixels [OF mf room r] write_png_pixels [OF p] by simp
qed

lemma copy_refuses_wide:
  assumes "unat (f_width f) < unat w"
  shows "copy_frame_region_rgba f ox oy w h yi n dst dm st = Refused"
proof -
  have "w > f_width f - ox" if "ox \<le> f_width f"
  proof -
    have "unat (f_width f - ox) = unat (f_width f) - unat ox" using that by (rule unat_sub)
    then show ?thesis using assms by (simp add: word_less_nat_alt)
  qed
  then have g: "ox > f_width f \<or> oy > f_height f \<or> w > f_width f - ox \<or> h > f_height f - oy" by fastforce
  show ?thesis unfolding copy_frame_region_rgba_def by (simp only: g if_True) (simp split: option.split)
qed

lemma strtol_show_int:
  assumes "\<bar>i\<bar> \<le> LONG_MAX" and "r = [] \<or> \<not> is_digit (hd r)"
  shows "strtol (show_int i @ r) = (i, r, False)"
proof (cases "0 \<le> i")
  case True
  then show ?thesis using strtol_show_nat [of "nat i" r] assms by (simp add: show_int_def)
next
  case False
  let ?n = "nat (- i)"
  have dig: "\<And>c. c \<in> set (show_nat ?n) \<Longrightarrow> is_digit c" by (rule show_nat_digits)
  have "takeWhile is_digit (show_nat ?n @ r) = show_nat ?n" "dropWhile is_digit (show_nat ?n @ r) = r"
    using dig assms(2) by (cases r; auto simp: takeWhile_append dropWhile_append)+
  then show ?thesis
    using False assms(1) by (simp add: show_int_def strtol_def is_space_def less_eq_char_def Let_def LONG_MAX_def LONG_MIN_def)
qed

lemma scan_d_show_int:
  assumes "\<bar>i\<bar> \<le> LONG_MAX" and "r = [] \<or> \<not> is_digit (hd r)"
  shows "scan_d (show_int i @ r) = Some (i, r)"
proof -
  have "show_int i \<noteq> []" by (simp add: show_int_def)
  then show ?thesis using strtol_show_int [OF assms] by (simp add: scan_d_def)
qed

lemma show_int_head: "dropWhile is_space (show_int i @ r) = show_int i @ r"
proof (cases "i < 0")
  case True
  then show ?thesis by (simp add: show_int_def is_space_def less_eq_char_def)
next
  case False
  obtain d ds where eq: "show_nat (nat i) = d # ds" by (cases "show_nat (nat i)") auto
  then have "is_digit d" using show_nat_digits [of d "nat i"] by simp
  then show ?thesis using False digit_not_space by (simp add: show_int_def eq)
qed

text \<open>The supported formats a session has offered.\<close>

definition offered :: "ext_event list \<Rightarrow> u32 set" where
  "offered es = {fmt. Xs_shm_format fmt \<in> set es \<and> shm_format_info fmt \<noteq> None}"

definition best_format :: "ext_event list \<Rightarrow> frame \<Rightarrow> bool" where
  "best_format es f \<longleftrightarrow>
     (if f_shm_received f
      then f_format f \<in> offered es \<and> shm_format_info (f_format f) = Some (f_bpp f) \<and>
        (\<forall>g \<in> offered es. shm_format_rank g \<le> shm_format_rank (f_format f))
      else offered es = {})"

lemma best_format_step:
  assumes "best_format es (x_frame c)"
  shows "best_format (es @ [e]) (x_frame (ext_handle e c))"
proof (cases e)
  case (Xs_shm_format fmt)
  have "offered (es @ [e]) = (if shm_format_info fmt = None then offered es else insert fmt (offered es))"
    by (auto simp: offered_def Xs_shm_format)
  then show ?thesis
    using assms by (auto simp: best_format_def Xs_shm_format prefer_shm_format_def split: option.splits if_splits)
qed (use assms in \<open>auto simp: best_format_def offered_def show_pixels_def\<close>)

lemma best_format_fold:
  "best_format [] (x_frame c) \<Longrightarrow> best_format es (x_frame (fold ext_handle es c))"
  by (induction es rule: rev_induct) (auto intro: best_format_step)

text \<open>A frame with a buffer of its size, kept by every event of the capture itself.\<close>

definition capture_event :: "ext_event \<Rightarrow> bool" where
  "capture_event e \<longleftrightarrow> (case e of Xs_buffer_size _ _ \<Rightarrow> False | Xs_shm_format _ \<Rightarrow> False | _ \<Rightarrow> True)"

definition same_shape :: "frame \<Rightarrow> frame \<Rightarrow> bool" where
  "same_shape f g \<longleftrightarrow> f_width g = f_width f \<and> f_height g = f_height f \<and> f_stride g = f_stride f \<and>
     f_format g = f_format f \<and> f_size g = f_size f \<and> (\<exists>m. f_data g = Mapped m)"

lemma same_shape_step: "capture_event e \<Longrightarrow> same_shape f (x_frame c) \<Longrightarrow> same_shape f (x_frame (ext_handle e c))"
  by (cases e) (auto simp: capture_event_def same_shape_def show_pixels_def)

lemma same_shape_fold:
  "list_all capture_event es \<Longrightarrow> same_shape f (x_frame c) \<Longrightarrow> same_shape f (x_frame (fold ext_handle es c))"
  by (induction es arbitrary: c) (auto intro: same_shape_step)

lemma same_shape_dispatch:
  assumes "\<And>es. Some es \<in> set bs \<Longrightarrow> list_all capture_event es"
  shows "same_shape f (x_frame c) \<Longrightarrow> dispatch_until stop ext_handle bs c = Some (b, c', bs') \<Longrightarrow> same_shape f (x_frame c')"
  using assms
  by (induction bs c rule: dispatch_until_induct [of stop _ ext_handle]) (auto intro: same_shape_fold)

lemma alloc_mapped:
  assumes "f_buffer (alloc_shm_buffer al f)" and "\<not> f_buffer f"
  shows "\<exists>fd. alloc_shm_buffer al f = f\<lparr>f_size := unat (f_stride f) * unat (f_height f), f_fd := fd,
    f_data := Mapped (\<lambda>_. 0), f_buffer := True\<rparr>"
  using assms by (auto simp: alloc_shm_buffer_def Let_def split: option.splits if_splits)

section \<open>Properties\<close>

text \<open>
  The region argument is read back exactly: printing a region as \<open>x,y WxH\<close> and scanning it
  gives the four numbers, negative coordinates included.
\<close>

theorem scan_geometry_roundtrip:
  assumes "{gx, gy, gw, gh} \<subseteq> {- LONG_MAX .. LONG_MAX}"
  shows "scan_geometry (show_int gx @ '','' @ show_int gy @ '' '' @ show_int gw @ ''x'' @ show_int gh) =
    Some (gx, gy, gw, gh)"
proof -
  have b: "\<bar>gx\<bar> \<le> LONG_MAX" "\<bar>gy\<bar> \<le> LONG_MAX" "\<bar>gw\<bar> \<le> LONG_MAX" "\<bar>gh\<bar> \<le> LONG_MAX" using assms by auto
  have nd: "\<not> is_digit (CHR '','')" "\<not> is_digit (CHR '' '')" "\<not> is_digit (CHR ''x'')"
    by (simp_all add: is_digit_def less_eq_char_def)
  have sp: "dropWhile is_space (CHR '' '' # show_int gw @ r) = show_int gw @ r" for r
    using show_int_head [of gw r] by (simp add: is_space_def)
  show ?thesis
    using scan_d_show_int [OF b(1), of "CHR '','' # show_int gy @ CHR '' '' # show_int gw @ CHR ''x'' # show_int gh"]
      scan_d_show_int [OF b(2), of "CHR '' '' # show_int gw @ CHR ''x'' # show_int gh"]
      scan_d_show_int [OF b(3), of "CHR ''x'' # show_int gh"] scan_d_show_int [OF b(4), of "[]"] nd sp
    by (simp add: scan_geometry_def scan_lit_def)
qed

theorem scan_geometry_roundtrip_witness:
  "scan_geometry (show_int (- 20) @ '','' @ show_int 5 @ '' '' @ show_int 640 @ ''x'' @ show_int 480) =
     Some (- 20, 5, 640, 480)"
  by (rule scan_geometry_roundtrip) (simp add: LONG_MAX_def)



text \<open>
  Whatever the session announces and in whatever order, the format used for the capture is a
  supported one that was offered, no offered supported format ranks higher, the bytes per pixel
  belong to it, and the tool waits for a format exactly as long as no supported one was offered.
\<close>

theorem ext_format_is_best:
  "best_format es (x_frame (fold ext_handle es \<lparr>x_frame = fresh_frame, x_session_done = False\<rparr>))"
  by (rule best_format_fold) (simp add: best_format_def fresh_frame_def offered_def)


definition ext_ready :: ext_ctx where
  "ext_ready = \<lparr>x_frame = fresh_frame\<lparr>f_format := WL_SHM_FORMAT_XRGB8888, f_bpp := 4, f_width := 1, f_height := 1,
     f_shm_received := True\<rparr>, x_session_done = True\<rparr>"

definition good_alloc :: alloc_sys where
  "good_alloc = \<lparr>al_memfd = Some 5, al_ftruncate = True, al_mmap = True\<rparr>"

lemmas ext_eval = ext_copy_def ext_ready_def good_alloc_def fresh_frame_def alloc_shm_buffer_def Let_def
  show_pixels_def dispatch_until.simps shm_format_info_def shm_formats capture_event_def


text \<open>
  The hypothesis on new constraints is needed. When a larger \<open>buffer_size\<close> arrives together
  with \<open>ready\<close>, the tool uses the new height with the old mapping and reads past its end.
\<close>

theorem ext_resize_faults:
  "\<exists>f. ext_copy good_alloc [Some [Xf_ready (\<lambda>_. 9), Xs_buffer_size 1 2]] ext_ready = Some (True, f) \<and>
     write_png_frame \<lparr>sy_malloc = True, sy_png = True\<rparr> f (inverted f) = Fault"
  by (simp add: ext_eval write_png_frame_def inverted_def copy_frame_region_rgba_def upt_conv_Cons copy_pixel_def)

text \<open>
  With several outputs and no capture extension, preparing the frames by zeroing them makes the
  clean-up before the fallback close descriptor 0, the standard input.
\<close>

theorem capture_all_closes_stdin:
  assumes "\<not> ss_ext_source st \<or> \<not> ss_ext_capture st" and "capture_one st ci zero_frame = Some (ok, f, closed)"
  shows "closed = [0]"
  using assms by (auto simp: capture_one_def capture_output_ext_def frame_cleanup_def zero_frame_def
      split: if_splits option.splits)

theorem capture_all_closes_stdin_witness:
  "\<exists>f. capture_one \<lparr>ss_shm = True, ss_screencopy = False, ss_xdg_manager = False, ss_ext_source = False,
      ss_ext_capture = False, ss_outputs = []\<rparr>
      \<lparr>ci_ext = \<lparr>xi_batches = [], xi_alloc = good_alloc\<rparr>,
       ci_sc = \<lparr>sc_version = 3, sc_batches = [], sc_alloc = good_alloc\<rparr>\<rparr> zero_frame = Some (False, f, [0])"
proof -
  let ?st = "\<lparr>ss_shm = True, ss_screencopy = False, ss_xdg_manager = False, ss_ext_source = False,
      ss_ext_capture = False, ss_outputs = []\<rparr>"
  let ?ci = "\<lparr>ci_ext = \<lparr>xi_batches = [], xi_alloc = good_alloc\<rparr>,
       ci_sc = \<lparr>sc_version = 3, sc_batches = [], sc_alloc = good_alloc\<rparr>\<rparr>"
  obtain f cl where r: "capture_one ?st ?ci zero_frame = Some (False, f, cl)"
    by (simp add: capture_one_def capture_output_ext_def frame_cleanup_def)
  then have "cl = [0]" by (intro capture_all_closes_stdin [OF _ r]) simp
  with r show ?thesis by blast
qed

section \<open>The composed picture\<close>

definition px_width :: "frame \<Rightarrow> nat" where
  "px_width f = unat (f_width f)"

lemma canvas_width_sum:
  assumes "sum_list (map px_width fs) < 2 ^ 30"
  shows "unat (canvas_width fs) = sum_list (map px_width fs)"
  using assms
proof (induction fs rule: rev_induct)
  case Nil
  then show ?case by (simp add: canvas_width_def)
next
  case (snoc f fs)
  then have IH: "unat (canvas_width fs) = sum_list (map px_width fs)" by simp
  have "unat (canvas_width fs) + unat (f_width f) < 2 ^ LENGTH(32)" using snoc.prems IH by (simp add: px_width_def [of f])
  then have "unat (canvas_width fs + f_width f) = unat (canvas_width fs) + unat (f_width f)"
    by (subst unat_add_lem [symmetric])
  moreover have "canvas_width (fs @ [f]) = canvas_width fs + f_width f" by (simp add: canvas_width_def)
  ultimately show ?case using IH by (simp add: px_width_def [of f])
qed

lemma canvas_height_ge: "f \<in> set fs \<Longrightarrow> f_height f \<le> canvas_height fs"
  by (induction fs rule: rev_induct) (auto simp: canvas_height_def)

lemma canvas_height_attained: "fs \<noteq> [] \<Longrightarrow> \<exists>f \<in> set fs. canvas_height fs = f_height f"
proof (induction fs rule: rev_induct)
  case (snoc f fs)
  show ?case
  proof (cases fs)
    case Nil
    then show ?thesis by (auto simp: canvas_height_def not_less word_le_0_iff)
  next
    case (Cons a as)
    then obtain g where "g \<in> set fs" "canvas_height fs = f_height g" using snoc.IH by auto
    moreover have "canvas_height (fs @ [f]) = (if f_height f > canvas_height fs then f_height f else canvas_height fs)"
      by (simp add: canvas_height_def)
    ultimately show ?thesis by auto
  qed
qed simp

text \<open>Columns left of a placed frame keep their bytes.\<close>

lemma left_of_region:
  assumes "b < off" and "off + 4 * w \<le> st"
  shows "\<not> in_region off st w h (r * st + b)"
proof (cases r)
  case 0
  then show ?thesis using assms(1) by (simp add: in_region_def)
next
  case (Suc r')
  have eq: "r * st + b - off = r' * st + (st + b - off)" using Suc assms by simp
  define t where "t = st + b - off"
  have "t < st" using assms by (simp add: t_def)
  then have "(r * st + b - off) mod st = st + b - off" unfolding eq t_def [symmetric] by simp
  moreover have "4 * w \<le> st + b - off" using assms(2) by linarith
  ultimately show ?thesis by (simp add: in_region_def)
qed

lemma place_frames_spec:
  fixes W H :: nat
  assumes "\<And>f. f \<in> set fs \<Longrightarrow> mapped_frame f \<and> unat (f_height f) \<le> H"
    and "unat x_off + sum_list (map px_width fs) \<le> W" and "W < 2 ^ 30" and "unat st = 4 * W" and "sz = H * unat st"
  shows "place_frames sz st fs x_off canvas \<noteq> Fault \<and>
    (\<forall>c'. place_frames sz st fs x_off canvas = Done c' \<longrightarrow>
       (\<forall>r b. b < unat x_off * 4 \<longrightarrow> c' (r * unat st + b) = canvas (r * unat st + b)) \<and>
       (\<forall>i < length fs. \<forall>x < unat (f_width (fs ! i)). \<forall>y < unat (f_height (fs ! i)). \<forall>k < 4.
          c' (y * unat st + (unat x_off + sum_list (map px_width (take i fs)) + x) * 4 + k) =
            frame_pixel (fs ! i) (inverted (fs ! i)) x y ! k))"
  using assms(1,2)
proof (induction fs arbitrary: x_off canvas)
  case Nil
  then show ?case by simp
next
  case (Cons f fs)
  let ?off = "unat x_off * 4" and ?w = "unat (f_width f)" and ?st = "unat st"
  let ?c = "copy_frame_region_rgba f 0 0 (f_width f) (f_height f) (inverted f) sz ?off canvas st"
  have mf: "mapped_frame f" and hH: "unat (f_height f) \<le> H" using Cons.prems(1) by auto
  have fit: "?off + 4 * ?w \<le> ?st" using Cons.prems(2) assms(4) by (simp add: px_width_def)
  have room: "?off + y * ?st + 4 * ?w \<le> sz" if "y < unat (f_height f)" for y
  proof -
    have "(y + 1) * ?st \<le> H * ?st" using that hH by (intro mult_le_mono1) simp
    then show ?thesis using fit by (simp add: assms(5) algebra_simps)
  qed
  have nf: "?c \<noteq> Fault" by (rule copy_region_spec(1) [OF mf room])
  have "unat x_off + unat (f_width f) < 2 ^ LENGTH(32)" using Cons.prems(2) assms(3) by (simp add: px_width_def)
  then have xo: "unat (x_off + f_width f) = unat x_off + ?w" by (subst (asm) unat_add_lem)
  show ?case
  proof (cases ?c)
    case Refused
    then show ?thesis by simp
  next
    case Fault
    then show ?thesis using nf by simp
  next
    case (Done c1)
    have IH: "place_frames sz st fs (x_off + f_width f) c1 \<noteq> Fault"
      "\<And>c' r b. place_frames sz st fs (x_off + f_width f) c1 = Done c' \<Longrightarrow> b < (unat x_off + ?w) * 4 \<Longrightarrow>
         c' (r * ?st + b) = c1 (r * ?st + b)"
      "\<And>c' i x y k. place_frames sz st fs (x_off + f_width f) c1 = Done c' \<Longrightarrow> i < length fs \<Longrightarrow>
         x < unat (f_width (fs ! i)) \<Longrightarrow> y < unat (f_height (fs ! i)) \<Longrightarrow> k < 4 \<Longrightarrow>
         c' (y * ?st + (unat x_off + ?w + sum_list (map px_width (take i fs)) + x) * 4 + k) =
           frame_pixel (fs ! i) (inverted (fs ! i)) x y ! k"
      using Cons.IH [of "x_off + f_width f" c1] Cons.prems xo by (auto simp: px_width_def [of f])
    have keep: "c1 (r * ?st + b) = canvas (r * ?st + b)" if "b < ?off" for r b
      using copy_region_spec(2) [OF mf room Done] left_of_region [OF that fit] by simp
    have pix: "c1 (y * ?st + (unat x_off + x) * 4 + k) = frame_pixel f (inverted f) x y ! k"
      if "x < ?w" "y < unat (f_height f)" "k < 4" for x y k
      using copy_region_pixels [OF mf room Done that] by (simp add: algebra_simps)
    show ?thesis
    proof (intro conjI allI impI)
      show "place_frames sz st (f # fs) x_off canvas \<noteq> Fault" using IH(1) Done by simp
      fix c' assume "place_frames sz st (f # fs) x_off canvas = Done c'"
      then have r: "place_frames sz st fs (x_off + f_width f) c1 = Done c'" using Done by simp
      show "c' (r * ?st + b) = canvas (r * ?st + b)" if "b < ?off" for r b
        using IH(2) [OF r, of b] that keep by simp
      fix i x y k :: nat
      assume a: "i < length (f # fs)" "x < unat (f_width ((f # fs) ! i))" "y < unat (f_height ((f # fs) ! i))" "k < 4"
      show "c' (y * ?st + (unat x_off + sum_list (map px_width (take i (f # fs))) + x) * 4 + k) =
            frame_pixel ((f # fs) ! i) (inverted ((f # fs) ! i)) x y ! k"
      proof (cases i)
        case 0
        have "c' (y * ?st + ((unat x_off + x) * 4 + k)) = c1 (y * ?st + ((unat x_off + x) * 4 + k))"
          using a 0 by (intro IH(2) [OF r]) simp
        then show ?thesis using pix [of x y k] a 0 by (simp add: add.assoc)
      next
        case (Suc j)
        then show ?thesis using IH(3) [OF r, of j x y k] a by (simp add: add.assoc px_width_def [of f])
      qed
    qed
  qed
qed

lemma order_frames:
  assumes "mset order = mset [0..<length fs]"
  shows "mset (map ((!) fs) order) = mset fs"
  using arg_cong [OF assms, of "image_mset ((!) fs)"] by (simp add: mset_map [symmetric] map_nth del: mset_map mset_upt)

text \<open>The left edge of the frame at a position of the order.\<close>

definition left_edge :: "frame list \<Rightarrow> nat list \<Rightarrow> nat \<Rightarrow> nat" where
  "left_edge frames order i = sum_list (map (\<lambda>j. unat (f_width (frames ! j))) (take i order))"

text \<open>
  The picture of all outputs. For mapped frames it is memory safe; when it is written, its width
  is the sum of the frames' widths and its height that of the tallest, and the frames stand side by
  side, in the order of the outputs' x positions, each one unchanged at its left edge.
\<close>

theorem compose_layout:
  assumes "\<And>f. f \<in> set frames \<Longrightarrow> mapped_frame f" and "frames \<noteq> []"
    and "sum_list (map px_width frames) < 2 ^ 30" and "length xs = length frames"
  shows "case compose sy xs frames of
      Fault \<Rightarrow> False
    | Refused \<Rightarrow> True
    | Done im \<Rightarrow>
        unat (im_width im) = sum_list (map px_width frames) \<and>
        (\<exists>f \<in> set frames. im_height im = f_height f) \<and> (\<forall>f \<in> set frames. f_height f \<le> im_height im) \<and>
        (\<exists>order. mset order = mset [0..<length frames] \<and> sorted (map ((!) xs) order) \<and>
           (\<forall>i < length frames. \<forall>x < unat (f_width (frames ! (order ! i))). \<forall>y < unat (f_height (frames ! (order ! i))).
              \<forall>k < 4. im_pixel im (left_edge frames order i + x) y k =
                frame_pixel (frames ! (order ! i)) (inverted (frames ! (order ! i))) x y ! k))"
proof -
  define order where "order = output_order ((!) xs) (length frames)"
  let ?fs = "map ((!) frames) order" and ?w = "canvas_width frames" and ?h = "canvas_height frames"
  have perm: "mset order = mset [0..<length frames]" and srt: "sorted (map ((!) xs) order)"
    unfolding order_def by (rule order_perm, rule order_sorted)
  have mfs: "mset ?fs = mset frames" by (rule order_frames [OF perm])
  then have set: "set ?fs = set frames" and len: "length order = length frames"
    by (metis set_mset_mset) (use mset_eq_length [OF perm] in simp)
  have sum: "sum_list (map px_width ?fs) = sum_list (map px_width frames)"
    by (metis mfs mset_map sum_mset_sum_list)
  have W: "unat ?w = sum_list (map px_width frames)" by (rule canvas_width_sum [OF assms(3)])
  have st: "unat (?w * 4) = 4 * unat ?w" using W assms(3) unat_mult_small [of ?w 4] by simp
  have H: "mapped_frame f \<and> unat (f_height f) \<le> unat ?h" if "f \<in> set ?fs" for f
    using that assms(1) canvas_height_ge unfolding set by (auto simp: word_le_nat_alt)
  have W30: "unat ?w < 2 ^ 30" using W assms(3) by simp
  have sumW: "unat (0 :: u32) + sum_list (map px_width ?fs) \<le> unat ?w" unfolding sum W by simp
  note pf = place_frames_spec [where fs = ?fs and x_off = 0 and W = "unat ?w" and H = "unat ?h"
      and st = "?w * 4" and sz = "unat ?h * unat (?w * 4)" and canvas = "\<lambda>_. 0", OF H sumW W30 st refl]
  let ?p = "place_frames (unat ?h * unat (?w * 4)) (?w * 4) ?fs 0 (\<lambda>_. 0)"
  have nf: "?p \<noteq> Fault" and px: "\<And>c i x y k. ?p = Done c \<Longrightarrow> i < length ?fs \<Longrightarrow> x < unat (f_width (?fs ! i)) \<Longrightarrow>
      y < unat (f_height (?fs ! i)) \<Longrightarrow> k < 4 \<Longrightarrow>
      c (y * unat (?w * 4) + (unat (0 :: u32) + sum_list (map px_width (take i ?fs)) + x) * 4 + k) = frame_pixel (?fs ! i) (inverted (?fs ! i)) x y ! k"
    using pf by blast+
  have eq: "compose sy xs frames = (if \<not> sy_malloc sy then Refused else case ?p of Fault \<Rightarrow> Fault | Refused \<Rightarrow> Refused
      | Done canvas \<Rightarrow> write_png_rgba sy canvas ?w ?h (?w * 4))"
    unfolding compose_def Let_def order_def ..
  show ?thesis
  proof (cases "compose sy xs frames")
    case (Done im)
    then obtain c where c: "?p = Done c" "write_png_rgba sy c ?w ?h (?w * 4) = Done im"
      by (auto simp: eq split: if_splits checked.splits)
    note im = write_png_pixels [OF c(2)]
    have "im_pixel im (left_edge frames order i + x) y k =
        frame_pixel (frames ! (order ! i)) (inverted (frames ! (order ! i))) x y ! k"
      if a: "i < length frames" "x < unat (f_width (frames ! (order ! i)))" "y < unat (f_height (frames ! (order ! i)))" "k < 4"
      for i x y k
    proof -
      have le: "left_edge frames order i = sum_list (map px_width (take i ?fs))"
        by (simp add: left_edge_def take_map comp_def px_width_def)
      have "sum_list (map px_width (take i ?fs)) + px_width (?fs ! i) \<le> sum_list (map px_width ?fs)"
      proof -
        have "?fs = take i ?fs @ ?fs ! i # drop (Suc i) ?fs" 
          by (rule id_take_nth_drop) (use a(1) len in simp)
        then have "sum_list (map px_width ?fs) = sum_list (map px_width (take i ?fs)) + (px_width (?fs ! i) + sum_list (map px_width (drop (Suc i) ?fs)))"
          by (metis map_append list.simps(9) sum_list_append sum_list.Cons)
        then show ?thesis by simp
      qed
      then have xw: "left_edge frames order i + x < unat ?w" 
        unfolding le W sum using a(1,2) len by (simp add: px_width_def [of "frames ! (order ! i)"])
      have "order ! i < length frames" using perm a(1) len by (metis atLeastLessThan_iff nth_mem set_mset_mset set_upt)
      then have "frames ! (order ! i) \<in> set frames" by simp
      then have "y < unat ?h" using a(3) canvas_height_ge by (meson order.strict_trans2 word_le_nat_alt)
      then show ?thesis using im(3) [OF xw _ a(4)] px [OF c(1), of i x y k] a len by (simp add: le)
    qed
    then show ?thesis
      unfolding Done checked.case using im(1,2) W canvas_height_attained [OF assms(2)] canvas_height_ge [of _ frames] perm srt
      by (intro conjI exI [of _ order]) auto
  qed (use nf in \<open>auto simp: eq write_png_rgba_def split: if_splits checked.splits\<close>)
qed

theorem compose_layout_witness:
  "case compose \<lparr>sy_malloc = True, sy_png = True\<rparr> [10, 0] [tiny_frame, tiny_frame] of
     Fault \<Rightarrow> False | Refused \<Rightarrow> False | Done im \<Rightarrow> unat (im_width im) = 4"
proof -
  have m: "mapped_frame tiny_frame" by (simp add: mapped_frame_def tiny_frame_def fresh_frame_def)
  have w: "px_width tiny_frame = 2" by (simp add: px_width_def tiny_frame_def)
  have "compose \<lparr>sy_malloc = True, sy_png = True\<rparr> [10, 0] [tiny_frame, tiny_frame] \<noteq> Refused"
    by (simp add: compose_def Let_def output_order_def upt_conv_Cons bubble_pass_def swap_if_greater_def
        canvas_width_def canvas_height_def copy_frame_region_rgba_def inverted_def tiny_frame_def fresh_frame_def
        shm_format_info_def shm_formats copy_pixel_def write_png_rgba_def)
  then show ?thesis
    using compose_layout [of "[tiny_frame, tiny_frame]" "[10, 0]" "\<lparr>sy_malloc = True, sy_png = True\<rparr>"] m w
    by (auto split: checked.splits)
qed

end
