(* ===== verification/Preview_Pool.thy ===== *)
theory Preview_Pool
  imports C_Prelude
begin

text \<open>
  Window previews, \<^verbatim>\<open>src/wayland/wayland_integration.c\<close> (lines 433 to 718): the pool of recycled
  \<open>wl_buffer\<close> objects and the life of a capture request from its creation to the client's
  cancellation. Buffer objects and requests have numbers; \<open>pv_live\<close> is the set of buffer objects
  that exist (each with its mapping), \<open>pv_log\<close> records what the client was told, and \<open>pv_fault\<close> is
  set when freed memory of a request is used.
\<close>

definition PREVIEW_POOL_MAX :: nat where "PREVIEW_POOL_MAX = 24"

record preview_buffer =
  pb_buffer :: "nat option"
  pb_size :: int
  pb_width :: int
  pb_height :: int
  pb_stride :: int
  pb_format :: nat
  pb_in_use :: bool

record preview_request =
  rq_frame :: bool
  rq_buffer :: "nat option"
  rq_pb :: "nat option"
  rq_width :: int
  rq_height :: int
  rq_stride :: int
  rq_destroy :: bool
  rq_cancelled :: bool
  rq_external :: bool
  rq_done :: bool

datatype preview_note = Shown nat "(int \<times> int \<times> int \<times> nat) option" | Destroyed nat

record preview_state =
  pv_pool :: "preview_buffer list"
  pv_next :: nat
  pv_live :: "nat set"
  pv_reqs :: "nat \<Rightarrow> preview_request option"
  pv_tokens :: "nat set"
  pv_count :: nat
  pv_log :: "preview_note list"
  pv_fault :: bool

definition empty_buffer :: preview_buffer where
  "empty_buffer = \<lparr>pb_buffer = None, pb_size = 0, pb_width = 0, pb_height = 0, pb_stride = 0, pb_format = 0,
     pb_in_use = False\<rparr>"

definition preview_init :: preview_state where
  "preview_init = \<lparr>pv_pool = replicate PREVIEW_POOL_MAX empty_buffer, pv_next = 0, pv_live = {},
     pv_reqs = (\<lambda>_. None), pv_tokens = {}, pv_count = 0, pv_log = [], pv_fault = False\<rparr>"

section \<open>The pool\<close>

definition reusable :: "nat \<Rightarrow> int \<Rightarrow> int \<Rightarrow> int \<Rightarrow> preview_buffer \<Rightarrow> bool" where
  "reusable fmt w h stride pb \<longleftrightarrow> \<not> pb_in_use pb \<and> pb_buffer pb \<noteq> None \<and> pb_format pb = fmt \<and>
     pb_width pb = w \<and> pb_height pb = h \<and> pb_stride pb = stride"

text \<open>\<open>wl_buffer_destroy\<close> and \<open>munmap\<close> of a slot's buffer.\<close>

definition tear_down :: "nat \<Rightarrow> preview_state \<Rightarrow> preview_state" where
  "tear_down i s =
     (let pb = pv_pool s ! i
      in case pb_buffer pb of
           None \<Rightarrow> s
         | Some b \<Rightarrow> s\<lparr>pv_live := pv_live s - {b}, pv_pool := (pv_pool s)[i := pb\<lparr>pb_buffer := None, pb_size := 0\<rparr>]\<rparr>)"

text \<open>
  \<open>preview_buffer_acquire\<close>: the first loop looks for an idle buffer of the same geometry, the second
  takes the first idle slot; \<open>ok\<close> says whether file, mapping, pool and buffer could be created.
\<close>

definition preview_buffer_acquire ::
  "bool \<Rightarrow> nat \<Rightarrow> int \<Rightarrow> int \<Rightarrow> int \<Rightarrow> preview_state \<Rightarrow> nat option \<times> preview_state" where
  "preview_buffer_acquire ok fmt w h stride s =
     (case List.find (\<lambda>i. reusable fmt w h stride (pv_pool s ! i)) [0..<PREVIEW_POOL_MAX] of
        Some i \<Rightarrow> (Some i, s\<lparr>pv_pool := (pv_pool s)[i := (pv_pool s ! i)\<lparr>pb_in_use := True\<rparr>]\<rparr>)
      | None \<Rightarrow>
          (case List.find (\<lambda>i. \<not> pb_in_use (pv_pool s ! i)) [0..<PREVIEW_POOL_MAX] of
             None \<Rightarrow> (None, s)
           | Some i \<Rightarrow>
               let s1 = tear_down i s
               in if \<not> ok then (None, s1)
                  else (Some i, s1\<lparr>pv_next := Suc (pv_next s1), pv_live := insert (pv_next s1) (pv_live s1),
                          pv_pool := (pv_pool s1)[i := \<lparr>pb_buffer = Some (pv_next s1), pb_size = stride * h,
                            pb_width = w, pb_height = h, pb_stride = stride, pb_format = fmt, pb_in_use = True\<rparr>]\<rparr>)))"

definition preview_buffer_release :: "nat \<Rightarrow> preview_state \<Rightarrow> preview_state" where
  "preview_buffer_release i s = s\<lparr>pv_pool := (pv_pool s)[i := (pv_pool s ! i)\<lparr>pb_in_use := False\<rparr>]\<rparr>"

definition trim_slot :: "nat \<Rightarrow> preview_state \<Rightarrow> preview_state" where
  "trim_slot i s =
     (let pb = pv_pool s ! i
      in case pb_buffer pb of
           None \<Rightarrow> s
         | Some b \<Rightarrow> if pb_in_use pb then s
                     else s\<lparr>pv_live := pv_live s - {b}, pv_pool := (pv_pool s)[i := empty_buffer]\<rparr>)"

definition preview_pool_trim :: "preview_state \<Rightarrow> preview_state" where
  "preview_pool_trim s = fold trim_slot [0..<PREVIEW_POOL_MAX] s"

section \<open>Requests\<close>

definition preview_request_free_buffer :: "preview_request \<Rightarrow> preview_state \<Rightarrow> preview_state" where
  "preview_request_free_buffer r s =
     (case rq_pb r of
        Some i \<Rightarrow> preview_buffer_release i s
      | None \<Rightarrow> (case rq_buffer r of None \<Rightarrow> s | Some b \<Rightarrow> s\<lparr>pv_live := pv_live s - {b}\<rparr>))"

definition put_req :: "nat \<Rightarrow> preview_request option \<Rightarrow> preview_state \<Rightarrow> preview_state" where
  "put_req t r s = s\<lparr>pv_reqs := (pv_reqs s)(t := r)\<rparr>"

definition tell :: "preview_note list \<Rightarrow> preview_state \<Rightarrow> preview_state" where
  "tell ns s = s\<lparr>pv_log := pv_log s @ ns\<rparr>"

text \<open>
  \<open>frame_handle_buffer\<close>: a pool buffer, else a one-shot buffer; when that cannot be made either
  (\<open>once = False\<close>), the client is told, and the request is freed.
\<close>

definition frame_handle_buffer ::
  "bool \<Rightarrow> bool \<Rightarrow> nat \<Rightarrow> nat \<Rightarrow> int \<Rightarrow> int \<Rightarrow> int \<Rightarrow> preview_request \<Rightarrow> preview_state \<Rightarrow> preview_state" where
  "frame_handle_buffer ok once t fmt w h stride r0 s =
     (let r = r0\<lparr>rq_width := w, rq_height := h, rq_stride := stride\<rparr>
      in case preview_buffer_acquire ok fmt w h stride s of
           (Some i, s1) \<Rightarrow> put_req t (Some (r\<lparr>rq_pb := Some i, rq_buffer := pb_buffer (pv_pool s1 ! i)\<rparr>)) s1
         | (None, s1) \<Rightarrow>
             if \<not> once
             then put_req t None (tell (Shown t None # (if rq_destroy r then [Destroyed t] else [])) s1)
             else put_req t (Some (r\<lparr>rq_buffer := Some (pv_next s1)\<rparr>))
                    (s1\<lparr>pv_next := Suc (pv_next s1), pv_live := insert (pv_next s1) (pv_live s1)\<rparr>))"

text \<open>The end of a capture, shared by \<open>frame_handle_ready\<close> and \<open>frame_handle_failed\<close>.\<close>

definition finish_frame :: "nat \<Rightarrow> preview_note list \<Rightarrow> preview_request \<Rightarrow> preview_state \<Rightarrow> preview_state" where
  "finish_frame t shown r s =
     (let s1 = tell ((if rq_cancelled r then [] else shown) @ (if rq_destroy r then [Destroyed t] else []))
                 (preview_request_free_buffer r s);
          r1 = r\<lparr>rq_pb := None, rq_buffer := None, rq_frame := False, rq_destroy := False\<rparr>
      in put_req t (if rq_external r then Some (r1\<lparr>rq_done := True\<rparr>) else None) s1)"

definition frame_handle_ready :: "nat \<Rightarrow> preview_request \<Rightarrow> preview_state \<Rightarrow> preview_state" where
  "frame_handle_ready t r s =
     finish_frame t [Shown t (map_option (\<lambda>b. (rq_width r, rq_height r, rq_stride r, b)) (rq_buffer r))] r s"

definition frame_handle_failed :: "nat \<Rightarrow> preview_request \<Rightarrow> preview_state \<Rightarrow> preview_state" where
  "frame_handle_failed t r s = finish_frame t [Shown t None] r s"

text \<open>
  The two capture calls: \<open>usable\<close> stands for the checks on the managers, the handle and the frame
  object; a refused call tells the client at once. Every call gets a number.
\<close>

definition capture_preview :: "bool \<Rightarrow> bool \<Rightarrow> preview_state \<Rightarrow> preview_state" where
  "capture_preview external usable s =
     (let t = pv_count s; s1 = s\<lparr>pv_count := Suc t\<rparr>
      in if \<not> usable then tell [Shown t None, Destroyed t] s1
         else put_req t (Some \<lparr>rq_frame = True, rq_buffer = None, rq_pb = None, rq_width = 0, rq_height = 0,
                rq_stride = 0, rq_destroy = True, rq_cancelled = False, rq_external = external, rq_done = False\<rparr>)
                (if external then s1\<lparr>pv_tokens := insert t (pv_tokens s1)\<rparr> else s1))"

definition cancel_capture :: "nat \<Rightarrow> preview_state \<Rightarrow> preview_state" where
  "cancel_capture t s =
     (case pv_reqs s t of
        None \<Rightarrow> s\<lparr>pv_fault := True\<rparr>
      | Some r \<Rightarrow>
          if rq_done r then put_req t None s
          else put_req t None
                 (tell (if rq_destroy r then [Destroyed t] else []) (preview_request_free_buffer r s)))"

section \<open>The machine\<close>

text \<open>
  Events of the compositor reach a request only while its frame object exists; it announces the
  buffer once. The client gives a token back at most once.
\<close>

datatype preview_event =
    Pv_capture bool bool
  | Pv_buffer bool bool nat nat int int int
  | Pv_flags nat
  | Pv_ready nat
  | Pv_failed nat
  | Pv_cancel nat
  | Pv_trim

fun preview_step :: "preview_event \<Rightarrow> preview_state \<Rightarrow> preview_state" where
  "preview_step (Pv_capture external usable) s = capture_preview external usable s"
| "preview_step (Pv_buffer ok once t fmt w h stride) s =
     (case pv_reqs s t of
        Some r \<Rightarrow> if rq_frame r \<and> rq_buffer r = None then frame_handle_buffer ok once t fmt w h stride r s else s
      | None \<Rightarrow> s)"
| "preview_step (Pv_flags t) s = s"
| "preview_step (Pv_ready t) s =
     (case pv_reqs s t of Some r \<Rightarrow> if rq_frame r then frame_handle_ready t r s else s | None \<Rightarrow> s)"
| "preview_step (Pv_failed t) s =
     (case pv_reqs s t of Some r \<Rightarrow> if rq_frame r then frame_handle_failed t r s else s | None \<Rightarrow> s)"
| "preview_step (Pv_cancel t) s =
     (if t \<in> pv_tokens s then (cancel_capture t s)\<lparr>pv_tokens := pv_tokens s - {t}\<rparr> else s)"
| "preview_step Pv_trim s = preview_pool_trim s"

section \<open>The invariant\<close>

text \<open>
  Which request holds which buffer. Every buffer object that exists belongs to exactly one slot of
  the pool or to exactly one request with a one-shot buffer; a slot is in use exactly when one
  request holds it, and that request has the slot's buffer and geometry.
\<close>

definition slot :: "preview_state \<Rightarrow> nat \<Rightarrow> nat \<Rightarrow> bool" where
  "slot s i b \<longleftrightarrow> i < PREVIEW_POOL_MAX \<and> pb_buffer (pv_pool s ! i) = Some b"

definition busy :: "preview_state \<Rightarrow> nat \<Rightarrow> bool" where
  "busy s i \<longleftrightarrow> i < PREVIEW_POOL_MAX \<and> pb_in_use (pv_pool s ! i)"

definition holds :: "preview_state \<Rightarrow> nat \<Rightarrow> nat \<Rightarrow> bool" where
  "holds s t i \<longleftrightarrow> (\<exists>r. pv_reqs s t = Some r \<and> rq_pb r = Some i)"

definition oneshot :: "preview_state \<Rightarrow> nat \<Rightarrow> nat \<Rightarrow> bool" where
  "oneshot s t b \<longleftrightarrow> (\<exists>r. pv_reqs s t = Some r \<and> rq_pb r = None \<and> rq_buffer r = Some b)"

definition fits :: "preview_request \<Rightarrow> preview_buffer \<Rightarrow> bool" where
  "fits r pb \<longleftrightarrow> rq_buffer r = pb_buffer pb \<and> pb_buffer pb \<noteq> None \<and> rq_width r = pb_width pb \<and>
     rq_height r = pb_height pb \<and> rq_stride r = pb_stride pb"

definition pool_ok :: "preview_state \<Rightarrow> bool" where
  "pool_ok s \<longleftrightarrow> length (pv_pool s) = PREVIEW_POOL_MAX \<and> (\<forall>i b. slot s i b \<longrightarrow> b \<in> pv_live s) \<and>
     (\<forall>i j b. slot s i b \<longrightarrow> slot s j b \<longrightarrow> i = j) \<and> (\<forall>b \<in> pv_live s. b < pv_next s)"

definition slots_ok :: "preview_state \<Rightarrow> bool" where
  "slots_ok s \<longleftrightarrow> (\<forall>t i. holds s t i \<longrightarrow> busy s i) \<and> (\<forall>i. busy s i \<longrightarrow> (\<exists>t. holds s t i)) \<and>
     (\<forall>t t' i. holds s t i \<longrightarrow> holds s t' i \<longrightarrow> t = t')"

definition fits_ok :: "preview_state \<Rightarrow> bool" where
  "fits_ok s \<longleftrightarrow> (\<forall>t r i. pv_reqs s t = Some r \<longrightarrow> rq_pb r = Some i \<longrightarrow> fits r (pv_pool s ! i))"

definition oneshots_ok :: "preview_state \<Rightarrow> bool" where
  "oneshots_ok s \<longleftrightarrow> (\<forall>t b. oneshot s t b \<longrightarrow> b \<in> pv_live s \<and> (\<forall>i. \<not> slot s i b)) \<and>
     (\<forall>t t' b. oneshot s t b \<longrightarrow> oneshot s t' b \<longrightarrow> t = t') \<and>
     (\<forall>b \<in> pv_live s. (\<exists>i. slot s i b) \<or> (\<exists>t. oneshot s t b))"

definition req_ok :: "nat \<Rightarrow> nat \<Rightarrow> preview_request \<Rightarrow> bool" where
  "req_ok n t r \<longleftrightarrow> t < n \<and> (rq_frame r \<longleftrightarrow> \<not> rq_done r) \<and> (rq_done r \<longrightarrow> rq_buffer r = None \<and> rq_external r) \<and>
     \<not> rq_cancelled r \<and> (rq_buffer r = None \<longrightarrow> rq_pb r = None) \<and> (rq_destroy r \<longleftrightarrow> \<not> rq_done r)"

definition reqs_ok :: "preview_state \<Rightarrow> bool" where
  "reqs_ok s \<longleftrightarrow> (\<forall>t r. pv_reqs s t = Some r \<longrightarrow> req_ok (pv_count s) t r)"

definition preview_inv :: "preview_state \<Rightarrow> bool" where
  "preview_inv s \<longleftrightarrow> pool_ok s \<and> slots_ok s \<and> fits_ok s \<and> oneshots_ok s \<and> reqs_ok s"

lemmas preview_invs = preview_inv_def pool_ok_def slots_ok_def fits_ok_def oneshots_ok_def reqs_ok_def

lemma preview_inv_init: "preview_inv preview_init"
proof -
  have "\<not> slot preview_init i b" "\<not> busy preview_init i" for i b
    by (auto simp: slot_def busy_def preview_init_def empty_buffer_def)
  then show ?thesis by (simp add: preview_invs) (simp add: preview_init_def holds_def oneshot_def)
qed

lemma find_upt: "List.find P [0..<n] = Some i \<Longrightarrow> i < n \<and> P i"
  by (auto simp: find_Some_iff)

lemma pool_okI:
  assumes "length (pv_pool s) = PREVIEW_POOL_MAX" and "\<And>i b. slot s i b \<Longrightarrow> b \<in> pv_live s"
    and "\<And>i j b. slot s i b \<Longrightarrow> slot s j b \<Longrightarrow> i = j" and "\<And>b. b \<in> pv_live s \<Longrightarrow> b < pv_next s"
  shows "pool_ok s"
  using assms unfolding pool_ok_def by blast

lemma pool_okD:
  assumes "pool_ok s"
  shows "slot s i b \<Longrightarrow> b \<in> pv_live s" and "slot s i b \<Longrightarrow> slot s j b \<Longrightarrow> i = j" and "b \<in> pv_live s \<Longrightarrow> b < pv_next s"
  using assms unfolding pool_ok_def by blast+

lemma slots_okI:
  assumes "\<And>t i. holds s t i \<Longrightarrow> busy s i" and "\<And>i. busy s i \<Longrightarrow> \<exists>t. holds s t i"
    and "\<And>t t' i. holds s t i \<Longrightarrow> holds s t' i \<Longrightarrow> t = t'"
  shows "slots_ok s"
  using assms unfolding slots_ok_def by blast

lemma slots_okD:
  assumes "slots_ok s"
  shows "holds s t i \<Longrightarrow> busy s i" and "busy s i \<Longrightarrow> \<exists>t. holds s t i"
    and "holds s t i \<Longrightarrow> holds s t' i \<Longrightarrow> t = t'"
  using assms unfolding slots_ok_def by blast+

lemma oneshots_okI:
  assumes "\<And>t b. oneshot s t b \<Longrightarrow> b \<in> pv_live s" and "\<And>t b i. oneshot s t b \<Longrightarrow> \<not> slot s i b"
    and "\<And>t t' b. oneshot s t b \<Longrightarrow> oneshot s t' b \<Longrightarrow> t = t'"
    and "\<And>b. b \<in> pv_live s \<Longrightarrow> (\<exists>i. slot s i b) \<or> (\<exists>t. oneshot s t b)"
  shows "oneshots_ok s"
  using assms unfolding oneshots_ok_def by blast

lemma oneshots_okD:
  assumes "oneshots_ok s"
  shows "oneshot s t b \<Longrightarrow> b \<in> pv_live s" and "oneshot s t b \<Longrightarrow> \<not> slot s i b"
    and "oneshot s t b \<Longrightarrow> oneshot s t' b \<Longrightarrow> t = t'"
    and "b \<in> pv_live s \<Longrightarrow> (\<exists>i. slot s i b) \<or> (\<exists>t. oneshot s t b)"
  using assms unfolding oneshots_ok_def by blast+

lemma pool_len: "preview_inv s \<Longrightarrow> length (pv_pool s) = PREVIEW_POOL_MAX"
  by (simp add: preview_inv_def pool_ok_def)

text \<open>What the views are after a slot or a request is replaced.\<close>

lemma slot_update:
  "length (pv_pool s) = PREVIEW_POOL_MAX \<Longrightarrow> i < PREVIEW_POOL_MAX \<Longrightarrow>
     slot (s\<lparr>pv_pool := (pv_pool s)[i := pb]\<rparr>) j b \<longleftrightarrow> (if j = i then pb_buffer pb = Some b else slot s j b)"
  by (auto simp: slot_def nth_list_update)

lemma busy_update:
  "length (pv_pool s) = PREVIEW_POOL_MAX \<Longrightarrow> i < PREVIEW_POOL_MAX \<Longrightarrow>
     busy (s\<lparr>pv_pool := (pv_pool s)[i := pb]\<rparr>) j \<longleftrightarrow> (if j = i then pb_in_use pb else busy s j)"
  by (auto simp: busy_def nth_list_update)

lemma view_frame [simp]:
  "slot (s\<lparr>pv_live := L\<rparr>) = slot s" "slot (s\<lparr>pv_next := n\<rparr>) = slot s" "slot (s\<lparr>pv_reqs := R\<rparr>) = slot s"
  "slot (s\<lparr>pv_log := l\<rparr>) = slot s" "slot (s\<lparr>pv_count := n\<rparr>) = slot s" "slot (s\<lparr>pv_tokens := T\<rparr>) = slot s"
  "slot (s\<lparr>pv_fault := f\<rparr>) = slot s"
  "busy (s\<lparr>pv_live := L\<rparr>) = busy s" "busy (s\<lparr>pv_next := n\<rparr>) = busy s" "busy (s\<lparr>pv_reqs := R\<rparr>) = busy s"
  "busy (s\<lparr>pv_log := l\<rparr>) = busy s" "busy (s\<lparr>pv_count := n\<rparr>) = busy s" "busy (s\<lparr>pv_tokens := T\<rparr>) = busy s"
  "busy (s\<lparr>pv_fault := f\<rparr>) = busy s"
  "holds (s\<lparr>pv_live := L\<rparr>) = holds s" "holds (s\<lparr>pv_next := n\<rparr>) = holds s" "holds (s\<lparr>pv_pool := p\<rparr>) = holds s"
  "holds (s\<lparr>pv_log := l\<rparr>) = holds s" "holds (s\<lparr>pv_count := n\<rparr>) = holds s" "holds (s\<lparr>pv_tokens := T\<rparr>) = holds s"
  "holds (s\<lparr>pv_fault := f\<rparr>) = holds s"
  "oneshot (s\<lparr>pv_live := L\<rparr>) = oneshot s" "oneshot (s\<lparr>pv_next := n\<rparr>) = oneshot s" "oneshot (s\<lparr>pv_pool := p\<rparr>) = oneshot s"
  "oneshot (s\<lparr>pv_log := l\<rparr>) = oneshot s" "oneshot (s\<lparr>pv_count := n\<rparr>) = oneshot s" "oneshot (s\<lparr>pv_tokens := T\<rparr>) = oneshot s"
  "oneshot (s\<lparr>pv_fault := f\<rparr>) = oneshot s"
  by (auto simp: fun_eq_iff slot_def busy_def holds_def oneshot_def)

lemma holds_update:
  "holds (s\<lparr>pv_reqs := (pv_reqs s)(t := x)\<rparr>) u i \<longleftrightarrow>
     (if u = t then (\<exists>r. x = Some r \<and> rq_pb r = Some i) else holds s u i)"
  by (auto simp: holds_def)

lemma oneshot_update:
  "oneshot (s\<lparr>pv_reqs := (pv_reqs s)(t := x)\<rparr>) u b \<longleftrightarrow>
     (if u = t then (\<exists>r. x = Some r \<and> rq_pb r = None \<and> rq_buffer r = Some b) else oneshot s u b)"
  by (auto simp: oneshot_def)

lemma inv_log [simp]: "preview_inv (s\<lparr>pv_log := l\<rparr>) = preview_inv s"
  "preview_inv (s\<lparr>pv_tokens := T\<rparr>) = preview_inv s" "preview_inv (s\<lparr>pv_fault := f\<rparr>) = preview_inv s"
  by (simp_all add: preview_invs)

lemma inv_tell: "preview_inv (tell ns s) = preview_inv s"
  by (simp add: tell_def)

lemma put_req_tell: "put_req t x (tell ns s) = tell ns (put_req t x s)"
  by (simp add: put_req_def tell_def)

section \<open>Preservation\<close>

text \<open>An idle slot may be emptied.\<close>

lemma drop_idle_inv:
  assumes inv: "preview_inv s" and i: "i < PREVIEW_POOL_MAX" and idle: "\<not> busy s i"
    and b: "slot s i b" and e: "pb_buffer e = None" "\<not> pb_in_use e"
  shows "preview_inv (s\<lparr>pv_live := pv_live s - {b}, pv_pool := (pv_pool s)[i := e]\<rparr>)" (is "preview_inv ?s")
proof -
  note len = pool_len [OF inv]
  have sl: "slot ?s j c \<longleftrightarrow> j \<noteq> i \<and> slot s j c" for j c
    using slot_update [of "s\<lparr>pv_live := pv_live s - {b}\<rparr>" i e j c] len i e by auto
  have bz: "busy ?s j \<longleftrightarrow> busy s j" for j
    using busy_update [of "s\<lparr>pv_live := pv_live s - {b}\<rparr>" i e j] len i e idle by auto
  have nh: "\<not> holds s t i" for t using inv idle unfolding preview_inv_def slots_ok_def by blast
  have p: "pool_ok s" using inv by (simp add: preview_inv_def)
  have "pool_ok ?s"
  proof (rule pool_okI)
    show "c \<in> pv_live ?s" if "slot ?s j c" for j c
      using that pool_okD(1,2) [OF p, of j c] pool_okD(2) [OF p _ b, of j] by (auto simp: sl)
  qed (use len sl pool_okD(2,3) [OF p] in auto)
  moreover have "slots_ok ?s" using inv unfolding preview_inv_def slots_ok_def bz by simp
  moreover have "fits_ok ?s"
    using inv nh unfolding preview_inv_def fits_ok_def holds_def by simp (metis nth_list_update_neq)
  moreover have "oneshots_ok ?s"
  proof -
    have o: "oneshots_ok s" using inv by (simp add: preview_inv_def)
    have ne: "\<And>j. slot s j b \<Longrightarrow> j = i" using inv b unfolding preview_inv_def pool_ok_def by blast
    show ?thesis
    proof (rule oneshots_okI)
      show "c \<in> pv_live ?s" if "oneshot ?s t c" for t c
        using that oneshots_okD(1,2) [OF o, of t c] b by auto
      show "\<not> slot ?s j c" if "oneshot ?s t c" for t c j
        using that oneshots_okD(2) [OF o, of t c] by (simp add: sl)
      show "t = u" if "oneshot ?s t c" "oneshot ?s u c" for t u c
        using that oneshots_okD(3) [OF o] by simp
      show "(\<exists>j. slot ?s j c) \<or> (\<exists>t. oneshot ?s t c)" if "c \<in> pv_live ?s" for c
      proof -
        have "c \<in> pv_live s" "c \<noteq> b" using that by auto
        moreover have "j \<noteq> i" if "slot s j c" for j using that b \<open>c \<noteq> b\<close> by (auto simp: slot_def)
        ultimately show ?thesis using oneshots_okD(4) [OF o, of c] by (auto simp: sl)
      qed
    qed
  qed
  moreover have "reqs_ok ?s" using inv by (simp add: preview_inv_def reqs_ok_def)
  ultimately show ?thesis by (simp add: preview_inv_def)
qed

text \<open>
  A request without a buffer takes an idle slot, with the buffer that is there or a new one in its
  place.
\<close>

lemma take_slot_inv:
  assumes inv: "preview_inv s" and t: "pv_reqs s t = Some r0" "rq_buffer r0 = None"
    and i: "i < PREVIEW_POOL_MAX" "\<not> busy s i"
    and pb: "pb_in_use pb" "pb_buffer pb = Some b" "rq_pb r = Some i" "fits r pb" "req_ok (pv_count s) t r"
    and new: "\<And>c. slot s i c \<Longrightarrow> c = b" "\<And>j. slot s j b \<Longrightarrow> j = i" "\<And>u. \<not> oneshot s u b"
      "\<And>x. x \<in> insert b (pv_live s) \<Longrightarrow> x < n"
  shows "preview_inv (s\<lparr>pv_next := n, pv_live := insert b (pv_live s), pv_pool := (pv_pool s)[i := pb],
    pv_reqs := (pv_reqs s)(t := Some r)\<rparr>)" (is "preview_inv ?s")
proof -
  note len = pool_len [OF inv]
  have sl: "slot ?s j c \<longleftrightarrow> (if j = i then c = b else slot s j c)" for j c
    using slot_update [of s i pb j c] len i pb by (auto simp: slot_def)
  have bz: "busy ?s j \<longleftrightarrow> j = i \<or> busy s j" for j
    using busy_update [of s i pb j] len i pb by (auto simp: busy_def)
  have r0: "rq_pb r0 = None" using inv t by (auto simp: preview_inv_def reqs_ok_def req_ok_def)
  have nt: "\<not> holds s t j" "\<not> oneshot s t c" for j c using t r0 by (auto simp: holds_def oneshot_def)
  have ho: "holds ?s u j \<longleftrightarrow> (u = t \<and> j = i) \<or> holds s u j" for u j
    using nt(1) [of j] pb(3) by (auto simp: holds_def)
  have on: "oneshot ?s u c \<longleftrightarrow> oneshot s u c" for u c
    using nt(2) [of c] pb(3) by (auto simp: oneshot_def)
  have nh: "\<not> holds s u i" for u using inv i(2) unfolding preview_inv_def slots_ok_def by blast
  have parts: "pool_ok s" "slots_ok s" "fits_ok s" "oneshots_ok s" "reqs_ok s" using inv by (auto simp: preview_inv_def)
  have "pool_ok ?s"
  proof (rule pool_okI)
    show "c \<in> pv_live ?s" if "slot ?s j c" for j c
      using that [unfolded sl] pool_okD(1) [OF parts(1), of j c] by (auto split: if_splits)
    show "j = k" if "slot ?s j c" "slot ?s k c" for j k c
      using that [unfolded sl] new(2) pool_okD(2) [OF parts(1), of j c k] by metis
  qed (use len new(4) in auto)
  moreover have "slots_ok ?s" unfolding slots_ok_def ho bz using parts(2) nh unfolding slots_ok_def by blast
  moreover have "fits_ok ?s"
    using parts(3) nh pb(3,4) i(1) len unfolding fits_ok_def holds_def
    by (auto simp: nth_list_update_eq) (metis nth_list_update_neq)
  moreover have "oneshots_ok ?s"
  proof (rule oneshots_okI)
    show "\<not> slot ?s j c" if "oneshot ?s u c" for u c j
      using that new(3) [of u] oneshots_okD(2) [OF parts(4), of u c j] unfolding sl on by (auto split: if_splits)
    show "u = v" if "oneshot ?s u c" "oneshot ?s v c" for u v c
      using that oneshots_okD(3) [OF parts(4), of u c v] unfolding on by blast
    show "(\<exists>j. slot ?s j c) \<or> (\<exists>u. oneshot ?s u c)" if "c \<in> pv_live ?s" for c
    proof (cases "c = b")
      case False
      then have "c \<in> pv_live s" using that by simp
      moreover have "j \<noteq> i" if "slot s j c" for j using that new(1) False by auto
      ultimately show ?thesis using oneshots_okD(4) [OF parts(4), of c] unfolding sl on by auto
    next
      case True
      then show ?thesis unfolding sl by auto
    qed
    show "c \<in> pv_live ?s" if "oneshot ?s u c" for u c
      using that oneshots_okD(1) [OF parts(4), of u c] unfolding on by simp
  qed
  moreover have "reqs_ok ?s" using parts(5) pb(5) unfolding reqs_ok_def by auto
  ultimately show ?thesis by (simp add: preview_inv_def)
qed

text \<open>A request without a buffer gets a one-shot buffer.\<close>

lemma give_oneshot_inv:
  assumes inv: "preview_inv s" and t: "pv_reqs s t = Some r0" "rq_buffer r0 = None"
    and r: "rq_pb r = None" "rq_buffer r = Some (pv_next s)" "req_ok (pv_count s) t r"
  shows "preview_inv (s\<lparr>pv_next := Suc (pv_next s), pv_live := insert (pv_next s) (pv_live s),
    pv_reqs := (pv_reqs s)(t := Some r)\<rparr>)" (is "preview_inv ?s")
proof -
  have parts: "pool_ok s" "slots_ok s" "fits_ok s" "oneshots_ok s" "reqs_ok s" using inv by (auto simp: preview_inv_def)
  have r0: "rq_pb r0 = None" using inv t by (auto simp: preview_inv_def reqs_ok_def req_ok_def)
  have fresh: "\<not> slot s i (pv_next s)" "\<not> oneshot s u (pv_next s)" for i u
    using parts(1,4) unfolding pool_ok_def oneshots_ok_def by blast+
  have v: "slot ?s = slot s" "busy ?s = busy s" by (simp_all add: fun_eq_iff slot_def busy_def)
  have ho: "holds ?s u j \<longleftrightarrow> holds s u j" for u j using t r r0 by (auto simp: holds_def)
  have on: "oneshot ?s u c \<longleftrightarrow> (u = t \<and> c = pv_next s) \<or> oneshot s u c" for u c using t r by (auto simp: oneshot_def)
  have "pool_ok ?s" unfolding pool_ok_def v using parts(1) unfolding pool_ok_def by (auto simp: less_Suc_eq)
  moreover have "slots_ok ?s" unfolding slots_ok_def ho v using parts(2) unfolding slots_ok_def by simp
  moreover have "fits_ok ?s" using parts(3) r(1) unfolding fits_ok_def by auto
  moreover have "oneshots_ok ?s"
    unfolding oneshots_ok_def on v using parts(4) fresh unfolding oneshots_ok_def by auto
  moreover have "reqs_ok ?s" using parts(5) r(3) unfolding reqs_ok_def by auto
  ultimately show ?thesis by (simp add: preview_inv_def)
qed

text \<open>A request gives its buffer back and is replaced by one without a buffer, or freed.\<close>

lemma free_buffer_inv:
  assumes inv: "preview_inv s" and t: "pv_reqs s t = Some r"
    and x: "\<And>r1. x = Some r1 \<Longrightarrow> rq_pb r1 = None \<and> rq_buffer r1 = None \<and> req_ok (pv_count s) t r1"
  shows "preview_inv (put_req t x (preview_request_free_buffer r s))" (is "preview_inv ?s")
proof -
  note len = pool_len [OF inv]
  have parts: "pool_ok s" "slots_ok s" "fits_ok s" "oneshots_ok s" "reqs_ok s" using inv by (auto simp: preview_inv_def)
  have reqs: "pv_reqs ?s = (pv_reqs s)(t := x)" and cnt: "pv_count ?s = pv_count s" and nx: "pv_next ?s = pv_next s"
    by (auto simp: put_req_def preview_request_free_buffer_def preview_buffer_release_def split: option.splits)
  have ho: "holds ?s u j \<longleftrightarrow> u \<noteq> t \<and> holds s u j" and on: "oneshot ?s u c \<longleftrightarrow> u \<noteq> t \<and> oneshot s u c" for u j c
    using x by (auto simp: holds_def oneshot_def reqs)
  have rq: "reqs_ok ?s" using parts(5) x unfolding reqs_ok_def reqs cnt by auto
  show ?thesis
  proof (cases "rq_pb r")
    case (Some i)
    then have h: "holds s t i" using t by (simp add: holds_def)
    then have i: "i < PREVIEW_POOL_MAX" "busy s i" using parts(2) unfolding slots_ok_def busy_def by blast+
    let ?pb = "(pv_pool s ! i)\<lparr>pb_in_use := False\<rparr>"
    have eq: "?s = s\<lparr>pv_pool := (pv_pool s)[i := ?pb], pv_reqs := (pv_reqs s)(t := x)\<rparr>"
      using Some by (simp add: put_req_def preview_request_free_buffer_def preview_buffer_release_def)
    have sl: "slot ?s j c \<longleftrightarrow> slot s j c" for j c
      unfolding eq using slot_update [of s i ?pb j c] len i by (auto simp: slot_def)
    have bz: "busy ?s j \<longleftrightarrow> j \<noteq> i \<and> busy s j" for j
      unfolding eq using busy_update [of s i ?pb j] len i by (auto simp: busy_def)
    have lv: "pv_live ?s = pv_live s" by (simp add: eq)
    have no: "\<not> oneshot s t c" for c using t Some by (simp add: oneshot_def)
    have ln: "length (pv_pool ?s) = PREVIEW_POOL_MAX" using len by (simp add: eq)
    have "pool_ok ?s"
      by (rule pool_okI; (unfold sl lv nx)?; (rule ln | erule pool_okD [OF parts(1)]; assumption?))
    moreover have "slots_ok ?s"
    proof (rule slots_okI)
      show "busy ?s j" if "holds ?s u j" for u j
        using that slots_okD(1) [OF parts(2), of u j] slots_okD(3) [OF parts(2) h, of u] unfolding bz ho by blast
      show "\<exists>u. holds ?s u j" if bj: "busy ?s j" for j
      proof -
        obtain u where u: "holds s u j" using bj slots_okD(2) [OF parts(2), of j] unfolding bz by blast
        have "u \<noteq> t" using u bj Some t unfolding bz holds_def by auto
        then show ?thesis using u unfolding ho by blast
      qed
      show "u = v" if "holds ?s u j" "holds ?s v j" for u v j
        using that slots_okD(3) [OF parts(2), of u j v] unfolding ho by blast
    qed
    moreover have "fits_ok ?s" unfolding fits_ok_def
    proof (intro allI impI)
      fix u q j
      assume a: "pv_reqs ?s u = Some q" "rq_pb q = Some j"
      then have u: "u \<noteq> t" "pv_reqs s u = Some q" using x by (auto simp: reqs split: if_splits)
      then have "j \<noteq> i" using h parts(2) a(2) unfolding slots_ok_def holds_def by blast
      then show "fits q (pv_pool ?s ! j)" using parts(3) u a(2) unfolding fits_ok_def by (simp add: eq)
    qed
    moreover have "oneshots_ok ?s"
    proof (rule oneshots_okI)
      show "(\<exists>j. slot ?s j c) \<or> (\<exists>u. oneshot ?s u c)" if "c \<in> pv_live ?s" for c
        using that no [of c] oneshots_okD(4) [OF parts(4), of c] unfolding lv sl on by metis
      show "c \<in> pv_live ?s" if "oneshot ?s u c" for u c
        using that oneshots_okD(1) [OF parts(4), of u c] unfolding lv on by blast
      show "\<not> slot ?s j c" if "oneshot ?s u c" for u c j
        using that oneshots_okD(2) [OF parts(4), of u c j] unfolding sl on by blast
      show "u = v" if "oneshot ?s u c" "oneshot ?s v c" for u v c
        using that oneshots_okD(3) [OF parts(4), of u c v] unfolding on by blast
    qed
    ultimately show ?thesis using rq by (simp add: preview_inv_def)
  next
    case None
    let ?L = "case rq_buffer r of None \<Rightarrow> pv_live s | Some b \<Rightarrow> pv_live s - {b}"
    have eq: "?s = s\<lparr>pv_live := ?L, pv_reqs := (pv_reqs s)(t := x)\<rparr>"
      using None by (auto simp: put_req_def preview_request_free_buffer_def split: option.splits)
    have v: "slot ?s = slot s" "busy ?s = busy s" unfolding eq by (simp_all add: fun_eq_iff slot_def busy_def)
    have nh: "\<not> holds s t j" for j using t None by (simp add: holds_def)
    have ot: "oneshot s t c \<longleftrightarrow> rq_buffer r = Some c" for c using t None by (simp add: oneshot_def)
    have lv: "c \<in> pv_live ?s \<longleftrightarrow> c \<in> pv_live s \<and> \<not> oneshot s t c" for c unfolding eq ot by (auto split: option.splits)
    have ln: "length (pv_pool ?s) = PREVIEW_POOL_MAX" using len by (simp add: eq)
    have "pool_ok ?s"
      by (rule pool_okI) (use ln pool_okD [OF parts(1)] oneshots_okD(2) [OF parts(4)] in \<open>auto simp: v lv nx\<close>)
    moreover have "slots_ok ?s"
    proof (rule slots_okI)
      show "busy ?s j" if "holds ?s u j" for u j
        using that slots_okD(1) [OF parts(2), of u j] unfolding v ho by blast
      show "\<exists>u. holds ?s u j" if bj: "busy ?s j" for j
        using bj slots_okD(2) [OF parts(2), of j] nh [of j] unfolding v ho by metis
      show "u = v" if "holds ?s u j" "holds ?s v j" for u v j
        using that slots_okD(3) [OF parts(2), of u j v] unfolding ho by blast
    qed
    moreover have "fits_ok ?s"
      unfolding fits_ok_def reqs
    proof (intro allI impI)
      fix u q j
      assume a: "((pv_reqs s)(t := x)) u = Some q" "rq_pb q = Some j"
      then have "pv_reqs s u = Some q" using x by (auto split: if_splits)
      then show "fits q (pv_pool ?s ! j)" using parts(3) a(2) unfolding fits_ok_def by (simp add: eq)
    qed
    moreover have "oneshots_ok ?s"
    proof (rule oneshots_okI)
      show "(\<exists>j. slot ?s j c) \<or> (\<exists>u. oneshot ?s u c)" if cl: "c \<in> pv_live ?s" for c
        using cl oneshots_okD(4) [OF parts(4), of c] unfolding lv v on by metis
      show "c \<in> pv_live ?s" if "oneshot ?s u c" for u c
        using that oneshots_okD(1) [OF parts(4), of u c] oneshots_okD(3) [OF parts(4), of u c t] unfolding lv on by blast
      show "\<not> slot ?s j c" if "oneshot ?s u c" for u c j
        using that oneshots_okD(2) [OF parts(4), of u c j] unfolding v on by blast
      show "u = w" if "oneshot ?s u c" "oneshot ?s w c" for u w c
        using that oneshots_okD(3) [OF parts(4), of u c w] unfolding on by blast
    qed
    ultimately show ?thesis using rq by (simp add: preview_inv_def)
  qed
qed

lemma tear_down_inv:
  assumes "preview_inv s" and "i < PREVIEW_POOL_MAX" and "\<not> pb_in_use (pv_pool s ! i)"
  shows "preview_inv (tear_down i s)" and "\<not> busy (tear_down i s) i" and "\<not> slot (tear_down i s) i b"
    and "pv_reqs (tear_down i s) = pv_reqs s" and "pv_count (tear_down i s) = pv_count s"
    and "length (pv_pool (tear_down i s)) = PREVIEW_POOL_MAX"
proof -
  note len = pool_len [OF assms(1)]
  have idle: "\<not> busy s i" using assms(3) by (simp add: busy_def)
  show "preview_inv (tear_down i s)"
    using assms drop_idle_inv [OF assms(1,2) idle] by (auto simp: tear_down_def Let_def slot_def split: option.splits)
  show "\<not> busy (tear_down i s) i" "\<not> slot (tear_down i s) i b" "pv_reqs (tear_down i s) = pv_reqs s"
    "pv_count (tear_down i s) = pv_count s" "length (pv_pool (tear_down i s)) = PREVIEW_POOL_MAX"
    using assms len by (auto simp: tear_down_def Let_def slot_def busy_def split: option.splits)
qed

text \<open>The three outcomes of \<open>preview_buffer_acquire\<close>.\<close>

lemma acquire_cases:
  assumes "preview_inv s"
  obtains (reused) i where "preview_buffer_acquire ok fmt w h stride s =
        (Some i, s\<lparr>pv_pool := (pv_pool s)[i := (pv_pool s ! i)\<lparr>pb_in_use := True\<rparr>]\<rparr>)"
      "i < PREVIEW_POOL_MAX" "reusable fmt w h stride (pv_pool s ! i)"
  | (none) s1 where "preview_buffer_acquire ok fmt w h stride s = (None, s1)" "preview_inv s1"
      "pv_reqs s1 = pv_reqs s" "pv_count s1 = pv_count s"
  | (fresh) i s1 pb where "preview_buffer_acquire ok fmt w h stride s =
        (Some i, s1\<lparr>pv_next := Suc (pv_next s1), pv_live := insert (pv_next s1) (pv_live s1), pv_pool := (pv_pool s1)[i := pb]\<rparr>)"
      "i < PREVIEW_POOL_MAX" "preview_inv s1" "\<not> busy s1 i" "\<And>b. \<not> slot s1 i b" "pv_reqs s1 = pv_reqs s"
      "pv_count s1 = pv_count s" "pb_in_use pb" "pb_buffer pb = Some (pv_next s1)"
      "pb_width pb = w" "pb_height pb = h" "pb_stride pb = stride"
proof (cases "List.find (\<lambda>i. reusable fmt w h stride (pv_pool s ! i)) [0..<PREVIEW_POOL_MAX]")
  case (Some i)
  then show ?thesis using find_upt [OF Some] by (intro reused [of i]) (simp_all add: preview_buffer_acquire_def)
next
  case no_match: None
  show ?thesis
  proof (cases "List.find (\<lambda>i. \<not> pb_in_use (pv_pool s ! i)) [0..<PREVIEW_POOL_MAX]")
    case None
    then show ?thesis using no_match assms by (intro none [of s]) (simp_all add: preview_buffer_acquire_def)
  next
    case (Some i)
    then have i: "i < PREVIEW_POOL_MAX" "\<not> pb_in_use (pv_pool s ! i)" using find_upt [OF Some] by auto
    note td = tear_down_inv [OF assms i]
    show ?thesis
    proof (cases ok)
      case True
      then show ?thesis
        using no_match Some i td
        by (intro fresh [of i "tear_down i s" "\<lparr>pb_buffer = Some (pv_next (tear_down i s)), pb_size = stride * h,
              pb_width = w, pb_height = h, pb_stride = stride, pb_format = fmt, pb_in_use = True\<rparr>"])
          (simp_all add: preview_buffer_acquire_def Let_def)
    next
      case False
      then show ?thesis
        using no_match Some td by (intro none [of "tear_down i s"]) (simp_all add: preview_buffer_acquire_def Let_def)
    qed
  qed
qed

lemma put_none_inv:
  assumes inv: "preview_inv s" and t: "pv_reqs s t = Some r" "rq_buffer r = None" and x: "\<And>r1. x = Some r1 \<Longrightarrow> rq_pb r1 = None \<and> rq_buffer r1 = None \<and> req_ok (pv_count s) t r1"
  shows "preview_inv (put_req t x s)"
proof -
  have "rq_pb r = None" using inv t by (auto simp: preview_inv_def reqs_ok_def req_ok_def)
  then have "preview_request_free_buffer r s = s" using t(2) by (simp add: preview_request_free_buffer_def)
  then show ?thesis using free_buffer_inv [OF inv t(1) x] by simp
qed

lemma frame_handle_buffer_inv:
  assumes inv: "preview_inv s" and t: "pv_reqs s t = Some r" "rq_buffer r = None" "rq_frame r"
  shows "preview_inv (frame_handle_buffer ok once t fmt w h stride r s)"
proof -
  let ?r = "r\<lparr>rq_width := w, rq_height := h, rq_stride := stride\<rparr>"
  have r: "req_ok (pv_count s) t r" using inv t by (simp add: preview_inv_def reqs_ok_def)
  then have rok: "req_ok (pv_count s) t (?r\<lparr>rq_pb := p, rq_buffer := Some b\<rparr>)" "req_ok (pv_count s) t (?r\<lparr>rq_buffer := Some b\<rparr>)" for p b
    using t by (auto simp: req_ok_def)
  have pbn: "rq_pb r = None" using r t by (simp add: req_ok_def)
  note len = pool_len [OF inv]
  from inv show ?thesis
  proof (cases rule: acquire_cases [where ok = ok and fmt = fmt and w = w and h = h and stride = stride])
    case (reused i)
    let ?pb = "(pv_pool s ! i)\<lparr>pb_in_use := True\<rparr>"
    obtain b where b: "pb_buffer (pv_pool s ! i) = Some b" using reused(3) by (auto simp: reusable_def)
    have p: "pool_ok s" "oneshots_ok s" using inv by (auto simp: preview_inv_def)
    have sb: "slot s i b" using b reused(2) by (simp add: slot_def)
    have lb: "insert b (pv_live s) = pv_live s" using pool_okD(1) [OF p(1) sb] by blast
    have "preview_inv (s\<lparr>pv_next := pv_next s, pv_live := insert b (pv_live s), pv_pool := (pv_pool s)[i := ?pb],
        pv_reqs := (pv_reqs s)(t := Some (?r\<lparr>rq_pb := Some i, rq_buffer := Some b\<rparr>))\<rparr>)"
    proof (rule take_slot_inv [OF inv t(1,2) reused(2)])
      show "fits (?r\<lparr>rq_pb := Some i, rq_buffer := Some b\<rparr>) ?pb" using b reused(3) by (simp add: fits_def reusable_def)
      show "c = b" if "slot s i c" for c using that b by (simp add: slot_def)
      show "j = i" if "slot s j b" for j using pool_okD(2) [OF p(1) that sb] .
      show "\<not> oneshot s u b" for u using oneshots_okD(2) [OF p(2), of u b i] sb by blast
      show "x < pv_next s" if "x \<in> insert b (pv_live s)" for x using that pool_okD(3) [OF p(1), of x] unfolding lb by blast
    qed (use b reused rok in \<open>auto simp: busy_def reusable_def\<close>)
    then show ?thesis
      using reused(1,2) b len by (simp add: frame_handle_buffer_def Let_def put_req_def lb)
  next
    case (none s1)
    have t1: "pv_reqs s1 t = Some r" using none(3) t(1) by simp
    show ?thesis
    proof (cases once)
      case True
      then show ?thesis
        using give_oneshot_inv [OF none(2) t1 t(2), of "?r\<lparr>rq_buffer := Some (pv_next s1)\<rparr>"] rok none pbn
        by (simp add: frame_handle_buffer_def Let_def put_req_def)
    next
      case False
      then show ?thesis
        using put_none_inv [OF none(2) t1 t(2), of None] none(1)
        by (simp add: frame_handle_buffer_def Let_def put_req_tell inv_tell)
    qed
  next
    case (fresh i s1 pb)
    have t1: "pv_reqs s1 t = Some r" using fresh(6) t(1) by simp
    have p: "pool_ok s1" "oneshots_ok s1" using fresh(3) by (auto simp: preview_inv_def)
    let ?n = "pv_next s1"
    have nl: "?n \<notin> pv_live s1" using pool_okD(3) [OF p(1), of ?n] by blast
    have "preview_inv (s1\<lparr>pv_next := Suc ?n, pv_live := insert ?n (pv_live s1), pv_pool := (pv_pool s1)[i := pb],
        pv_reqs := (pv_reqs s1)(t := Some (?r\<lparr>rq_pb := Some i, rq_buffer := Some ?n\<rparr>))\<rparr>)"
    proof (rule take_slot_inv [OF fresh(3) t1 t(2) fresh(2,4)])
      show "fits (?r\<lparr>rq_pb := Some i, rq_buffer := Some ?n\<rparr>) pb" using fresh by (simp add: fits_def)
      show "j = i" if "slot s1 j ?n" for j using pool_okD(1) [OF p(1) that] nl by blast
      show "\<not> oneshot s1 u ?n" for u using oneshots_okD(1) [OF p(2), of u ?n] nl by blast
      show "x < Suc ?n" if "x \<in> insert ?n (pv_live s1)" for x using that pool_okD(3) [OF p(1), of x] by auto
    qed (use fresh rok in auto)
    then show ?thesis
      using fresh(1,2,9) pool_len [OF fresh(3)] by (simp add: frame_handle_buffer_def Let_def put_req_def)
  qed
qed

lemma finish_frame_inv:
  assumes inv: "preview_inv s" and t: "pv_reqs s t = Some r" "rq_frame r"
  shows "preview_inv (finish_frame t shown r s)"
proof -
  have r: "req_ok (pv_count s) t r" using inv t by (simp add: preview_inv_def reqs_ok_def)
  let ?r1 = "r\<lparr>rq_pb := None, rq_buffer := None, rq_frame := False, rq_destroy := False\<rparr>"
  have "preview_inv (put_req t (if rq_external r then Some (?r1\<lparr>rq_done := True\<rparr>) else None) (preview_request_free_buffer r s))"
    by (rule free_buffer_inv [OF inv t(1)]) (use r t in \<open>auto simp: req_ok_def split: if_splits\<close>)
  then show ?thesis unfolding finish_frame_def Let_def put_req_tell inv_tell .
qed

lemma trim_slot_inv: "preview_inv s \<Longrightarrow> i < PREVIEW_POOL_MAX \<Longrightarrow> preview_inv (trim_slot i s)"
  using drop_idle_inv [of s i _ empty_buffer]
  by (auto simp: trim_slot_def Let_def slot_def busy_def empty_buffer_def split: option.splits)

lemma trim_inv: "preview_inv s \<Longrightarrow> preview_inv (preview_pool_trim s)"
proof -
  have "preview_inv s \<Longrightarrow> (\<And>i. i \<in> set is \<Longrightarrow> i < PREVIEW_POOL_MAX) \<Longrightarrow> preview_inv (fold trim_slot is s)" for "is"
    by (induction "is" arbitrary: s) (auto intro: trim_slot_inv)
  then show "preview_inv s \<Longrightarrow> preview_inv (preview_pool_trim s)"
    unfolding preview_pool_trim_def by (metis atLeastLessThan_iff set_upt)
qed

lemma capture_inv: "preview_inv s \<Longrightarrow> preview_inv (capture_preview external usable s)"
proof -
  assume inv: "preview_inv s"
  let ?t = "pv_count s"
  have none: "pv_reqs s ?t = None"
  proof (rule ccontr)
    assume "pv_reqs s ?t \<noteq> None"
    then obtain r where "pv_reqs s ?t = Some r" by blast
    then show False using inv by (auto simp: preview_inv_def reqs_ok_def req_ok_def)
  qed
  define r where "r = \<lparr>rq_frame = True, rq_buffer = None, rq_pb = None, rq_width = 0, rq_height = 0,
      rq_stride = 0, rq_destroy = True, rq_cancelled = False, rq_external = external, rq_done = False\<rparr>"
  have cnt: "preview_inv (s\<lparr>pv_count := Suc ?t\<rparr>)"
    using inv by (simp add: preview_invs req_ok_def less_Suc_eq)
  let ?s = "s\<lparr>pv_count := Suc ?t, pv_reqs := (pv_reqs s)(?t := Some r)\<rparr>"
  have ho: "holds ?s u i \<longleftrightarrow> holds s u i" and on: "oneshot ?s u b \<longleftrightarrow> oneshot s u b" for u i b
    using none by (auto simp: holds_def oneshot_def r_def)
  have v: "slot ?s = slot s" "busy ?s = busy s" by (simp_all add: fun_eq_iff slot_def busy_def)
  have parts: "pool_ok s" "slots_ok s" "fits_ok s" "oneshots_ok s" "reqs_ok s" using inv by (auto simp: preview_inv_def)
  have "preview_inv ?s" unfolding preview_inv_def
  proof (intro conjI)
    show "pool_ok ?s" using parts(1) unfolding pool_ok_def v by simp
    show "slots_ok ?s" using parts(2) unfolding slots_ok_def v ho by simp
    show "oneshots_ok ?s" using parts(4) unfolding oneshots_ok_def v on by simp
    show "fits_ok ?s" using parts(3) unfolding fits_ok_def by (auto simp: r_def)
    show "reqs_ok ?s" using parts(5) unfolding reqs_ok_def by (auto simp: r_def req_ok_def less_Suc_eq)
  qed
  moreover have "preview_inv (s\<lparr>pv_count := Suc ?t, pv_tokens := T, pv_reqs := (pv_reqs s)(?t := Some r)\<rparr>)" for T
  proof -
    have "s\<lparr>pv_count := Suc ?t, pv_tokens := T, pv_reqs := (pv_reqs s)(?t := Some r)\<rparr> = ?s\<lparr>pv_tokens := T\<rparr>" by simp
    then show ?thesis using \<open>preview_inv ?s\<close> by (simp only: inv_log(2))
  qed
  ultimately show ?thesis
    using cnt by (simp add: capture_preview_def Let_def inv_tell put_req_def r_def [symmetric])
qed

lemma cancel_inv: "preview_inv s \<Longrightarrow> preview_inv (cancel_capture t s)"
proof (cases "pv_reqs s t")
  case (Some r)
  assume inv: "preview_inv s"
  show ?thesis
  proof (cases "rq_done r")
    case True
    then have "rq_buffer r = None" using inv Some by (auto simp: preview_inv_def reqs_ok_def req_ok_def)
    then show ?thesis using put_none_inv [OF inv Some, of None] Some True by (simp add: cancel_capture_def)
  next
    case False
    then show ?thesis
      using free_buffer_inv [OF inv Some, of None] Some by (simp add: cancel_capture_def put_req_tell inv_tell)
  qed
qed (simp add: cancel_capture_def)

lemma preview_step_inv: "preview_inv s \<Longrightarrow> preview_inv (preview_step e s)"
  by (cases e) (auto simp: capture_inv trim_inv cancel_inv frame_handle_ready_def frame_handle_failed_def
      intro: frame_handle_buffer_inv finish_frame_inv split: option.splits)

interpretation preview: event_machine preview_step preview_inv
  by unfold_locales (rule preview_step_inv)

section \<open>Properties\<close>

definition preview_run :: "preview_event list \<Rightarrow> preview_state" where
  "preview_run es = fold preview_step es preview_init"

definition oneshot_requests :: "preview_state \<Rightarrow> nat set" where
  "oneshot_requests s = {t. \<exists>b. oneshot s t b}"

lemma live_bound:
  assumes inv: "preview_inv s" and fin: "finite (oneshot_requests s)"
  shows "finite (pv_live s) \<and> card (pv_live s) \<le> PREVIEW_POOL_MAX + card (oneshot_requests s)"
proof -
  have o: "oneshots_ok s" using inv by (simp add: preview_inv_def)
  let ?P = "(\<lambda>i. the (pb_buffer (pv_pool s ! i))) ` {..<PREVIEW_POOL_MAX}"
  let ?Q = "(\<lambda>t. THE b. oneshot s t b) ` oneshot_requests s"
  have the: "(THE c. oneshot s t c) = b" if "oneshot s t b" for t b
    using that by (auto simp: oneshot_def)
  have sub: "pv_live s \<subseteq> ?P \<union> ?Q"
  proof
    fix b assume "b \<in> pv_live s"
    then consider i where "slot s i b" | t where "oneshot s t b" using oneshots_okD(4) [OF o] by blast
    then show "b \<in> ?P \<union> ?Q"
    proof cases
      case 1
      then have "i < PREVIEW_POOL_MAX" "b = the (pb_buffer (pv_pool s ! i))" by (auto simp: slot_def)
      then show ?thesis by blast
    next
      case 2
      then have "t \<in> oneshot_requests s" "b = (THE b. oneshot s t b)" using the [OF 2] by (auto simp: oneshot_requests_def)
      then show ?thesis by blast
    qed
  qed
  have "card (?P \<union> ?Q) \<le> card ?P + card ?Q" by (rule card_Un_le)
  also have "\<dots> \<le> PREVIEW_POOL_MAX + card (oneshot_requests s)"
    using card_image_le [of "{..<PREVIEW_POOL_MAX}" "\<lambda>i. the (pb_buffer (pv_pool s ! i))"]
      card_image_le [OF fin, of "\<lambda>t. THE b. oneshot s t b"] by simp
  finally have "card (?P \<union> ?Q) \<le> PREVIEW_POOL_MAX + card (oneshot_requests s)" .
  moreover have "finite (?P \<union> ?Q)" using fin by simp
  ultimately show ?thesis using sub by (meson card_mono finite_subset order.trans)
qed

lemma oneshot_finite: "preview_inv s \<Longrightarrow> finite (oneshot_requests s)"
proof (rule finite_subset)
  assume inv: "preview_inv s"
  show "oneshot_requests s \<subseteq> {..<pv_count s}"
    using inv by (auto simp: oneshot_requests_def oneshot_def preview_inv_def reqs_ok_def req_ok_def)
qed simp

text \<open>
  C25: over every sequence of captures, compositor events, cancellations and trims, at most
  \<open>PREVIEW_POOL_MAX\<close> buffer objects exist besides the one-shot buffers of captures in flight: the
  compositor can never be made to map more. A pooled buffer that a capture in flight uses exists,
  has exactly the announced geometry, and is used by no other capture.
\<close>

theorem preview_pool_bounded:
  "card (pv_live (preview_run es)) \<le> PREVIEW_POOL_MAX + card (oneshot_requests (preview_run es)) \<and>
    (\<forall>t r i. pv_reqs (preview_run es) t = Some r \<and> rq_pb r = Some i \<longrightarrow>
       (\<exists>b \<in> pv_live (preview_run es). rq_buffer r = Some b \<and> slot (preview_run es) i b) \<and>
       fits r (pv_pool (preview_run es) ! i) \<and> (\<forall>u. holds (preview_run es) u i \<longrightarrow> u = t))"
proof -
  have inv: "preview_inv (preview_run es)" unfolding preview_run_def by (rule preview.run_inv [OF preview_inv_init])
  have "card (pv_live (preview_run es)) \<le> PREVIEW_POOL_MAX + card (oneshot_requests (preview_run es))"
    using live_bound [OF inv oneshot_finite [OF inv]] by simp
  moreover have "(\<exists>b \<in> pv_live (preview_run es). rq_buffer r = Some b \<and> slot (preview_run es) i b) \<and>
       fits r (pv_pool (preview_run es) ! i) \<and> (\<forall>u. holds (preview_run es) u i \<longrightarrow> u = t)"
    if t: "pv_reqs (preview_run es) t = Some r" "rq_pb r = Some i" for t r i
  proof -
    have parts: "pool_ok (preview_run es)" "slots_ok (preview_run es)" "fits_ok (preview_run es)" using inv by (auto simp: preview_inv_def)
    have h: "holds (preview_run es) t i" using t by (simp add: holds_def)
    have f: "fits r (pv_pool (preview_run es) ! i)" using parts(3) t unfolding fits_ok_def by blast
    have "i < PREVIEW_POOL_MAX" using slots_okD(1) [OF parts(2) h] by (simp add: busy_def)
    then obtain b where "rq_buffer r = Some b" "slot (preview_run es) i b" using f by (auto simp: fits_def slot_def)
    then show ?thesis using f pool_okD(1) [OF parts(1)] slots_okD(3) [OF parts(2) _ h] by blast
  qed
  ultimately show ?thesis by blast
qed

definition two_captures :: "preview_event list" where
  "two_captures = [Pv_capture False True, Pv_capture True True, Pv_buffer True True 0 1 8 8 32,
     Pv_buffer True True 1 1 8 8 32, Pv_ready 0]"

lemmas preview_eval = preview_init_def capture_preview_def frame_handle_buffer_def preview_buffer_acquire_def
  put_req_def tell_def reusable_def empty_buffer_def PREVIEW_POOL_MAX_def tear_down_def frame_handle_ready_def
  finish_frame_def preview_request_free_buffer_def preview_buffer_release_def cancel_capture_def Let_def
  upt_conv_Cons

theorem preview_pool_bounded_witness:
  "\<exists>r. pv_reqs (preview_run two_captures) 1 = Some r \<and> rq_buffer r = Some 1 \<and> slot (preview_run two_captures) 1 1"
proof -
  obtain r where r: "pv_reqs (preview_run two_captures) 1 = Some r" "rq_pb r = Some 1" "rq_buffer r = Some 1"
    by (simp add: preview_run_def two_captures_def preview_eval)
  have "\<exists>b \<in> pv_live (preview_run two_captures). rq_buffer r = Some b \<and> slot (preview_run two_captures) 1 b"
    using preview_pool_bounded [of two_captures] r(1,2) by blast
  then show ?thesis using r by auto
qed

subsection \<open>Trimming\<close>

lemma trim_slot_view:
  assumes inv: "preview_inv s" and i: "i < PREVIEW_POOL_MAX"
  shows "slot (trim_slot i s) j b \<longleftrightarrow> slot s j b \<and> (j = i \<longrightarrow> busy s i)" and "busy (trim_slot i s) = busy s"
    and "oneshot (trim_slot i s) = oneshot s"
proof -
  note len = pool_len [OF inv]
  show "slot (trim_slot i s) j b \<longleftrightarrow> slot s j b \<and> (j = i \<longrightarrow> busy s i)"
    using slot_update [of s i empty_buffer j b] len i
    by (auto simp: trim_slot_def Let_def slot_def busy_def empty_buffer_def nth_list_update split: option.splits if_splits)
  show "busy (trim_slot i s) = busy s"
    using len i by (auto simp: fun_eq_iff trim_slot_def Let_def busy_def empty_buffer_def nth_list_update split: option.splits if_splits)
  show "oneshot (trim_slot i s) = oneshot s"
    by (auto simp: fun_eq_iff trim_slot_def Let_def oneshot_def split: option.splits)
qed

lemma trim_fold_view:
  assumes "n \<le> PREVIEW_POOL_MAX" and "preview_inv s"
  shows "preview_inv (fold trim_slot [0..<n] s) \<and> busy (fold trim_slot [0..<n] s) = busy s \<and>
    oneshot (fold trim_slot [0..<n] s) = oneshot s \<and>
    (\<forall>j b. slot (fold trim_slot [0..<n] s) j b \<longleftrightarrow> slot s j b \<and> (j < n \<longrightarrow> busy s j))"
  using assms
proof (induction n)
  case (Suc n)
  let ?s = "fold trim_slot [0..<n] s"
  have IH: "preview_inv ?s" "busy ?s = busy s" "oneshot ?s = oneshot s"
    "\<And>j b. slot ?s j b \<longleftrightarrow> slot s j b \<and> (j < n \<longrightarrow> busy s j)" using Suc by auto
  have n: "n < PREVIEW_POOL_MAX" using Suc.prems by simp
  have "fold trim_slot [0..<Suc n] s = trim_slot n ?s" by simp
  then show ?case
    using IH trim_slot_view [OF IH(1) n] trim_slot_inv [OF IH(1) n] by (auto simp: less_Suc_eq)
qed simp

text \<open>
  Trimming the pool destroys exactly the idle buffers: afterwards the buffer objects that exist
  are those of slots in use and of one-shot captures, so with no capture in flight none is left.
\<close>

theorem trim_frees_idle:
  assumes "preview_inv s"
  shows "pv_live (preview_pool_trim s) = {b. \<exists>i. busy s i \<and> slot s i b} \<union> {b. \<exists>t. oneshot s t b}"
proof -
  let ?s = "preview_pool_trim s"
  have v: "preview_inv ?s" "oneshot ?s = oneshot s" "\<And>j b. slot ?s j b \<longleftrightarrow> slot s j b \<and> (j < PREVIEW_POOL_MAX \<longrightarrow> busy s j)"
    using trim_fold_view [of PREVIEW_POOL_MAX s] assms by (simp_all add: preview_pool_trim_def)
  have sl: "slot ?s j b \<longleftrightarrow> slot s j b \<and> busy s j" for j b using v(3) by (auto simp: slot_def)
  have o: "oneshots_ok ?s" "pool_ok ?s" using v(1) by (auto simp: preview_inv_def)
  show ?thesis
    using oneshots_okD(1,4) [OF o(1)] pool_okD(1) [OF o(2)] unfolding sl v(2) by blast
qed

theorem trim_frees_idle_witness:
  "pv_live (preview_pool_trim preview_init) = {}"
  using trim_frees_idle [OF preview_inv_init] by (auto simp: busy_def oneshot_def preview_init_def empty_buffer_def)

subsection \<open>Notifications and tokens\<close>

definition pending :: "preview_state \<Rightarrow> nat \<Rightarrow> bool" where
  "pending s t \<longleftrightarrow> (\<exists>r. pv_reqs s t = Some r \<and> rq_destroy r)"

definition told :: "preview_state \<Rightarrow> nat \<Rightarrow> nat" where
  "told s t = count_list (pv_log s) (Destroyed t)"

definition told_ok :: "preview_state \<Rightarrow> bool" where
  "told_ok s \<longleftrightarrow> (\<forall>t. told s t + (if pending s t then 1 else 0) = (if t < pv_count s then 1 else 0))"

definition tokens_ok :: "preview_state \<Rightarrow> bool" where
  "tokens_ok s \<longleftrightarrow> (\<forall>t \<in> pv_tokens s. \<exists>r. pv_reqs s t = Some r \<and> rq_external r) \<and> \<not> pv_fault s"

lemma acquire_frame:
  "pv_log (snd (preview_buffer_acquire ok fmt w h stride s)) = pv_log s"
  "pv_reqs (snd (preview_buffer_acquire ok fmt w h stride s)) = pv_reqs s"
  "pv_count (snd (preview_buffer_acquire ok fmt w h stride s)) = pv_count s"
  "pv_tokens (snd (preview_buffer_acquire ok fmt w h stride s)) = pv_tokens s"
  "pv_fault (snd (preview_buffer_acquire ok fmt w h stride s)) = pv_fault s"
  by (simp_all add: preview_buffer_acquire_def tear_down_def Let_def split: option.splits)

lemma free_buffer_frame [simp]:
  "pv_log (preview_request_free_buffer r s) = pv_log s" "pv_reqs (preview_request_free_buffer r s) = pv_reqs s"
  "pv_count (preview_request_free_buffer r s) = pv_count s" "pv_tokens (preview_request_free_buffer r s) = pv_tokens s"
  "pv_fault (preview_request_free_buffer r s) = pv_fault s"
  by (simp_all add: preview_request_free_buffer_def preview_buffer_release_def split: option.splits)

lemma trim_frame:
  "pv_log (preview_pool_trim s) = pv_log s" "pv_reqs (preview_pool_trim s) = pv_reqs s"
  "pv_count (preview_pool_trim s) = pv_count s" "pv_tokens (preview_pool_trim s) = pv_tokens s"
  "pv_fault (preview_pool_trim s) = pv_fault s"
proof -
  have step: "pv_log (trim_slot i s) = pv_log s" "pv_reqs (trim_slot i s) = pv_reqs s" "pv_count (trim_slot i s) = pv_count s"
    "pv_tokens (trim_slot i s) = pv_tokens s" "pv_fault (trim_slot i s) = pv_fault s" for i s
    by (simp_all add: trim_slot_def Let_def split: option.splits)
  have "pv_log (fold trim_slot is s) = pv_log s \<and> pv_reqs (fold trim_slot is s) = pv_reqs s \<and>
      pv_count (fold trim_slot is s) = pv_count s \<and> pv_tokens (fold trim_slot is s) = pv_tokens s \<and>
      pv_fault (fold trim_slot is s) = pv_fault s" for "is"
    by (induction "is" arbitrary: s) (simp_all add: step)
  then show "pv_log (preview_pool_trim s) = pv_log s" "pv_reqs (preview_pool_trim s) = pv_reqs s"
    "pv_count (preview_pool_trim s) = pv_count s" "pv_tokens (preview_pool_trim s) = pv_tokens s"
    "pv_fault (preview_pool_trim s) = pv_fault s" by (simp_all add: preview_pool_trim_def)
qed

text \<open>
  What one event does to the log, the requests, the count and the tokens: nothing, or an answer to
  one request that stops being pending, or a new call.
\<close>

lemma told_ok_answer:
  assumes "told_ok s" and "pv_log s' = pv_log s @ ns" and "pv_reqs s' = (pv_reqs s)(t := x)" and "pv_count s' = pv_count s"
    and "\<And>u. count_list ns (Destroyed u) = (if u = t \<and> pending s t \<and> \<not> pending s' t then 1 else 0)"
    and "pending s' t \<Longrightarrow> pending s t"
  shows "told_ok s'"
proof -
  have p: "pending s' u = pending s u" if "u \<noteq> t" for u using that assms(3) by (simp add: pending_def)
  have l: "told s' u = told s u + (if u = t \<and> pending s t \<and> \<not> pending s' t then 1 else 0)" for u
    using assms(2,5) by (simp add: told_def)
  have o: "told s u + (if pending s u then 1 else 0) = (if u < pv_count s then 1 else 0)" for u
    using assms(1) by (simp add: told_ok_def)
  show ?thesis unfolding told_ok_def
  proof
    fix u
    show "told s' u + (if pending s' u then 1 else 0) = (if u < pv_count s' then 1 else 0)"
      using o [of u] p [of u] assms(6) by (cases "u = t"; cases "pending s t"; cases "pending s' t") (simp_all add: l assms(4))
  qed
qed

lemma told_ok_same:
  assumes "told_ok s" and "pv_log s' = pv_log s" and "pv_count s' = pv_count s" and "\<And>u. pending s' u = pending s u"
  shows "told_ok s'"
  using assms by (simp add: told_ok_def told_def)

lemma frame_handle_buffer_told:
  assumes "told_ok s" and t: "pv_reqs s t = Some r" "rq_destroy r"
  shows "told_ok (frame_handle_buffer ok once t fmt w h stride r s)" (is "told_ok ?s")
proof -
  obtain i s1 where a: "preview_buffer_acquire ok fmt w h stride s = (i, s1)" by (cases "preview_buffer_acquire ok fmt w h stride s")
  have f: "pv_log s1 = pv_log s" "pv_reqs s1 = pv_reqs s" "pv_count s1 = pv_count s"
    using acquire_frame [of ok fmt w h stride s] by (simp_all add: a)
  show ?thesis
  proof (cases "i = None \<and> \<not> once")
    case True
    then show ?thesis
      using t f by (intro told_ok_answer [OF assms(1), of _ "[Shown t None, Destroyed t]" t None])
        (auto simp: frame_handle_buffer_def Let_def a put_req_def tell_def pending_def)
  next
    case False
    have "pv_log ?s = pv_log s" "pv_count ?s = pv_count s" "pending ?s u = pending s u" for u
      using False t f by (auto simp: frame_handle_buffer_def Let_def a put_req_def tell_def pending_def split: option.splits)
    then show ?thesis by (intro told_ok_same [OF assms(1)])
  qed
qed

lemma finish_frame_told:
  assumes "told_ok s" and t: "pv_reqs s t = Some r" "rq_destroy r" and "\<And>u. Destroyed u \<notin> set shown"
  shows "told_ok (finish_frame t shown r s)"
proof -
  have c: "count_list shown (Destroyed u) = 0" for u using assms(4) by (simp add: count_list_0_iff)
  let ?ns = "(if rq_cancelled r then [] else shown) @ [Destroyed t]"
  show ?thesis
    by (rule told_ok_answer [OF assms(1), of _ ?ns t])
      (use t c in \<open>auto simp: finish_frame_def Let_def put_req_def tell_def pending_def\<close>)
qed

lemma cancel_told:
  assumes "told_ok s" and "preview_inv s"
  shows "told_ok (cancel_capture t s)"
proof (cases "pv_reqs s t")
  case None
  then show ?thesis using assms(1) by (auto simp: cancel_capture_def told_ok_def told_def pending_def)
next
  case (Some r)
  have d: "rq_destroy r \<longleftrightarrow> \<not> rq_done r" using assms(2) Some by (auto simp: preview_inv_def reqs_ok_def req_ok_def)
  show ?thesis
    by (rule told_ok_answer [OF assms(1), of _ "if rq_done r then [] else [Destroyed t]" t None])
      (use Some d in \<open>auto simp: cancel_capture_def put_req_def tell_def pending_def\<close>)
qed

lemma capture_told:
  assumes "told_ok s" and "preview_inv s"
  shows "told_ok (capture_preview external usable s)"
proof -
  let ?s = "capture_preview external usable s" and ?t = "pv_count s"
  have "pv_reqs s ?t = None"
  proof (rule ccontr)
    assume "pv_reqs s ?t \<noteq> None"
    then show False using assms(2) by (auto simp: preview_inv_def reqs_ok_def req_ok_def)
  qed
  then have np: "\<not> pending s ?t" by (simp add: pending_def)
  have o: "told s u + (if pending s u then 1 else 0) = (if u < pv_count s then 1 else 0)" for u
    using assms(1) by (simp add: told_ok_def)
  have c: "pv_count ?s = Suc ?t" by (simp add: capture_preview_def Let_def put_req_def tell_def)
  have l: "told ?s u = told s u + (if \<not> usable \<and> u = ?t then 1 else 0)" for u
    by (simp add: capture_preview_def Let_def put_req_def tell_def told_def)
  have p: "pending ?s u \<longleftrightarrow> (if u = ?t then usable else pending s u)" for u
    using np by (auto simp: capture_preview_def Let_def put_req_def tell_def pending_def)
  show ?thesis unfolding told_ok_def
  proof
    fix u
    show "told ?s u + (if pending ?s u then 1 else 0) = (if u < pv_count ?s then 1 else 0)"
      using o [of u] np by (cases "u = ?t") (auto simp: l p c less_Suc_eq split: if_splits)
  qed
qed

lemma preview_step_told:
  assumes "told_ok s" and inv: "preview_inv s"
  shows "told_ok (preview_step e s)"
proof -
  have d: "rq_destroy r" if "pv_reqs s t = Some r" "rq_frame r" for t r
    using inv that by (auto simp: preview_inv_def reqs_ok_def req_ok_def)
  show ?thesis
  proof (cases e)
    case (Pv_capture x u)
    then show ?thesis using capture_told [OF assms] by simp
  next
    case (Pv_cancel t)
    then show ?thesis using cancel_told [OF assms, of t] assms(1) by (simp add: told_ok_def told_def pending_def)
  next
    case Pv_trim
    then show ?thesis
      using assms(1) by (auto simp: trim_frame told_def pending_def intro: told_ok_same)
  qed (use assms(1) d in \<open>auto simp: frame_handle_ready_def frame_handle_failed_def
      intro: frame_handle_buffer_told finish_frame_told split: option.splits\<close>)
qed

interpretation told: event_machine preview_step "\<lambda>s. preview_inv s \<and> told_ok s"
  by unfold_locales (simp add: preview_step_inv preview_step_told)


definition alloc_succeeds :: "preview_event \<Rightarrow> bool" where
  "alloc_succeeds e \<longleftrightarrow> (case e of Pv_buffer ok once t fmt w h stride \<Rightarrow> once | _ \<Rightarrow> True)"

lemma tokens_okI:
  assumes "tokens_ok s" and "pv_tokens s' = pv_tokens s" and "\<not> pv_fault s'"
    and "\<And>t r. t \<in> pv_tokens s \<Longrightarrow> pv_reqs s t = Some r \<Longrightarrow> rq_external r \<Longrightarrow> \<exists>r'. pv_reqs s' t = Some r' \<and> rq_external r'"
  shows "tokens_ok s'"
  using assms unfolding tokens_ok_def by metis

lemma buffer_tokens:
  assumes "tokens_ok s" and "pv_reqs s t = Some r" and "once"
  shows "tokens_ok (frame_handle_buffer ok once t fmt w h stride r s)"
proof -
  obtain i s1 where a: "preview_buffer_acquire ok fmt w h stride s = (i, s1)" by (cases "preview_buffer_acquire ok fmt w h stride s")
  have f: "pv_tokens s1 = pv_tokens s" "pv_reqs s1 = pv_reqs s" "pv_fault s1 = pv_fault s"
    using acquire_frame [of ok fmt w h stride s] by (simp_all add: a)
  show ?thesis
    by (rule tokens_okI [OF assms(1)])
      (use assms f in \<open>auto simp: frame_handle_buffer_def Let_def a put_req_def tokens_ok_def split: option.splits\<close>)
qed

lemma finish_tokens:
  assumes "tokens_ok s" and "pv_reqs s t = Some r"
  shows "tokens_ok (finish_frame t shown r s)"
  by (rule tokens_okI [OF assms(1)])
    (use assms in \<open>auto simp: finish_frame_def Let_def put_req_def tell_def tokens_ok_def\<close>)

lemma preview_step_tokens:
  assumes "tokens_ok s" and "alloc_succeeds e" and "preview_inv s"
  shows "tokens_ok (preview_step e s)"
proof (cases e)
  case (Pv_cancel t)
  show ?thesis
  proof (cases "t \<in> pv_tokens s")
    case True
    then obtain r where r: "pv_reqs s t = Some r" using assms(1) by (auto simp: tokens_ok_def)
    have "pv_reqs (cancel_capture t s) = (pv_reqs s)(t := None)" "pv_fault (cancel_capture t s) = pv_fault s"
      by (simp_all add: cancel_capture_def r put_req_def tell_def)
    then show ?thesis using assms(1) True by (auto simp: Pv_cancel tokens_ok_def)
  qed (use assms(1) Pv_cancel in simp)
next
  case (Pv_capture x u)
  have "pv_count s \<notin> pv_tokens s"
    using assms(1,3) by (auto simp: tokens_ok_def preview_inv_def reqs_ok_def req_ok_def)
  then show ?thesis
    using assms(1) Pv_capture by (auto simp: tokens_ok_def capture_preview_def Let_def put_req_def tell_def)
next
  case (Pv_buffer ok once t fmt w h stride)
  then show ?thesis using assms buffer_tokens [of s t _ once] by (auto simp: alloc_succeeds_def split: option.splits)
next
  case Pv_trim
  then show ?thesis using assms(1) by (simp add: trim_frame tokens_ok_def)
qed (use assms finish_tokens in \<open>auto simp: frame_handle_ready_def frame_handle_failed_def split: option.splits\<close>)

text \<open>
  As long as no one-shot allocation fails, a token that the client holds refers to a live
  request, so giving it back never touches freed memory.
\<close>

theorem cancel_token_safe:
  assumes "\<And>e. e \<in> set es \<Longrightarrow> alloc_succeeds e"
  shows "\<not> pv_fault (preview_run es) \<and>
    (\<forall>t \<in> pv_tokens (preview_run es). \<exists>r. pv_reqs (preview_run es) t = Some r \<and> rq_external r)"
proof -
  have "tokens_ok (fold preview_step es s)" if "tokens_ok s" "preview_inv s" for s
    using assms that by (induction es arbitrary: s) (auto intro: preview_step_tokens preview_step_inv)
  moreover have "tokens_ok preview_init" by (simp add: tokens_ok_def preview_init_def)
  ultimately have "tokens_ok (preview_run es)" using preview_inv_init by (simp add: preview_run_def)
  then show ?thesis by (simp add: tokens_ok_def)
qed

theorem cancel_token_safe_witness:
  "\<not> pv_fault (preview_run (two_captures @ [Pv_cancel 1]))"
proof -
  have "list_all alloc_succeeds (two_captures @ [Pv_cancel 1])" by (simp add: two_captures_def alloc_succeeds_def)
  then show ?thesis using cancel_token_safe [of "two_captures @ [Pv_cancel 1]"] unfolding list_all_iff by blast
qed

text \<open>
  When it does fail, the request behind a token is freed at once although the token was given
  out, and the client's later cancellation uses freed memory.
\<close>

theorem cancel_token_dangles:
  "pv_fault (preview_run [Pv_capture True True, Pv_buffer False False 0 1 8 8 32, Pv_cancel 0])"
  by (simp add: preview_run_def preview_eval)

end
