(* ===== verification/Windows.thy ===== *)
theory Windows
  imports C_Prelude
begin

text \<open>
  Windows as the shell sees them, \<^verbatim>\<open>src/wayland/wayland_integration.c\<close>: the registry of valid
  toplevel handles, the caches kept per window, and the calls that send requests about a window.
  Handles are numbers, 0 is \<open>NULL\<close>; \<open>w_live\<close> is the set of toplevel objects that exist on the
  connection. \<open>w_sent\<close> collects the requests; \<open>w_fault\<close> is set by a request that names an object
  that does not exist or that the bound version of the tiling protocol does not have.
\<close>

section \<open>Requests\<close>

datatype win_request =
    R_activate nat
  | R_show_toplevel nat
  | R_show_region int int int int
  | R_close_pip
  | R_minimize nat
  | R_unset_minimize nat
  | R_close nat
  | R_get_geometry nat
  | R_get_workarea nat
  | R_get_layout_workarea
  | R_get_cursor_position
  | R_get_tileable nat
  | R_set_geometry nat int int int int
  | R_set_geometry_animated nat int int int int
  | R_set_close_gesture_progress nat int
  | R_set_tiled nat nat
  | R_set_scrolling_mode nat
  | R_detach_tiled nat
  | R_set_drop_preview int int int int nat
  | R_snap_view nat nat
  | R_move_to_workspace nat nat

fun req_handle :: "win_request \<Rightarrow> nat option" where
  "req_handle (R_activate h) = Some h"
| "req_handle (R_show_toplevel h) = Some h"
| "req_handle (R_minimize h) = Some h"
| "req_handle (R_unset_minimize h) = Some h"
| "req_handle (R_close h) = Some h"
| "req_handle (R_get_geometry h) = Some h"
| "req_handle (R_get_workarea h) = Some h"
| "req_handle (R_get_tileable h) = Some h"
| "req_handle (R_set_geometry h _ _ _ _) = Some h"
| "req_handle (R_set_geometry_animated h _ _ _ _) = Some h"
| "req_handle (R_set_close_gesture_progress h _) = Some h"
| "req_handle (R_set_tiled h _) = Some h"
| "req_handle (R_detach_tiled h) = Some h"
| "req_handle (R_snap_view h _) = Some h"
| "req_handle (R_move_to_workspace h _) = Some h"
| "req_handle _ = None"

text \<open>
  The version of the tiling protocol (\<^verbatim>\<open>protocols/singularity-tiling-unstable-v1.xml\<close>) from which a
  request may be sent; 0 for requests of other interfaces.
\<close>

fun since :: "win_request \<Rightarrow> nat" where
  "since (R_get_geometry _) = 1"
| "since (R_set_geometry _ _ _ _ _) = 1"
| "since (R_set_tiled _ _) = 1"
| "since (R_snap_view _ _) = 1"
| "since (R_move_to_workspace _ _) = 3"
| "since (R_get_workarea _) = 4"
| "since (R_set_scrolling_mode _) = 5"
| "since (R_detach_tiled _) = 5"
| "since (R_set_drop_preview _ _ _ _ _) = 6"
| "since (R_get_tileable _) = 7"
| "since (R_set_close_gesture_progress _ _) = 8"
| "since R_get_layout_workarea = 9"
| "since R_get_cursor_position = 10"
| "since (R_set_geometry_animated _ _ _ _ _) = 11"
| "since _ = 0"

section \<open>State\<close>

record geom_entry =
  ge_x :: int
  ge_y :: int
  ge_w :: int
  ge_h :: int
  ge_maximized :: nat
  ge_fullscreen :: nat
  ge_work :: "int \<times> int \<times> int \<times> int"
  ge_connector :: string
  ge_got :: bool
  ge_workarea_got :: bool
  ge_tileable :: bool
  ge_tileable_got :: bool

definition zero_geom :: geom_entry where
  "zero_geom = \<lparr>ge_x = 0, ge_y = 0, ge_w = 0, ge_h = 0, ge_maximized = 0, ge_fullscreen = 0, ge_work = (0, 0, 0, 0),
     ge_connector = [], ge_got = False, ge_workarea_got = False, ge_tileable = False, ge_tileable_got = False\<rparr>"

datatype win_note =
    N_opened nat string
  | N_closed nat
  | N_focused nat
  | N_title nat "string option"
  | N_state nat bool bool bool
  | N_output_changed nat
  | N_cursor int int
  | N_interaction nat nat nat int int int int int int nat bool

record layout_area =
  la_area :: "int \<times> int \<times> int \<times> int"
  la_got :: bool
  la_done :: bool

record win_state =
  w_valid :: "nat set"
  w_live :: "nat set"
  w_title :: "nat \<Rightarrow> string option"
  w_output :: "nat \<Rightarrow> nat option"
  w_table :: bool
  w_geom :: "nat \<Rightarrow> geom_entry option"
  w_layout :: layout_area
  w_areas :: "(int \<times> int \<times> int \<times> int) list"
  w_seat :: bool
  w_pip :: bool
  w_tiling :: "nat option"
  w_sent :: "win_request list"
  w_notes :: "win_note list"
  w_fault :: bool

text \<open>After \<open>singularity_wayland_init\<close>; which globals the compositor has is an input.\<close>

definition win_init :: "bool \<Rightarrow> bool \<Rightarrow> nat option \<Rightarrow> win_state" where
  "win_init seat pip tiling = \<lparr>w_valid = {}, w_live = {}, w_title = (\<lambda>_. None), w_output = (\<lambda>_. None), w_table = False,
     w_geom = (\<lambda>_. None), w_layout = \<lparr>la_area = (0, 0, 0, 0), la_got = False, la_done = False\<rparr>, w_areas = [],
     w_seat = seat, w_pip = pip, w_tiling = map_option (\<lambda>v. if v < 11 then v else 11) tiling,
     w_sent = [], w_notes = [], w_fault = False\<rparr>"

definition send :: "win_request \<Rightarrow> win_state \<Rightarrow> win_state" where
  "send r s =
     s\<lparr>w_sent := w_sent s @ [r],
       w_fault := w_fault s \<or>
         (case req_handle r of None \<Rightarrow> False | Some h \<Rightarrow> h \<notin> w_live s) \<or>
         (since r > 0 \<and> (case w_tiling s of None \<Rightarrow> True | Some v \<Rightarrow> v < since r))\<rparr>"

definition notify :: "win_note \<Rightarrow> win_state \<Rightarrow> win_state" where
  "notify n s = s\<lparr>w_notes := w_notes s @ [n]\<rparr>"

section \<open>Calls that send requests\<close>

definition handle_is_valid :: "nat \<Rightarrow> win_state \<Rightarrow> bool" where
  "handle_is_valid h s \<longleftrightarrow> h \<noteq> 0 \<and> h \<in> w_valid s"

definition tiling_version :: "win_state \<Rightarrow> nat" where
  "tiling_version s = (case w_tiling s of None \<Rightarrow> 0 | Some v \<Rightarrow> v)"

definition activate_window :: "nat \<Rightarrow> win_state \<Rightarrow> win_state" where
  "activate_window h s = (if \<not> w_seat s then s else if h \<notin> w_valid s then s else send (R_activate h) s)"

definition show_window_pip :: "nat \<Rightarrow> win_state \<Rightarrow> win_state" where
  "show_window_pip h s = (if \<not> w_pip s \<or> h \<notin> w_valid s then s else send (R_show_toplevel h) s)"

definition show_region_pip :: "int \<Rightarrow> int \<Rightarrow> int \<Rightarrow> int \<Rightarrow> win_state \<Rightarrow> win_state" where
  "show_region_pip x y w h s = (if \<not> w_pip s \<or> w \<le> 0 \<or> h \<le> 0 then s else send (R_show_region x y w h) s)"

definition close_pip :: "win_state \<Rightarrow> win_state" where
  "close_pip s = (if \<not> w_pip s then s else send R_close_pip s)"

definition minimize_window :: "nat \<Rightarrow> win_state \<Rightarrow> win_state" where
  "minimize_window h s = (if h \<notin> w_valid s then s else send (R_minimize h) s)"

definition unminimize_window :: "nat \<Rightarrow> win_state \<Rightarrow> win_state" where
  "unminimize_window h s = (if h \<notin> w_valid s then s else send (R_unset_minimize h) s)"

definition close_window :: "nat \<Rightarrow> win_state \<Rightarrow> win_state" where
  "close_window h s = (if h \<notin> w_valid s then s else send (R_close h) s)"

definition set_geometry :: "nat \<Rightarrow> int \<Rightarrow> int \<Rightarrow> int \<Rightarrow> int \<Rightarrow> win_state \<Rightarrow> win_state" where
  "set_geometry h x y wd ht s =
     (if w_tiling s = None then s else if h \<notin> w_valid s then s else send (R_set_geometry h x y wd ht) s)"

definition can_animate_geometry :: "win_state \<Rightarrow> bool" where
  "can_animate_geometry s \<longleftrightarrow> w_tiling s \<noteq> None \<and> tiling_version s \<ge> 11"

definition set_geometry_animated :: "nat \<Rightarrow> int \<Rightarrow> int \<Rightarrow> int \<Rightarrow> int \<Rightarrow> win_state \<Rightarrow> win_state" where
  "set_geometry_animated h x y wd ht s =
     (if \<not> can_animate_geometry s then set_geometry h x y wd ht s
      else if h \<notin> w_valid s then s else send (R_set_geometry_animated h x y wd ht) s)"

definition set_close_gesture_progress :: "nat \<Rightarrow> int \<Rightarrow> win_state \<Rightarrow> win_state" where
  "set_close_gesture_progress h progress s =
     (if w_tiling s = None then s else if tiling_version s < 8 then s
      else if h \<notin> w_valid s then s else send (R_set_close_gesture_progress h progress) s)"

definition set_tiled :: "nat \<Rightarrow> nat \<Rightarrow> win_state \<Rightarrow> win_state" where
  "set_tiled h tiled s =
     (if w_tiling s = None then s else if h \<notin> w_valid s then s else send (R_set_tiled h tiled) s)"

definition set_scrolling_mode :: "nat \<Rightarrow> win_state \<Rightarrow> win_state" where
  "set_scrolling_mode on s =
     (if w_tiling s = None then s else if tiling_version s < 5 then s else send (R_set_scrolling_mode on) s)"

definition detach_tiled :: "nat \<Rightarrow> win_state \<Rightarrow> win_state" where
  "detach_tiled h s =
     (if w_tiling s = None then s else if tiling_version s < 5 then s
      else if h \<notin> w_valid s then s else send (R_detach_tiled h) s)"

definition set_tiling_drop_preview :: "int \<Rightarrow> int \<Rightarrow> int \<Rightarrow> int \<Rightarrow> nat \<Rightarrow> win_state \<Rightarrow> win_state" where
  "set_tiling_drop_preview x y wd ht visible s =
     (if w_tiling s = None then s else if tiling_version s < 6 then s else send (R_set_drop_preview x y wd ht visible) s)"

definition snap_view :: "nat \<Rightarrow> nat \<Rightarrow> win_state \<Rightarrow> win_state" where
  "snap_view h direction s =
     (if w_tiling s = None then s else if h \<notin> w_valid s then s else send (R_snap_view h direction) s)"

definition move_to_workspace :: "nat \<Rightarrow> nat \<Rightarrow> win_state \<Rightarrow> win_state" where
  "move_to_workspace h index s =
     (if w_tiling s = None then s else if tiling_version s < 3 then s
      else if h \<notin> w_valid s then s else send (R_move_to_workspace h index) s)"

definition request_cursor_position :: "win_state \<Rightarrow> win_state" where
  "request_cursor_position s =
     (if w_tiling s = None then s else if tiling_version s < 10 then s else send R_get_cursor_position s)"

text \<open>The calls that only send a request, as data: any of them may run inside a callback.\<close>

datatype win_call =
    Activate nat | Show_pip nat | Show_region int int int int | Close_pip | Minimize nat | Unminimize nat | Close nat
  | Set_geometry nat int int int int | Set_geometry_animated nat int int int int | Close_progress nat int
  | Set_tiled nat nat | Set_scrolling nat | Detach nat | Drop_preview int int int int nat | Snap nat nat
  | Move_to_workspace nat nat | Cursor_position

fun do_call :: "win_call \<Rightarrow> win_state \<Rightarrow> win_state" where
  "do_call (Activate h) = activate_window h"
| "do_call (Show_pip h) = show_window_pip h"
| "do_call (Show_region x y wd ht) = show_region_pip x y wd ht"
| "do_call Close_pip = close_pip"
| "do_call (Minimize h) = minimize_window h"
| "do_call (Unminimize h) = unminimize_window h"
| "do_call (Close h) = close_window h"
| "do_call (Set_geometry h x y wd ht) = set_geometry h x y wd ht"
| "do_call (Set_geometry_animated h x y wd ht) = set_geometry_animated h x y wd ht"
| "do_call (Close_progress h p) = set_close_gesture_progress h p"
| "do_call (Set_tiled h n) = set_tiled h n"
| "do_call (Set_scrolling n) = set_scrolling_mode n"
| "do_call (Detach h) = detach_tiled h"
| "do_call (Drop_preview x y wd ht v) = set_tiling_drop_preview x y wd ht v"
| "do_call (Snap h d) = snap_view h d"
| "do_call (Move_to_workspace h i) = move_to_workspace h i"
| "do_call Cursor_position = request_cursor_position"

section \<open>Events\<close>

text \<open>
  \<open>W_closed\<close> carries the calls that the shell makes from inside its close callback. Geometry,
  work area and tileable events belong to the tiling manager and name a window: the name is \<open>NULL\<close>
  once the shell has destroyed the object.
\<close>

datatype win_event =
    W_toplevel nat
  | W_title nat "string option"
  | W_app_id nat string
  | W_output_enter nat nat
  | W_output_leave nat nat
  | W_state nat "nat list"
  | W_done nat
  | W_closed nat "win_call list"
  | W_parent nat
  | W_geometry nat int int int int nat nat "string option"
  | W_workarea nat int int int int
  | W_tileable nat nat
  | W_layout_workarea int int int int
  | W_layout_output_workarea int int int int
  | W_layout_workarea_done
  | W_cursor_position int int
  | W_interaction nat nat nat int int int int int int nat nat

definition toplevel_handle_title :: "nat \<Rightarrow> string option \<Rightarrow> win_state \<Rightarrow> win_state" where
  "toplevel_handle_title h title s =
     (let t = (case title of None \<Rightarrow> [] | Some t \<Rightarrow> t)
      in notify (N_title h title) (s\<lparr>w_title := (w_title s)(h \<mapsto> t)\<rparr>))"

definition toplevel_handle_app_id :: "nat \<Rightarrow> string \<Rightarrow> win_state \<Rightarrow> win_state" where
  "toplevel_handle_app_id h app_id s =
     (let s1 = notify (N_opened h app_id) s
      in case w_title s1 h of None \<Rightarrow> s1 | Some t \<Rightarrow> notify (N_title h (Some t)) s1)"

definition toplevel_handle_output_enter :: "nat \<Rightarrow> nat \<Rightarrow> win_state \<Rightarrow> win_state" where
  "toplevel_handle_output_enter h out s = notify (N_output_changed h) (s\<lparr>w_output := (w_output s)(h \<mapsto> out)\<rparr>)"

definition toplevel_handle_output_leave :: "nat \<Rightarrow> nat \<Rightarrow> win_state \<Rightarrow> win_state" where
  "toplevel_handle_output_leave h out s =
     notify (N_output_changed h) (if w_output s h = Some out then s\<lparr>w_output := (w_output s)(h := None)\<rparr> else s)"

text \<open>The state array: 0 maximized, 1 minimized, 2 activated, 3 fullscreen.\<close>

definition toplevel_handle_state :: "nat \<Rightarrow> nat list \<Rightarrow> win_state \<Rightarrow> win_state" where
  "toplevel_handle_state h entries s =
     notify (N_state h (0 \<in> set entries) (3 \<in> set entries) (1 \<in> set entries))
       (fold (\<lambda>_. notify (N_focused h)) (filter (\<lambda>e. e = 2) entries) s)"

definition toplevel_handle_closed :: "nat \<Rightarrow> win_call list \<Rightarrow> win_state \<Rightarrow> win_state" where
  "toplevel_handle_closed h calls s =
     (let s1 = s\<lparr>w_output := (w_output s)(h := None), w_geom := (w_geom s)(h := None),
                 w_title := (w_title s)(h := None), w_valid := w_valid s - {h}\<rparr>;
          s2 = fold do_call calls (notify (N_closed h) s1)
      in s2\<lparr>w_live := w_live s2 - {h}\<rparr>)"

definition invalidate_toplevel_tileable :: "nat \<Rightarrow> win_state \<Rightarrow> win_state" where
  "invalidate_toplevel_tileable h s =
     (case w_geom s h of None \<Rightarrow> s | Some e \<Rightarrow> s\<lparr>w_geom := (w_geom s)(h \<mapsto> e\<lparr>ge_tileable_got := False\<rparr>)\<rparr>)"

definition toplevel_manager_toplevel :: "nat \<Rightarrow> win_state \<Rightarrow> win_state" where
  "toplevel_manager_toplevel h s = s\<lparr>w_live := insert h (w_live s), w_valid := insert h (w_valid s)\<rparr>"

definition geom_update :: "nat \<Rightarrow> (geom_entry \<Rightarrow> geom_entry) \<Rightarrow> win_state \<Rightarrow> win_state" where
  "geom_update h f s =
     (if \<not> w_table s then s
      else s\<lparr>w_geom := (w_geom s)(h \<mapsto> f (case w_geom s h of None \<Rightarrow> zero_geom | Some e \<Rightarrow> e))\<rparr>)"

definition tiling_handle_geometry ::
  "nat \<Rightarrow> int \<Rightarrow> int \<Rightarrow> int \<Rightarrow> int \<Rightarrow> nat \<Rightarrow> nat \<Rightarrow> string option \<Rightarrow> win_state \<Rightarrow> win_state" where
  "tiling_handle_geometry h x y wd ht mx fl out s =
     geom_update h (\<lambda>e. e\<lparr>ge_x := x, ge_y := y, ge_w := wd, ge_h := ht, ge_maximized := mx, ge_fullscreen := fl,
       ge_connector := (case out of None \<Rightarrow> [] | Some c \<Rightarrow> take 63 c), ge_got := True\<rparr>) s"

definition tiling_handle_workarea :: "nat \<Rightarrow> int \<Rightarrow> int \<Rightarrow> int \<Rightarrow> int \<Rightarrow> win_state \<Rightarrow> win_state" where
  "tiling_handle_workarea h x y wd ht s =
     geom_update h (\<lambda>e. e\<lparr>ge_work := (x, y, wd, ht), ge_workarea_got := True\<rparr>) s"

definition tiling_handle_tileable :: "nat \<Rightarrow> nat \<Rightarrow> win_state \<Rightarrow> win_state" where
  "tiling_handle_tileable h tileable s =
     geom_update h (\<lambda>e. e\<lparr>ge_tileable := (tileable \<noteq> 0), ge_tileable_got := True\<rparr>) s"

definition tiling_handle_layout_workarea :: "int \<Rightarrow> int \<Rightarrow> int \<Rightarrow> int \<Rightarrow> win_state \<Rightarrow> win_state" where
  "tiling_handle_layout_workarea x y wd ht s =
     s\<lparr>w_layout := (w_layout s)\<lparr>la_area := (x, y, wd, ht), la_got := True\<rparr>\<rparr>"

definition tiling_handle_layout_output_workarea :: "int \<Rightarrow> int \<Rightarrow> int \<Rightarrow> int \<Rightarrow> win_state \<Rightarrow> win_state" where
  "tiling_handle_layout_output_workarea x y wd ht s =
     (if length (w_areas s) \<ge> 32 then s else s\<lparr>w_areas := w_areas s @ [(x, y, wd, ht)]\<rparr>)"

definition tiling_handle_layout_workarea_done :: "win_state \<Rightarrow> win_state" where
  "tiling_handle_layout_workarea_done s = s\<lparr>w_layout := (w_layout s)\<lparr>la_done := True\<rparr>\<rparr>"

text \<open>The object that a manager event names.\<close>

definition arg :: "nat \<Rightarrow> win_state \<Rightarrow> nat" where
  "arg h s = (if h \<in> w_live s then h else 0)"

text \<open>Events of a window reach the shell only while its object exists.\<close>

definition to_window :: "nat \<Rightarrow> (win_state \<Rightarrow> win_state) \<Rightarrow> win_state \<Rightarrow> win_state" where
  "to_window h f s = (if h \<in> w_live s then f s else s)"

fun on_event :: "win_event \<Rightarrow> win_state \<Rightarrow> win_state" where
  "on_event (W_toplevel h) s = (if h = 0 \<or> h \<in> w_live s then s else toplevel_manager_toplevel h s)"
| "on_event (W_title h t) s = to_window h (toplevel_handle_title h t) s"
| "on_event (W_app_id h a) s = to_window h (toplevel_handle_app_id h a) s"
| "on_event (W_output_enter h out) s = to_window h (toplevel_handle_output_enter h out) s"
| "on_event (W_output_leave h out) s = to_window h (toplevel_handle_output_leave h out) s"
| "on_event (W_state h es) s = to_window h (toplevel_handle_state h es) s"
| "on_event (W_done h) s = s"
| "on_event (W_closed h calls) s = to_window h (toplevel_handle_closed h calls) s"
| "on_event (W_parent h) s = to_window h (invalidate_toplevel_tileable h) s"
| "on_event (W_geometry h x y wd ht mx fl out) s = tiling_handle_geometry (arg h s) x y wd ht mx fl out s"
| "on_event (W_workarea h x y wd ht) s = tiling_handle_workarea (arg h s) x y wd ht s"
| "on_event (W_tileable h t) s = tiling_handle_tileable (arg h s) t s"
| "on_event (W_layout_workarea x y wd ht) s = tiling_handle_layout_workarea x y wd ht s"
| "on_event (W_layout_output_workarea x y wd ht) s = tiling_handle_layout_output_workarea x y wd ht s"
| "on_event W_layout_workarea_done s = tiling_handle_layout_workarea_done s"
| "on_event (W_cursor_position x y) s = notify (N_cursor x y) s"
| "on_event (W_interaction h phase kind x y wd ht cx cy edges fl) s =
     notify (N_interaction (arg h s) phase kind x y wd ht cx cy edges (fl \<noteq> 0)) s"

section \<open>Queries with a round trip\<close>

text \<open>Each query sends its request and handles everything that arrives during the round trip.\<close>

definition get_window_geometry :: "nat \<Rightarrow> win_event list \<Rightarrow> win_state \<Rightarrow> geom_entry option \<times> win_state" where
  "get_window_geometry h evs s =
     (if w_tiling s = None then (None, s)
      else if h \<notin> w_valid s then (None, s)
      else
        let s1 = s\<lparr>w_table := True, w_geom := (case w_geom s h of None \<Rightarrow> w_geom s
                     | Some e \<Rightarrow> (w_geom s)(h \<mapsto> e\<lparr>ge_got := False\<rparr>))\<rparr>;
            s2 = fold on_event evs (send (R_get_geometry h) s1)
        in case w_geom s2 h of
             None \<Rightarrow> (None, s2)
           | Some e \<Rightarrow> if ge_got e then (Some e, s2) else (None, s2))"

definition get_window_workarea ::
  "nat \<Rightarrow> win_event list \<Rightarrow> win_state \<Rightarrow> (int \<times> int \<times> int \<times> int) option \<times> win_state" where
  "get_window_workarea h evs s =
     (if w_tiling s = None then (None, s)
      else if tiling_version s < 4 then (None, s)
      else if h \<notin> w_valid s then (None, s)
      else
        let s1 = s\<lparr>w_table := True, w_geom := (case w_geom s h of None \<Rightarrow> w_geom s
                     | Some e \<Rightarrow> (w_geom s)(h \<mapsto> e\<lparr>ge_workarea_got := False\<rparr>))\<rparr>;
            s2 = fold on_event evs (send (R_get_workarea h) s1)
        in case w_geom s2 h of
             None \<Rightarrow> (None, s2)
           | Some e \<Rightarrow> if ge_workarea_got e then (Some (ge_work e), s2) else (None, s2))"

definition get_layout_workarea :: "win_event list \<Rightarrow> win_state \<Rightarrow> (int \<times> int \<times> int \<times> int) option \<times> win_state" where
  "get_layout_workarea evs s =
     (if w_tiling s = None then (None, s)
      else if tiling_version s < 9 then (None, s)
      else
        let s1 = s\<lparr>w_layout := (w_layout s)\<lparr>la_got := False, la_done := False\<rparr>, w_areas := []\<rparr>;
            s2 = fold on_event evs (send R_get_layout_workarea s1)
        in case la_area (w_layout s2) of (x, y, wd, ht) \<Rightarrow>
             if \<not> la_got (w_layout s2) \<or> \<not> la_done (w_layout s2) \<or> wd < 1 \<or> ht < 1 then (None, s2)
             else (Some (x, y, wd, ht), s2))"

definition get_layout_output_count :: "win_state \<Rightarrow> nat" where
  "get_layout_output_count s = (if la_done (w_layout s) then length (w_areas s) else 0)"

definition get_layout_output_workarea :: "int \<Rightarrow> win_state \<Rightarrow> (int \<times> int \<times> int \<times> int) option" where
  "get_layout_output_workarea index s =
     (if index < 0 \<or> index \<ge> int (get_layout_output_count s) then None else Some (w_areas s ! nat index))"

definition window_is_tileable :: "nat \<Rightarrow> win_event list \<Rightarrow> win_state \<Rightarrow> bool \<times> win_state" where
  "window_is_tileable h evs s =
     (if w_tiling s = None then (True, s)
      else if tiling_version s < 7 then (True, s)
      else if h \<notin> w_valid s then (False, s)
      else
        let s1 = s\<lparr>w_table := True\<rparr>;
            s2 = (case w_geom s1 h of
                    Some e \<Rightarrow> if ge_tileable_got e then s1 else fold on_event evs (send (R_get_tileable h) s1)
                  | None \<Rightarrow> fold on_event evs (send (R_get_tileable h) s1))
        in case w_geom s2 h of
             Some e \<Rightarrow> (if ge_tileable_got e then ge_tileable e else True, s2)
           | None \<Rightarrow> (True, s2))"

section \<open>The whole machine\<close>

datatype win_step =
    Event win_event
  | Call win_call
  | Query_geometry nat "win_event list"
  | Query_workarea nat "win_event list"
  | Query_layout "win_event list"
  | Query_tileable nat "win_event list"

fun on_step :: "win_step \<Rightarrow> win_state \<Rightarrow> win_state" where
  "on_step (Event e) s = on_event e s"
| "on_step (Call c) s = do_call c s"
| "on_step (Query_geometry h evs) s = snd (get_window_geometry h evs s)"
| "on_step (Query_workarea h evs) s = snd (get_window_workarea h evs s)"
| "on_step (Query_layout evs) s = snd (get_layout_workarea evs s)"
| "on_step (Query_tileable h evs) s = snd (window_is_tileable h evs s)"

section \<open>Lemmas\<close>

lemmas call_defs = activate_window_def show_window_pip_def show_region_pip_def close_pip_def minimize_window_def
  unminimize_window_def close_window_def set_geometry_def set_geometry_animated_def can_animate_geometry_def
  set_close_gesture_progress_def set_tiled_def set_scrolling_mode_def detach_tiled_def set_tiling_drop_preview_def
  snap_view_def move_to_workspace_def request_cursor_position_def

text \<open>A call appends at most one request, and a well-guarded one.\<close>

definition sane :: "win_state \<Rightarrow> bool" where
  "sane s \<longleftrightarrow> w_valid s \<subseteq> w_live s \<and> w_tiling s \<noteq> Some 0"

lemma send_ok:
  assumes "\<And>h. req_handle r = Some h \<Longrightarrow> h \<in> w_live s"
    and "since r > 0 \<Longrightarrow> w_tiling s \<noteq> None \<and> since r \<le> tiling_version s"
  shows "send r s = s\<lparr>w_sent := w_sent s @ [r]\<rparr>"
proof -
  have "(case req_handle r of None \<Rightarrow> False | Some h \<Rightarrow> h \<notin> w_live s) = False"
    using assms(1) by (cases "req_handle r") auto
  moreover have "(since r > 0 \<and> (case w_tiling s of None \<Rightarrow> True | Some v \<Rightarrow> v < since r)) = False"
    using assms(2) by (cases "w_tiling s") (auto simp: tiling_version_def)
  ultimately show ?thesis by (simp only: send_def) simp
qed

lemma tiling_positive: "sane s \<Longrightarrow> w_tiling s = Some y \<Longrightarrow> Suc 0 \<le> tiling_version s"
  by (auto simp: sane_def tiling_version_def)

lemma do_call_sends: "sane s \<Longrightarrow> \<exists>l. do_call c s = s\<lparr>w_sent := w_sent s @ l\<rparr>"
proof -
  assume a: "sane s"
  have send: "\<exists>l. send r s = s\<lparr>w_sent := w_sent s @ l\<rparr>"
    if "\<And>h. req_handle r = Some h \<Longrightarrow> h \<in> w_valid s" "since r > 0 \<Longrightarrow> w_tiling s \<noteq> None \<and> since r \<le> tiling_version s" for r
    using send_ok [of r s] that a by (auto simp: sane_def)
  have skip: "\<exists>l. s = s\<lparr>w_sent := w_sent s @ l\<rparr>" by (rule exI [of _ "[]"]) simp
  show ?thesis
    by (cases c) (auto simp: call_defs intro!: send skip intro: tiling_positive [OF a])
qed

lemma do_calls_send: "sane s \<Longrightarrow> \<exists>l. fold do_call cs s = s\<lparr>w_sent := w_sent s @ l\<rparr>"
proof (induction cs arbitrary: s)
  case Nil
  then show ?case by (auto intro: exI [of _ "[]"])
next
  case (Cons c cs)
  obtain l where l: "do_call c s = s\<lparr>w_sent := w_sent s @ l\<rparr>" using do_call_sends [OF Cons.prems] by blast
  then have "sane (do_call c s)" using Cons.prems by (simp add: sane_def)
  then obtain l' where "fold do_call cs (do_call c s) = (do_call c s)\<lparr>w_sent := w_sent (do_call c s) @ l'\<rparr>"
    using Cons.IH by blast
  then show ?case using l by (intro exI [of _ "l @ l'"]) simp
qed

definition win_inv :: "win_state \<Rightarrow> bool" where
  "win_inv s \<longleftrightarrow> w_valid s = w_live s \<and> 0 \<notin> w_live s \<and> w_tiling s \<noteq> Some 0 \<and> \<not> w_fault s \<and>
     dom (w_title s) \<subseteq> w_live s \<and> dom (w_output s) \<subseteq> w_live s \<and> dom (w_geom s) \<subseteq> insert 0 (w_live s) \<and>
     length (w_areas s) \<le> 32"

lemma win_inv_sane: "win_inv s \<Longrightarrow> sane s"
  by (simp add: win_inv_def sane_def)

lemma win_inv_sent [simp]: "win_inv (s\<lparr>w_sent := l\<rparr>) = win_inv s" "win_inv (s\<lparr>w_notes := n\<rparr>) = win_inv s"
  "win_inv (s\<lparr>w_table := t\<rparr>) = win_inv s" "win_inv (s\<lparr>w_layout := a\<rparr>) = win_inv s"
  by (simp_all add: win_inv_def)

lemma do_call_inv: "win_inv s \<Longrightarrow> win_inv (do_call c s)"
  using do_call_sends [OF win_inv_sane, of s c] by auto

lemma geom_update_inv: "win_inv s \<Longrightarrow> win_inv (geom_update (arg h s) f s)"
  by (auto simp: geom_update_def win_inv_def arg_def)

lemma closed_inv:
  assumes "win_inv s" and "h \<in> w_live s"
  shows "win_inv (toplevel_handle_closed h calls s)"
proof -
  let ?s1 = "s\<lparr>w_output := (w_output s)(h := None), w_geom := (w_geom s)(h := None),
                 w_title := (w_title s)(h := None), w_valid := w_valid s - {h}\<rparr>"
  have "sane (notify (N_closed h) ?s1)" using assms(1) by (auto simp: sane_def win_inv_def notify_def)
  then obtain l where "fold do_call calls (notify (N_closed h) ?s1) = (notify (N_closed h) ?s1)\<lparr>w_sent := w_sent (notify (N_closed h) ?s1) @ l\<rparr>"
    using do_calls_send by blast
  then show ?thesis using assms(1) by (auto simp: toplevel_handle_closed_def Let_def win_inv_def notify_def)
qed

lemma focus_fold_inv: "win_inv (fold (\<lambda>_. notify n) es s) = win_inv s"
  by (induction es arbitrary: s) (simp_all add: notify_def)

lemma on_event_inv: "win_inv s \<Longrightarrow> win_inv (on_event e s)"
proof (cases e)
  case (W_closed h calls)
  assume "win_inv s"
  then show ?thesis using W_closed closed_inv by (simp add: to_window_def)
next
  case (W_state h es)
  assume "win_inv s"
  then show ?thesis using W_state by (simp add: to_window_def toplevel_handle_state_def notify_def focus_fold_inv)
qed (auto simp: to_window_def toplevel_handle_title_def toplevel_handle_app_id_def toplevel_handle_output_enter_def
    toplevel_handle_output_leave_def invalidate_toplevel_tileable_def toplevel_manager_toplevel_def notify_def
    tiling_handle_geometry_def tiling_handle_workarea_def tiling_handle_tileable_def tiling_handle_layout_workarea_def
    tiling_handle_layout_output_workarea_def tiling_handle_layout_workarea_done_def geom_update_inv Let_def
    split: option.splits; auto simp: win_inv_def split: if_splits)+

interpretation events: event_machine on_event win_inv
  by unfold_locales (rule on_event_inv)

text \<open>Every query is: prepare the cache, send a guarded request, handle what arrives.\<close>

lemma query_inv:
  assumes "win_inv s" and "\<And>h. req_handle r = Some h \<Longrightarrow> h \<in> w_valid s"
    and "w_tiling s = Some v" and "since r \<le> tiling_version s"
  shows "win_inv (fold on_event evs (send r s))"
proof -
  have "send r s = s\<lparr>w_sent := w_sent s @ [r]\<rparr>"
    using assms by (intro send_ok) (auto simp: win_inv_def)
  then show ?thesis using assms(1) events.run_inv by simp
qed

lemma unget_inv:
  assumes "win_inv s"
  shows "win_inv (s\<lparr>w_table := True, w_geom := (case w_geom s h of None \<Rightarrow> w_geom s | Some e \<Rightarrow> (w_geom s)(h \<mapsto> f e))\<rparr>)"
  using assms by (cases "w_geom s h") (auto simp: win_inv_def)

lemma query_geometry_inv: "win_inv s \<Longrightarrow> win_inv (snd (get_window_geometry h evs s))"
proof (cases "w_tiling s = None \<or> h \<notin> w_valid s")
  case False
  assume inv: "win_inv s"
  obtain v where v: "w_tiling s = Some v" using False by auto
  let ?s1 = "s\<lparr>w_table := True, w_geom := (case w_geom s h of None \<Rightarrow> w_geom s | Some e \<Rightarrow> (w_geom s)(h \<mapsto> e\<lparr>ge_got := False\<rparr>))\<rparr>"
  have "win_inv (fold on_event evs (send (R_get_geometry h) ?s1))"
    using unget_inv [OF inv, of h "\<lambda>e. e\<lparr>ge_got := False\<rparr>"] False v tiling_positive [OF win_inv_sane [OF inv] v]
    by (intro query_inv [where v = v]) (simp_all add: tiling_version_def)
  then show ?thesis using False by (simp add: get_window_geometry_def Let_def split: option.splits)
qed (auto simp: get_window_geometry_def)

lemma query_workarea_inv: "win_inv s \<Longrightarrow> win_inv (snd (get_window_workarea h evs s))"
proof (cases "w_tiling s = None \<or> tiling_version s < 4 \<or> h \<notin> w_valid s")
  case False
  assume inv: "win_inv s"
  obtain v where v: "w_tiling s = Some v" using False by auto
  let ?s1 = "s\<lparr>w_table := True, w_geom := (case w_geom s h of None \<Rightarrow> w_geom s | Some e \<Rightarrow> (w_geom s)(h \<mapsto> e\<lparr>ge_workarea_got := False\<rparr>))\<rparr>"
  have "win_inv (fold on_event evs (send (R_get_workarea h) ?s1))"
    using unget_inv [OF inv, of h "\<lambda>e. e\<lparr>ge_workarea_got := False\<rparr>"] False v
    by (intro query_inv [where v = v]) (simp_all add: tiling_version_def)
  then show ?thesis using False by (simp add: get_window_workarea_def Let_def split: option.splits)
qed (auto simp: get_window_workarea_def)

lemma query_layout_inv: "win_inv s \<Longrightarrow> win_inv (snd (get_layout_workarea evs s))"
proof (cases "w_tiling s = None \<or> tiling_version s < 9")
  case False
  assume inv: "win_inv s"
  obtain v where v: "w_tiling s = Some v" using False by auto
  let ?s1 = "s\<lparr>w_layout := (w_layout s)\<lparr>la_got := False, la_done := False\<rparr>, w_areas := []\<rparr>"
  have "win_inv ?s1" using inv by (simp add: win_inv_def)
  then have "win_inv (fold on_event evs (send R_get_layout_workarea ?s1))"
    using False v by (intro query_inv [where v = v]) (simp_all add: tiling_version_def)
  then show ?thesis using False v by (auto simp: get_layout_workarea_def Let_def case_prod_beta)
qed (auto simp: get_layout_workarea_def)

lemma query_tileable_inv: "win_inv s \<Longrightarrow> win_inv (snd (window_is_tileable h evs s))"
proof (cases "w_tiling s = None \<or> tiling_version s < 7 \<or> h \<notin> w_valid s")
  case False
  assume inv: "win_inv s"
  obtain v where v: "w_tiling s = Some v" using False by auto
  have "win_inv (fold on_event evs (send (R_get_tileable h) (s\<lparr>w_table := True\<rparr>)))"
    using inv False v by (intro query_inv [where v = v]) (simp_all add: tiling_version_def)
  then show ?thesis using False inv by (simp add: window_is_tileable_def Let_def split: option.splits)
qed (auto simp: window_is_tileable_def)

lemma on_step_inv: "win_inv s \<Longrightarrow> win_inv (on_step e s)"
  by (cases e) (simp_all add: on_event_inv do_call_inv query_geometry_inv query_workarea_inv query_layout_inv query_tileable_inv)

interpretation windows: event_machine on_step win_inv
  by unfold_locales (rule on_step_inv)

section \<open>Properties\<close>

text \<open>
  C24: over every interleaving of compositor events, calls of the shell (also from inside the close
  callback) and queries, no request ever names a window whose object was destroyed, no request is
  sent that the bound version of the tiling protocol lacks, and titles, outputs and geometries are
  kept only for windows that exist.
\<close>

theorem window_requests_safe:
  assumes "tiling \<noteq> Some 0" and "s = fold on_step steps (win_init seat pip tiling)"
  shows "\<not> w_fault s \<and> w_valid s = w_live s \<and> dom (w_title s) \<subseteq> w_live s \<and> dom (w_output s) \<subseteq> w_live s \<and>
    dom (w_geom s) \<subseteq> insert 0 (w_live s)"
proof -
  have "win_inv (win_init seat pip tiling)"
    using assms(1) by (auto simp: win_inv_def win_init_def split: option.splits)
  then have "win_inv s" unfolding assms(2) by (rule windows.run_inv)
  then show ?thesis by (simp add: win_inv_def)
qed

definition snap_on_close :: "win_step list" where
  "snap_on_close = [Event (W_toplevel 7), Call (Snap 7 1), Event (W_closed 7 [Snap 7 1, Close 7]), Call (Snap 7 2)]"

theorem window_requests_safe_witness:
  "\<not> w_fault (fold on_step snap_on_close (win_init True False (Some 11))) \<and>
   w_sent (fold on_step snap_on_close (win_init True False (Some 11))) = [R_snap_view 7 1]"
proof -
  have "w_sent (fold on_step snap_on_close (win_init True False (Some 11))) = [R_snap_view 7 1]"
    by (simp add: snap_on_close_def win_init_def toplevel_manager_toplevel_def snap_view_def send_def to_window_def
        toplevel_handle_closed_def close_window_def notify_def Let_def)
  then show ?thesis using window_requests_safe [of "Some 11" _ snap_on_close True False] by simp
qed

subsection \<open>Fresh geometry\<close>

definition geometry_from :: "win_event list \<Rightarrow> nat \<Rightarrow> geom_entry \<Rightarrow> bool" where
  "geometry_from evs h e \<longleftrightarrow> (\<exists>out. W_geometry h (ge_x e) (ge_y e) (ge_w e) (ge_h e) (ge_maximized e) (ge_fullscreen e) out \<in> set evs \<and>
     ge_connector e = (case out of None \<Rightarrow> [] | Some c \<Rightarrow> take 63 c))"

lemma geometry_from_snoc: "geometry_from evs h e \<Longrightarrow> geometry_from (evs @ [ev]) h e"
  unfolding geometry_from_def by (simp only: set_append Un_iff) blast

lemma geometry_from_fields:
  "geometry_from evs h (e\<lparr>ge_work := a\<rparr>) = geometry_from evs h e"
  "geometry_from evs h (e\<lparr>ge_workarea_got := b\<rparr>) = geometry_from evs h e"
  "geometry_from evs h (e\<lparr>ge_tileable := b\<rparr>) = geometry_from evs h e"
  "geometry_from evs h (e\<lparr>ge_tileable_got := b\<rparr>) = geometry_from evs h e"
  by (simp_all add: geometry_from_def)

lemma do_call_geom: "w_geom (do_call c s) = w_geom s"
  by (cases c) (simp_all add: call_defs send_def)

lemma do_calls_geom: "w_geom (fold do_call cs s) = w_geom s"
  by (induction cs arbitrary: s) (simp_all add: do_call_geom)

lemma focus_fold_geom: "w_geom (fold (\<lambda>_. notify n) es s) = w_geom s"
  by (induction es arbitrary: s) (simp_all add: notify_def)

text \<open>A window's entry is marked as received only by a geometry event about it.\<close>

lemma on_event_got:
  assumes "\<And>e. w_geom s h = Some e \<Longrightarrow> ge_got e \<Longrightarrow> geometry_from evs h e" and "h \<noteq> 0"
    and "w_geom (on_event ev s) h = Some e" and "ge_got e"
  shows "geometry_from (evs @ [ev]) h e"
proof (cases "w_geom (on_event ev s) h = w_geom s h")
  case True
  then show ?thesis using assms(1) [of e] assms(3,4) by (intro geometry_from_snoc) simp
next
  case False
  then show ?thesis
  proof (cases ev)
    case (W_geometry k x y wd ht mx fl out)
    then have "arg k s = h" using False by (auto simp: tiling_handle_geometry_def geom_update_def split: if_splits)
    then have "k = h" using assms(2) by (simp add: arg_def split: if_splits)
    then show ?thesis
      using W_geometry assms(3) False \<open>arg k s = h\<close>
      by (auto simp: tiling_handle_geometry_def geom_update_def geometry_from_def split: if_splits)
  next
    case (W_closed k calls)
    then show ?thesis using False assms(3)
      by (auto simp: to_window_def toplevel_handle_closed_def Let_def notify_def do_calls_geom split: if_splits)
  next
    case (W_state k es)
    then show ?thesis using False by (simp add: to_window_def toplevel_handle_state_def notify_def focus_fold_geom split: if_splits)
  next
    case (W_workarea k x y wd ht)
    then obtain e0 where "w_geom s h = Some e0" "e = e0\<lparr>ge_work := (x, y, wd, ht), ge_workarea_got := True\<rparr>"
      using False assms(3,4) by (auto simp: tiling_handle_workarea_def geom_update_def zero_geom_def split: if_splits option.splits)
    then show ?thesis using assms(1) [of e0] assms(4) by (intro geometry_from_snoc) (simp add: geometry_from_fields)
  next
    case (W_tileable k t)
    then obtain e0 where "w_geom s h = Some e0" "e = e0\<lparr>ge_tileable := (t \<noteq> 0), ge_tileable_got := True\<rparr>"
      using False assms(3,4) by (auto simp: tiling_handle_tileable_def geom_update_def zero_geom_def split: if_splits option.splits)
    then show ?thesis using assms(1) [of e0] assms(4) by (intro geometry_from_snoc) (simp add: geometry_from_fields)
  next
    case (W_parent k)
    then obtain e0 where "w_geom s h = Some e0" "e = e0\<lparr>ge_tileable_got := False\<rparr>"
      using False assms(3,4) by (auto simp: to_window_def invalidate_toplevel_tileable_def split: if_splits option.splits)
    then show ?thesis using assms(1) [of e0] assms(4) by (intro geometry_from_snoc) (simp add: geometry_from_fields)
  qed (auto simp: to_window_def toplevel_handle_title_def toplevel_handle_app_id_def toplevel_handle_output_enter_def
    toplevel_handle_output_leave_def toplevel_manager_toplevel_def notify_def tiling_handle_layout_workarea_def
    tiling_handle_layout_output_workarea_def tiling_handle_layout_workarea_done_def Let_def split: if_splits option.splits)
qed

lemma on_events_got:
  assumes "\<And>e. w_geom s h = Some e \<Longrightarrow> \<not> ge_got e" and "h \<noteq> 0"
    and "w_geom (fold on_event evs s) h = Some e" and "ge_got e"
  shows "geometry_from evs h e"
  using assms(3,4)
proof (induction evs arbitrary: e rule: rev_induct)
  case Nil
  then show ?case using assms(1) by auto
next
  case (snoc ev evs)
  then show ?case using on_event_got [of "fold on_event evs s" h evs ev e] assms(2) by auto
qed

text \<open>
  A window geometry that is returned was reported for that window by the compositor during this
  very query, never left over from an earlier one; when the window is closed meanwhile or no answer
  comes, the query fails.
\<close>

theorem geometry_is_fresh:
  assumes "win_inv s" and "get_window_geometry h evs s = (Some e, s')"
  shows "geometry_from evs h e \<and> h \<in> w_live s'"
proof -
  have "h \<in> w_valid s" "w_tiling s \<noteq> None" using assms(2) by (auto simp: get_window_geometry_def split: if_splits)
  then have h: "h \<noteq> 0" using assms(1) by (auto simp: win_inv_def)
  define s1 where "s1 = s\<lparr>w_table := True, w_geom := (case w_geom s h of None \<Rightarrow> w_geom s
                     | Some e \<Rightarrow> (w_geom s)(h \<mapsto> e\<lparr>ge_got := False\<rparr>))\<rparr>"
  have r: "w_geom (fold on_event evs (send (R_get_geometry h) s1)) h = Some e" "ge_got e"
    and s': "s' = fold on_event evs (send (R_get_geometry h) s1)"
    using assms(2) by (auto simp: get_window_geometry_def Let_def s1_def split: if_splits option.splits)
  have "\<not> ge_got e0" if "w_geom (send (R_get_geometry h) s1) h = Some e0" for e0
    using that by (auto simp: send_def s1_def split: option.splits)
  then have g: "geometry_from evs h e" by (rule on_events_got [OF _ h r])
  have "win_inv s'" using query_geometry_inv [OF assms(1), of h evs] assms(2) by simp
  then have "h \<in> w_live s'" using r(1) h by (auto simp: s' win_inv_def)
  then show ?thesis using g by simp
qed

definition one_window :: win_state where
  "one_window = toplevel_manager_toplevel 7 (win_init True False (Some 11))"

definition one_answer :: "win_event list" where
  "one_answer = [W_title 7 (Some ''term''), W_geometry 7 10 20 300 400 0 0 (Some ''DP-1'')]"

theorem geometry_is_fresh_witness:
  "map_option ge_w (fst (get_window_geometry 7 one_answer one_window)) = Some 300 \<and>
   7 \<in> w_live (snd (get_window_geometry 7 one_answer one_window))"
proof -
  let ?r = "get_window_geometry 7 one_answer one_window"
  have v: "map_option ge_w (fst ?r) = Some 300"
    by (simp add: get_window_geometry_def one_window_def one_answer_def win_init_def toplevel_manager_toplevel_def Let_def
        send_def to_window_def arg_def toplevel_handle_title_def notify_def tiling_handle_geometry_def geom_update_def
        split del: if_split)
  then obtain e where e: "?r = (Some e, snd ?r)" by (cases ?r) auto
  have "win_inv one_window"
    by (simp add: one_window_def win_inv_def win_init_def toplevel_manager_toplevel_def)
  then show ?thesis using geometry_is_fresh [OF _ e] v by simp
qed

subsection \<open>Work areas of the layout\<close>

fun reported_areas :: "win_event list \<Rightarrow> (int \<times> int \<times> int \<times> int) list" where
  "reported_areas (W_layout_output_workarea x y wd ht # evs) = (x, y, wd, ht) # reported_areas evs"
| "reported_areas (_ # evs) = reported_areas evs"
| "reported_areas [] = []"

lemma do_call_areas: "w_areas (do_call c s) = w_areas s"
  by (cases c) (simp_all add: call_defs send_def)

lemma do_calls_areas: "w_areas (fold do_call cs s) = w_areas s"
  by (induction cs arbitrary: s) (simp_all add: do_call_areas)

lemma focus_fold_areas: "w_areas (fold (\<lambda>_. notify n) es s) = w_areas s"
  by (induction es arbitrary: s) (simp_all add: notify_def)

lemma on_event_areas:
  "length (w_areas s) \<le> 32 \<Longrightarrow> w_areas (on_event e s) = take 32 (w_areas s @ reported_areas [e])"
  by (cases e) (auto simp: to_window_def toplevel_handle_title_def toplevel_handle_app_id_def toplevel_handle_output_enter_def
    toplevel_handle_output_leave_def toplevel_handle_state_def toplevel_handle_closed_def invalidate_toplevel_tileable_def
    toplevel_manager_toplevel_def notify_def focus_fold_areas do_calls_areas
    tiling_handle_geometry_def tiling_handle_workarea_def tiling_handle_tileable_def tiling_handle_layout_workarea_def
    tiling_handle_layout_output_workarea_def tiling_handle_layout_workarea_done_def geom_update_def Let_def
    split: option.splits)

lemma reported_cons: "reported_areas (e # evs) = reported_areas [e] @ reported_areas evs"
  by (cases e) simp_all

lemma on_events_areas:
  "length (w_areas s) \<le> 32 \<Longrightarrow> w_areas (fold on_event evs s) = take 32 (w_areas s @ reported_areas evs)"
proof (induction evs arbitrary: s)
  case (Cons e evs)
  have e: "w_areas (on_event e s) = take 32 (w_areas s @ reported_areas [e])" by (rule on_event_areas [OF Cons.prems])
  then have "w_areas (fold on_event evs (on_event e s)) = take 32 (w_areas (on_event e s) @ reported_areas evs)"
    by (intro Cons.IH) simp
  also have "\<dots> = take 32 (w_areas s @ reported_areas (e # evs))"
    unfolding e reported_cons [of e evs] by (auto simp: min_def)
  finally show ?case by simp
qed simp

text \<open>
  When the work area of the layout is returned, it is not empty, and the work areas of the
  outputs that can be read afterwards are exactly the first 32 that the compositor reported during
  this query; an index outside them reads nothing, so the array of 32 entries is never exceeded.
\<close>

theorem layout_areas_reported:
  assumes "get_layout_workarea evs s = (Some (x, y, wd, ht), s')"
  shows "wd \<ge> 1 \<and> ht \<ge> 1 \<and> get_layout_output_count s' = min 32 (length (reported_areas evs)) \<and>
    get_layout_output_workarea i s' =
      (if 0 \<le> i \<and> i < 32 \<and> i < int (length (reported_areas evs)) then Some (reported_areas evs ! nat i) else None)"
proof -
  let ?s1 = "send R_get_layout_workarea (s\<lparr>w_layout := (w_layout s)\<lparr>la_got := False, la_done := False\<rparr>, w_areas := []\<rparr>)"
  have r: "s' = fold on_event evs ?s1" "la_done (w_layout s')" "wd \<ge> 1" "ht \<ge> 1"
    using assms by (auto simp: get_layout_workarea_def Let_def case_prod_beta split: if_splits)
  have "w_areas ?s1 = []" by (simp add: send_def)
  then have a: "w_areas s' = take 32 (reported_areas evs)" using on_events_areas [of ?s1 evs] r(1) by simp
  have c: "get_layout_output_count s' = min 32 (length (reported_areas evs))"
    using r(2) a by (simp add: get_layout_output_count_def min.commute)
  show ?thesis using r c a by (auto simp: get_layout_output_workarea_def min_def split: if_splits)
qed

definition layout_answer :: "win_event list" where
  "layout_answer = [W_layout_workarea 0 0 3840 1080, W_layout_output_workarea 0 0 1920 1080,
     W_layout_output_workarea 1920 0 1920 1080, W_layout_workarea_done]"

theorem layout_areas_reported_witness:
  "get_layout_output_workarea 1 (snd (get_layout_workarea layout_answer one_window)) = Some (1920, 0, 1920, 1080)"
proof -
  let ?r = "get_layout_workarea layout_answer one_window"
  have "fst ?r = Some (0, 0, 3840, 1080)"
    by (simp add: get_layout_workarea_def one_window_def layout_answer_def win_init_def toplevel_manager_toplevel_def Let_def
        send_def tiling_version_def tiling_handle_layout_workarea_def tiling_handle_layout_output_workarea_def
        tiling_handle_layout_workarea_done_def)
  then have "?r = (Some (0, 0, 3840, 1080), snd ?r)" by (metis prod.collapse)
  then show ?thesis using layout_areas_reported [of layout_answer one_window 0 0 3840 1080 "snd ?r" 1]
    by (simp add: layout_answer_def)
qed

end
