(* ===== verification/Outputs.thy ===== *)
theory Outputs
  imports C_Prelude "HOL-Library.Multiset"
begin

text \<open>
  Output management, \<^verbatim>\<open>src/wayland/wayland_integration.c\<close> (lines 113 to 366 and 1532 to 1658): the
  list of heads with their modes, what the display manager is told, and output configurations.
  Heads, modes and configurations are protocol objects with numbers; every \<open>struct HeadData\<close> has an
  address of its own. Scales are the \<open>wl_fixed_t\<close> values of the protocol; their conversion from and to
  \<open>double\<close> is libwayland's. \<open>o_modes_live\<close> are the mode objects that exist, \<open>o_mode_data\<close> the listener
  data of the modes, \<open>o_withdrawn\<close> the modes whose \<open>finished\<close> event was handled. \<open>o_fault\<close> is set by
  the use of freed memory or of a destroyed object.
\<close>

section \<open>State\<close>

record mode_entry =
  me_mode :: nat
  me_width :: int
  me_height :: int
  me_refresh :: int

record mode_data =
  md_head :: nat
  md_head_data :: nat
  md_width :: int
  md_height :: int
  md_refresh :: int
  md_preferred :: bool

record head_data =
  hd_addr :: nat
  hd_head :: nat
  hd_name :: "string option"
  hd_description :: "string option"
  hd_make :: "string option"
  hd_model :: "string option"
  hd_serial_number :: "string option"
  hd_phys :: "int \<times> int"
  hd_pos :: "int \<times> int"
  hd_transform :: int
  hd_scale :: int
  hd_enabled :: int
  hd_adaptive_sync :: int
  hd_modes :: "mode_entry list"
  hd_current_mode :: "nat option"

text \<open>A pointer handed to the display manager: a head object or the address of a \<open>HeadData\<close>.\<close>

datatype head_handle = Head_object nat | Head_data_at nat

datatype display_note =
    Add_head head_handle
  | Update_head head_handle "string option" "string option" "int \<times> int" "int \<times> int" int int int
  | Update_head_info head_handle "string option" "string option" "string option"
  | Add_mode head_handle int int int bool
  | Set_current_mode head_handle int int int
  | Remove_head head_handle
  | Set_serial nat
  | Update_adaptive_sync head_handle nat

datatype out_request =
    C_create nat nat
  | C_enable_head nat nat
  | C_disable_head nat nat
  | C_set_position nat nat int int
  | C_set_scale nat nat int
  | C_set_transform nat nat int
  | C_set_adaptive_sync nat nat nat
  | C_set_mode nat nat nat
  | C_apply nat
  | C_destroy nat

record out_state =
  o_manager :: bool
  o_heads :: "head_data list"
  o_next :: nat
  o_modes_live :: "nat set"
  o_mode_data :: "nat \<Rightarrow> mode_data option"
  o_withdrawn :: "nat set"
  o_config :: "nat option"
  o_configs :: "nat set"
  o_notes :: "display_note list"
  o_sent :: "out_request list"
  o_fault :: bool

definition out_init :: "bool \<Rightarrow> out_state" where
  "out_init manager = \<lparr>o_manager = manager, o_heads = [], o_next = 0, o_modes_live = {}, o_mode_data = (\<lambda>_. None),
     o_withdrawn = {}, o_config = None, o_configs = {}, o_notes = [], o_sent = [], o_fault = False\<rparr>"

definition note_display :: "display_note list \<Rightarrow> out_state \<Rightarrow> out_state" where
  "note_display ns s = s\<lparr>o_notes := o_notes s @ ns\<rparr>"

definition fault_if :: "bool \<Rightarrow> out_state \<Rightarrow> out_state" where
  "fault_if b s = s\<lparr>o_fault := o_fault s \<or> b\<rparr>"

section \<open>Heads\<close>

definition blank_head :: "nat \<Rightarrow> nat \<Rightarrow> head_data" where
  "blank_head a h = \<lparr>hd_addr = a, hd_head = h, hd_name = None, hd_description = None, hd_make = None, hd_model = None,
     hd_serial_number = None, hd_phys = (0, 0), hd_pos = (0, 0), hd_transform = 0, hd_scale = 0, hd_enabled = 0,
     hd_adaptive_sync = 0, hd_modes = [], hd_current_mode = None\<rparr>"

text \<open>\<open>add_head_to_list\<close> puts the newest head first; \<open>remove_head_from_list\<close> compares addresses.\<close>

fun remove_head_from_list :: "nat \<Rightarrow> head_data list \<Rightarrow> head_data list" where
  "remove_head_from_list a [] = []"
| "remove_head_from_list a (x # xs) = (if hd_addr x = a then xs else x # remove_head_from_list a xs)"

datatype head_prop =
    Name string
  | Description string
  | Physical_size int int
  | Enabled int
  | Current_mode nat
  | Position int int
  | Transform int
  | Scale int
  | Make string
  | Model string
  | Serial_number string
  | Adaptive_sync nat

fun head_handle_prop :: "head_prop \<Rightarrow> head_data \<Rightarrow> head_data" where
  "head_handle_prop (Name n) x = x\<lparr>hd_name := Some n\<rparr>"
| "head_handle_prop (Description d) x = x\<lparr>hd_description := Some d\<rparr>"
| "head_handle_prop (Physical_size w h) x = x\<lparr>hd_phys := (w, h)\<rparr>"
| "head_handle_prop (Enabled e) x = x\<lparr>hd_enabled := e\<rparr>"
| "head_handle_prop (Current_mode m) x = x\<lparr>hd_current_mode := Some m\<rparr>"
| "head_handle_prop (Position px py) x = x\<lparr>hd_pos := (px, py)\<rparr>"
| "head_handle_prop (Transform t) x = x\<lparr>hd_transform := t\<rparr>"
| "head_handle_prop (Scale sc) x = x\<lparr>hd_scale := sc\<rparr>"
| "head_handle_prop (Make n) x = x\<lparr>hd_make := Some n\<rparr>"
| "head_handle_prop (Model n) x = x\<lparr>hd_model := Some n\<rparr>"
| "head_handle_prop (Serial_number n) x = x\<lparr>hd_serial_number := Some n\<rparr>"
| "head_handle_prop (Adaptive_sync st) x = x\<lparr>hd_adaptive_sync := int st\<rparr>"

fun prop_notes :: "head_prop \<Rightarrow> head_data \<Rightarrow> display_note list" where
  "prop_notes (Adaptive_sync st) x = [Update_adaptive_sync (Head_data_at (hd_addr x)) st]"
| "prop_notes _ _ = []"

text \<open>The listener's data of a head is found by its address: the head with that address in the list.\<close>

definition update_at :: "nat \<Rightarrow> (head_data \<Rightarrow> head_data) \<Rightarrow> head_data list \<Rightarrow> head_data list" where
  "update_at a f = map (\<lambda>x. if hd_addr x = a then f x else x)"

definition head_of :: "nat \<Rightarrow> out_state \<Rightarrow> head_data option" where
  "head_of h s = List.find (\<lambda>x. hd_head x = h) (o_heads s)"

definition data_at :: "nat \<Rightarrow> out_state \<Rightarrow> head_data option" where
  "data_at a s = List.find (\<lambda>x. hd_addr x = a) (o_heads s)"

definition head_handle_finished :: "head_data \<Rightarrow> out_state \<Rightarrow> out_state" where
  "head_handle_finished x s =
     (let s1 = note_display [Remove_head (Head_object (hd_head x))] s;
          s2 = s1\<lparr>o_heads := remove_head_from_list (hd_addr x) (o_heads s1)\<rparr>;
          ms = map me_mode (hd_modes x)
      in (fault_if (\<not> (set ms \<subseteq> o_modes_live s2 \<and> distinct ms)) s2)\<lparr>o_modes_live := o_modes_live s2 - set ms\<rparr>)"

definition output_manager_head :: "nat \<Rightarrow> out_state \<Rightarrow> out_state" where
  "output_manager_head h s =
     note_display [Add_head (Head_object h)]
       (s\<lparr>o_next := Suc (o_next s), o_heads := blank_head (o_next s) h # o_heads s\<rparr>)"

section \<open>Modes\<close>

definition head_handle_mode :: "head_data \<Rightarrow> nat \<Rightarrow> out_state \<Rightarrow> out_state" where
  "head_handle_mode x m s =
     s\<lparr>o_mode_data := (o_mode_data s)(m \<mapsto> \<lparr>md_head = hd_head x, md_head_data = hd_addr x, md_width = 0,
                        md_height = 0, md_refresh = 0, md_preferred = False\<rparr>),
       o_modes_live := insert m (o_modes_live s), o_withdrawn := o_withdrawn s - {m},
       o_heads := update_at (hd_addr x) (\<lambda>x. x\<lparr>hd_modes := \<lparr>me_mode = m, me_width = 0, me_height = 0, me_refresh = 0\<rparr> # hd_modes x\<rparr>)
                    (o_heads s)\<rparr>"

text \<open>The walk over the mode list that stops at the entry of the mode.\<close>

fun update_entry :: "nat \<Rightarrow> (mode_entry \<Rightarrow> mode_entry) \<Rightarrow> mode_entry list \<Rightarrow> mode_entry list" where
  "update_entry m f [] = []"
| "update_entry m f (e # es) = (if me_mode e = m then f e # es else e # update_entry m f es)"

definition mode_update :: "nat \<Rightarrow> mode_data \<Rightarrow> (mode_entry \<Rightarrow> mode_entry) \<Rightarrow> out_state \<Rightarrow> out_state" where
  "mode_update m md f s =
     (fault_if (data_at (md_head_data md) s = None) s)
       \<lparr>o_heads := update_at (md_head_data md) (\<lambda>x. x\<lparr>hd_modes := update_entry m f (hd_modes x)\<rparr>) (o_heads s)\<rparr>"

definition mode_handle_size :: "nat \<Rightarrow> mode_data \<Rightarrow> int \<Rightarrow> int \<Rightarrow> out_state \<Rightarrow> out_state" where
  "mode_handle_size m md w h s =
     mode_update m md (\<lambda>e. e\<lparr>me_width := w, me_height := h\<rparr>)
       (s\<lparr>o_mode_data := (o_mode_data s)(m \<mapsto> md\<lparr>md_width := w, md_height := h\<rparr>)\<rparr>)"

definition mode_handle_refresh :: "nat \<Rightarrow> mode_data \<Rightarrow> int \<Rightarrow> out_state \<Rightarrow> out_state" where
  "mode_handle_refresh m md r s =
     mode_update m md (\<lambda>e. e\<lparr>me_refresh := r\<rparr>) (s\<lparr>o_mode_data := (o_mode_data s)(m \<mapsto> md\<lparr>md_refresh := r\<rparr>)\<rparr>)"

definition mode_handle_preferred :: "nat \<Rightarrow> mode_data \<Rightarrow> out_state \<Rightarrow> out_state" where
  "mode_handle_preferred m md s = s\<lparr>o_mode_data := (o_mode_data s)(m \<mapsto> md\<lparr>md_preferred := True\<rparr>)\<rparr>"

text \<open>Only the listener's data is freed; the entry and the mode object stay.\<close>

definition mode_handle_finished :: "nat \<Rightarrow> out_state \<Rightarrow> out_state" where
  "mode_handle_finished m s =
     s\<lparr>o_mode_data := (o_mode_data s)(m := None), o_withdrawn := insert m (o_withdrawn s)\<rparr>"

section \<open>The report to the display manager\<close>

definition mode_notes :: "head_data \<Rightarrow> mode_entry \<Rightarrow> display_note list" where
  "mode_notes x e =
     (let cur = (hd_current_mode x = Some (me_mode e))
      in Add_mode (Head_object (hd_head x)) (me_width e) (me_height e) (me_refresh e) cur #
         (if cur then [Set_current_mode (Head_object (hd_head x)) (me_width e) (me_height e) (me_refresh e)] else []))"

definition head_notes :: "head_data \<Rightarrow> display_note list" where
  "head_notes x =
     Update_head (Head_object (hd_head x)) (hd_name x) (hd_description x) (hd_phys x) (hd_pos x) (hd_transform x)
       (hd_scale x) (hd_enabled x) #
     Update_head_info (Head_object (hd_head x)) (hd_make x) (hd_model x) (hd_serial_number x) #
     concat (map (mode_notes x) (hd_modes x))"

definition output_manager_done :: "nat \<Rightarrow> out_state \<Rightarrow> out_state" where
  "output_manager_done serial s = note_display (Set_serial serial # concat (map head_notes (o_heads s))) s"

section \<open>Configurations\<close>

definition send_config :: "out_request list \<Rightarrow> out_state \<Rightarrow> out_state" where
  "send_config rs s = s\<lparr>o_sent := o_sent s @ rs\<rparr>"

definition config_handle_reply :: "nat \<Rightarrow> out_state \<Rightarrow> out_state" where
  "config_handle_reply c s =
     (send_config [C_destroy c] s)\<lparr>o_configs := o_configs s - {c}, o_config := (if o_config s = Some c then None else o_config s)\<rparr>"

definition begin_output_config :: "nat \<Rightarrow> out_state \<Rightarrow> out_state" where
  "begin_output_config serial s =
     (if \<not> o_manager s then s
      else (send_config [C_create (o_next s) serial] s)
             \<lparr>o_next := Suc (o_next s), o_configs := insert (o_next s) (o_configs s), o_config := Some (o_next s)\<rparr>)"

definition find_mode :: "nat \<Rightarrow> int \<Rightarrow> int \<Rightarrow> int \<Rightarrow> out_state \<Rightarrow> nat option" where
  "find_mode h w ht r s =
     (case head_of h s of
        None \<Rightarrow> None
      | Some x \<Rightarrow>
          (case List.find (\<lambda>e. me_width e = w \<and> me_height e = ht \<and> me_refresh e = r) (hd_modes x) of
             Some e \<Rightarrow> Some (me_mode e)
           | None \<Rightarrow> map_option me_mode (List.find (\<lambda>e. me_width e = w \<and> me_height e = ht) (hd_modes x))))"

text \<open>
  What a head is to become. \<open>hc_sync\<close> is the last argument of \<open>config_head_v2\<close>, where 2 leaves adaptive
  sync alone; the older \<open>config_head\<close> does not have it.
\<close>

record head_config =
  hc_head :: nat
  hc_enabled :: bool
  hc_pos :: "int \<times> int"
  hc_scale :: int
  hc_transform :: int
  hc_mode :: "int \<times> int \<times> int"
  hc_sync :: int

definition mode_requests :: "nat \<Rightarrow> head_config \<Rightarrow> out_state \<Rightarrow> out_request list" where
  "mode_requests c k s =
     (case hc_mode k of (w, ht, r) \<Rightarrow>
        if w > 0 \<and> ht > 0
        then (case find_mode (hc_head k) w ht r s of None \<Rightarrow> [] | Some m \<Rightarrow> [C_set_mode c (hc_head k) m])
        else [])"

definition config_head_v2 :: "head_config \<Rightarrow> out_state \<Rightarrow> out_state" where
  "config_head_v2 k s =
     (case o_config s of
        None \<Rightarrow> s
      | Some c \<Rightarrow>
          let s1 = fault_if (head_of (hc_head k) s = None \<or> c \<notin> o_configs s) s
          in if hc_enabled k
             then send_config
               ([C_enable_head c (hc_head k), C_set_position c (hc_head k) (fst (hc_pos k)) (snd (hc_pos k)),
                 C_set_scale c (hc_head k) (hc_scale k), C_set_transform c (hc_head k) (hc_transform k)] @
                (if hc_sync k \<noteq> 2 then [C_set_adaptive_sync c (hc_head k) (nat (hc_sync k mod 2 ^ 32))] else []) @
                mode_requests c k s) s1
             else send_config [C_disable_head c (hc_head k)] s1)"

definition config_head :: "head_config \<Rightarrow> out_state \<Rightarrow> out_state" where
  "config_head k s =
     (case o_config s of
        None \<Rightarrow> s
      | Some c \<Rightarrow>
          let s1 = fault_if (head_of (hc_head k) s = None \<or> c \<notin> o_configs s) s
          in if hc_enabled k
             then send_config
               ([C_enable_head c (hc_head k), C_set_position c (hc_head k) (fst (hc_pos k)) (snd (hc_pos k)),
                 C_set_scale c (hc_head k) (hc_scale k), C_set_transform c (hc_head k) (hc_transform k)] @
                mode_requests c k s) s1
             else send_config [C_disable_head c (hc_head k)] s1)"

definition finish_output_config :: "out_state \<Rightarrow> out_state" where
  "finish_output_config s =
     (case o_config s of None \<Rightarrow> s | Some c \<Rightarrow> send_config [C_apply c] (fault_if (c \<notin> o_configs s) s))"

section \<open>The machine\<close>

text \<open>
  Events reach an object while it exists. The compositor introduces heads and modes with fresh
  objects and sends nothing more about a mode after its \<open>finished\<close> event.
\<close>

datatype out_event =
    O_head nat
  | O_prop nat head_prop
  | O_head_mode nat nat
  | O_head_finished nat
  | O_mode_size nat int int
  | O_mode_refresh nat int
  | O_mode_preferred nat
  | O_mode_finished nat
  | O_done nat
  | O_manager_finished
  | O_config_reply nat
  | O_begin nat
  | O_config_head head_config
  | O_config_head_v2 head_config
  | O_finish

definition with_head :: "nat \<Rightarrow> (head_data \<Rightarrow> out_state \<Rightarrow> out_state) \<Rightarrow> out_state \<Rightarrow> out_state" where
  "with_head h f s = (case head_of h s of None \<Rightarrow> s | Some x \<Rightarrow> f x s)"

definition with_mode :: "nat \<Rightarrow> (mode_data \<Rightarrow> out_state \<Rightarrow> out_state) \<Rightarrow> out_state \<Rightarrow> out_state" where
  "with_mode m f s =
     (if m \<in> o_modes_live s then (case o_mode_data s m of None \<Rightarrow> s | Some md \<Rightarrow> f md s) else s)"

fun out_step :: "out_event \<Rightarrow> out_state \<Rightarrow> out_state" where
  "out_step (O_head h) s = (if head_of h s = None then output_manager_head h s else s)"
| "out_step (O_prop h p) s =
     with_head h (\<lambda>x s. note_display (prop_notes p x) (s\<lparr>o_heads := update_at (hd_addr x) (head_handle_prop p) (o_heads s)\<rparr>)) s"
| "out_step (O_head_mode h m) s = (if m \<in> o_modes_live s then s else with_head h (\<lambda>x. head_handle_mode x m) s)"
| "out_step (O_head_finished h) s = with_head h head_handle_finished s"
| "out_step (O_mode_size m w h) s = with_mode m (\<lambda>md. mode_handle_size m md w h) s"
| "out_step (O_mode_refresh m r) s = with_mode m (\<lambda>md. mode_handle_refresh m md r) s"
| "out_step (O_mode_preferred m) s = with_mode m (mode_handle_preferred m) s"
| "out_step (O_mode_finished m) s = with_mode m (\<lambda>_. mode_handle_finished m) s"
| "out_step (O_done serial) s = output_manager_done serial s"
| "out_step O_manager_finished s = s\<lparr>o_manager := False\<rparr>"
| "out_step (O_config_reply c) s = (if c \<in> o_configs s then config_handle_reply c s else s)"
| "out_step (O_begin serial) s = begin_output_config serial s"
| "out_step (O_config_head k) s = config_head k s"
| "out_step (O_config_head_v2 k) s = config_head_v2 k s"
| "out_step O_finish s = finish_output_config s"

section \<open>The invariant\<close>

definition entry_view :: "head_data \<Rightarrow> mode_entry \<Rightarrow> nat \<times> nat \<times> int \<times> int \<times> int" where
  "entry_view x e = (me_mode e, hd_head x, me_width e, me_height e, me_refresh e)"

definition all_modes :: "head_data list \<Rightarrow> (nat \<times> nat \<times> int \<times> int \<times> int) list" where
  "all_modes xs = concat (map (\<lambda>x. map (entry_view x) (hd_modes x)) xs)"

definition heads_ok :: "out_state \<Rightarrow> bool" where
  "heads_ok s \<longleftrightarrow> distinct (map hd_addr (o_heads s)) \<and> distinct (map hd_head (o_heads s)) \<and>
     (\<forall>x \<in> set (o_heads s). hd_addr x < o_next s)"

definition modes_ok :: "out_state \<Rightarrow> bool" where
  "modes_ok s \<longleftrightarrow> distinct (map fst (all_modes (o_heads s))) \<and> set (map fst (all_modes (o_heads s))) = o_modes_live s \<and>
     (\<forall>m \<in> o_modes_live s. m \<in> o_withdrawn s \<longleftrightarrow> o_mode_data s m = None)"

definition data_ok :: "out_state \<Rightarrow> bool" where
  "data_ok s \<longleftrightarrow> (\<forall>m \<in> o_modes_live s. \<forall>md. o_mode_data s m = Some md \<longrightarrow>
     (\<exists>x \<in> set (o_heads s). hd_addr x = md_head_data md \<and> m \<in> me_mode ` set (hd_modes x)))"

definition config_ok :: "out_state \<Rightarrow> bool" where
  "config_ok s \<longleftrightarrow> (\<forall>c. o_config s = Some c \<longrightarrow> c \<in> o_configs s) \<and> (\<forall>c \<in> o_configs s. c < o_next s)"

definition out_inv :: "out_state \<Rightarrow> bool" where
  "out_inv s \<longleftrightarrow> heads_ok s \<and> modes_ok s \<and> data_ok s \<and> config_ok s"

lemmas out_inv_parts = out_inv_def heads_ok_def modes_ok_def data_ok_def config_ok_def

lemma out_invD:
  assumes "out_inv s"
  shows "heads_ok s" "modes_ok s" "data_ok s" "config_ok s"
  using assms by (simp_all add: out_inv_def)

subsection \<open>The list of heads\<close>

lemma find_unique:
  "distinct (map f xs) \<Longrightarrow> List.find (\<lambda>x. f x = k) xs = Some x \<longleftrightarrow> x \<in> set xs \<and> f x = k"
  by (induction xs) auto

lemma head_of_iff: "heads_ok s \<Longrightarrow> head_of h s = Some x \<longleftrightarrow> x \<in> set (o_heads s) \<and> hd_head x = h"
  unfolding head_of_def heads_ok_def by (intro find_unique) simp

lemma data_at_iff: "heads_ok s \<Longrightarrow> data_at a s = Some x \<longleftrightarrow> x \<in> set (o_heads s) \<and> hd_addr x = a"
  unfolding data_at_def heads_ok_def by (intro find_unique) simp

lemma head_of_None: "head_of h s = None \<longleftrightarrow> h \<notin> hd_head ` set (o_heads s)"
  by (auto simp: head_of_def find_None_iff)

lemma update_at_addr [simp]: "(\<And>x. hd_addr (f x) = hd_addr x) \<Longrightarrow> map hd_addr (update_at a f xs) = map hd_addr xs"
  by (induction xs) (simp_all add: update_at_def)

lemma update_at_head [simp]: "(\<And>x. hd_head (f x) = hd_head x) \<Longrightarrow> map hd_head (update_at a f xs) = map hd_head xs"
  by (induction xs) (simp_all add: update_at_def)

lemma update_at_set: "y \<in> set (update_at a f xs) \<longleftrightarrow> (\<exists>x \<in> set xs. y = (if hd_addr x = a then f x else x))"
  unfolding update_at_def set_map by (rule image_iff)

lemma update_at_mem: "x \<in> set xs \<Longrightarrow> (if hd_addr x = a then f x else x) \<in> set (update_at a f xs)"
  unfolding update_at_set by blast

lemma update_at_out: "a \<notin> hd_addr ` set xs \<Longrightarrow> update_at a f xs = xs"
  by (induction xs) (auto simp: update_at_def)

lemma update_at_Cons: "update_at a f (x # xs) = (if hd_addr x = a then f x else x) # update_at a f xs"
  by (simp add: update_at_def)

lemma find_update_at:
  "(\<And>x. hd_head (f x) = hd_head x) \<Longrightarrow>
   List.find (\<lambda>x. hd_head x = h) (update_at a f xs) =
     map_option (\<lambda>x. if hd_addr x = a then f x else x) (List.find (\<lambda>x. hd_head x = h) xs)"
  by (induction xs) (auto simp: update_at_def)

lemma remove_head_set: "set (remove_head_from_list a xs) \<subseteq> set xs"
  by (induction xs) auto

lemma remove_head_map: "distinct (map f xs) \<Longrightarrow> distinct (map f (remove_head_from_list a xs))"
proof (induction xs)
  case (Cons x xs)
  then show ?case using remove_head_set [of a xs] by (auto simp: image_iff)
qed simp

lemma remove_head_filter:
  "distinct (map hd_addr xs) \<Longrightarrow> remove_head_from_list a xs = filter (\<lambda>x. hd_addr x \<noteq> a) xs"
proof (induction xs)
  case (Cons x xs)
  have "hd_addr x = a \<Longrightarrow> filter (\<lambda>x. hd_addr x \<noteq> a) xs = xs" using Cons.prems by (subst filter_id_conv) (auto simp: image_iff)
  then show ?case using Cons by auto
qed simp

lemma head_prop_keeps [simp]:
  "hd_addr (head_handle_prop p x) = hd_addr x" "hd_head (head_handle_prop p x) = hd_head x"
  "hd_modes (head_handle_prop p x) = hd_modes x"
  by (cases p; simp)+

subsection \<open>The modes of all heads\<close>

lemma all_modes_simps [simp]:
  "all_modes [] = []" "all_modes (x # xs) = map (entry_view x) (hd_modes x) @ all_modes xs"
  by (simp_all add: all_modes_def)

lemma all_modes_fst: "fst ` set (all_modes xs) = (\<Union>x \<in> set xs. me_mode ` set (hd_modes x))"
  by (simp add: all_modes_def image_UN image_image entry_view_def)

lemma map_fst_entry [simp]: "map fst (map (entry_view x) es) = map me_mode es"
  by (simp add: entry_view_def)

lemma entry_view_cong: "hd_head y = hd_head x \<Longrightarrow> entry_view y = entry_view x"
  by (rule ext) (simp add: entry_view_def)

lemma entry_view_simps [simp]:
  "entry_view (x\<lparr>hd_modes := l\<rparr>) = entry_view x" "fst (entry_view x e) = me_mode e"
  "snd (entry_view x e) = (hd_head x, me_width e, me_height e, me_refresh e)"
  by (rule entry_view_cong) (simp_all add: entry_view_def)

lemma all_modes_update_same:
  "(\<And>x. hd_head (f x) = hd_head x) \<Longrightarrow> (\<And>x. hd_modes (f x) = hd_modes x) \<Longrightarrow> all_modes (update_at a f xs) = all_modes xs"
proof (induction xs)
  case (Cons x xs)
  have "entry_view (f x) = entry_view x" by (rule entry_view_cong) (rule Cons.prems(1))
  then show ?case using Cons by (simp add: update_at_Cons)
qed (simp add: update_at_def)

lemma update_entry_modes: "(\<And>e. me_mode (f e) = me_mode e) \<Longrightarrow> map me_mode (update_entry m f es) = map me_mode es"
  by (induction es) simp_all

lemma all_modes_update_entry:
  "(\<And>e. me_mode (f e) = me_mode e) \<Longrightarrow>
   map fst (all_modes (update_at a (\<lambda>x. x\<lparr>hd_modes := update_entry m f (hd_modes x)\<rparr>) xs)) = map fst (all_modes xs)"
proof (induction xs)
  case (Cons x xs)
  then show ?case using update_entry_modes [of f m "hd_modes x"]
    by (simp add: update_at_Cons) (simp add: entry_view_def comp_def)
qed (simp add: update_at_def)

text \<open>The three ways in which the modes change, as updates of the map from modes to their values.\<close>

lemma all_modes_push:
  assumes "x \<in> set xs" and "distinct (map hd_addr xs)" and "me_mode e \<notin> fst ` set (all_modes xs)"
  shows "map_of (all_modes (update_at (hd_addr x) (\<lambda>x. x\<lparr>hd_modes := e # hd_modes x\<rparr>) xs)) =
    (map_of (all_modes xs))(me_mode e \<mapsto> (hd_head x, me_width e, me_height e, me_refresh e))"
    (is "map_of (all_modes (?u xs)) = _")
  using assms
proof (induction xs)
  case (Cons y ys)
  show ?case
  proof (cases "hd_addr y = hd_addr x")
    case True
    then have eq: "y = x" using Cons.prems(1,2) by (auto simp: image_iff)
    then have "?u ys = ys" using Cons.prems(2) by (intro update_at_out) simp
    then show ?thesis using eq by (simp add: update_at_Cons)
  next
    case False
    then have x: "x \<in> set ys" using Cons.prems(1) by auto
    have "distinct (map hd_addr ys)" "me_mode e \<notin> fst ` set (all_modes ys)" using Cons.prems(2,3) by auto
    from Cons.IH [OF x this]
    have "map_of (all_modes (?u ys)) = (map_of (all_modes ys))(me_mode e \<mapsto> (hd_head x, me_width e, me_height e, me_refresh e))" .
    moreover have "me_mode e \<notin> dom (map_of (map (entry_view y) (hd_modes y)))"
      using Cons.prems(3) by (auto simp: dom_map_of_conv_image_fst)
    ultimately show ?thesis using False by (simp add: update_at_Cons map_add_upd_left)
  qed
qed simp

lemma map_of_update_entry:
  assumes "m \<in> me_mode ` set es" and "\<And>e. me_mode (f e) = me_mode e"
  shows "\<exists>e \<in> set es. me_mode e = m \<and>
    map_of (map (entry_view x) (update_entry m f es)) = (map_of (map (entry_view x) es))(m \<mapsto> snd (entry_view x (f e))) \<and>
    map_of (map (entry_view x) es) m = Some (snd (entry_view x e))"
  using assms
proof (induction es)
  case (Cons e es)
  show ?case
  proof (cases "me_mode e = m")
    case True
    then show ?thesis using Cons.prems(2) by (auto simp: entry_view_def)
  next
    case False
    then have "m \<in> me_mode ` set es" using Cons.prems(1) by auto
    from Cons.IH [OF this Cons.prems(2)] obtain e0 where "e0 \<in> set es" "me_mode e0 = m"
      "map_of (map (entry_view x) (update_entry m f es)) = (map_of (map (entry_view x) es))(m \<mapsto> snd (entry_view x (f e0)))"
      "map_of (map (entry_view x) es) m = Some (snd (entry_view x e0))"
      by blast
    then show ?thesis using False by (intro bexI [of _ e0]) (auto simp: fun_eq_iff)
  qed
qed simp

lemma all_modes_entry:
  assumes "x \<in> set xs" and "distinct (map hd_addr xs)" and "distinct (map fst (all_modes xs))"
    and "m \<in> me_mode ` set (hd_modes x)" and "\<And>e. me_mode (f e) = me_mode e"
  shows "\<exists>e. map_of (all_modes xs) m = Some (snd (entry_view x e)) \<and>
    map_of (all_modes (update_at (hd_addr x) (\<lambda>x. x\<lparr>hd_modes := update_entry m f (hd_modes x)\<rparr>) xs)) =
      (map_of (all_modes xs))(m \<mapsto> snd (entry_view x (f e)))"
    (is "\<exists>e. _ \<and> map_of (all_modes (?u xs)) = _")
  using assms(1-3)
proof (induction xs)
  case (Cons y ys)
  have out: "m \<notin> dom (map_of (all_modes ys))" if "m \<in> me_mode ` set (hd_modes y)"
    using Cons.prems(3) that by (auto simp: dom_map_of_conv_image_fst entry_view_def disjoint_iff image_iff)
  show ?case
  proof (cases "hd_addr y = hd_addr x")
    case True
    then have eq: "y = x" using Cons.prems(1,2) by (auto simp: image_iff)
    have "?u ys = ys" using Cons.prems(2) eq by (intro update_at_out) simp
    moreover obtain e where
      "map_of (map (entry_view x) (update_entry m f (hd_modes x))) = (map_of (map (entry_view x) (hd_modes x)))(m \<mapsto> snd (entry_view x (f e)))"
      "map_of (map (entry_view x) (hd_modes x)) m = Some (snd (entry_view x e))"
      using map_of_update_entry [OF assms(4,5), of x] by blast
    ultimately show ?thesis using eq
      by (intro exI [of _ e]) (simp add: update_at_Cons)
  next
    case False
    then have x: "x \<in> set ys" using Cons.prems(1) by auto
    have "distinct (map hd_addr ys)" "distinct (map fst (all_modes ys))" using Cons.prems(2,3) by auto
    from Cons.IH [OF x this] obtain e where e: "map_of (all_modes ys) m = Some (snd (entry_view x e))"
      "map_of (all_modes (?u ys)) = (map_of (all_modes ys))(m \<mapsto> snd (entry_view x (f e)))"
      by blast
    then have "m \<notin> me_mode ` set (hd_modes y)" using out by blast
    then have "map_of (map (entry_view y) (hd_modes y)) m = None"
      by (simp add: map_of_eq_None_iff image_image)
    then show ?thesis using e False
      by (intro exI [of _ e]) (auto simp: update_at_Cons map_add_def fun_eq_iff split: option.splits)
  qed
qed simp

lemma all_modes_remove:
  assumes "x \<in> set xs" and "distinct (map hd_addr xs)" and "distinct (map hd_head xs)" and "distinct (map fst (all_modes xs))"
  shows "map_of (all_modes (remove_head_from_list (hd_addr x) xs)) =
    (\<lambda>m. case map_of (all_modes xs) m of None \<Rightarrow> None | Some v \<Rightarrow> if fst v = hd_head x then None else Some v)"
  using assms
proof (induction xs)
  case (Cons y ys)
  have owner: "map_of (all_modes zs) m = Some v \<Longrightarrow> fst v \<in> hd_head ` set zs" for zs m v
    by (drule map_of_SomeD) (auto simp: all_modes_def entry_view_def)
  have own: "map_of (map (entry_view y) (hd_modes y)) m = Some v \<Longrightarrow> fst v = hd_head y" for m v
    by (drule map_of_SomeD) (auto simp: entry_view_def)
  have sep: "map_of (all_modes ys) m = None" if "map_of (map (entry_view y) (hd_modes y)) m = Some v" for m v
  proof -
    have "me_mode ` set (hd_modes y) \<inter> fst ` set (all_modes ys) = {}" using Cons.prems(4) by (simp add: image_image)
    moreover have "m \<in> me_mode ` set (hd_modes y)" using map_of_SomeD [OF that] by (auto simp: entry_view_def)
    ultimately show ?thesis unfolding map_of_eq_None_iff by blast
  qed
  show ?case
  proof (cases "hd_addr y = hd_addr x")
    case True
    then have eq: "y = x" using Cons.prems(1,2) by (auto simp: image_iff)
    have other: "fst v \<noteq> hd_head x" if "map_of (all_modes ys) m = Some v" for m v
      using owner [OF that] Cons.prems(3) eq by auto
    show ?thesis
    proof
      fix m
      show "map_of (all_modes (remove_head_from_list (hd_addr x) (y # ys))) m = (case map_of (all_modes (y # ys)) m of
        None \<Rightarrow> None | Some v \<Rightarrow> if fst v = hd_head x then None else Some v)"
        using eq own [of m] sep [of m] other [of m]
        by (cases "map_of (map (entry_view x) (hd_modes x)) m"; cases "map_of (all_modes ys) m") (auto simp: map_add_def)
    qed
  next
    case False
    then have x: "x \<in> set ys" using Cons.prems(1) by auto
    then have ne: "hd_head y \<noteq> hd_head x" using Cons.prems(3) by auto
    have IH: "map_of (all_modes (remove_head_from_list (hd_addr x) ys)) =
      (\<lambda>m. case map_of (all_modes ys) m of None \<Rightarrow> None | Some v \<Rightarrow> if fst v = hd_head x then None else Some v)"
      using Cons.prems x by (intro Cons.IH) auto
    show ?thesis
    proof
      fix m
      show "map_of (all_modes (remove_head_from_list (hd_addr x) (y # ys))) m = (case map_of (all_modes (y # ys)) m of
        None \<Rightarrow> None | Some v \<Rightarrow> if fst v = hd_head x then None else Some v)"
        using IH ne False own [of m]
        by (cases "map_of (map (entry_view y) (hd_modes y)) m"; cases "map_of (all_modes ys) m") (auto simp: map_add_def)
    qed
  qed
qed simp

text \<open>The same changes on the names of the modes, with their multiplicity.\<close>

lemma push_names:
  assumes "x \<in> set xs" and "distinct (map hd_addr xs)"
  shows "mset (map fst (all_modes (update_at (hd_addr x) (\<lambda>x. x\<lparr>hd_modes := e # hd_modes x\<rparr>) xs))) =
    add_mset (me_mode e) (mset (map fst (all_modes xs)))"
  using assms
proof (induction xs)
  case (Cons y ys)
  show ?case
  proof (cases "hd_addr y = hd_addr x")
    case True
    then have eq: "y = x" using Cons.prems(1,2) by (auto simp: image_iff)
    then have "update_at (hd_addr x) f ys = ys" for f using Cons.prems(2) by (intro update_at_out) simp
    then show ?thesis using eq by (simp add: update_at_Cons)
  next
    case False
    then show ?thesis using Cons by (auto simp: update_at_Cons)
  qed
qed simp

lemma remove_names:
  assumes "x \<in> set xs" and "distinct (map hd_addr xs)"
  shows "mset (map fst (all_modes xs)) =
    mset (map me_mode (hd_modes x)) + mset (map fst (all_modes (remove_head_from_list (hd_addr x) xs)))"
  using assms
proof (induction xs)
  case (Cons y ys)
  show ?case
  proof (cases "hd_addr y = hd_addr x")
    case True
    then have "y = x" using Cons.prems(1,2) by (auto simp: image_iff)
    then show ?thesis by (simp add: comp_def)
  next
    case False
    then have "mset (map fst (all_modes ys)) =
      mset (map me_mode (hd_modes x)) + mset (map fst (all_modes (remove_head_from_list (hd_addr x) ys)))"
      using Cons by auto
    then show ?thesis using False by (simp add: comp_def)
  qed
qed simp

subsection \<open>Preservation\<close>

lemma out_inv_quiet [simp]:
  "out_inv (s\<lparr>o_notes := ns\<rparr>) = out_inv s" "out_inv (s\<lparr>o_sent := rs\<rparr>) = out_inv s"
  "out_inv (s\<lparr>o_fault := b\<rparr>) = out_inv s" "out_inv (s\<lparr>o_manager := c\<rparr>) = out_inv s"
  by (simp_all add: out_inv_parts)

lemma head_inv: "out_inv s \<Longrightarrow> head_of h s = None \<Longrightarrow> out_inv (output_manager_head h s)"
  unfolding out_inv_parts output_manager_head_def note_display_def head_of_None
  by (auto simp: blank_head_def less_Suc_eq)

lemma update_inv:
  assumes "out_inv s"
    and "\<And>x. hd_addr (f x) = hd_addr x" "\<And>x. hd_head (f x) = hd_head x"
    and "\<And>x. map me_mode (hd_modes (f x)) = map me_mode (hd_modes x)"
  shows "out_inv (s\<lparr>o_heads := update_at a f (o_heads s)\<rparr>)"
proof -
  let ?s = "s\<lparr>o_heads := update_at a f (o_heads s)\<rparr>"
  have same: "map fst (all_modes (update_at a f xs)) = map fst (all_modes xs)" for xs
  proof (induction xs)
    case (Cons x xs)
    have "map me_mode (hd_modes (if hd_addr x = a then f x else x)) = map me_mode (hd_modes x)"
      using assms(4) by simp
    then show ?case using Cons by (simp add: update_at_Cons comp_def)
  qed (simp add: update_at_def)
  have ms: "me_mode ` set (hd_modes (f x)) = me_mode ` set (hd_modes x)" for x
    using assms(4) by (metis list.set_map)
  have "heads_ok ?s"
    using out_invD(1) [OF assms(1)] assms(2,3) by (auto simp: heads_ok_def update_at_set)
  moreover have "modes_ok ?s" using out_invD(2) [OF assms(1)] same by (simp add: modes_ok_def)
  moreover have "data_ok ?s"
  proof -
    have "\<exists>y \<in> set (update_at a f (o_heads s)). hd_addr y = d \<and> m \<in> me_mode ` set (hd_modes y)"
      if "\<exists>x \<in> set (o_heads s). hd_addr x = d \<and> m \<in> me_mode ` set (hd_modes x)" for d m
    proof -
      from that obtain x where "x \<in> set (o_heads s)" "hd_addr x = d" "m \<in> me_mode ` set (hd_modes x)" by blast
      then show ?thesis using assms(2) ms by (intro bexI [OF _ update_at_mem [of x]]) auto
    qed
    then show ?thesis using out_invD(3) [OF assms(1)] by (simp add: data_ok_def)
  qed
  moreover have "config_ok ?s" using out_invD(4) [OF assms(1)] by (simp add: config_ok_def)
  ultimately show ?thesis by (simp add: out_inv_def)
qed

lemma new_mode_inv:
  assumes "out_inv s" and "x \<in> set (o_heads s)" and "m \<notin> o_modes_live s"
  shows "out_inv (head_handle_mode x m s)"
proof -
  let ?e = "\<lparr>me_mode = m, me_width = 0, me_height = 0, me_refresh = 0\<rparr>"
  let ?f = "\<lambda>x. x\<lparr>hd_modes := ?e # hd_modes x\<rparr>"
  let ?s = "head_handle_mode x m s"
  have heads: "o_heads ?s = update_at (hd_addr x) ?f (o_heads s)" by (simp add: head_handle_mode_def)
  have names: "mset (map fst (all_modes (o_heads ?s))) = mset (m # map fst (all_modes (o_heads s)))"
    using push_names [OF assms(2), of ?e] out_invD(1) [OF assms(1)] unfolding heads heads_ok_def by simp
  then have d: "distinct (map fst (all_modes (o_heads ?s))) \<longleftrightarrow> distinct (m # map fst (all_modes (o_heads s)))"
    and st: "set (map fst (all_modes (o_heads ?s))) = set (m # map fst (all_modes (o_heads s)))"
    by (rule mset_eq_imp_distinct_iff, metis names set_mset_mset)
  have "heads_ok ?s"
    using out_invD(1) [OF assms(1)] assms(2) by (auto simp: heads_ok_def heads update_at_set head_handle_mode_def)
  moreover have "modes_ok ?s"
    using out_invD(2) [OF assms(1)] assms(3) unfolding modes_ok_def d st by (auto simp: head_handle_mode_def)
  moreover have "data_ok ?s"
    unfolding data_ok_def
  proof (intro ballI allI impI)
    fix k md
    assume k: "k \<in> o_modes_live ?s" "o_mode_data ?s k = Some md"
    show "\<exists>y \<in> set (o_heads ?s). hd_addr y = md_head_data md \<and> k \<in> me_mode ` set (hd_modes y)"
    proof (cases "k = m")
      case True
      then have "md_head_data md = hd_addr x" using k(2) by (auto simp: head_handle_mode_def)
      then show ?thesis using assms(2) True unfolding heads update_at_set
        by (intro bexI [of _ "?f x"]) (auto simp: update_at_set)
    next
      case False
      then have "k \<in> o_modes_live s" "o_mode_data s k = Some md" using k by (simp_all add: head_handle_mode_def)
      then obtain y where y: "y \<in> set (o_heads s)" "hd_addr y = md_head_data md" "k \<in> me_mode ` set (hd_modes y)"
        using out_invD(3) [OF assms(1)] unfolding data_ok_def by blast
      then show ?thesis unfolding heads
        by (intro bexI [OF _ update_at_mem [OF y(1)]]) auto
    qed
  qed
  moreover have "config_ok ?s" using out_invD(4) [OF assms(1)] by (simp add: config_ok_def head_handle_mode_def)
  ultimately show ?thesis by (simp add: out_inv_def)
qed

lemma finished_inv:
  assumes "out_inv s" and "x \<in> set (o_heads s)"
  shows "out_inv (head_handle_finished x s)" and "o_fault (head_handle_finished x s) = o_fault s"
proof -
  let ?s = "head_handle_finished x s"
  let ?ms = "map me_mode (hd_modes x)"
  have h: "distinct (map hd_addr (o_heads s))" using out_invD(1) [OF assms(1)] by (simp add: heads_ok_def)
  have heads: "o_heads ?s = remove_head_from_list (hd_addr x) (o_heads s)"
    by (simp add: head_handle_finished_def Let_def note_display_def fault_if_def)
  have f: "o_heads ?s = filter (\<lambda>y. hd_addr y \<noteq> hd_addr x) (o_heads s)" unfolding heads by (rule remove_head_filter [OF h])
  have names: "mset (map fst (all_modes (o_heads s))) = mset (?ms @ map fst (all_modes (o_heads ?s)))"
    using remove_names [OF assms(2) h] unfolding heads by simp
  have d: "distinct (?ms @ map fst (all_modes (o_heads ?s)))"
    using mset_eq_imp_distinct_iff [OF names] out_invD(2) [OF assms(1)] by (simp add: modes_ok_def)
  have st: "set ?ms \<union> fst ` set (all_modes (o_heads ?s)) = o_modes_live s"
    using mset_eq_setD [OF names] out_invD(2) [OF assms(1)] by (simp add: modes_ok_def)
  have live: "o_modes_live ?s = o_modes_live s - set ?ms"
    by (simp add: head_handle_finished_def Let_def note_display_def fault_if_def)
  have same: "o_mode_data ?s = o_mode_data s" "o_withdrawn ?s = o_withdrawn s" "o_next ?s = o_next s"
    "o_config ?s = o_config s" "o_configs ?s = o_configs s"
    by (simp_all add: head_handle_finished_def Let_def note_display_def fault_if_def)
  have "heads_ok ?s"
    using out_invD(1) [OF assms(1)] remove_head_map [of hd_head] remove_head_map [of hd_addr]
    unfolding heads_ok_def same heads using remove_head_set by blast
  moreover have "modes_ok ?s"
    using d st out_invD(2) [OF assms(1)] unfolding modes_ok_def live same by auto
  moreover have "data_ok ?s"
    unfolding data_ok_def live same
  proof (intro ballI allI impI)
    fix k md
    assume k: "k \<in> o_modes_live s - set ?ms" "o_mode_data s k = Some md"
    then obtain y where y: "y \<in> set (o_heads s)" "hd_addr y = md_head_data md" "k \<in> me_mode ` set (hd_modes y)"
      using out_invD(3) [OF assms(1)] unfolding data_ok_def by blast
    then have "y \<noteq> x" using k(1) by auto
    then have "hd_addr y \<noteq> hd_addr x" using h y(1) assms(2) by (auto simp: distinct_map inj_on_def)
    then show "\<exists>y \<in> set (o_heads ?s). hd_addr y = md_head_data md \<and> k \<in> me_mode ` set (hd_modes y)"
      using y unfolding f by auto
  qed
  moreover have "config_ok ?s" using out_invD(4) [OF assms(1)] by (simp add: config_ok_def same)
  ultimately show "out_inv ?s" by (simp add: out_inv_def)
  have "set ?ms \<subseteq> o_modes_live s" "distinct ?ms" using st d by auto
  then show "o_fault ?s = o_fault s"
    by (simp add: head_handle_finished_def Let_def note_display_def fault_if_def)
qed

lemma mode_update_inv:
  assumes "out_inv s" and "\<And>e. me_mode (f e) = me_mode e"
  shows "out_inv (mode_update m md f s)"
proof -
  have "out_inv (s\<lparr>o_heads := update_at (md_head_data md) (\<lambda>x. x\<lparr>hd_modes := update_entry m f (hd_modes x)\<rparr>) (o_heads s)\<rparr>)"
    using assms(2) by (intro update_inv [OF assms(1)]) (simp_all add: update_entry_modes)
  then show ?thesis by (simp add: out_inv_parts mode_update_def fault_if_def)
qed

lemma mode_data_inv:
  assumes "out_inv s" and "o_mode_data s m = Some md" and "md_head_data md' = md_head_data md"
  shows "out_inv (s\<lparr>o_mode_data := (o_mode_data s)(m \<mapsto> md')\<rparr>)"
  using assms unfolding out_inv_parts by auto

lemma mode_fault:
  assumes "out_inv s" and "m \<in> o_modes_live s" and "o_mode_data s m = Some md"
  shows "data_at (md_head_data md) s \<noteq> None"
  using assms out_invD(1) [THEN data_at_iff] unfolding out_inv_parts by blast

lemma mode_withdraw_inv: "out_inv s \<Longrightarrow> out_inv (mode_handle_finished m s)"
  by (auto simp: out_inv_parts mode_handle_finished_def)

lemma config_inv:
  "out_inv s \<Longrightarrow> out_inv (config_handle_reply c s)" "out_inv s \<Longrightarrow> out_inv (begin_output_config serial s)"
  "out_inv s \<Longrightarrow> out_inv (config_head k s)" "out_inv s \<Longrightarrow> out_inv (config_head_v2 k s)"
  "out_inv s \<Longrightarrow> out_inv (finish_output_config s)"
  by (auto simp: out_inv_parts config_handle_reply_def begin_output_config_def config_head_def config_head_v2_def
      finish_output_config_def send_config_def fault_if_def Let_def less_Suc_eq split: option.splits)

lemma with_head_inv:
  "out_inv s \<Longrightarrow> (\<And>x. x \<in> set (o_heads s) \<Longrightarrow> hd_head x = h \<Longrightarrow> out_inv (f x s)) \<Longrightarrow> out_inv (with_head h f s)"
  using head_of_iff [OF out_invD(1), of s h] by (simp add: with_head_def split: option.splits)

lemma with_mode_inv:
  "out_inv s \<Longrightarrow> (\<And>md. o_mode_data s m = Some md \<Longrightarrow> out_inv (f md s)) \<Longrightarrow> out_inv (with_mode m f s)"
  by (simp add: with_mode_def split: option.splits)

lemma out_step_inv: "out_inv s \<Longrightarrow> out_inv (out_step e s)"
proof (cases e)
  case (O_mode_size m w h)
  assume "out_inv s"
  then show ?thesis unfolding O_mode_size out_step.simps mode_handle_size_def
    by (intro with_mode_inv mode_update_inv) (auto intro: mode_data_inv)
next
  case (O_mode_refresh m r)
  assume "out_inv s"
  then show ?thesis unfolding O_mode_refresh out_step.simps mode_handle_refresh_def
    by (intro with_mode_inv mode_update_inv) (auto intro: mode_data_inv)
next
  case (O_mode_preferred m)
  assume "out_inv s"
  then show ?thesis unfolding O_mode_preferred out_step.simps mode_handle_preferred_def
    by (intro with_mode_inv) (auto intro: mode_data_inv)
next
  case (O_prop h p)
  assume "out_inv s"
  then show ?thesis unfolding O_prop out_step.simps
    by (intro with_head_inv) (simp_all add: note_display_def update_inv)
next
  case (O_head_mode h m)
  assume "out_inv s"
  then show ?thesis unfolding O_head_mode by (auto intro!: with_head_inv new_mode_inv)
next
  case (O_head_finished h)
  assume "out_inv s"
  then show ?thesis unfolding O_head_finished by (auto intro!: with_head_inv finished_inv(1))
next
  case (O_mode_finished m)
  assume "out_inv s"
  then show ?thesis unfolding O_mode_finished by (auto intro!: with_mode_inv mode_withdraw_inv)
qed (simp_all add: head_inv config_inv output_manager_done_def note_display_def)

section \<open>The announced state\<close>

text \<open>
  What the compositor has announced so far, as two maps: the properties of each head and, for each
  mode, its head and its values. A withdrawn mode gets no further events.
\<close>

record out_view =
  v_head :: "nat \<Rightarrow> head_data option"
  v_mode :: "nat \<Rightarrow> (nat \<times> int \<times> int \<times> int) option"
  v_gone :: "nat set"

definition empty_view :: out_view where
  "empty_view = \<lparr>v_head = (\<lambda>_. None), v_mode = (\<lambda>_. None), v_gone = {}\<rparr>"

definition announce_mode :: "nat \<Rightarrow> (nat \<times> int \<times> int \<times> int \<Rightarrow> nat \<times> int \<times> int \<times> int) \<Rightarrow> out_view \<Rightarrow> out_view" where
  "announce_mode m f v =
     (case v_mode v m of None \<Rightarrow> v | Some x \<Rightarrow> if m \<in> v_gone v then v else v\<lparr>v_mode := (v_mode v)(m \<mapsto> f x)\<rparr>)"

fun announce :: "out_event \<Rightarrow> out_view \<Rightarrow> out_view" where
  "announce (O_head h) v = (if v_head v h = None then v\<lparr>v_head := (v_head v)(h \<mapsto> blank_head 0 h)\<rparr> else v)"
| "announce (O_prop h p) v =
     (case v_head v h of None \<Rightarrow> v | Some x \<Rightarrow> v\<lparr>v_head := (v_head v)(h \<mapsto> head_handle_prop p x)\<rparr>)"
| "announce (O_head_mode h m) v =
     (if v_head v h = None \<or> v_mode v m \<noteq> None then v
      else v\<lparr>v_mode := (v_mode v)(m \<mapsto> (h, 0, 0, 0)), v_gone := v_gone v - {m}\<rparr>)"
| "announce (O_head_finished h) v =
     (if v_head v h = None then v
      else v\<lparr>v_head := (v_head v)(h := None),
             v_mode := (\<lambda>m. case v_mode v m of None \<Rightarrow> None | Some x \<Rightarrow> if fst x = h then None else Some x)\<rparr>)"
| "announce (O_mode_size m w ht) v = announce_mode m (\<lambda>(h, _, _, r). (h, w, ht, r)) v"
| "announce (O_mode_refresh m r) v = announce_mode m (\<lambda>(h, w, ht, _). (h, w, ht, r)) v"
| "announce (O_mode_finished m) v = (if v_mode v m = None \<or> m \<in> v_gone v then v else v\<lparr>v_gone := insert m (v_gone v)\<rparr>)"
| "announce _ v = v"

definition strip :: "head_data \<Rightarrow> head_data" where
  "strip x = x\<lparr>hd_addr := 0, hd_modes := []\<rparr>"

definition out_abs :: "out_state \<Rightarrow> out_view" where
  "out_abs s = \<lparr>v_head = (\<lambda>h. map_option strip (head_of h s)), v_mode = map_of (all_modes (o_heads s)), v_gone = o_withdrawn s\<rparr>"

lemma strip_prop: "head_handle_prop p (strip x) = strip (head_handle_prop p x)"
  by (cases p) (simp_all add: strip_def)

lemma strip_simps [simp]: "strip (x\<lparr>hd_modes := l\<rparr>) = strip x" "strip (blank_head a h) = blank_head 0 h"
  by (simp_all add: strip_def blank_head_def)

lemma abs_sel [simp]:
  "v_head (out_abs s) h = map_option strip (head_of h s)" "v_mode (out_abs s) = map_of (all_modes (o_heads s))"
  "v_gone (out_abs s) = o_withdrawn s"
  by (simp_all add: out_abs_def)

lemma out_abs_quiet [simp]:
  "out_abs (s\<lparr>o_notes := ns\<rparr>) = out_abs s" "out_abs (s\<lparr>o_sent := rs\<rparr>) = out_abs s"
  "out_abs (s\<lparr>o_fault := b\<rparr>) = out_abs s" "out_abs (s\<lparr>o_manager := c\<rparr>) = out_abs s"
  "out_abs (s\<lparr>o_next := n\<rparr>) = out_abs s" "out_abs (s\<lparr>o_config := k\<rparr>) = out_abs s"
  "out_abs (s\<lparr>o_configs := ks\<rparr>) = out_abs s" "out_abs (s\<lparr>o_mode_data := d\<rparr>) = out_abs s"
  "out_abs (s\<lparr>o_modes_live := l\<rparr>) = out_abs s"
  by (simp_all add: out_abs_def head_of_def)

lemma view_eqI: "v_head a = v_head b \<Longrightarrow> v_mode a = v_mode b \<Longrightarrow> v_gone a = v_gone b \<Longrightarrow> a = (b :: out_view)"
  by (cases a; cases b) simp

lemma abs_update_at:
  assumes "\<And>x. hd_head (f x) = hd_head x" and "\<And>x. strip (f x) = strip x"
  shows "v_head (out_abs (s\<lparr>o_heads := update_at a f (o_heads s)\<rparr>)) = v_head (out_abs s)"
  using assms by (intro ext) (auto simp: head_of_def find_update_at option.map_comp comp_def intro!: map_option_cong)

lemma live_iff: "out_inv s \<Longrightarrow> m \<in> o_modes_live s \<longleftrightarrow> map_of (all_modes (o_heads s)) m \<noteq> None"
  unfolding map_of_eq_None_iff out_inv_def modes_ok_def by auto

lemma abs_head: "head_of h s = None \<Longrightarrow> out_abs (output_manager_head h s) = announce (O_head h) (out_abs s)"
  by (rule view_eqI) (auto simp: output_manager_head_def note_display_def out_abs_def head_of_def blank_head_def strip_def fun_eq_iff)

lemma abs_prop:
  assumes "out_inv s" and "head_of h s = Some x"
  shows "out_abs (s\<lparr>o_heads := update_at (hd_addr x) (head_handle_prop p) (o_heads s)\<rparr>) = announce (O_prop h p) (out_abs s)"
proof (rule view_eqI)
  let ?s = "s\<lparr>o_heads := update_at (hd_addr x) (head_handle_prop p) (o_heads s)\<rparr>"
  have x: "x \<in> set (o_heads s)" "hd_head x = h" using assms head_of_iff [OF out_invD(1)] by auto
  have inj: "hd_addr y = hd_addr x \<longleftrightarrow> y = x" if "y \<in> set (o_heads s)" for y
    using out_invD(1) [OF assms(1)] x(1) that by (auto simp: heads_ok_def distinct_map inj_on_def)
  show "v_head (out_abs ?s) = v_head (announce (O_prop h p) (out_abs s))"
  proof
    fix k
    have "head_of k ?s = map_option (\<lambda>y. if hd_addr y = hd_addr x then head_handle_prop p y else y) (head_of k s)"
      by (simp add: head_of_def find_update_at)
    moreover have "head_of k s = Some y \<Longrightarrow> y \<in> set (o_heads s) \<and> hd_head y = k" for y
      using head_of_iff [OF out_invD(1) [OF assms(1)]] by simp
    ultimately show "v_head (out_abs ?s) k = v_head (announce (O_prop h p) (out_abs s)) k"
      using assms(2) x inj by (cases "head_of k s") (auto simp: strip_prop)
  qed
  show "v_mode (out_abs ?s) = v_mode (announce (O_prop h p) (out_abs s))"
    using assms(2) by (simp add: all_modes_update_same)
  show "v_gone (out_abs ?s) = v_gone (announce (O_prop h p) (out_abs s))" using assms(2) by simp
qed

lemma abs_new_mode:
  assumes "out_inv s" and "head_of h s = Some x" and "m \<notin> o_modes_live s"
  shows "out_abs (head_handle_mode x m s) = announce (O_head_mode h m) (out_abs s)"
proof (rule view_eqI)
  let ?e = "\<lparr>me_mode = m, me_width = 0, me_height = 0, me_refresh = 0\<rparr>"
  have x: "x \<in> set (o_heads s)" "hd_head x = h" using assms head_of_iff [OF out_invD(1)] by auto
  have new: "map_of (all_modes (o_heads s)) m = None" using live_iff [OF assms(1), of m] assms(3) by blast
  have m: "map_of (all_modes (update_at (hd_addr x) (\<lambda>x. x\<lparr>hd_modes := ?e # hd_modes x\<rparr>) (o_heads s))) =
    (map_of (all_modes (o_heads s)))(m \<mapsto> (h, 0, 0, 0))"
    using all_modes_push [OF x(1), of ?e] out_invD(1) [OF assms(1)] new x(2) by (simp add: heads_ok_def map_of_eq_None_iff)
  show "v_head (out_abs (head_handle_mode x m s)) = v_head (announce (O_head_mode h m) (out_abs s))"
    using abs_update_at [where f = "\<lambda>x. x\<lparr>hd_modes := ?e # hd_modes x\<rparr>" and s = s and a = "hd_addr x"]
    by (simp add: head_handle_mode_def head_of_def fun_eq_iff)
  show "v_mode (out_abs (head_handle_mode x m s)) = v_mode (announce (O_head_mode h m) (out_abs s))"
    using m new assms(2) by (simp add: head_handle_mode_def)
  show "v_gone (out_abs (head_handle_mode x m s)) = v_gone (announce (O_head_mode h m) (out_abs s))"
    using new assms(2) by (simp add: head_handle_mode_def)
qed

lemma abs_finished:
  assumes "out_inv s" and "head_of h s = Some x"
  shows "out_abs (head_handle_finished x s) = announce (O_head_finished h) (out_abs s)"
proof (rule view_eqI)
  have x: "x \<in> set (o_heads s)" "hd_head x = h" using assms head_of_iff [OF out_invD(1)] by auto
  have ok: "distinct (map hd_addr (o_heads s))" "distinct (map hd_head (o_heads s))" "distinct (map fst (all_modes (o_heads s)))"
    using assms(1) by (simp_all add: out_inv_parts)
  have heads: "o_heads (head_handle_finished x s) = remove_head_from_list (hd_addr x) (o_heads s)"
    by (simp add: head_handle_finished_def Let_def note_display_def fault_if_def)
  have ok': "heads_ok (head_handle_finished x s)" by (rule out_invD(1) [OF finished_inv(1) [OF assms(1) x(1)]])
  have mem: "y \<in> set (o_heads (head_handle_finished x s)) \<longleftrightarrow> y \<in> set (o_heads s) \<and> y \<noteq> x" for y
    using x(1) ok(1) unfolding heads remove_head_filter [OF ok(1)] by (auto simp: distinct_map inj_on_def)
  show "v_head (out_abs (head_handle_finished x s)) = v_head (announce (O_head_finished h) (out_abs s))"
  proof
    fix k
    have "head_of k (head_handle_finished x s) = (if k = h then None else head_of k s)"
    proof (cases "k = h")
      case True
      have "y = x" if "y \<in> set (o_heads s)" "hd_head y = h" for y
        using that x ok(2) by (auto simp: distinct_map inj_on_def)
      then have "head_of k (head_handle_finished x s) = None"
        unfolding head_of_None using mem True by (auto simp: image_iff)
      then show ?thesis using True by simp
    next
      case False
      have "head_of k (head_handle_finished x s) = Some y \<longleftrightarrow> head_of k s = Some y" for y
        using False x(2) unfolding head_of_iff [OF ok'] head_of_iff [OF out_invD(1) [OF assms(1)]] mem by auto
      then show ?thesis using False by (metis option.exhaust)
    qed
    then show "v_head (out_abs (head_handle_finished x s)) k = v_head (announce (O_head_finished h) (out_abs s)) k"
      using assms(2) by simp
  qed
  show "v_mode (out_abs (head_handle_finished x s)) = v_mode (announce (O_head_finished h) (out_abs s))"
    using all_modes_remove [OF x(1) ok, unfolded x(2)] assms(2) by (simp add: heads)
  show "v_gone (out_abs (head_handle_finished x s)) = v_gone (announce (O_head_finished h) (out_abs s))"
    using assms(2) by (simp add: head_handle_finished_def Let_def note_display_def fault_if_def)
qed

lemma abs_mode_update:
  assumes "out_inv s" and "m \<in> o_modes_live s" and "o_mode_data s m = Some md"
    and "\<And>e. me_mode (f e) = me_mode e" and "\<And>x e. snd (entry_view x (f e)) = g (snd (entry_view x e))"
  shows "out_abs (mode_update m md f (s\<lparr>o_mode_data := d\<rparr>)) = announce_mode m g (out_abs s)"
proof (rule view_eqI)
  obtain x where x: "x \<in> set (o_heads s)" "hd_addr x = md_head_data md" "m \<in> me_mode ` set (hd_modes x)"
    using out_invD(3) [OF assms(1)] assms(2,3) unfolding data_ok_def by blast
  have w: "m \<notin> o_withdrawn s" using assms(1,2,3) by (auto simp: out_inv_parts)
  have ok: "distinct (map hd_addr (o_heads s))" "distinct (map fst (all_modes (o_heads s)))"
    using assms(1) by (simp_all add: out_inv_parts)
  obtain e where e: "map_of (all_modes (o_heads s)) m = Some (snd (entry_view x e))"
    "map_of (all_modes (update_at (hd_addr x) (\<lambda>x. x\<lparr>hd_modes := update_entry m f (hd_modes x)\<rparr>) (o_heads s))) =
      (map_of (all_modes (o_heads s)))(m \<mapsto> snd (entry_view x (f e)))"
    using all_modes_entry [where f = f, OF x(1) ok x(3) assms(4)] by blast
  let ?s = "mode_update m md f (s\<lparr>o_mode_data := d\<rparr>)"
  have heads: "o_heads ?s = update_at (hd_addr x) (\<lambda>x. x\<lparr>hd_modes := update_entry m f (hd_modes x)\<rparr>) (o_heads s)"
    by (simp add: mode_update_def x(2))
  show "v_head (out_abs ?s) = v_head (announce_mode m g (out_abs s))"
    using abs_update_at [where f = "\<lambda>x. x\<lparr>hd_modes := update_entry m f (hd_modes x)\<rparr>" and s = s and a = "hd_addr x"]
    by (simp add: fun_eq_iff head_of_def heads announce_mode_def split: option.splits)
  show "v_mode (out_abs ?s) = v_mode (announce_mode m g (out_abs s))"
    using e assms(5) w by (simp add: heads announce_mode_def del: entry_view_simps)
  show "v_gone (out_abs ?s) = v_gone (announce_mode m g (out_abs s))"
    by (simp add: mode_update_def fault_if_def announce_mode_def split: option.splits)
qed

lemma out_step_abs: "out_inv s \<Longrightarrow> out_abs (out_step e s) = announce e (out_abs s)"
proof -
  assume inv: "out_inv s"
  have gone: "m \<in> o_withdrawn s \<longleftrightarrow> o_mode_data s m = None" if "m \<in> o_modes_live s" for m
    using inv that by (simp add: out_inv_parts)
  have upd: "out_abs (with_mode m (\<lambda>md s. mode_update m md f (s\<lparr>o_mode_data := d md s\<rparr>)) s) = announce_mode m g (out_abs s)"
    if "\<And>e. me_mode (f e) = me_mode e" "\<And>x e. snd (entry_view x (f e)) = g (snd (entry_view x e))" for m f g d
  proof (cases "m \<in> o_modes_live s")
    case True
    then show ?thesis using abs_mode_update [where f = f and g = g, OF inv True _ that] gone [OF True]
      live_iff [OF inv, of m] by (cases "o_mode_data s m") (auto simp: with_mode_def announce_mode_def)
  next
    case False
    then have "map_of (all_modes (o_heads s)) m = None" using live_iff [OF inv, of m] by blast
    then show ?thesis using False by (simp add: with_mode_def announce_mode_def)
  qed
  show ?thesis
  proof (cases e)
    case (O_mode_size m w h)
    then show ?thesis using upd [of "\<lambda>e. e\<lparr>me_width := w, me_height := h\<rparr>" "\<lambda>(k, _, _, r). (k, w, h, r)"]
      unfolding O_mode_size out_step.simps announce.simps mode_handle_size_def [abs_def] by simp
  next
    case (O_mode_refresh m r)
    then show ?thesis using upd [of "\<lambda>e. e\<lparr>me_refresh := r\<rparr>" "\<lambda>(k, w, h, _). (k, w, h, r)"]
      unfolding O_mode_refresh out_step.simps announce.simps mode_handle_refresh_def [abs_def] by simp
  next
    case (O_mode_preferred m)
    then show ?thesis by (simp add: with_mode_def mode_handle_preferred_def split: option.splits)
  next
    case (O_mode_finished m)
    show ?thesis
    proof (cases "m \<in> o_modes_live s")
      case True
      then have "map_of (all_modes (o_heads s)) m \<noteq> None" using live_iff [OF inv] by blast
      then show ?thesis using O_mode_finished True gone [OF True]
        by (cases "o_mode_data s m")
          (auto simp: with_mode_def mode_handle_finished_def out_abs_def head_of_def)
    next
      case False
      then have "map_of (all_modes (o_heads s)) m = None" using live_iff [OF inv] by blast
      then show ?thesis using O_mode_finished False by (simp add: with_mode_def)
    qed
  next
    case (O_head h)
    then show ?thesis using abs_head [of h s] by simp
  next
    case (O_prop h p)
    then show ?thesis using abs_prop [OF inv, of h _ p] by (cases "head_of h s") (simp_all add: with_head_def note_display_def)
  next
    case (O_head_mode h m)
    show ?thesis
    proof (cases "m \<in> o_modes_live s")
      case True
      then have "map_of (all_modes (o_heads s)) m \<noteq> None" using live_iff [OF inv] by blast
      then show ?thesis using O_head_mode True by simp
    next
      case False
      then show ?thesis using O_head_mode abs_new_mode [OF inv _ False, of h]
        by (cases "head_of h s") (simp_all add: with_head_def)
    qed
  next
    case (O_head_finished h)
    then show ?thesis using abs_finished [OF inv, of h] by (cases "head_of h s") (simp_all add: with_head_def)
  qed (simp_all add: output_manager_done_def note_display_def config_handle_reply_def begin_output_config_def
      config_head_def config_head_v2_def finish_output_config_def send_config_def fault_if_def Let_def split: option.splits)
qed

interpretation outputs: refinement out_step out_inv announce out_abs
  by unfold_locales (auto intro: out_step_inv out_step_abs)

lemma out_inv_init: "out_inv (out_init mgr)"
  by (simp add: out_inv_parts out_init_def)

lemma out_abs_init: "out_abs (out_init mgr) = empty_view"
  by (simp add: out_abs_def out_init_def empty_view_def head_of_def)

definition out_run :: "bool \<Rightarrow> out_event list \<Rightarrow> out_state" where
  "out_run mgr es = fold out_step es (out_init mgr)"

definition announced :: "out_event list \<Rightarrow> out_view" where
  "announced es = fold announce es empty_view"

lemma out_run_inv: "out_inv (out_run mgr es)"
  unfolding out_run_def by (rule outputs.run_inv [OF out_inv_init])

lemma out_run_abs: "out_abs (out_run mgr es) = announced es"
  unfolding out_run_def announced_def using outputs.run_abs [OF out_inv_init, where es = es] by (simp add: out_abs_init)

text \<open>The announced maps, read off the lists.\<close>

lemma announced_head:
  "v_head (announced es) h = Some y \<longleftrightarrow> (\<exists>x \<in> set (o_heads (out_run mgr es)). hd_head x = h \<and> y = strip x)"
  unfolding out_run_abs [of mgr es, symmetric] abs_sel using head_of_iff [OF out_invD(1) [OF out_run_inv], of h mgr es] by auto

lemma announced_mode:
  "v_mode (announced es) m = Some (h, w, ht, r) \<longleftrightarrow>
   (\<exists>x \<in> set (o_heads (out_run mgr es)). \<exists>e \<in> set (hd_modes x). hd_head x = h \<and> me_mode e = m \<and> me_width e = w \<and>
      me_height e = ht \<and> me_refresh e = r)"
proof -
  have "distinct (map fst (all_modes (o_heads (out_run mgr es))))"
    using out_invD(2) [OF out_run_inv] by (simp add: modes_ok_def)
  from map_of_eq_Some_iff [OF this] show ?thesis
    unfolding out_run_abs [of mgr es, symmetric] abs_sel by (auto simp: all_modes_def entry_view_def image_iff)
qed

lemma done_notes:
  "drop (length (o_notes s)) (o_notes (out_step (O_done serial) s)) = Set_serial serial # concat (map head_notes (o_heads s))"
  by (simp add: output_manager_done_def note_display_def)

definition done_report :: "bool \<Rightarrow> out_event list \<Rightarrow> nat \<Rightarrow> display_note list" where
  "done_report mgr es serial =
     drop (length (o_notes (out_run mgr es))) (o_notes (out_step (O_done serial) (out_run mgr es)))"

lemma concat_mem: "y \<in> set (concat (map f xs)) \<longleftrightarrow> (\<exists>x \<in> set xs. y \<in> set (f x))"
  by auto

lemma head_notes_mem:
  "Update_head (Head_object h) n d ph pos t sc en \<in> set (head_notes x) \<longleftrightarrow>
     hd_head x = h \<and> hd_name x = n \<and> hd_description x = d \<and> hd_phys x = ph \<and> hd_pos x = pos \<and> hd_transform x = t \<and>
     hd_scale x = sc \<and> hd_enabled x = en"
  "Update_head_info (Head_object h) mk md sn \<in> set (head_notes x) \<longleftrightarrow>
     hd_head x = h \<and> hd_make x = mk \<and> hd_model x = md \<and> hd_serial_number x = sn"
  "Add_mode (Head_object h) w ht r c \<in> set (head_notes x) \<longleftrightarrow>
     (\<exists>e \<in> set (hd_modes x). hd_head x = h \<and> me_width e = w \<and> me_height e = ht \<and> me_refresh e = r \<and>
        c = (hd_current_mode x = Some (me_mode e)))"
  "Set_current_mode (Head_object h) w ht r \<in> set (head_notes x) \<longleftrightarrow>
     (\<exists>e \<in> set (hd_modes x). hd_head x = h \<and> me_width e = w \<and> me_height e = ht \<and> me_refresh e = r \<and>
        hd_current_mode x = Some (me_mode e))"
  unfolding head_notes_def by (auto simp: mode_notes_def Let_def split: if_splits)

section \<open>Properties\<close>


subsection \<open>Safety\<close>

text \<open>The heads that the display manager knows: those it was told of and not told to drop.\<close>

fun known_heads :: "display_note list \<Rightarrow> nat set" where
  "known_heads [] = {}"
| "known_heads (Add_head (Head_object h) # ns) = insert h (known_heads ns)"
| "known_heads (Remove_head (Head_object h) # ns) = known_heads ns - {h}"
| "known_heads (_ # ns) = known_heads ns"

definition knows :: "out_state \<Rightarrow> nat set" where
  "knows s = known_heads (rev (o_notes s))"

text \<open>The client configures only heads that it knows.\<close>

fun well_used :: "out_event list \<Rightarrow> out_state \<Rightarrow> bool" where
  "well_used [] s = True"
| "well_used (O_config_head k # es) s = (hc_head k \<in> knows s \<and> well_used es (out_step (O_config_head k) s))"
| "well_used (O_config_head_v2 k # es) s = (hc_head k \<in> knows s \<and> well_used es (out_step (O_config_head_v2 k) s))"
| "well_used (e # es) s = well_used es (out_step e s)"

fun plain :: "display_note \<Rightarrow> bool" where
  "plain (Add_head _) = False"
| "plain (Remove_head _) = False"
| "plain _ = True"

lemma known_plain: "(\<And>n. n \<in> set ns \<Longrightarrow> plain n) \<Longrightarrow> known_heads (ns @ ms) = known_heads ms"
proof (induction ns)
  case (Cons n ns)
  have "plain n" "known_heads (ns @ ms) = known_heads ms" using Cons by simp_all
  then show ?case by (cases n) simp_all
qed simp

lemma knows_plain: "(\<And>n. n \<in> set ns \<Longrightarrow> plain n) \<Longrightarrow> knows (note_display ns s) = knows s"
  using known_plain [of "rev ns" "rev (o_notes s)"] by (simp add: knows_def note_display_def)

lemma plain_notes: "n \<in> set (prop_notes p x) \<Longrightarrow> plain n" "n \<in> set (head_notes x) \<Longrightarrow> plain n"
  by (cases p; auto) (auto simp: head_notes_def mode_notes_def Let_def split: if_splits)

lemma knows_quiet [simp]:
  "knows (s\<lparr>o_heads := xs\<rparr>) = knows s" "knows (s\<lparr>o_sent := rs\<rparr>) = knows s" "knows (s\<lparr>o_fault := b\<rparr>) = knows s"
  "knows (s\<lparr>o_manager := c\<rparr>) = knows s" "knows (s\<lparr>o_next := n\<rparr>) = knows s" "knows (s\<lparr>o_config := k\<rparr>) = knows s"
  "knows (s\<lparr>o_configs := ks\<rparr>) = knows s" "knows (s\<lparr>o_mode_data := d\<rparr>) = knows s"
  "knows (s\<lparr>o_modes_live := l\<rparr>) = knows s" "knows (s\<lparr>o_withdrawn := w\<rparr>) = knows s"
  by (simp_all add: knows_def)

lemma heads_update_at: "(\<And>x. hd_head (f x) = hd_head x) \<Longrightarrow> hd_head ` set (update_at a f xs) = hd_head ` set xs"
  by (metis list.set_map update_at_head)

lemma step_knows:
  assumes "out_inv s" and "knows s = hd_head ` set (o_heads s)"
  shows "knows (out_step e s) = hd_head ` set (o_heads (out_step e s))"
proof (cases e)
  case (O_head_finished h)
  show ?thesis
  proof (cases "head_of h s")
    case (Some x)
    then have x: "x \<in> set (o_heads s)" "hd_head x = h" using head_of_iff [OF out_invD(1) [OF assms(1)]] by auto
    have ok: "distinct (map hd_addr (o_heads s))" "distinct (map hd_head (o_heads s))"
      using out_invD(1) [OF assms(1)] by (simp_all add: heads_ok_def)
    have "hd_head ` set (remove_head_from_list (hd_addr x) (o_heads s)) = hd_head ` set (o_heads s) - {h}"
    proof -
      have "hd_addr y = hd_addr x \<longleftrightarrow> hd_head y = h" if "y \<in> set (o_heads s)" for y
        using that x ok by (auto simp: distinct_map inj_on_def)
      then show ?thesis unfolding remove_head_filter [OF ok(1)] by auto
    qed
    then show ?thesis using O_head_finished Some x assms(2)
      by (simp add: with_head_def head_handle_finished_def Let_def note_display_def fault_if_def knows_def)
  next
    case None
    then show ?thesis using O_head_finished assms(2) by (simp add: with_head_def)
  qed
next
  case (O_prop h p)
  then show ?thesis using assms(2) plain_notes(1) [of _ p]
    by (simp add: with_head_def knows_plain split: option.splits) (simp add: note_display_def heads_update_at)
next
  case (O_done serial)
  have "knows (note_display (Set_serial serial # concat (map head_notes (o_heads s))) s) = knows s"
    by (rule knows_plain) (auto dest: plain_notes(2))
  then show ?thesis using O_done assms(2) by (simp add: output_manager_done_def) (simp add: note_display_def)
next
  case (O_head h)
  then show ?thesis using assms(2) by (simp add: output_manager_head_def note_display_def knows_def blank_head_def)
next
  case (O_head_mode h m)
  then show ?thesis using assms(2) by (simp add: with_head_def head_handle_mode_def heads_update_at split: option.splits)
qed (use assms(2) in \<open>simp_all add: with_mode_def mode_handle_size_def mode_handle_refresh_def mode_handle_preferred_def
    mode_handle_finished_def mode_update_def fault_if_def heads_update_at config_handle_reply_def begin_output_config_def
    config_head_def config_head_v2_def finish_output_config_def send_config_def Let_def split: option.splits\<close>)

lemma step_fault:
  assumes "out_inv s" and "knows s = hd_head ` set (o_heads s)" and "well_used [e] s"
  shows "o_fault (out_step e s) = o_fault s"
proof (cases e)
  case (O_head_finished h)
  then show ?thesis using finished_inv(2) [OF assms(1)] head_of_iff [OF out_invD(1) [OF assms(1)], of h]
    by (simp add: with_head_def split: option.splits)
next
  case (O_mode_size m w h)
  then show ?thesis using mode_fault [OF assms(1), of m]
    by (auto simp: with_mode_def mode_handle_size_def mode_update_def fault_if_def data_at_def split: option.splits)
next
  case (O_mode_refresh m r)
  then show ?thesis using mode_fault [OF assms(1), of m]
    by (auto simp: with_mode_def mode_handle_refresh_def mode_update_def fault_if_def data_at_def split: option.splits)
next
  case (O_config_head k)
  then have "hc_head k \<in> hd_head ` set (o_heads s)" using assms(2,3) by simp
  then obtain x where "head_of (hc_head k) s = Some x" using head_of_None by (cases "head_of (hc_head k) s") blast+
  then show ?thesis using O_config_head out_invD(4) [OF assms(1)]
    by (simp add: config_head_def send_config_def fault_if_def config_ok_def Let_def split: option.splits)
next
  case (O_config_head_v2 k)
  then have "hc_head k \<in> hd_head ` set (o_heads s)" using assms(2,3) by simp
  then obtain x where "head_of (hc_head k) s = Some x" using head_of_None by (cases "head_of (hc_head k) s") blast+
  then show ?thesis using O_config_head_v2 out_invD(4) [OF assms(1)]
    by (simp add: config_head_v2_def send_config_def fault_if_def config_ok_def Let_def split: option.splits)
next
  case O_finish
  then show ?thesis using out_invD(4) [OF assms(1)]
    by (auto simp: finish_output_config_def send_config_def fault_if_def config_ok_def split: option.splits)
qed (simp_all add: with_head_def with_mode_def output_manager_head_def note_display_def head_handle_mode_def
    mode_handle_preferred_def mode_handle_finished_def output_manager_done_def config_handle_reply_def
    begin_output_config_def send_config_def split: option.splits)

lemma well_used_Cons: "well_used (e # es) s \<Longrightarrow> well_used [e] s \<and> well_used es (out_step e s)"
  by (cases e) simp_all

text \<open>
  C31: while the display manager configures only heads that it was told of and that were not removed
  since, no freed head or mode data is used, no mode object is destroyed twice, and every
  configuration request goes to an existing configuration object and names an existing head; the
  heads that the display manager knows are exactly those of the list.
\<close>

theorem outputs_safe:
  assumes "well_used es (out_init mgr)"
  shows "\<not> o_fault (out_run mgr es) \<and> knows (out_run mgr es) = hd_head ` set (o_heads (out_run mgr es))"
proof -
  have "o_fault (fold out_step es s) = o_fault s \<and> knows (fold out_step es s) = hd_head ` set (o_heads (fold out_step es s))"
    if "well_used es s" "out_inv s" "knows s = hd_head ` set (o_heads s)" for s
    using that
  proof (induction es arbitrary: s)
    case (Cons e es)
    then show ?case using well_used_Cons [OF Cons.prems(1)] step_fault [OF Cons.prems(2,3)] step_knows [OF Cons.prems(2,3)]
      out_step_inv [OF Cons.prems(2)] by simp
  qed simp
  from this [OF assms out_inv_init] show ?thesis by (simp add: out_run_def) (simp add: out_init_def knows_def)
qed

definition plug_and_apply :: "out_event list" where
  "plug_and_apply = [O_head 1, O_prop 1 (Name ''DP-1''), O_head_mode 1 10, O_mode_size 10 1920 1080, O_mode_refresh 10 60000,
     O_prop 1 (Current_mode 10), O_done 5, O_begin 5,
     O_config_head_v2 \<lparr>hc_head = 1, hc_enabled = True, hc_pos = (0, 0), hc_scale = 256, hc_transform = 0,
       hc_mode = (1920, 1080, 59940), hc_sync = 2\<rparr>,
     O_finish, O_head_finished 1]"

lemmas out_eval = out_init_def with_head_def with_mode_def head_of_def data_at_def output_manager_head_def blank_head_def
  note_display_def head_handle_mode_def mode_handle_size_def mode_handle_refresh_def mode_update_def fault_if_def update_at_def
  head_handle_finished_def output_manager_done_def head_notes_def mode_notes_def begin_output_config_def config_head_v2_def
  mode_requests_def find_mode_def send_config_def finish_output_config_def knows_def Let_def

theorem outputs_safe_witness:
  "\<not> o_fault (out_run True plug_and_apply) \<and> C_set_mode 1 1 10 \<in> set (o_sent (out_run True plug_and_apply))"
proof -
  have "well_used plug_and_apply (out_init True)" by (simp add: plug_and_apply_def out_eval)
  moreover have "C_set_mode 1 1 10 \<in> set (o_sent (out_run True plug_and_apply))"
    by (simp add: plug_and_apply_def out_run_def out_eval)
  ultimately show ?thesis using outputs_safe [of plug_and_apply True] by blast
qed

subsection \<open>Configurations\<close>

lemma find_SomeD: "List.find P xs = Some x \<Longrightarrow> x \<in> set xs \<and> P x"
  by (auto simp: find_Some_iff)

lemma find_mode_some:
  "find_mode h w ht r (out_run mgr es) = Some m \<Longrightarrow>
   \<exists>q. v_mode (announced es) m = Some (h, w, ht, q) \<and> (q = r \<or> (\<forall>k. v_mode (announced es) k \<noteq> Some (h, w, ht, r)))"
proof -
  let ?s = "out_run mgr es"
  assume m: "find_mode h w ht r ?s = Some m"
  then obtain x where x: "head_of h ?s = Some x" by (auto simp: find_mode_def split: option.splits)
  then have xs: "x \<in> set (o_heads ?s)" "hd_head x = h" using head_of_iff [OF out_invD(1) [OF out_run_inv]] by auto
  have uniq: "y = x" if "y \<in> set (o_heads ?s)" "hd_head y = h" for y
    using that xs out_invD(1) [OF out_run_inv, of mgr es] by (auto simp: heads_ok_def distinct_map inj_on_def)
  show ?thesis
  proof (cases "List.find (\<lambda>e. me_width e = w \<and> me_height e = ht \<and> me_refresh e = r) (hd_modes x)")
    case (Some e)
    then have "e \<in> set (hd_modes x)" "me_width e = w" "me_height e = ht" "me_refresh e = r" "me_mode e = m"
      using m x find_SomeD [OF Some] Some by (simp_all add: find_mode_def)
    then show ?thesis using xs unfolding announced_mode [where mgr = mgr] by blast
  next
    case None
    then obtain e where "e \<in> set (hd_modes x)" "me_width e = w" "me_height e = ht" "me_mode e = m"
      using m x by (auto simp: find_mode_def dest: find_SomeD)
    moreover have "v_mode (announced es) k \<noteq> Some (h, w, ht, r)" for k
      unfolding announced_mode [where mgr = mgr] using None uniq by (auto simp: find_None_iff)
    ultimately show ?thesis using xs unfolding announced_mode [where mgr = mgr] by blast
  qed
qed

lemma find_mode_none:
  assumes "find_mode h w ht r (out_run mgr es) = None"
  shows "v_mode (announced es) m \<noteq> Some (h, w, ht, q)"
proof
  assume "v_mode (announced es) m = Some (h, w, ht, q)"
  then obtain x e where x: "x \<in> set (o_heads (out_run mgr es))" "hd_head x = h" "e \<in> set (hd_modes x)" "me_width e = w" "me_height e = ht"
    unfolding announced_mode [where mgr = mgr] by blast
  then have "head_of h (out_run mgr es) = Some x" using head_of_iff [OF out_invD(1) [OF out_run_inv]] by blast
  then show False using assms x by (auto simp: find_mode_def find_None_iff split: option.splits)
qed

text \<open>What one call asks for, on the announced state: a mode of the head, of the requested size, and
  of the requested refresh rate when the head has such a mode; none when no mode has the size.\<close>

definition right_mode :: "out_view \<Rightarrow> head_config \<Rightarrow> nat option \<Rightarrow> bool" where
  "right_mode v k m \<longleftrightarrow> (case hc_mode k of (w, ht, r) \<Rightarrow>
     case m of
       Some i \<Rightarrow> w > 0 \<and> ht > 0 \<and> (\<exists>q. v_mode v i = Some (hc_head k, w, ht, q) \<and>
                   (q = r \<or> (\<forall>j. v_mode v j \<noteq> Some (hc_head k, w, ht, r))))
     | None \<Rightarrow> w \<le> 0 \<or> ht \<le> 0 \<or> (\<forall>j q. v_mode v j \<noteq> Some (hc_head k, w, ht, q)))"

definition wanted :: "nat \<Rightarrow> head_config \<Rightarrow> nat option \<Rightarrow> out_request list" where
  "wanted c k m =
     (if hc_enabled k
      then [C_enable_head c (hc_head k), C_set_position c (hc_head k) (fst (hc_pos k)) (snd (hc_pos k)),
            C_set_scale c (hc_head k) (hc_scale k), C_set_transform c (hc_head k) (hc_transform k)] @
           (if hc_sync k \<noteq> 2 then [C_set_adaptive_sync c (hc_head k) (nat (hc_sync k mod 2 ^ 32))] else []) @
           (case m of None \<Rightarrow> [] | Some i \<Rightarrow> [C_set_mode c (hc_head k) i])
      else [C_disable_head c (hc_head k)])"

definition chosen :: "head_config \<Rightarrow> out_state \<Rightarrow> nat option" where
  "chosen k s = (case hc_mode k of (w, ht, r) \<Rightarrow> if w > 0 \<and> ht > 0 then find_mode (hc_head k) w ht r s else None)"

lemma chosen_right: "right_mode (announced es) k (chosen k (out_run mgr es))"
proof -
  obtain w ht r where k: "hc_mode k = (w, ht, r)" by (cases "hc_mode k") auto
  show ?thesis
  proof (cases "w > 0 \<and> ht > 0")
    case True
    then show ?thesis
      using find_mode_some [of "hc_head k" w ht r mgr es] find_mode_none [of "hc_head k" w ht r mgr es]
      by (auto simp: right_mode_def chosen_def k split: option.splits)
  next
    case False
    then show ?thesis by (auto simp: right_mode_def chosen_def k)
  qed
qed

lemma chosen_heads: "o_heads t = o_heads s \<Longrightarrow> chosen k t = chosen k s"
  by (cases "hc_mode k") (simp add: chosen_def find_mode_def head_of_def)

lemma config_sends:
  assumes "o_config s = Some c"
  shows "o_sent (config_head_v2 k s) = o_sent s @ wanted c k (chosen k s)" "o_config (config_head_v2 k s) = Some c"
    "o_heads (config_head_v2 k s) = o_heads s"
  using assms by (cases "hc_mode k";
      auto simp: config_head_v2_def send_config_def fault_if_def wanted_def chosen_def mode_requests_def Let_def split: option.splits)+

lemma configs_send:
  "o_config s = Some c \<Longrightarrow>
   o_sent (fold config_head_v2 ks s) = o_sent s @ concat (map (\<lambda>k. wanted c k (chosen k s)) ks) \<and>
   o_config (fold config_head_v2 ks s) = Some c"
proof (induction ks arbitrary: s)
  case (Cons k ks)
  have "chosen j (config_head_v2 k s) = chosen j s" for j by (rule chosen_heads) (rule config_sends(3) [OF Cons.prems])
  then show ?case using Cons.IH [OF config_sends(2) [OF Cons.prems]] config_sends(1) [OF Cons.prems] by simp
qed simp

definition run_session :: "nat \<Rightarrow> head_config list \<Rightarrow> out_state \<Rightarrow> out_state" where
  "run_session serial ks s = finish_output_config (fold config_head_v2 ks (begin_output_config serial s))"


definition off_config :: head_config where
  "off_config = \<lparr>hc_head = 1, hc_enabled = False, hc_pos = (0, 0), hc_scale = 256, hc_transform = 0, hc_mode = (0, 0, 0), hc_sync = 2\<rparr>"


subsection \<open>What the display manager misses\<close>

fun note_ok :: "display_note \<Rightarrow> bool" where
  "note_ok (Update_adaptive_sync (Head_object _) _) = False"
| "note_ok (Add_head (Head_data_at _)) = False"
| "note_ok _ = True"

lemma notes_ok: "n \<in> set (head_notes x) \<Longrightarrow> note_ok n" "n \<in> set (prop_notes p x) \<Longrightarrow> note_ok n"
  by (auto simp: head_notes_def mode_notes_def Let_def split: if_splits) (cases p; simp)

interpretation sync_notes: event_machine out_step "\<lambda>s. \<forall>n \<in> set (o_notes s). note_ok n"
proof
  fix s :: out_state and e
  assume "\<forall>n \<in> set (o_notes s). note_ok n"
  then show "\<forall>n \<in> set (o_notes (out_step e s)). note_ok n"
    using notes_ok
    by (cases e) (auto simp add: with_head_def with_mode_def output_manager_head_def note_display_def head_handle_mode_def
        head_handle_finished_def mode_handle_size_def mode_handle_refresh_def mode_handle_preferred_def mode_handle_finished_def
        mode_update_def fault_if_def output_manager_done_def config_handle_reply_def begin_output_config_def config_head_def
        config_head_v2_def finish_output_config_def send_config_def Let_def split: option.splits)
qed

text \<open>
  A change of adaptive sync is reported under the address of the internal head data, which is
  never a handle that the display manager was given with \<open>add_head\<close>: it cannot find the monitor.
\<close>

theorem adaptive_sync_unmatched:
  "\<not> (Update_adaptive_sync k st \<in> set (o_notes (out_run mgr es)) \<and> Add_head k \<in> set (o_notes (out_run mgr es)))"
proof -
  have "\<forall>n \<in> set (o_notes (out_run mgr es)). note_ok n"
    unfolding out_run_def by (rule sync_notes.run_inv) (simp add: out_init_def)
  then show ?thesis by (cases k) auto
qed

text \<open>A mode that the compositor has withdrawn stays in the list: it is still reported and still used.\<close>

lemma withdrawn_mode_used:
  "10 \<in> o_withdrawn (out_run True [O_head 1, O_head_mode 1 10, O_mode_size 10 1920 1080, O_mode_finished 10]) \<and>
   find_mode 1 1920 1080 60000 (out_run True [O_head 1, O_head_mode 1 10, O_mode_size 10 1920 1080, O_mode_finished 10]) = Some 10"
  by (simp add: out_run_def out_eval mode_handle_finished_def)

end
