(* ===== verification/Lock_Auth.thy ===== *)
theory Lock_Auth
  imports C_Prelude
begin

text \<open>
  Authentication for the lock screen: \<^verbatim>\<open>src/lockscreen/pam_auth.c\<close> (the PIN daemon and PAM) and
  \<^verbatim>\<open>src/lockscreen/lock_fprint.c\<close> (the fingerprint sensor over D-Bus). PAM itself and the daemon are
  not part of the program: their answers are inputs.
\<close>

section \<open>Password and PIN\<close>

definition PAM_SUCCESS :: int where "PAM_SUCCESS = 0"
definition PAM_BUF_ERR :: int where "PAM_BUF_ERR = 5"
definition PAM_AUTH_ERR :: int where "PAM_AUTH_ERR = 7"
definition PAM_CONV_ERR :: int where "PAM_CONV_ERR = 19"
definition PAM_PROMPT_ECHO_OFF :: int where "PAM_PROMPT_ECHO_OFF = 1"

text \<open>
  What the system answers. \<open>au_socket\<close>: the daemon's socket file exists; \<open>au_connect\<close>: a connection
  could be made; \<open>au_reply\<close>: the bytes that arrived in time for a request. \<open>au_pam_start\<close> and \<open>au_pam\<close> are the PAM
  library, which gets the conversation function.
\<close>

type_synonym conversation = "bool \<Rightarrow> int list \<Rightarrow> int + string option list"

record auth_env =
  au_uid :: nat
  au_socket :: bool
  au_connect :: bool
  au_reply :: "string \<Rightarrow> string option"
  au_pam_start :: "string \<Rightarrow> string \<Rightarrow> int"
  au_pam :: "string \<Rightarrow> conversation \<Rightarrow> int"

definition verify_request :: "nat \<Rightarrow> string \<Rightarrow> string" where
  "verify_request uid pin = ''verify'' @ [NL] @ show_nat uid @ [NL] @ pin @ [NL]"

definition reply_ok :: "string \<Rightarrow> bool" where
  "reply_ok b = (let buf = take 15 b in length buf \<ge> 2 \<and> buf ! 0 = CHR ''O'' \<and> buf ! 1 = CHR ''K'')"

definition daemon_verify :: "auth_env \<Rightarrow> string \<Rightarrow> int" where
  "daemon_verify env pin =
     (if \<not> au_connect env then -1
      else case au_reply env (verify_request (au_uid env) pin) of
             None \<Rightarrow> 1
           | Some b \<Rightarrow> if reply_ok b then 0 else 1)"

text \<open>The conversation answers every hidden prompt with the password; \<open>mem\<close>: the reply array could be allocated.\<close>

definition pam_conv_func :: "string \<Rightarrow> conversation" where
  "pam_conv_func password mem styles =
     (if styles = [] then Inl PAM_CONV_ERR
      else if \<not> mem then Inl PAM_BUF_ERR
      else Inr (map (\<lambda>st. if st = PAM_PROMPT_ECHO_OFF then Some password else None) styles))"

definition pam_authenticate :: "auth_env \<Rightarrow> string \<Rightarrow> string \<Rightarrow> int" where
  "pam_authenticate env user password =
     (let r = (if au_socket env then daemon_verify env password else -1)
      in if r \<ge> 0 then (if r = 0 then PAM_SUCCESS else PAM_AUTH_ERR)
         else let ret = au_pam_start env ''singularity-lockscreen'' user
              in if ret \<noteq> PAM_SUCCESS then ret else au_pam env user (pam_conv_func password))"

text \<open>The specification: the PIN daemon decides when it can be reached, PAM otherwise.\<close>

definition authentic :: "auth_env \<Rightarrow> string \<Rightarrow> string \<Rightarrow> bool" where
  "authentic env user password \<longleftrightarrow>
     (if au_socket env \<and> au_connect env
      then (\<exists>rest. au_reply env (verify_request (au_uid env) password) = Some (''OK'' @ rest))
      else au_pam_start env ''singularity-lockscreen'' user = 0 \<and> au_pam env user (pam_conv_func password) = 0)"

lemma reply_ok_iff: "reply_ok b \<longleftrightarrow> (\<exists>rest. b = ''OK'' @ rest)"
proof (cases b)
  case (Cons x xs)
  then show ?thesis by (cases xs) (auto simp: reply_ok_def Let_def)
qed (simp add: reply_ok_def Let_def)

lemma pam_authenticate_iff: "pam_authenticate env user password = 0 \<longleftrightarrow> authentic env user password"
proof (cases "au_socket env \<and> au_connect env")
  case True
  then show ?thesis
    by (cases "au_reply env (verify_request (au_uid env) password)")
      (simp_all add: pam_authenticate_def daemon_verify_def authentic_def reply_ok_iff PAM_SUCCESS_def PAM_AUTH_ERR_def Let_def)
next
  case False
  then show ?thesis by (auto simp: pam_authenticate_def daemon_verify_def authentic_def PAM_SUCCESS_def Let_def)
qed

section \<open>Fingerprint\<close>

datatype fp_op = Op_manager | Op_default_device | Op_device | Op_fingers | Op_claim | Op_verify

datatype fp_call =
    Get_default_device
  | List_enrolled_fingers string
  | Claim string
  | Verify_start
  | Verify_stop
  | Release

datatype fp_callback = Matched | Status string bool

text \<open>
  \<open>fp_live\<close>: the cancellable exists and is not cancelled. \<open>fp_pending\<close>: the asynchronous calls whose
  callbacks have not run; those of a cancelled call run with an error. \<open>fp_fault\<close>: a call on a device
  that is gone or with a user name that was freed.
\<close>

record fp_state =
  fp_live :: bool
  fp_device :: bool
  fp_claimed :: bool
  fp_verifying :: bool
  fp_user :: "string option"
  fp_pending :: "fp_op list"
  fp_calls :: "fp_call list"
  fp_fault :: bool

definition fp_init :: fp_state where
  "fp_init = \<lparr>fp_live = False, fp_device = False, fp_claimed = False, fp_verifying = False, fp_user = None,
     fp_pending = [], fp_calls = [], fp_fault = False\<rparr>"

definition dbus :: "fp_call \<Rightarrow> fp_state \<Rightarrow> fp_state" where
  "dbus c s = s\<lparr>fp_calls := fp_calls s @ [c]\<rparr>"

definition async :: "fp_op \<Rightarrow> fp_state \<Rightarrow> fp_state" where
  "async op s = s\<lparr>fp_pending := op # fp_pending s\<rparr>"

definition start_verify :: "fp_state \<Rightarrow> fp_state" where
  "start_verify s = async Op_verify (dbus Verify_start (s\<lparr>fp_fault := fp_fault s \<or> \<not> fp_device s\<rparr>))"

definition restart_verify :: "fp_state \<Rightarrow> fp_state" where
  "restart_verify s = (if \<not> fp_device s \<or> \<not> fp_claimed s then s else start_verify (dbus Verify_stop s))"

definition on_verify_started :: "bool \<Rightarrow> fp_state \<Rightarrow> fp_state \<times> fp_callback list" where
  "on_verify_started ok s =
     (if \<not> ok then (s\<lparr>fp_verifying := False\<rparr>, [])
      else (s\<lparr>fp_verifying := True\<rparr>, [Status ''Touch the fingerprint sensor or type your password'' False]))"

definition on_claimed :: "bool \<Rightarrow> fp_state \<Rightarrow> fp_state" where
  "on_claimed ok s = (if \<not> ok then s else start_verify (s\<lparr>fp_claimed := True\<rparr>))"

definition with_user :: "(string \<Rightarrow> fp_call) \<Rightarrow> fp_op \<Rightarrow> fp_state \<Rightarrow> fp_state" where
  "with_user c op s =
     (case fp_user s of
        None \<Rightarrow> s\<lparr>fp_fault := True\<rparr>
      | Some u \<Rightarrow> async op (dbus (c u) (s\<lparr>fp_fault := fp_fault s \<or> \<not> fp_device s\<rparr>)))"

text \<open>\<open>on_fingers\<close>: the number of enrolled fingers, or an error.\<close>

definition on_fingers :: "nat option \<Rightarrow> fp_state \<Rightarrow> fp_state" where
  "on_fingers reply s =
     (case reply of None \<Rightarrow> s | Some n \<Rightarrow> if n = 0 then s else with_user Claim Op_claim s)"

definition on_device :: "bool \<Rightarrow> fp_state \<Rightarrow> fp_state" where
  "on_device ok s =
     (if \<not> ok then s\<lparr>fp_device := False\<rparr> else with_user List_enrolled_fingers Op_fingers (s\<lparr>fp_device := True\<rparr>))"

definition on_default_device :: "bool \<Rightarrow> fp_state \<Rightarrow> fp_state" where
  "on_default_device ok s = (if \<not> ok then s else async Op_device s)"

definition on_manager :: "bool \<Rightarrow> fp_state \<Rightarrow> fp_state" where
  "on_manager ok s = (if \<not> ok then s else async Op_default_device (dbus Get_default_device s))"

definition verify_text :: "string \<Rightarrow> string option" where
  "verify_text r =
     (if r = ''verify-no-match'' then Some ''Fingerprint not recognized, try again''
      else if r = ''verify-swipe-too-short'' then Some ''Swipe was too short, try again''
      else if r = ''verify-finger-not-centered'' then Some ''Center your finger on the sensor''
      else if r = ''verify-remove-and-retry'' then Some ''Lift your finger and try again''
      else if r = ''verify-retry-scan'' then Some ''Touch the sensor again''
      else None)"

definition on_signal :: "string \<Rightarrow> string \<Rightarrow> bool \<Rightarrow> fp_state \<Rightarrow> fp_state \<times> fp_callback list" where
  "on_signal signal result finished s =
     (if signal \<noteq> ''VerifyStatus'' then (s, [])
      else if result = ''verify-match'' then (s\<lparr>fp_verifying := False\<rparr>, [Matched])
      else if result = ''verify-disconnected''
      then (s\<lparr>fp_verifying := False\<rparr>, [Status ''The fingerprint sensor was disconnected'' True])
      else (if finished then restart_verify s else s,
            case verify_text result of None \<Rightarrow> [] | Some t \<Rightarrow> [Status t True]))"

definition lock_fprint_start :: "string \<Rightarrow> fp_state \<Rightarrow> fp_state" where
  "lock_fprint_start user s =
     (if user = [] \<or> fp_live s then s else async Op_manager (s\<lparr>fp_user := Some user, fp_live := True\<rparr>))"

definition lock_fprint_stop :: "fp_state \<Rightarrow> fp_state" where
  "lock_fprint_stop s =
     (let s1 = (if fp_device s \<and> fp_claimed s then dbus Release (if fp_verifying s then dbus Verify_stop s else s) else s)
      in s1\<lparr>fp_live := False, fp_verifying := False, fp_claimed := False, fp_device := False, fp_user := None\<rparr>)"

text \<open>
  A callback runs once for its pending call, with an error when the call was cancelled; signals
  arrive while the device proxy exists.
\<close>

datatype fp_event =
    Fp_reply fp_op "nat option"
  | Fp_signal string string bool

definition complete :: "fp_op \<Rightarrow> fp_state \<Rightarrow> fp_state" where
  "complete op s = s\<lparr>fp_pending := remove1 op (fp_pending s)\<rparr>"

fun fp_handle :: "fp_event \<Rightarrow> fp_state \<Rightarrow> fp_state \<times> fp_callback list" where
  "fp_handle (Fp_reply op reply) s =
     (if op \<notin> set (fp_pending s) then (s, [])
      else
        let r = (if fp_live s then reply else None); ok = (r \<noteq> None); s1 = complete op s
        in case op of
             Op_manager \<Rightarrow> (on_manager ok s1, [])
           | Op_default_device \<Rightarrow> (on_default_device ok s1, [])
           | Op_device \<Rightarrow> (on_device ok s1, [])
           | Op_fingers \<Rightarrow> (on_fingers r s1, [])
           | Op_claim \<Rightarrow> (on_claimed ok s1, [])
           | Op_verify \<Rightarrow> on_verify_started ok s1)"
| "fp_handle (Fp_signal signal result finished) s =
     (if fp_device s then on_signal signal result finished s else (s, []))"

text \<open>
  The chain of calls: a device is looked for once, the sensor is claimed on an existing device and
  verification is started on a claimed one.
\<close>

definition fp_inv :: "fp_state \<Rightarrow> bool" where
  "fp_inv s \<longleftrightarrow> \<not> fp_fault s \<and> (fp_verifying s \<longrightarrow> fp_claimed s) \<and> (fp_claimed s \<longrightarrow> fp_device s) \<and> (fp_device s \<longrightarrow> fp_live s) \<and>
     (fp_live s \<longrightarrow> fp_user s \<noteq> None \<and>
        (Op_fingers \<in> set (fp_pending s) \<or> Op_claim \<in> set (fp_pending s) \<longrightarrow> fp_device s) \<and>
        (Op_verify \<in> set (fp_pending s) \<longrightarrow> fp_claimed s) \<and>
        count_list (fp_pending s) Op_manager + count_list (fp_pending s) Op_default_device +
          count_list (fp_pending s) Op_device + (if fp_device s then 1 else 0) \<le> 1)"

lemmas fp_defs = fp_inv_def dbus_def async_def start_verify_def restart_verify_def on_verify_started_def on_claimed_def
  with_user_def on_fingers_def on_device_def on_default_device_def on_manager_def on_signal_def complete_def

lemma count_remove1: "count_list (remove1 x xs) y = (if x = y then count_list xs y - 1 else count_list xs y)"
  by (induction xs) (auto simp: count_list_0_iff)

lemma count_pos: "x \<in> set xs \<longleftrightarrow> 0 < count_list xs x"
  by (metis count_list_0_iff neq0_conv)

lemma fp_start_inv: "fp_inv (lock_fprint_start user fp_init)"
  by (simp add: fp_defs lock_fprint_start_def fp_init_def)

lemma fp_stop_inv: "fp_inv s \<Longrightarrow> fp_inv (lock_fprint_stop s)"
proof -
  assume "fp_inv s"
  then have "\<not> fp_fault s" unfolding fp_inv_def by blast
  then show ?thesis by (simp add: fp_inv_def lock_fprint_stop_def dbus_def Let_def)
qed

lemma in_remove1: "x \<in> set (remove1 y xs) \<Longrightarrow> x \<in> set xs"
  by (rule subsetD [OF set_remove1_subset])

lemma fp_handle_inv: "fp_inv s \<Longrightarrow> fp_inv (fst (fp_handle e s))"
proof (cases e)
  case (Fp_reply op reply)
  assume inv: "fp_inv s"
  show ?thesis
  proof (cases "op \<in> set (fp_pending s)")
    case True
    then have "0 < count_list (fp_pending s) op" by (simp add: count_pos)
    with inv True show ?thesis unfolding Fp_reply
      by (cases op; cases "fp_live s"; cases reply)
        (auto simp: fp_defs Let_def count_remove1 dest!: in_remove1 split: option.splits if_splits)
  qed (use inv Fp_reply in simp)
next
  case (Fp_signal signal result finished)
  assume "fp_inv s"
  then show ?thesis unfolding Fp_signal
    by (cases "fp_live s") (auto simp: fp_defs split: if_splits)
qed

end
