(* ===== verification/Lock_Screen.thy ===== *)
theory Lock_Screen
  imports Complex_Main Lock_Auth
begin

text \<open>
  The session lock, \<^verbatim>\<open>src/lockscreen/lock_main.c\<close>: outputs and their lock surfaces, the password buffer,
  the animation phases and the unlock. Outputs and surfaces have numbers of their own; \<open>k_alive\<close> says
  that the \<open>ext_session_lock_v1\<close> object exists, \<open>k_unlocks\<close> counts the unlock requests. A handler reads
  the monotonic clock once (\<open>vw_now\<close>); \<open>vw_fail\<close> are the outputs for which no buffer can be made. What is
  drawn is not modelled. Every handler returns right after \<open>unlock_session\<close>, so the events that its
  round trip handles are ordinary events of the machine, and \<open>L_returned\<close> is the end of that round trip.
\<close>

section \<open>State\<close>

datatype lock_phase = Phase_idle | Phase_enter | Phase_leave

datatype lock_status = No_status | Authenticating | Unlocking | Incorrect_pin | Incorrect_password | Hint string

record lock_output =
  lo_addr :: nat
  lo_name :: nat
  lo_surface :: "nat option"
  lo_size :: "nat \<times> nat"
  lo_configured :: bool
  lo_frame :: bool

datatype lock_log = Tried auth_env string string | Finger_matched

datatype media_call = Media_prev | Media_play_pause | Media_next

text \<open>The keyboard state of xkbcommon: none yet, usable, or freed while still referenced.\<close>

datatype xkb_state = Xkb_none | Xkb_ok | Xkb_freed

record lock_state =
  k_outputs :: "lock_output list"
  k_next :: nat
  k_surfaces :: nat
  k_lock :: bool
  k_alive :: bool
  k_locked :: bool
  k_running :: bool
  k_phase :: lock_phase
  k_anim_start :: int
  k_anim_ms :: real
  k_shake :: int
  k_reduced :: bool
  k_scale :: real
  k_xkb :: xkb_state
  k_password :: "char list"
  k_len :: nat
  k_status :: lock_status
  k_status_error :: bool
  k_user :: string
  k_ptr :: "nat option"
  k_fp :: fp_state
  k_log :: "lock_log list"
  k_media :: "media_call list"
  k_unlocks :: nat
  k_unlocking :: nat
  k_early_unlock :: bool
  k_lock_fault :: bool
  k_ptr_fault :: bool
  k_read_fault :: bool
  k_xkb_fault :: bool

record view =
  vw_now :: int
  vw_fail :: "nat set"

section \<open>Rendering\<close>

definition start_phase :: "lock_phase \<Rightarrow> real \<Rightarrow> lock_state \<Rightarrow> lock_state" where
  "start_phase phase ms s =
     s\<lparr>k_phase := phase, k_anim_start := -1, k_anim_ms := (if k_reduced s then 140 else ms) * k_scale s\<rparr>"

text \<open>The part of \<open>shake_offset\<close> that changes the state: the shake ends when its envelope is below 0.4 pixels.\<close>

definition shake_envelope :: "real \<Rightarrow> real" where
  "shake_envelope t =
     (let omega = sqrt 300; zeta = 14 / (2 * omega); omega_d = omega * sqrt (1 - zeta * zeta)
      in 520 / omega_d * exp (- zeta * omega * t))"

definition shake_offset :: "int \<Rightarrow> lock_state \<Rightarrow> lock_state" where
  "shake_offset now s =
     (if k_shake s < 0 then s
      else if shake_envelope (real_of_int (now - k_shake s) / 1000000 / k_scale s) < 4 / 10 then s\<lparr>k_shake := -1\<rparr> else s)"

definition advance_phase :: "int \<Rightarrow> lock_state \<Rightarrow> bool \<times> lock_state" where
  "advance_phase now s =
     (if k_phase s = Phase_idle then (False, s)
      else
        let start = (if k_anim_start s < 0 then now else k_anim_start s);
            t = (if k_anim_ms s > 0 then real_of_int (now - start) / 1000 / k_anim_ms s else 1);
            s0 = s\<lparr>k_anim_start := start\<rparr>
        in if t \<ge> 1 then (False, if k_phase s = Phase_leave then s0 else s0\<lparr>k_phase := Phase_idle\<rparr>)
           else (True, s0))"

definition apply_motion :: "int \<Rightarrow> lock_state \<Rightarrow> bool \<times> lock_state" where
  "apply_motion now s =
     (case advance_phase now s of (animating, s1) \<Rightarrow>
        let s2 = shake_offset now s1 in (animating \<or> k_shake s2 \<ge> 0, s2))"

definition output_at :: "nat \<Rightarrow> lock_state \<Rightarrow> lock_output option" where
  "output_at a s = List.find (\<lambda>x. lo_addr x = a) (k_outputs s)"

definition put_output :: "lock_output \<Rightarrow> lock_state \<Rightarrow> lock_state" where
  "put_output x s = s\<lparr>k_outputs := map (\<lambda>y. if lo_addr y = lo_addr x then x else y) (k_outputs s)\<rparr>"

definition render_output :: "view \<Rightarrow> lock_output \<Rightarrow> lock_state \<Rightarrow> lock_state" where
  "render_output v x s =
     (if lo_frame x then s
      else if lo_addr x \<in> vw_fail v then s
      else case apply_motion (vw_now v) s of (animating, s1) \<Rightarrow>
             if animating \<or> k_phase s1 = Phase_leave then put_output (x\<lparr>lo_frame := True\<rparr>) s1 else s1)"

fun render_list :: "view \<Rightarrow> lock_output list \<Rightarrow> lock_state \<Rightarrow> lock_state" where
  "render_list v [] s = s"
| "render_list v (x # xs) s = render_list v xs (if lo_configured x then render_output v x s else s)"

definition render_all :: "view \<Rightarrow> lock_state \<Rightarrow> lock_state" where
  "render_all v s = render_list v (k_outputs s) s"

section \<open>Surfaces\<close>

text \<open>\<open>lock\<close> keeps its value after the object is destroyed: the check for \<open>NULL\<close> does not see that.\<close>

definition create_lock_surface :: "nat \<Rightarrow> lock_state \<Rightarrow> lock_state" where
  "create_lock_surface a s =
     (case output_at a s of
        None \<Rightarrow> s
      | Some x \<Rightarrow>
          if lo_surface x \<noteq> None \<or> \<not> k_lock s then s
          else (put_output (x\<lparr>lo_surface := Some (k_surfaces s)\<rparr>) s)
                 \<lparr>k_surfaces := Suc (k_surfaces s), k_lock_fault := k_lock_fault s \<or> \<not> k_alive s\<rparr>)"

definition lock_surface_configure :: "view \<Rightarrow> nat \<Rightarrow> nat \<Rightarrow> lock_output \<Rightarrow> lock_state \<Rightarrow> lock_state" where
  "lock_surface_configure v w h x s =
     (let x1 = x\<lparr>lo_size := (w, h), lo_configured := True\<rparr> in render_output v x1 (put_output x1 s))"

definition lock_locked :: "lock_state \<Rightarrow> lock_state" where
  "lock_locked s = fold create_lock_surface (map lo_addr (k_outputs s)) (s\<lparr>k_locked := True\<rparr>)"

definition lock_finished :: "lock_state \<Rightarrow> lock_state" where
  "lock_finished s = s\<lparr>k_running := False\<rparr>"

section \<open>Unlocking\<close>

definition unlock_session :: "lock_state \<Rightarrow> lock_state" where
  "unlock_session s =
     s\<lparr>k_fp := lock_fprint_stop (k_fp s), k_unlocks := Suc (k_unlocks s), k_unlocking := Suc (k_unlocking s),
       k_lock_fault := k_lock_fault s \<or> \<not> k_alive s, k_early_unlock := k_early_unlock s \<or> \<not> k_locked s, k_alive := False\<rparr>"

definition begin_leave :: "view \<Rightarrow> lock_state \<Rightarrow> lock_state" where
  "begin_leave v s =
     (if k_phase s = Phase_leave then s
      else if \<not> (\<exists>x \<in> set (k_outputs s). lo_configured x) then unlock_session s
      else render_all v (start_phase Phase_leave 320 (s\<lparr>k_shake := -1\<rparr>)))"

definition frame_done :: "view \<Rightarrow> lock_output \<Rightarrow> lock_state \<Rightarrow> lock_state" where
  "frame_done v x s =
     (let x1 = x\<lparr>lo_frame := False\<rparr>; s1 = put_output x1 s
      in if k_phase s1 = Phase_leave \<and> k_anim_start s1 \<ge> 0 \<and>
            real_of_int (vw_now v - k_anim_start s1) / 1000 \<ge> k_anim_ms s1
         then unlock_session (s1\<lparr>k_phase := Phase_idle\<rparr>)
         else render_output v x1 s1)"

definition on_fprint_match :: "view \<Rightarrow> lock_state \<Rightarrow> lock_state" where
  "on_fprint_match v s =
     begin_leave v (render_all v (s\<lparr>k_log := k_log s @ [Finger_matched], k_status := Unlocking, k_status_error := False\<rparr>))"

definition on_fprint_status :: "view \<Rightarrow> string \<Rightarrow> bool \<Rightarrow> lock_state \<Rightarrow> lock_state" where
  "on_fprint_status v t err s =
     (if k_len s > 0 then s else render_all v (s\<lparr>k_status := Hint t, k_status_error := err\<rparr>))"

definition submit_password :: "view \<Rightarrow> auth_env \<Rightarrow> lock_state \<Rightarrow> lock_state" where
  "submit_password v env s =
     (if k_len s = 0 then s
      else
        let s1 = render_all v (s\<lparr>k_password := (k_password s)[k_len s := NUL], k_status := Authenticating, k_status_error := False\<rparr>);
            pw = cstr (k_password s1);
            rc = pam_authenticate env (k_user s1) pw;
            s2 = s1\<lparr>k_log := k_log s1 @ [Tried env (k_user s1) pw], k_password := replicate 1024 NUL, k_len := 0\<rparr>
        in if rc = 0 then begin_leave v s2
           else render_all v (s2\<lparr>k_shake := (if k_reduced s2 then k_shake s2 else vw_now v),
                  k_status := (if au_socket env then Incorrect_pin else Incorrect_password), k_status_error := True\<rparr>))"

section \<open>Keyboard\<close>

text \<open>
  A key as xkbcommon reports it: its keysym and the bytes of its text. \<open>xkb_state_key_get_utf8\<close> returns
  the full length and writes at most seven bytes and a terminator into the buffer of eight; the copy of a
  longer text reads past that buffer (bytes that are not known, here \<open>NUL\<close>).
\<close>

datatype keysym = Sym_return | Sym_backspace | Sym_escape | Sym_media media_call | Sym_other

definition utf8_buffer :: "string \<Rightarrow> string" where
  "utf8_buffer u = take 7 u @ replicate (max 8 (length u) - min 7 (length u)) NUL"

definition key_fits :: "string \<Rightarrow> lock_state \<Rightarrow> bool" where
  "key_fits u s \<longleftrightarrow> length u > 0 \<and> of_char (utf8_buffer u ! 0) \<ge> (0x20 :: nat) \<and> k_len s + length u < 1024 - 1"

definition key_text :: "string \<Rightarrow> lock_state \<Rightarrow> lock_state" where
  "key_text u s =
     s\<lparr>k_password := take (k_len s) (k_password s) @ take (length u) (utf8_buffer u) @ drop (k_len s + length u) (k_password s),
       k_len := k_len s + length u, k_read_fault := k_read_fault s \<or> length u > 8\<rparr>"

definition kb_key :: "view \<Rightarrow> auth_env \<Rightarrow> bool \<Rightarrow> keysym \<Rightarrow> string \<Rightarrow> lock_state \<Rightarrow> lock_state" where
  "kb_key v env pressed ks u s =
     (if k_xkb s = Xkb_none \<or> \<not> pressed then s
      else if k_phase s = Phase_leave then s
      else if k_xkb s = Xkb_freed then s\<lparr>k_xkb_fault := True\<rparr>
      else case ks of
             Sym_return \<Rightarrow> submit_password v env s
           | Sym_backspace \<Rightarrow>
               render_all v ((if k_len s > 0
                  then s\<lparr>k_len := k_len s - 1, k_password := (k_password s)[k_len s - 1 := NUL]\<rparr> else s)\<lparr>k_status := No_status\<rparr>)
           | Sym_escape \<Rightarrow>
               render_all v (s\<lparr>k_len := 0, k_password := (k_password s)[0 := NUL], k_status := No_status\<rparr>)
           | Sym_media m \<Rightarrow> s\<lparr>k_media := k_media s @ [m]\<rparr>
           | Sym_other \<Rightarrow>
               if key_fits u s then render_all v ((key_text u s)\<lparr>k_status := No_status\<rparr>) else s)"

text \<open>
  A keymap: refused for its format or mapping, or compiled, or not. The old state is released before
  the new keymap is compiled, and its pointer is kept when that fails.
\<close>

datatype keymap = Keymap_refused | Keymap_compiled | Keymap_broken

definition kb_keymap :: "keymap \<Rightarrow> lock_state \<Rightarrow> lock_state" where
  "kb_keymap m s =
     (if m = Keymap_refused then s
      else s\<lparr>k_xkb_fault := k_xkb_fault s \<or> k_xkb s = Xkb_freed,
             k_xkb := (if m = Keymap_compiled then Xkb_ok else if k_xkb s = Xkb_none then Xkb_none else Xkb_freed)\<rparr>)"

definition kb_modifiers :: "lock_state \<Rightarrow> lock_state" where
  "kb_modifiers s = s\<lparr>k_xkb_fault := k_xkb_fault s \<or> k_xkb s = Xkb_freed\<rparr>"

section \<open>Pointer\<close>

definition pt_enter :: "nat \<Rightarrow> lock_state \<Rightarrow> lock_state" where
  "pt_enter sf s = s\<lparr>k_ptr := map_option lo_addr (List.find (\<lambda>x. lo_surface x = Some sf) (k_outputs s))\<rparr>"

definition pt_leave :: "lock_state \<Rightarrow> lock_state" where
  "pt_leave s = s\<lparr>k_ptr := None\<rparr>"

text \<open>\<open>hit\<close>: the media button under the pointer on the output that is entered, if its buttons are shown.\<close>

definition pt_button :: "media_call option \<Rightarrow> lock_state \<Rightarrow> lock_state" where
  "pt_button hit s =
     (case k_ptr s of
        None \<Rightarrow> s
      | Some a \<Rightarrow>
          if output_at a s = None then s\<lparr>k_ptr_fault := True\<rparr>
          else (case hit of None \<Rightarrow> s | Some m \<Rightarrow> s\<lparr>k_media := k_media s @ [m]\<rparr>))"

section \<open>Registry\<close>

definition reg_global_output :: "nat \<Rightarrow> lock_state \<Rightarrow> lock_state" where
  "reg_global_output name s =
     (let a = k_next s;
          s1 = s\<lparr>k_next := Suc a, k_outputs := \<lparr>lo_addr = a, lo_name = name, lo_surface = None, lo_size = (0, 0),
                   lo_configured = False, lo_frame = False\<rparr> # k_outputs s\<rparr>
      in if k_locked s1 then create_lock_surface a s1 else s1)"

definition reg_remove :: "nat \<Rightarrow> lock_state \<Rightarrow> lock_state" where
  "reg_remove name s =
     (case List.find (\<lambda>x. lo_name x = name) (k_outputs s) of
        None \<Rightarrow> s
      | Some dead \<Rightarrow>
          let s1 = s\<lparr>k_outputs := remove1 dead (k_outputs s)\<rparr>
          in if k_phase s1 = Phase_leave \<and> \<not> (\<exists>x \<in> set (k_outputs s1). lo_configured x) then unlock_session s1 else s1)"

section \<open>The machine\<close>

datatype lock_event =
    L_output nat
  | L_remove nat
  | L_locked
  | L_finished
  | L_configure view nat nat nat
  | L_frame view nat
  | L_keymap keymap
  | L_modifiers
  | L_key view auth_env bool keysym string
  | L_pt_enter nat
  | L_pt_leave
  | L_pt_button "media_call option"
  | L_fprint view fp_event
  | L_repaint view
  | L_returned

definition fp_callback :: "view \<Rightarrow> fp_callback \<Rightarrow> lock_state \<Rightarrow> lock_state" where
  "fp_callback v c s = (case c of Matched \<Rightarrow> on_fprint_match v s | Status t err \<Rightarrow> on_fprint_status v t err s)"

text \<open>
  Surface and frame events reach existing objects; keys arrive only after a surface was created.
  \<open>L_repaint\<close> is the repaint once a minute and on changes of media and notifications.
\<close>

fun lock_step :: "lock_event \<Rightarrow> lock_state \<Rightarrow> lock_state" where
  "lock_step (L_output name) s = reg_global_output name s"
| "lock_step (L_remove name) s = reg_remove name s"
| "lock_step L_locked s = (if k_alive s then lock_locked s else s)"
| "lock_step L_finished s = (if k_alive s then lock_finished s else s)"
| "lock_step (L_configure v a w h) s =
     (case output_at a s of None \<Rightarrow> s | Some x \<Rightarrow> if lo_surface x = None then s else lock_surface_configure v w h x s)"
| "lock_step (L_frame v a) s =
     (case output_at a s of None \<Rightarrow> s | Some x \<Rightarrow> if lo_frame x then frame_done v x s else s)"
| "lock_step (L_keymap m) s = kb_keymap m s"
| "lock_step L_modifiers s = kb_modifiers s"
| "lock_step (L_key v env pressed ks u) s = (if k_surfaces s = 0 then s else kb_key v env pressed ks u s)"
| "lock_step (L_pt_enter sf) s = pt_enter sf s"
| "lock_step L_pt_leave s = pt_leave s"
| "lock_step (L_pt_button hit) s = pt_button hit s"
| "lock_step (L_fprint v e) s =
     (case fp_handle e (k_fp s) of (fp, cs) \<Rightarrow> fold (fp_callback v) cs (s\<lparr>k_fp := fp\<rparr>))"
| "lock_step (L_repaint v) s = render_all v s"
| "lock_step L_returned s =
     (if k_unlocking s = 0 then s else s\<lparr>k_unlocking := k_unlocking s - 1, k_running := False\<rparr>)"

text \<open>
  \<open>main\<close>: \<open>globals\<close> says whether compositor, shared memory, lock manager and seat were announced. The
  events \<open>es0\<close> are handled before the lock is requested, \<open>es1\<close> in the round trip after it, \<open>es\<close> by the loop.
\<close>

definition lock_boot :: "string \<Rightarrow> bool \<Rightarrow> real \<Rightarrow> lock_state" where
  "lock_boot user reduced scale =
     start_phase Phase_enter 380
       \<lparr>k_outputs = [], k_next = 0, k_surfaces = 0, k_lock = False, k_alive = False, k_locked = False, k_running = True,
         k_phase = Phase_idle, k_anim_start = -1, k_anim_ms = 0, k_shake = -1, k_reduced = reduced, k_scale = scale,
         k_xkb = Xkb_none, k_password = replicate 1024 NUL, k_len = 0, k_status = No_status, k_status_error = False,
         k_user = user, k_ptr = None, k_fp = fp_init, k_log = [], k_media = [], k_unlocks = 0, k_unlocking = 0,
         k_early_unlock = False, k_lock_fault = False, k_ptr_fault = False, k_read_fault = False, k_xkb_fault = False\<rparr>"

definition request_lock :: "lock_state \<Rightarrow> lock_state" where
  "request_lock s = s\<lparr>k_lock := True, k_alive := True\<rparr>"

definition lock_main :: "string \<Rightarrow> bool \<Rightarrow> real \<Rightarrow> bool \<Rightarrow> lock_event list \<Rightarrow> lock_event list \<Rightarrow> lock_event list \<Rightarrow> lock_state option" where
  "lock_main user reduced scale globals es0 es1 es =
     (let s0 = fold lock_step es0 (lock_boot user reduced scale)
      in if \<not> globals then None
         else let s1 = fold lock_step es1 (request_lock s0);
                  s2 = s1\<lparr>k_fp := lock_fprint_start (k_user s1) (k_fp s1)\<rparr>
              in Some (fold lock_step es s2))"

section \<open>What rendering leaves alone\<close>

text \<open>Rendering changes frame requests, the animation and the shake, nothing else.\<close>

definition motion :: "lock_state \<Rightarrow> lock_state \<Rightarrow> bool" where
  "motion s t \<longleftrightarrow> (\<exists>outs ph st sh. t = s\<lparr>k_outputs := outs, k_phase := ph, k_anim_start := st, k_shake := sh\<rparr> \<and>
     map (\<lambda>x. x\<lparr>lo_frame := False\<rparr>) outs = map (\<lambda>x. x\<lparr>lo_frame := False\<rparr>) (k_outputs s) \<and>
     (ph = k_phase s \<or> k_phase s = Phase_enter \<and> ph = Phase_idle))"

lemma motionI:
  assumes "t = s\<lparr>k_outputs := outs, k_phase := ph, k_anim_start := st, k_shake := sh\<rparr>"
    and "map (\<lambda>x. x\<lparr>lo_frame := False\<rparr>) outs = map (\<lambda>x. x\<lparr>lo_frame := False\<rparr>) (k_outputs s)"
    and "ph = k_phase s \<or> k_phase s = Phase_enter \<and> ph = Phase_idle"
  shows "motion s t"
  unfolding motion_def using assms by blast

lemma motionE:
  assumes "motion s t"
  obtains outs ph st sh where "t = s\<lparr>k_outputs := outs, k_phase := ph, k_anim_start := st, k_shake := sh\<rparr>"
    "map (\<lambda>x. x\<lparr>lo_frame := False\<rparr>) outs = map (\<lambda>x. x\<lparr>lo_frame := False\<rparr>) (k_outputs s)"
    "ph = k_phase s \<or> k_phase s = Phase_enter \<and> ph = Phase_idle"
  using assms unfolding motion_def by blast

lemma motion_refl: "motion s s"
  by (rule motionI [where outs = "k_outputs s" and ph = "k_phase s" and st = "k_anim_start s" and sh = "k_shake s"]) simp_all

lemma motion_trans:
  assumes "motion s t" and "motion t u"
  shows "motion s u"
proof -
  from assms(1) obtain outs ph st sh where t: "t = s\<lparr>k_outputs := outs, k_phase := ph, k_anim_start := st, k_shake := sh\<rparr>"
    "map (\<lambda>x. x\<lparr>lo_frame := False\<rparr>) outs = map (\<lambda>x. x\<lparr>lo_frame := False\<rparr>) (k_outputs s)"
    "ph = k_phase s \<or> k_phase s = Phase_enter \<and> ph = Phase_idle" by (rule motionE)
  from assms(2) obtain outs' ph' st' sh' where u: "u = t\<lparr>k_outputs := outs', k_phase := ph', k_anim_start := st', k_shake := sh'\<rparr>"
    "map (\<lambda>x. x\<lparr>lo_frame := False\<rparr>) outs' = map (\<lambda>x. x\<lparr>lo_frame := False\<rparr>) (k_outputs t)"
    "ph' = k_phase t \<or> k_phase t = Phase_enter \<and> ph' = Phase_idle" by (rule motionE)
  show ?thesis
    by (rule motionI [where outs = outs' and ph = ph' and st = st' and sh = sh']) (use t u in auto)
qed

lemma motion_put: "motion s (put_output (x\<lparr>lo_frame := b\<rparr>) s)" if "\<And>y. y \<in> set (k_outputs s) \<Longrightarrow> lo_addr y = lo_addr x \<Longrightarrow> y\<lparr>lo_frame := b\<rparr> = x\<lparr>lo_frame := b\<rparr>"
proof (rule motionI [where outs = "k_outputs (put_output (x\<lparr>lo_frame := b\<rparr>) s)" and ph = "k_phase s" and st = "k_anim_start s" and sh = "k_shake s"])
  have "y\<lparr>lo_frame := False\<rparr> = x\<lparr>lo_frame := False\<rparr>" if "y \<in> set (k_outputs s)" "lo_addr y = lo_addr x" for y
  proof -
    have "(y\<lparr>lo_frame := b\<rparr>)\<lparr>lo_frame := False\<rparr> = (x\<lparr>lo_frame := b\<rparr>)\<lparr>lo_frame := False\<rparr>"
      using \<open>\<And>y. y \<in> set (k_outputs s) \<Longrightarrow> lo_addr y = lo_addr x \<Longrightarrow> y\<lparr>lo_frame := b\<rparr> = x\<lparr>lo_frame := b\<rparr>\<close> [OF that] by simp
    then show ?thesis by simp
  qed
  then show "map (\<lambda>x. x\<lparr>lo_frame := False\<rparr>) (k_outputs (put_output (x\<lparr>lo_frame := b\<rparr>) s)) = map (\<lambda>x. x\<lparr>lo_frame := False\<rparr>) (k_outputs s)"
    by (auto simp: put_output_def)
qed (simp_all add: put_output_def)

lemma motion_fields:
  assumes "motion s t"
  shows "k_password t = k_password s" "k_len t = k_len s" "k_log t = k_log s" "k_unlocks t = k_unlocks s"
    "k_alive t = k_alive s" "k_lock t = k_lock s" "k_locked t = k_locked s" "k_user t = k_user s" "k_fp t = k_fp s"
    "k_lock_fault t = k_lock_fault s" "k_read_fault t = k_read_fault s" "k_surfaces t = k_surfaces s" "k_next t = k_next s"
    "k_anim_ms t = k_anim_ms s" "k_reduced t = k_reduced s" "k_scale t = k_scale s" "k_xkb t = k_xkb s"
    "k_early_unlock t = k_early_unlock s"
    "map lo_addr (k_outputs t) = map lo_addr (k_outputs s)" "map lo_configured (k_outputs t) = map lo_configured (k_outputs s)"
    "k_phase s = Phase_leave \<Longrightarrow> k_phase t = Phase_leave" "k_phase t = Phase_leave \<Longrightarrow> k_phase s = Phase_leave"
proof -
  from assms obtain outs ph st sh where t: "t = s\<lparr>k_outputs := outs, k_phase := ph, k_anim_start := st, k_shake := sh\<rparr>"
    and outs: "map (\<lambda>x. x\<lparr>lo_frame := False\<rparr>) outs = map (\<lambda>x. x\<lparr>lo_frame := False\<rparr>) (k_outputs s)"
    and ph: "ph = k_phase s \<or> k_phase s = Phase_enter \<and> ph = Phase_idle"
    unfolding motion_def by blast
  have "map lo_addr (map (\<lambda>x. x\<lparr>lo_frame := False\<rparr>) outs) = map lo_addr (map (\<lambda>x. x\<lparr>lo_frame := False\<rparr>) (k_outputs s))"
    "map lo_configured (map (\<lambda>x. x\<lparr>lo_frame := False\<rparr>) outs) = map lo_configured (map (\<lambda>x. x\<lparr>lo_frame := False\<rparr>) (k_outputs s))"
    unfolding outs by simp_all
  then show "map lo_addr (k_outputs t) = map lo_addr (k_outputs s)" "map lo_configured (k_outputs t) = map lo_configured (k_outputs s)"
    by (simp_all add: t comp_def)
qed (use assms in \<open>auto simp: motion_def\<close>)

lemma motion_advance: "motion s (snd (advance_phase now s))"
  by (rule motionI [where outs = "k_outputs s" and ph = "k_phase (snd (advance_phase now s))" and
        st = "k_anim_start (snd (advance_phase now s))" and sh = "k_shake s"])
    (auto simp: advance_phase_def Let_def intro: lock_phase.exhaust)

lemma motion_shake: "motion s (shake_offset now s)"
  by (rule motionI [where outs = "k_outputs s" and ph = "k_phase s" and st = "k_anim_start s" and sh = "k_shake (shake_offset now s)"])
    (simp_all add: shake_offset_def)

lemma motion_apply: "motion s (snd (apply_motion now s))"
  unfolding apply_motion_def using motion_trans [OF motion_advance motion_shake]
  by (simp add: Let_def case_prod_beta)

definition still :: "lock_output list \<Rightarrow> lock_output list" where
  "still = map (\<lambda>x. x\<lparr>lo_frame := False\<rparr>)"

definition addr_ok :: "lock_state \<Rightarrow> bool" where
  "addr_ok s \<longleftrightarrow> distinct (map lo_addr (k_outputs s)) \<and> (\<forall>x \<in> set (k_outputs s). lo_addr x < k_next s)"

lemma motion_still: "motion s t \<Longrightarrow> still (k_outputs t) = still (k_outputs s)"
  by (erule motionE) (simp add: still_def)

lemma motion_addr_ok: "motion s t \<Longrightarrow> addr_ok t = addr_ok s"
proof -
  assume m: "motion s t"
  have "lo_addr ` set (k_outputs t) = lo_addr ` set (k_outputs s)"
    using motion_fields(19) [OF m] by (metis list.set_map)
  then have "(\<forall>x \<in> set (k_outputs t). lo_addr x < n) = (\<forall>x \<in> set (k_outputs s). lo_addr x < n)" for n
    by (metis (mono_tags, lifting) imageE imageI)
  then show ?thesis using motion_fields(13,19) [OF m] by (simp add: addr_ok_def)
qed

lemma render_motion:
  assumes "addr_ok s" and "x\<lparr>lo_frame := False\<rparr> \<in> set (still (k_outputs s))"
  shows "motion s (render_output v x s)"
proof -
  obtain a s1 where s1: "apply_motion (vw_now v) s = (a, s1)" by (cases "apply_motion (vw_now v) s")
  have m: "motion s s1" using motion_apply [of s "vw_now v"] s1 by simp
  have ok: "addr_ok s1" "x\<lparr>lo_frame := False\<rparr> \<in> set (still (k_outputs s1))"
    using motion_addr_ok [OF m] motion_still [OF m] assms by simp_all
  then obtain z where z: "z \<in> set (k_outputs s1)" "z\<lparr>lo_frame := False\<rparr> = x\<lparr>lo_frame := False\<rparr>" by (auto simp: still_def)
  have "motion s1 (put_output (x\<lparr>lo_frame := True\<rparr>) s1)"
  proof (rule motion_put)
    fix y
    assume y: "y \<in> set (k_outputs s1)" "lo_addr y = lo_addr x"
    have "lo_addr z = lo_addr x" using arg_cong [OF z(2), of lo_addr] by simp
    then have "y = z" using ok(1) y z(1) by (auto simp: addr_ok_def distinct_map inj_on_def)
    then have "(y\<lparr>lo_frame := False\<rparr>)\<lparr>lo_frame := True\<rparr> = (x\<lparr>lo_frame := False\<rparr>)\<lparr>lo_frame := True\<rparr>" using z(2) by simp
    then show "y\<lparr>lo_frame := True\<rparr> = x\<lparr>lo_frame := True\<rparr>" by simp
  qed
  then show ?thesis using motion_trans [OF m] m motion_refl [of s] by (simp add: render_output_def s1)
qed

lemma render_list_motion:
  "addr_ok s \<Longrightarrow> (\<And>x. x \<in> set xs \<Longrightarrow> x\<lparr>lo_frame := False\<rparr> \<in> set (still (k_outputs s))) \<Longrightarrow> motion s (render_list v xs s)"
proof (induction xs arbitrary: s)
  case (Cons x xs)
  let ?t = "if lo_configured x then render_output v x s else s"
  have m: "motion s ?t" using Cons.prems render_motion [of s x v] motion_refl by simp
  have "motion ?t (render_list v xs ?t)"
    by (rule Cons.IH) (use Cons.prems motion_addr_ok [OF m] motion_still [OF m] in simp_all)
  then show ?case using motion_trans [OF m] by simp
qed (simp add: motion_refl)

lemma render_all_motion: "addr_ok s \<Longrightarrow> motion s (render_all v s)"
  unfolding render_all_def by (rule render_list_motion) (auto simp: still_def)

section \<open>The invariant\<close>

definition text_of :: "lock_state \<Rightarrow> string" where
  "text_of s = take (k_len s) (k_password s)"

text \<open>An authentication that succeeded for the user of the session, or a fingerprint match.\<close>

definition authorised :: "lock_state \<Rightarrow> bool" where
  "authorised s \<longleftrightarrow> Finger_matched \<in> set (k_log s) \<or> (\<exists>env pw. Tried env (k_user s) pw \<in> set (k_log s) \<and> authentic env (k_user s) pw)"

definition lock_inv :: "lock_state \<Rightarrow> bool" where
  "lock_inv s \<longleftrightarrow> addr_ok s \<and> length (k_password s) = 1024 \<and> k_len s \<le> 1022 \<and> fp_inv (k_fp s) \<and>
     (k_phase s = Phase_leave \<or> k_unlocks s > 0 \<longrightarrow> authorised s) \<and>
     (k_unlocks s = 0 \<longrightarrow> \<not> k_lock_fault s \<and> (k_lock s \<longrightarrow> k_alive s)) \<and>
     (\<not> k_lock s \<longrightarrow> k_fp s = fp_init \<and> k_surfaces s = 0 \<and> k_phase s \<noteq> Phase_leave \<and> k_unlocks s = 0)"

lemma lock_inv_motion: "lock_inv s \<Longrightarrow> motion s t \<Longrightarrow> lock_inv t"
  using motion_fields [of s t] motion_addr_ok [of s t] unfolding lock_inv_def authorised_def by metis

lemma lock_inv_addr: "lock_inv s \<Longrightarrow> addr_ok s"
  by (simp add: lock_inv_def)

lemma render_all_inv: "lock_inv s \<Longrightarrow> lock_inv (render_all v s)"
  by (rule lock_inv_motion [OF _ render_all_motion [OF lock_inv_addr]])

lemma lock_inv_quiet [simp]:
  "lock_inv (s\<lparr>k_status := a\<rparr>) = lock_inv s" "lock_inv (s\<lparr>k_status_error := b\<rparr>) = lock_inv s"
  "lock_inv (s\<lparr>k_shake := n\<rparr>) = lock_inv s" "lock_inv (s\<lparr>k_running := b\<rparr>) = lock_inv s"
  "lock_inv (s\<lparr>k_media := m\<rparr>) = lock_inv s" "lock_inv (s\<lparr>k_ptr := p\<rparr>) = lock_inv s"
  "lock_inv (s\<lparr>k_ptr_fault := b\<rparr>) = lock_inv s" "lock_inv (s\<lparr>k_xkb := x\<rparr>) = lock_inv s"
  "lock_inv (s\<lparr>k_xkb_fault := b\<rparr>) = lock_inv s" "lock_inv (s\<lparr>k_unlocking := u\<rparr>) = lock_inv s"
  "lock_inv (s\<lparr>k_locked := b\<rparr>) = lock_inv s"
  by (simp_all add: lock_inv_def authorised_def addr_ok_def)

lemma unlock_inv: "lock_inv s \<Longrightarrow> authorised s \<Longrightarrow> k_lock s \<Longrightarrow> lock_inv (unlock_session s)"
  unfolding lock_inv_def by (simp add: unlock_session_def authorised_def addr_ok_def fp_stop_inv)

lemma begin_leave_inv:
  assumes "lock_inv s" and "authorised s" and "k_lock s"
  shows "lock_inv (begin_leave v s)"
proof -
  have "lock_inv (start_phase Phase_leave 320 (s\<lparr>k_shake := -1\<rparr>))"
    using assms unfolding lock_inv_def by (simp add: start_phase_def authorised_def addr_ok_def)
  then show ?thesis using assms unlock_inv render_all_inv by (simp add: begin_leave_def)
qed

lemma match_inv:
  assumes "lock_inv s" and "k_lock s"
  shows "lock_inv (on_fprint_match v s)"
proof -
  let ?s = "s\<lparr>k_log := k_log s @ [Finger_matched], k_status := Unlocking, k_status_error := False\<rparr>"
  have i: "lock_inv ?s" using assms unfolding lock_inv_def by (auto simp: authorised_def addr_ok_def)
  note m = motion_fields [OF render_all_motion [OF lock_inv_addr [OF i], of v]]
  have "authorised (render_all v ?s)" using m by (simp add: authorised_def)
  then show ?thesis unfolding on_fprint_match_def
    using begin_leave_inv [OF render_all_inv [OF i]] m assms(2) by simp
qed

lemma status_inv: "lock_inv s \<Longrightarrow> lock_inv (on_fprint_status v t err s)"
  by (simp add: on_fprint_status_def render_all_inv)

lemma submit_inv:
  assumes "lock_inv s" and "k_lock s"
  shows "lock_inv (submit_password v env s)"
proof (cases "k_len s = 0")
  case False
  let ?s = "s\<lparr>k_password := (k_password s)[k_len s := NUL], k_status := Authenticating, k_status_error := False\<rparr>"
  let ?t = "render_all v ?s"
  let ?pw = "cstr (k_password ?t)"
  let ?u = "?t\<lparr>k_log := k_log ?t @ [Tried env (k_user ?t) ?pw], k_password := replicate 1024 NUL, k_len := 0\<rparr>"
  have i: "lock_inv ?s" using assms unfolding lock_inv_def by (simp add: authorised_def addr_ok_def)
  note m = motion_fields [OF render_all_motion [OF lock_inv_addr [OF i], of v]]
  have u: "lock_inv ?u" using render_all_inv [OF i, of v] unfolding lock_inv_def by (auto simp: authorised_def addr_ok_def)
  have "lock_inv (begin_leave v ?u)" if "pam_authenticate env (k_user ?t) ?pw = 0"
    using that assms(2) m by (intro begin_leave_inv [OF u]) (auto simp: authorised_def pam_authenticate_iff)
  then show ?thesis using False u by (simp add: submit_password_def Let_def render_all_inv)
qed (use assms in \<open>simp add: submit_password_def\<close>)

lemma buffer_inv:
  "lock_inv s \<Longrightarrow> length p = 1024 \<Longrightarrow> l \<le> 1022 \<Longrightarrow> lock_inv (s\<lparr>k_password := p, k_len := l, k_read_fault := b\<rparr>)"
  by (simp add: lock_inv_def authorised_def addr_ok_def)

lemma key_text_inv:
  assumes "lock_inv s" and "key_fits u s"
  shows "lock_inv (key_text u s)"
proof -
  have l: "length (k_password s) = 1024" "k_len s + length u < 1023" using assms by (simp_all add: lock_inv_def key_fits_def)
  have "length (utf8_buffer u) \<ge> length u" by (simp add: utf8_buffer_def)
  then show ?thesis using l unfolding key_text_def by (intro buffer_inv [OF assms(1)]) simp_all
qed

lemma key_inv:
  assumes "lock_inv s" and "k_lock s"
  shows "lock_inv (kb_key v env pressed ks u s)"
proof -
  have "lock_inv (s\<lparr>k_len := n, k_password := (k_password s)[i := NUL]\<rparr>)" if "n \<le> k_len s" for n i
    using assms(1) that unfolding lock_inv_def by (simp add: authorised_def addr_ok_def)
  then show ?thesis using assms submit_inv render_all_inv key_text_inv
    by (cases ks) (auto simp: kb_key_def)
qed

lemma put_addr_ok: "addr_ok s \<Longrightarrow> addr_ok (put_output x s)"
proof -
  assume a: "addr_ok s"
  have m: "map lo_addr (k_outputs (put_output x s)) = map lo_addr (k_outputs s)" by (simp add: put_output_def)
  have "lo_addr y < k_next s" if "y \<in> set (k_outputs (put_output x s))" for y
    using a that by (auto simp: addr_ok_def put_output_def)
  then show ?thesis using a m by (simp only: addr_ok_def) (simp add: put_output_def)
qed

lemma put_inv: "lock_inv s \<Longrightarrow> lock_inv (put_output x s)"
  using put_addr_ok [of s x] unfolding lock_inv_def authorised_def by (simp add: put_output_def)

lemma output_atD: "output_at a s = Some x \<Longrightarrow> x \<in> set (k_outputs s) \<and> lo_addr x = a"
  by (auto simp: output_at_def find_Some_iff)

lemma put_still:
  assumes "x \<in> set (k_outputs s)" and "lo_addr y = lo_addr x"
  shows "y\<lparr>lo_frame := False\<rparr> \<in> set (still (k_outputs (put_output y s)))"
  using assms by (force simp: still_def put_output_def)

lemma surface_inv: "lock_inv s \<Longrightarrow> lock_inv (create_lock_surface a s)"
proof (cases "output_at a s")
  case (Some x)
  assume i: "lock_inv s"
  have "lock_inv (put_output (x\<lparr>lo_surface := Some (k_surfaces s)\<rparr>) s)" by (rule put_inv [OF i])
  then show ?thesis using i Some
    unfolding lock_inv_def by (auto simp: create_lock_surface_def authorised_def addr_ok_def put_output_def)
qed (simp add: create_lock_surface_def)

lemma surfaces_inv: "lock_inv s \<Longrightarrow> lock_inv (fold create_lock_surface as s)"
  by (induction as arbitrary: s) (simp_all add: surface_inv)

lemma remove1_addr_ok: "addr_ok s \<Longrightarrow> addr_ok (s\<lparr>k_outputs := remove1 x (k_outputs s)\<rparr>)"
proof -
  assume a: "addr_ok s"
  have "distinct (map lo_addr (remove1 x xs))" if "distinct (map lo_addr xs)" for xs
    using that set_remove1_subset [of x] by (induction xs) (auto simp: image_iff)
  then show ?thesis using a set_remove1_subset [of x "k_outputs s"] by (auto simp: addr_ok_def)
qed

lemma reg_remove_inv:
  assumes "lock_inv s"
  shows "lock_inv (reg_remove name s)"
proof (cases "List.find (\<lambda>x. lo_name x = name) (k_outputs s)")
  case (Some x)
  let ?s = "s\<lparr>k_outputs := remove1 x (k_outputs s)\<rparr>"
  have i: "lock_inv ?s" using assms remove1_addr_ok [of s x] unfolding lock_inv_def authorised_def by simp
  have "lock_inv (unlock_session ?s)" if "k_phase ?s = Phase_leave"
    using i that by (intro unlock_inv) (auto simp: lock_inv_def)
  then show ?thesis using Some i by (simp add: reg_remove_def Let_def)
qed (use assms in \<open>simp add: reg_remove_def\<close>)

lemma reg_global_inv:
  assumes "lock_inv s"
  shows "lock_inv (reg_global_output name s)"
proof -
  let ?s = "s\<lparr>k_next := Suc (k_next s), k_outputs := \<lparr>lo_addr = k_next s, lo_name = name, lo_surface = None, lo_size = (0, 0),
                   lo_configured = False, lo_frame = False\<rparr> # k_outputs s\<rparr>"
  have "addr_ok ?s" using lock_inv_addr [OF assms] by (force simp: addr_ok_def less_Suc_eq)
  then have "lock_inv ?s" using assms unfolding lock_inv_def authorised_def by simp
  then show ?thesis using surface_inv by (simp add: reg_global_output_def Let_def)
qed

lemma configure_inv:
  assumes "lock_inv s" and "x \<in> set (k_outputs s)"
  shows "lock_inv (lock_surface_configure v w h x s)"
proof -
  let ?x = "x\<lparr>lo_size := (w, h), lo_configured := True\<rparr>"
  have i: "lock_inv (put_output ?x s)" by (rule put_inv [OF assms(1)])
  have "motion (put_output ?x s) (render_output v ?x (put_output ?x s))"
    by (rule render_motion [OF lock_inv_addr [OF i] put_still [OF assms(2)]]) simp
  then show ?thesis using lock_inv_motion [OF i] by (simp add: lock_surface_configure_def Let_def)
qed

lemma frame_inv:
  assumes "lock_inv s" and "x \<in> set (k_outputs s)"
  shows "lock_inv (frame_done v x s)"
proof -
  let ?x = "x\<lparr>lo_frame := False\<rparr>"
  let ?s = "put_output ?x s"
  have i: "lock_inv ?s" by (rule put_inv [OF assms(1)])
  have "motion ?s (render_output v ?x ?s)"
    by (rule render_motion [OF lock_inv_addr [OF i] put_still [OF assms(2)]]) simp
  then have r: "lock_inv (render_output v ?x ?s)" by (rule lock_inv_motion [OF i])
  have "lock_inv (unlock_session (?s\<lparr>k_phase := Phase_idle\<rparr>))" if "k_phase ?s = Phase_leave"
  proof (rule unlock_inv)
    show "lock_inv (?s\<lparr>k_phase := Phase_idle\<rparr>)" using i unfolding lock_inv_def authorised_def by (simp add: addr_ok_def)
    show "authorised (?s\<lparr>k_phase := Phase_idle\<rparr>)" using i that by (simp add: lock_inv_def authorised_def)
    show "k_lock (?s\<lparr>k_phase := Phase_idle\<rparr>)" using i that by (auto simp: lock_inv_def)
  qed
  then show ?thesis using r by (simp add: frame_done_def Let_def)
qed

lemma fp_idle: "fp_handle e fp_init = (fp_init, [])"
  by (cases e) (simp_all add: fp_init_def)

lemma begin_leave_lock: "addr_ok s \<Longrightarrow> k_lock (begin_leave v s) = k_lock s"
  using motion_fields(6) [OF render_all_motion, of "start_phase Phase_leave 320 (s\<lparr>k_shake := -1\<rparr>)" v]
  by (simp add: begin_leave_def unlock_session_def start_phase_def addr_ok_def)

lemma callback_inv:
  assumes "lock_inv s" and "k_lock s"
  shows "lock_inv (fp_callback v c s) \<and> k_lock (fp_callback v c s)"
proof (cases c)
  case Matched
  let ?s = "s\<lparr>k_log := k_log s @ [Finger_matched], k_status := Unlocking, k_status_error := False\<rparr>"
  have a: "addr_ok ?s" using lock_inv_addr [OF assms(1)] by (simp add: addr_ok_def)
  have "k_lock (on_fprint_match v s)"
    using begin_leave_lock [of "render_all v ?s" v] motion_addr_ok [OF render_all_motion [OF a]] a
      motion_fields(6) [OF render_all_motion [OF a]] assms(2) by (simp add: on_fprint_match_def)
  then show ?thesis using Matched match_inv [OF assms] by (simp add: fp_callback_def)
next
  case (Status t err)
  have a: "addr_ok (s\<lparr>k_status := Hint t, k_status_error := err\<rparr>)" using lock_inv_addr [OF assms(1)] by (simp add: addr_ok_def)
  then show ?thesis using Status status_inv [OF assms(1)] motion_fields(6) [OF render_all_motion [OF a]] assms(2)
    by (simp add: fp_callback_def on_fprint_status_def)
qed

lemma callbacks_inv: "lock_inv s \<Longrightarrow> k_lock s \<Longrightarrow> lock_inv (fold (fp_callback v) cs s)"
  by (induction cs arbitrary: s) (simp_all add: callback_inv)

lemma fprint_inv:
  assumes "lock_inv s"
  shows "lock_inv (lock_step (L_fprint v e) s)"
proof (cases "k_lock s")
  case True
  obtain fp cs where h: "fp_handle e (k_fp s) = (fp, cs)" by (cases "fp_handle e (k_fp s)")
  have "fp_inv fp" using fp_handle_inv [of "k_fp s" e] assms h by (simp add: lock_inv_def)
  then have "lock_inv (s\<lparr>k_fp := fp\<rparr>)" using assms True unfolding lock_inv_def authorised_def by (simp add: addr_ok_def)
  then show ?thesis using callbacks_inv True by (simp add: h)
next
  case False
  then have "k_fp s = fp_init" using assms unfolding lock_inv_def by blast
  then have "s\<lparr>k_fp := fp_init\<rparr> = s" by (cases s) simp
  then show ?thesis using assms unfolding lock_step.simps \<open>k_fp s = fp_init\<close> fp_idle by simp
qed

lemma lock_step_inv: "lock_inv s \<Longrightarrow> lock_inv (lock_step e s)"
proof (cases e)
  case (L_fprint v f)
  assume "lock_inv s"
  then show ?thesis using L_fprint fprint_inv by blast
next
  case (L_key v env pressed ks u)
  assume i: "lock_inv s"
  have "k_lock s" if "k_surfaces s \<noteq> 0" using i that unfolding lock_inv_def by blast
  then show ?thesis using L_key i key_inv by simp
next
  case (L_configure v a w h)
  assume "lock_inv s"
  then show ?thesis using L_configure configure_inv output_atD by (auto split: option.splits)
next
  case (L_frame v a)
  assume "lock_inv s"
  then show ?thesis using L_frame frame_inv output_atD by (auto split: option.splits)
qed (simp_all add: reg_global_inv reg_remove_inv lock_locked_def surfaces_inv lock_finished_def kb_keymap_def kb_modifiers_def
    pt_enter_def pt_leave_def pt_button_def render_all_inv split: option.splits)

interpretation locker: event_machine lock_step lock_inv
  by unfold_locales (rule lock_step_inv)

section \<open>The log\<close>

lemma addr_ok_quiet [simp]:
  "addr_ok (s\<lparr>k_status := a\<rparr>) = addr_ok s" "addr_ok (s\<lparr>k_status_error := b\<rparr>) = addr_ok s" "addr_ok (s\<lparr>k_log := l\<rparr>) = addr_ok s"
  "addr_ok (s\<lparr>k_password := p\<rparr>) = addr_ok s" "addr_ok (s\<lparr>k_len := n\<rparr>) = addr_ok s" "addr_ok (s\<lparr>k_shake := i\<rparr>) = addr_ok s"
  "addr_ok (s\<lparr>k_fp := fp\<rparr>) = addr_ok s" "addr_ok (s\<lparr>k_read_fault := b\<rparr>) = addr_ok s" "addr_ok (s\<lparr>k_phase := ph\<rparr>) = addr_ok s"
  "addr_ok (s\<lparr>k_anim_start := st\<rparr>) = addr_ok s" "addr_ok (s\<lparr>k_anim_ms := ms\<rparr>) = addr_ok s"
  by (simp_all add: addr_ok_def)

text \<open>What a handler may do besides its own updates: rendering, or the way out.\<close>

lemma render_all_fields [simp]:
  assumes "addr_ok s"
  shows "k_log (render_all v s) = k_log s" "k_user (render_all v s) = k_user s" "k_password (render_all v s) = k_password s"
    "k_len (render_all v s) = k_len s" "addr_ok (render_all v s)" "k_lock (render_all v s) = k_lock s"
    "k_unlocks (render_all v s) = k_unlocks s" "k_read_fault (render_all v s) = k_read_fault s"
  using motion_fields [OF render_all_motion [OF assms]] motion_addr_ok [OF render_all_motion [OF assms]] assms by simp_all

lemma begin_leave_fields [simp]:
  assumes "addr_ok s"
  shows "k_log (begin_leave v s) = k_log s" "k_user (begin_leave v s) = k_user s" "k_password (begin_leave v s) = k_password s"
    "k_len (begin_leave v s) = k_len s" "k_read_fault (begin_leave v s) = k_read_fault s"
  using assms by (simp_all add: begin_leave_def unlock_session_def start_phase_def)

lemma key_text_fields [simp]:
  "k_log (key_text u s) = k_log s" "k_user (key_text u s) = k_user s" "addr_ok (key_text u s) = addr_ok s"
  by (simp_all add: key_text_def)

lemma surface_fields [simp]:
  "k_log (create_lock_surface a s) = k_log s" "k_user (create_lock_surface a s) = k_user s"
  "k_password (create_lock_surface a s) = k_password s" "k_len (create_lock_surface a s) = k_len s"
  "k_read_fault (create_lock_surface a s) = k_read_fault s"
  by (simp_all add: create_lock_surface_def put_output_def split: option.splits)

lemma surfaces_fields [simp]:
  "k_log (fold create_lock_surface as s) = k_log s" "k_user (fold create_lock_surface as s) = k_user s"
  "k_password (fold create_lock_surface as s) = k_password s" "k_len (fold create_lock_surface as s) = k_len s"
  "k_read_fault (fold create_lock_surface as s) = k_read_fault s"
  by (induction as arbitrary: s) simp_all

lemma apply_motion_fields:
  "apply_motion now s = (a, t) \<Longrightarrow> k_log t = k_log s \<and> k_user t = k_user s \<and> k_password t = k_password s \<and> k_len t = k_len s \<and>
     k_read_fault t = k_read_fault s"
  using motion_fields [OF motion_apply [of s now]] by auto

lemma render_output_fields [simp]:
  "k_log (render_output v x s) = k_log s" "k_user (render_output v x s) = k_user s"
  "k_password (render_output v x s) = k_password s" "k_len (render_output v x s) = k_len s"
  "k_read_fault (render_output v x s) = k_read_fault s"
  using apply_motion_fields [of "vw_now v" s] by (auto simp: render_output_def put_output_def split: prod.splits)

fun origin :: "lock_log \<Rightarrow> lock_event \<Rightarrow> bool" where
  "origin (Tried env u p) e = (\<exists>v t. e = L_key v env True Sym_return t)"
| "origin Finger_matched e = (\<exists>v f. e = L_fprint v (Fp_signal ''VerifyStatus'' ''verify-match'' f))"

lemma matched_signal: "Matched \<in> set (snd (fp_handle e fp)) \<Longrightarrow> \<exists>f. e = Fp_signal ''VerifyStatus'' ''verify-match'' f"
  by (cases e) (auto simp: Let_def on_verify_started_def on_signal_def split: if_splits fp_op.splits option.splits)

lemma callback_fields:
  assumes "addr_ok s"
  shows "addr_ok (fp_callback v c s) \<and> k_user (fp_callback v c s) = k_user s \<and> k_password (fp_callback v c s) = k_password s \<and>
    k_len (fp_callback v c s) = k_len s \<and> k_read_fault (fp_callback v c s) = k_read_fault s \<and>
    set (k_log (fp_callback v c s)) \<subseteq> set (k_log s) \<union> (if c = Matched then {Finger_matched} else {})"
proof -
  have "addr_ok (begin_leave v t)" if "addr_ok t" for t
    using that by (simp add: begin_leave_def start_phase_def) (simp add: unlock_session_def addr_ok_def)
  then show ?thesis using assms by (cases c) (simp_all add: fp_callback_def on_fprint_match_def on_fprint_status_def)
qed

lemma callbacks_fields:
  "addr_ok s \<Longrightarrow> k_user (fold (fp_callback v) cs s) = k_user s \<and> k_password (fold (fp_callback v) cs s) = k_password s \<and>
    k_len (fold (fp_callback v) cs s) = k_len s \<and> k_read_fault (fold (fp_callback v) cs s) = k_read_fault s \<and>
    set (k_log (fold (fp_callback v) cs s)) \<subseteq> set (k_log s) \<union> (if Matched \<in> set cs then {Finger_matched} else {})"
proof (induction cs arbitrary: s)
  case (Cons c cs)
  have c: "addr_ok (fp_callback v c s)" "k_user (fp_callback v c s) = k_user s" "k_password (fp_callback v c s) = k_password s"
    "k_len (fp_callback v c s) = k_len s" "k_read_fault (fp_callback v c s) = k_read_fault s"
    "set (k_log (fp_callback v c s)) \<subseteq> set (k_log s) \<union> (if c = Matched then {Finger_matched} else {})"
    using callback_fields [OF Cons.prems] by auto
  from Cons.IH [OF c(1)] show ?case using c(2-) by (auto split: if_splits)
qed simp

lemma frame_fields:
  "k_log (frame_done v x s) = k_log s" "k_user (frame_done v x s) = k_user s" "k_password (frame_done v x s) = k_password s"
  "k_len (frame_done v x s) = k_len s" "k_read_fault (frame_done v x s) = k_read_fault s"
  by (simp_all add: frame_done_def Let_def unlock_session_def) (simp_all add: put_output_def)

lemma step_user: "lock_inv s \<Longrightarrow> k_user (lock_step e s) = k_user s"
  using lock_inv_addr [of s]
  by (cases e) (auto simp: reg_global_output_def reg_remove_def lock_locked_def lock_finished_def lock_surface_configure_def
      frame_fields kb_keymap_def kb_modifiers_def kb_key_def submit_password_def pt_enter_def pt_leave_def pt_button_def
      unlock_session_def put_output_def callbacks_fields Let_def split: option.splits prod.splits keysym.splits)

lemma step_log:
  assumes "lock_inv s" and "x \<in> set (k_log (lock_step e s))"
  shows "x \<in> set (k_log s) \<or> origin x e"
proof (cases e)
  case (L_fprint v f)
  obtain fp cs where h: "fp_handle f (k_fp s) = (fp, cs)" by (cases "fp_handle f (k_fp s)")
  have "set (k_log (fold (fp_callback v) cs (s\<lparr>k_fp := fp\<rparr>))) \<subseteq> set (k_log s) \<union> (if Matched \<in> set cs then {Finger_matched} else {})"
    using callbacks_fields [of "s\<lparr>k_fp := fp\<rparr>" v cs] lock_inv_addr [OF assms(1)] by simp
  then show ?thesis using assms(2) matched_signal [of f "k_fp s"] by (auto simp: L_fprint h split: if_splits)
next
  case (L_key v env pressed ks u)
  then show ?thesis using assms(2) lock_inv_addr [OF assms(1)]
    by (auto simp: kb_key_def submit_password_def Let_def split: if_splits keysym.splits)
qed (use assms(2) in \<open>auto simp: reg_global_output_def reg_remove_def lock_locked_def lock_finished_def lock_surface_configure_def
      frame_fields kb_keymap_def kb_modifiers_def pt_enter_def pt_leave_def pt_button_def unlock_session_def put_output_def
      Let_def render_all_fields [OF lock_inv_addr [OF assms(1)]] split: option.splits if_splits\<close>)

lemma run_log:
  "lock_inv s \<Longrightarrow> x \<in> set (k_log (fold lock_step es s)) \<Longrightarrow> x \<in> set (k_log s) \<or> (\<exists>e \<in> set es. origin x e)"
proof (induction es arbitrary: s)
  case (Cons e es)
  then show ?case using Cons.IH [OF lock_step_inv [OF Cons.prems(1)]] step_log [OF Cons.prems(1)] by fastforce
qed simp

lemma run_user: "lock_inv s \<Longrightarrow> k_user (fold lock_step es s) = k_user s"
  by (induction es arbitrary: s) (simp_all add: step_user lock_step_inv)

section \<open>The program\<close>

lemma fp_stop_idle [simp]: "lock_fprint_stop fp_init = fp_init"
  by (simp add: lock_fprint_stop_def fp_init_def)

lemma render_output_fp [simp]: "k_fp (render_output v x s) = k_fp s"
  using motion_fields(9) [OF motion_apply [of s "vw_now v"]] by (auto simp: render_output_def put_output_def split: prod.splits)

lemma render_all_fp [simp]: "addr_ok s \<Longrightarrow> k_fp (render_all v s) = k_fp s"
  using motion_fields(9) [OF render_all_motion] by simp

lemma begin_leave_fp: "addr_ok s \<Longrightarrow> k_fp s = fp_init \<Longrightarrow> k_fp (begin_leave v s) = fp_init"
  by (simp add: begin_leave_def unlock_session_def start_phase_def)

lemma surface_fp [simp]: "k_fp (create_lock_surface a s) = k_fp s"
  by (simp add: create_lock_surface_def put_output_def split: option.splits)

lemma surfaces_fp [simp]: "k_fp (fold create_lock_surface as s) = k_fp s"
  by (induction as arbitrary: s) simp_all

lemma step_fp_idle: "lock_inv s \<Longrightarrow> k_fp s = fp_init \<Longrightarrow> k_fp (lock_step e s) = fp_init"
  using lock_inv_addr [of s] fp_idle
  by (cases e) (auto simp: reg_global_output_def reg_remove_def lock_locked_def lock_finished_def lock_surface_configure_def
      frame_done_def kb_keymap_def kb_modifiers_def kb_key_def submit_password_def pt_enter_def pt_leave_def pt_button_def
      unlock_session_def put_output_def begin_leave_fp key_text_def Let_def split: option.splits keysym.splits)

lemma run_fp_idle: "lock_inv s \<Longrightarrow> k_fp s = fp_init \<Longrightarrow> k_fp (fold lock_step es s) = fp_init"
  by (induction es arbitrary: s) (simp_all add: step_fp_idle lock_step_inv)

lemma boot_inv: "lock_inv (lock_boot user reduced scale)"
  by (simp add: lock_inv_def lock_boot_def start_phase_def addr_ok_def fp_inv_def fp_init_def)

lemma request_inv: "lock_inv s \<Longrightarrow> k_unlocks s = 0 \<Longrightarrow> lock_inv (request_lock s)"
  unfolding lock_inv_def request_lock_def by (simp add: addr_ok_def authorised_def)

lemma fp_start_lock_inv: "lock_inv s \<Longrightarrow> k_fp s = fp_init \<Longrightarrow> k_lock s \<Longrightarrow> lock_inv (s\<lparr>k_fp := lock_fprint_start (k_user s) (k_fp s)\<rparr>)"
  unfolding lock_inv_def using fp_start_inv [of "k_user s"] by (simp add: authorised_def)

lemma render_output_lock [simp]: "k_lock (render_output v x s) = k_lock s"
  using motion_fields(6) [OF motion_apply [of s "vw_now v"]] by (auto simp: render_output_def put_output_def split: prod.splits)

lemma surface_lock [simp]: "k_lock (create_lock_surface a s) = k_lock s"
  by (simp add: create_lock_surface_def put_output_def split: option.splits)

lemma surfaces_lock [simp]: "k_lock (fold create_lock_surface as s) = k_lock s"
  by (induction as arbitrary: s) simp_all

lemma callbacks_lock: "addr_ok s \<Longrightarrow> k_lock (fold (fp_callback v) cs s) = k_lock s"
proof (induction cs arbitrary: s)
  case (Cons c cs)
  have "k_lock (fp_callback v c s) = k_lock s"
    using Cons.prems by (cases c) (simp_all add: fp_callback_def on_fprint_match_def on_fprint_status_def begin_leave_lock)
  then show ?case using Cons.IH [of "fp_callback v c s"] callback_fields [OF Cons.prems] by simp
qed simp

lemma step_lock: "lock_inv s \<Longrightarrow> k_lock (lock_step e s) = k_lock s"
  using lock_inv_addr [of s]
  by (cases e) (auto simp: reg_global_output_def reg_remove_def lock_locked_def lock_finished_def lock_surface_configure_def
      frame_done_def kb_keymap_def kb_modifiers_def kb_key_def submit_password_def pt_enter_def pt_leave_def pt_button_def
      unlock_session_def put_output_def begin_leave_lock callbacks_lock key_text_def Let_def split: option.splits prod.splits keysym.splits)

lemma run_lock: "lock_inv s \<Longrightarrow> k_lock (fold lock_step es s) = k_lock s"
  by (induction es arbitrary: s) (simp_all add: step_lock lock_step_inv)

text \<open>Every state of the running program is reached from an idle one with the events of its run.\<close>

lemma main_phases:
  assumes "lock_main user reduced scale globals es0 es1 es = Some s"
  defines "r \<equiv> request_lock (fold lock_step es0 (lock_boot user reduced scale))"
  defines "t \<equiv> fold lock_step es1 r"
  shows "s = fold lock_step es (t\<lparr>k_fp := lock_fprint_start (k_user t) (k_fp t)\<rparr>)"
    "lock_inv r" "lock_inv (t\<lparr>k_fp := lock_fprint_start (k_user t) (k_fp t)\<rparr>)"
    "k_lock r"
proof -
  let ?b = "lock_boot user reduced scale"
  show "s = fold lock_step es (t\<lparr>k_fp := lock_fprint_start (k_user t) (k_fp t)\<rparr>)"
    using assms(1) by (simp add: lock_main_def r_def t_def Let_def split: if_splits)
  have i0: "lock_inv (fold lock_step es0 ?b)" by (rule locker.run_inv [OF boot_inv])
  have b: "k_fp ?b = fp_init" "\<not> k_lock ?b" by (simp_all add: lock_boot_def start_phase_def)
  have l0: "\<not> k_lock (fold lock_step es0 ?b)" "k_fp (fold lock_step es0 ?b) = fp_init"
    using run_lock [OF boot_inv, of es0] run_fp_idle [OF boot_inv b(1), of es0] b(2) by simp_all
  then have "k_unlocks (fold lock_step es0 ?b) = 0" using i0 unfolding lock_inv_def by blast
  then show r: "lock_inv r" unfolding r_def by (rule request_inv [OF i0])
  show l: "k_lock r" by (simp add: r_def request_lock_def)
  have "k_fp r = fp_init" using l0 by (simp add: r_def request_lock_def)
  then show "lock_inv (t\<lparr>k_fp := lock_fprint_start (k_user t) (k_fp t)\<rparr>)"
    using run_fp_idle [OF r, of es1] run_lock [OF r, of es1] l locker.run_inv [OF r, of es1]
    unfolding t_def by (intro fp_start_lock_inv) simp_all
qed

lemma main_reaches:
  assumes "lock_main user reduced scale globals es0 es1 es = Some s"
  shows "lock_inv s \<and> k_user s = user \<and> k_lock s \<and> (\<forall>x \<in> set (k_log s). \<exists>e \<in> set (es0 @ es1 @ es). origin x e)"
proof -
  let ?b = "lock_boot user reduced scale"
  let ?s0 = "fold lock_step es0 ?b"
  let ?r = "request_lock ?s0"
  let ?s1 = "fold lock_step es1 ?r"
  let ?s2 = "?s1\<lparr>k_fp := lock_fprint_start (k_user ?s1) (k_fp ?s1)\<rparr>"
  note s = main_phases(1) [OF assms] and r = main_phases(2) [OF assms] and i2 = main_phases(3) [OF assms]
  have b: "k_user ?b = user" "k_log ?b = []" by (simp_all add: lock_boot_def start_phase_def)
  have rr: "k_log ?r = k_log ?s0" "k_user ?r = k_user ?s0" by (simp_all add: request_lock_def)
  have u: "k_user s = user" using run_user [OF i2, of es] run_user [OF r, of es1] run_user [OF boot_inv, of es0] rr(2) b(1) s by simp
  have l: "k_lock s" using run_lock [OF i2, of es] run_lock [OF r, of es1] main_phases(4) [OF assms] s by simp
  have "\<exists>e \<in> set (es0 @ es1 @ es). origin x e" if x: "x \<in> set (k_log s)" for x
  proof -
    consider "x \<in> set (k_log ?s2)" | "\<exists>e \<in> set es. origin x e" using run_log [OF i2] x s by blast
    then show ?thesis
    proof cases
      case 1
      then consider "x \<in> set (k_log ?r)" | "\<exists>e \<in> set es1. origin x e" using run_log [OF r, of x es1] by auto
      then show ?thesis
      proof cases
        case 1
        then show ?thesis using run_log [OF boot_inv [of user reduced scale], of x es0] rr(1) b(2) by auto
      qed auto
    qed auto
  qed
  then show ?thesis using locker.run_inv [OF i2, of es] s u l by simp
qed

section \<open>The typed text\<close>

text \<open>Keys whose text fits the buffer of \<open>kb_key\<close>; xkbcommon's text has no NUL.\<close>

fun key_ok :: "lock_event \<Rightarrow> bool" where
  "key_ok (L_key v env pressed ks u) = (length u < 8 \<and> NUL \<notin> set u)"
| "key_ok _ = True"

definition accepts :: "lock_state \<Rightarrow> bool" where
  "accepts s \<longleftrightarrow> k_surfaces s > 0 \<and> k_xkb s = Xkb_ok \<and> k_phase s \<noteq> Phase_leave"

fun typed :: "keysym \<Rightarrow> string \<Rightarrow> string \<Rightarrow> string" where
  "typed Sym_return u t = []"
| "typed Sym_backspace u t = butlast t"
| "typed Sym_escape u t = []"
| "typed (Sym_media m) u t = t"
| "typed Sym_other u t = (if u \<noteq> [] \<and> of_char (hd u) \<ge> (0x20 :: nat) \<and> length t + length u < 1023 then t @ u else t)"

fun text_step :: "lock_event \<Rightarrow> bool \<Rightarrow> string \<Rightarrow> string" where
  "text_step (L_key v env pressed ks u) ok t = (if ok \<and> pressed then typed ks u t else t)"
| "text_step _ ok t = t"

lemma cstr_terminated: "n < length p \<Longrightarrow> NUL \<notin> set (take n p) \<Longrightarrow> cstr (p[n := NUL]) = take n p"
  by (simp add: cstr_def upd_conv_take_nth_drop takeWhile_tail takeWhile_append2 takeWhile_hit)
    (metis takeWhile_hit)

lemma text_fields: "k_password t = k_password s \<Longrightarrow> k_len t = k_len s \<Longrightarrow> text_of t = text_of s"
  by (simp add: text_of_def)

lemma key_text_typed:
  assumes "lock_inv s" and "length u < 8"
  shows "text_of (if key_fits u s then key_text u s else s) = typed Sym_other u (text_of s)"
    "k_read_fault (key_text u s) = k_read_fault s"
proof -
  have l: "length (k_password s) = 1024" "k_len s \<le> 1022" using assms(1) by (simp_all add: lock_inv_def)
  then have t: "length (text_of s) = k_len s" by (simp add: text_of_def)
  have buf: "take (length u) (utf8_buffer u) = u" using assms(2) by (simp add: utf8_buffer_def)
  have "utf8_buffer u ! 0 = hd u" if "u \<noteq> []" using that by (cases u) (simp_all add: utf8_buffer_def)
  then have f: "key_fits u s \<longleftrightarrow> u \<noteq> [] \<and> of_char (hd u) \<ge> (0x20 :: nat) \<and> length (text_of s) + length u < 1023"
    using t by (auto simp: key_fits_def)
  have "text_of (key_text u s) = text_of s @ u" using l buf by (simp add: key_text_def text_of_def)
  then show "text_of (if key_fits u s then key_text u s else s) = typed Sym_other u (text_of s)" unfolding typed.simps f by simp
  show "k_read_fault (key_text u s) = k_read_fault s" using assms(2) by (simp add: key_text_def)
qed

lemma submit_text:
  assumes "lock_inv s" and "NUL \<notin> set (text_of s)"
  shows "text_of (submit_password v env s) = []" "k_read_fault (submit_password v env s) = k_read_fault s"
    "k_log (submit_password v env s) = (if text_of s = [] then k_log s else k_log s @ [Tried env (k_user s) (text_of s)])"
    "text_of s \<noteq> [] \<Longrightarrow> set (k_password (submit_password v env s)) = {NUL}"
proof -
  have a: "addr_ok s" "k_len s < length (k_password s)" using assms(1) by (simp_all add: lock_inv_def)
  have c: "cstr ((k_password s)[k_len s := NUL]) = text_of s"
    using cstr_terminated [OF a(2)] assms(2) by (simp add: text_of_def)
  have e: "text_of s = [] \<longleftrightarrow> k_len s = 0" using a(2) by (auto simp: text_of_def)
  show "text_of (submit_password v env s) = []" "k_read_fault (submit_password v env s) = k_read_fault s"
    "k_log (submit_password v env s) = (if text_of s = [] then k_log s else k_log s @ [Tried env (k_user s) (text_of s)])"
    using a(1) c e by (simp_all add: submit_password_def Let_def text_of_def)
  show "set (k_password (submit_password v env s)) = {NUL}" if "text_of s \<noteq> []"
    using that a(1) e by (simp add: submit_password_def Let_def)
qed

lemma backspace_text:
  "n \<le> length p \<Longrightarrow> take (n - 1) (p[n - 1 := x]) = butlast (take n p)"
  by (simp add: butlast_take)

lemma key_active:
  assumes "lock_inv s" and "NUL \<notin> set (text_of s)" and "k_xkb s = Xkb_ok" and "k_phase s \<noteq> Phase_leave" and "length u < 8"
  shows "text_of (kb_key v env True ks u s) = typed ks u (text_of s) \<and> k_read_fault (kb_key v env True ks u s) = k_read_fault s"
proof -
  have a: "addr_ok s" "k_len s \<le> length (k_password s)" using assms(1) by (simp_all add: lock_inv_def)
  show ?thesis
  proof (cases ks)
    case Sym_return
    then show ?thesis using assms(3,4) submit_text [OF assms(1,2)] by (simp add: kb_key_def)
  next
    case Sym_backspace
    then show ?thesis using assms(3,4) a by (simp add: kb_key_def text_of_def butlast_take)
  next
    case Sym_escape
    then show ?thesis using assms(3,4) a by (simp add: kb_key_def text_of_def)
  next
    case (Sym_media m)
    then show ?thesis using assms(3,4) by (simp add: kb_key_def text_of_def)
  next
    case Sym_other
    then have "text_of (kb_key v env True ks u s) = text_of (if key_fits u s then key_text u s else s) \<and>
      k_read_fault (kb_key v env True ks u s) = k_read_fault (if key_fits u s then key_text u s else s)"
      using assms(3,4) a(1) by (simp add: kb_key_def text_of_def)
    then show ?thesis using key_text_typed [OF assms(1,5)] Sym_other by simp
  qed
qed

lemma key_ignored: "\<not> (accepts s \<and> pressed) \<Longrightarrow> k_surfaces s > 0 \<Longrightarrow> text_of (kb_key v env pressed ks u s) = text_of s \<and>
    k_read_fault (kb_key v env pressed ks u s) = k_read_fault s"
proof (cases "pressed \<and> k_phase s \<noteq> Phase_leave")
  case True
  assume "\<not> (accepts s \<and> pressed)" "k_surfaces s > 0"
  then have "k_xkb s \<noteq> Xkb_ok" using True by (simp add: accepts_def)
  then show ?thesis using True by (cases "k_xkb s") (simp_all add: kb_key_def text_of_def)
qed (auto simp: kb_key_def text_of_def)

lemma step_text:
  assumes "lock_inv s" and "NUL \<notin> set (text_of s)" and "key_ok e"
  shows "text_of (lock_step e s) = text_step e (accepts s) (text_of s) \<and> k_read_fault (lock_step e s) = k_read_fault s"
proof (cases e)
  case (L_key v env pressed ks u)
  have u: "length u < 8" using assms(3) L_key by simp
  consider "k_surfaces s = 0" | "accepts s" "pressed" | "k_surfaces s > 0" "\<not> (accepts s \<and> pressed)" by auto
  then show ?thesis
  proof cases
    case 1
    then show ?thesis using L_key by (simp add: accepts_def)
  next
    case 2
    then show ?thesis using L_key key_active [OF assms(1,2) _ _ u, of v env ks] by (simp add: accepts_def)
  next
    case 3
    then show ?thesis using L_key key_ignored [OF 3(2,1), of v env ks u] by auto
  qed
next
  case (L_fprint v f)
  obtain fp cs where h: "fp_handle f (k_fp s) = (fp, cs)" by (cases "fp_handle f (k_fp s)")
  then show ?thesis using L_fprint callbacks_fields [of "s\<lparr>k_fp := fp\<rparr>" v cs] lock_inv_addr [OF assms(1)]
    by (simp add: text_of_def)
next
  case (L_repaint v)
  then show ?thesis using lock_inv_addr [OF assms(1)] by (simp add: text_of_def)
qed (auto simp: text_of_def reg_global_output_def reg_remove_def lock_locked_def lock_finished_def lock_surface_configure_def
      frame_fields kb_keymap_def kb_modifiers_def pt_enter_def pt_leave_def pt_button_def unlock_session_def put_output_def
      Let_def split: option.splits)

lemma typed_nul: "NUL \<notin> set t \<Longrightarrow> NUL \<notin> set u \<Longrightarrow> NUL \<notin> set (typed ks u t)"
  by (cases ks) (auto dest: in_set_butlastD)

lemma step_nul:
  assumes "lock_inv s" and "NUL \<notin> set (text_of s)" and "key_ok e"
  shows "NUL \<notin> set (text_of (lock_step e s))"
  using step_text [OF assms] assms(2,3) typed_nul by (cases e) auto

lemma run_text:
  "lock_inv s \<Longrightarrow> NUL \<notin> set (text_of s) \<Longrightarrow> list_all key_ok es \<Longrightarrow>
   NUL \<notin> set (text_of (fold lock_step es s)) \<and> k_read_fault (fold lock_step es s) = k_read_fault s"
proof (induction es arbitrary: s)
  case (Cons e es)
  then show ?case using step_text [of s e] step_nul [of s e] Cons.IH [of "lock_step e s"] lock_step_inv [of s e] by simp
qed simp

lemma main_text:
  assumes "lock_main user reduced scale globals es0 es1 es = Some s" and "list_all key_ok (es0 @ es1 @ es)"
  shows "NUL \<notin> set (text_of s) \<and> \<not> k_read_fault s"
proof -
  let ?b = "lock_boot user reduced scale"
  let ?s0 = "fold lock_step es0 ?b"
  let ?s1 = "fold lock_step es1 (request_lock ?s0)"
  let ?s2 = "?s1\<lparr>k_fp := lock_fprint_start (k_user ?s1) (k_fp ?s1)\<rparr>"
  have k: "list_all key_ok es0" "list_all key_ok es1" "list_all key_ok es" using assms(2) by simp_all
  have "text_of ?b = []" "\<not> k_read_fault ?b" by (simp_all add: text_of_def lock_boot_def start_phase_def)
  then have "NUL \<notin> set (text_of ?s0) \<and> \<not> k_read_fault ?s0" using run_text [OF boot_inv [of user reduced scale] _ k(1)] by simp
  then have "NUL \<notin> set (text_of (request_lock ?s0)) \<and> \<not> k_read_fault (request_lock ?s0)" by (simp add: text_of_def request_lock_def)
  then have "NUL \<notin> set (text_of ?s1) \<and> \<not> k_read_fault ?s1" using run_text [OF main_phases(2) [OF assms(1)] _ k(2)] by simp
  then have "NUL \<notin> set (text_of ?s2) \<and> \<not> k_read_fault ?s2" by (simp add: text_of_def)
  then show ?thesis using run_text [OF main_phases(3) [OF assms(1)] _ k(3)] main_phases(1) [OF assms(1)] by simp
qed

section \<open>The way out\<close>

text \<open>While the session is being left, every configured output waits for a frame.\<close>

definition framed :: "lock_state \<Rightarrow> bool" where
  "framed s \<longleftrightarrow> (\<forall>x \<in> set (k_outputs s). lo_configured x \<longrightarrow> lo_frame x)"

definition leave_ok :: "lock_state \<Rightarrow> bool" where
  "leave_ok s \<longleftrightarrow> (k_phase s = Phase_leave \<and> k_unlocks s = 0 \<longrightarrow> framed s \<and> (\<exists>x \<in> set (k_outputs s). lo_configured x))"

text \<open>Events whose handlers get all the buffers they ask for.\<close>

fun paints :: "lock_event \<Rightarrow> bool" where
  "paints (L_configure v a w h) = (vw_fail v = {})"
| "paints (L_frame v a) = (vw_fail v = {})"
| "paints (L_key v env pressed ks u) = (vw_fail v = {})"
| "paints (L_fprint v e) = (vw_fail v = {})"
| "paints (L_repaint v) = (vw_fail v = {})"
| "paints _ = True"

lemma render_output_outputs:
  assumes "k_phase s = Phase_leave" and "vw_fail v = {}"
  shows "k_outputs (render_output v x s) =
    (if lo_frame x then k_outputs s else map (\<lambda>y. if lo_addr y = lo_addr x then x\<lparr>lo_frame := True\<rparr> else y) (k_outputs s))"
proof -
  obtain a t where t: "apply_motion (vw_now v) s = (a, t)" by (cases "apply_motion (vw_now v) s")
  have m: "motion s t" using motion_apply [of s "vw_now v"] t by simp
  have "k_phase t = Phase_leave" using motion_fields(21) [OF m assms(1)] .
  moreover have "k_outputs t = k_outputs s" using t by (auto simp: apply_motion_def advance_phase_def shake_offset_def Let_def split: if_splits)
  ultimately show ?thesis using assms(2) by (simp add: render_output_def t put_output_def)
qed

lemma frame_set: "x\<lparr>lo_frame := True\<rparr> = x \<longleftrightarrow> lo_frame x"
  by (cases x) simp

lemma render_list_framed:
  assumes "vw_fail v = {}"
  shows "addr_ok s \<Longrightarrow> k_phase s = Phase_leave \<Longrightarrow> set xs \<subseteq> set (k_outputs s) \<Longrightarrow> distinct (map lo_addr xs) \<Longrightarrow>
    y \<in> set (k_outputs (render_list v xs s)) \<Longrightarrow> lo_configured y \<Longrightarrow> lo_frame y \<or> y \<in> set (k_outputs s) \<and> y \<notin> set xs"
proof (induction xs arbitrary: s)
  case (Cons x xs)
  let ?t = "if lo_configured x then render_output v x s else s"
  have m: "motion s ?t" using Cons.prems(1,3) render_motion [of s x v] motion_refl by (auto simp: still_def)
  have outs: "k_outputs ?t = (if lo_configured x \<and> \<not> lo_frame x
    then map (\<lambda>y. if lo_addr y = lo_addr x then x\<lparr>lo_frame := True\<rparr> else y) (k_outputs s) else k_outputs s)"
    using render_output_outputs [OF Cons.prems(2) assms] by simp
  have keep: "z \<in> set (k_outputs ?t)" if "z \<in> set xs" for z
  proof -
    have "lo_addr z \<noteq> lo_addr x" using that Cons.prems(4) by (auto simp: image_iff)
    then show ?thesis using that Cons.prems(3) by (force simp: outs)
  qed
  have "lo_frame y \<or> y \<in> set (k_outputs ?t) \<and> y \<notin> set xs"
    using keep Cons.prems(4,5,6) motion_addr_ok [OF m] Cons.prems(1) motion_fields(21) [OF m Cons.prems(2)]
    by (intro Cons.IH) auto
  then show ?case using Cons.prems(6) by (auto simp: outs frame_set split: if_splits)
qed simp

lemma render_all_framed:
  assumes "addr_ok s" and "k_phase s = Phase_leave" and "vw_fail v = {}"
  shows "framed (render_all v s)"
  using render_list_framed [OF assms(3,1,2), of "k_outputs s"] assms(1) by (auto simp: framed_def render_all_def addr_ok_def)

lemma configured_motion: "motion s t \<Longrightarrow> (\<exists>x \<in> set (k_outputs t). lo_configured x) = (\<exists>x \<in> set (k_outputs s). lo_configured x)"
proof -
  assume "motion s t"
  then have "lo_configured ` set (k_outputs t) = lo_configured ` set (k_outputs s)" using motion_fields(20) by (metis list.set_map)
  then show ?thesis by (metis (mono_tags, lifting) imageE imageI)
qed

lemma render_all_leave_ok:
  assumes "addr_ok s" and "leave_ok s" and "vw_fail v = {}"
  shows "leave_ok (render_all v s)"
proof -
  note m = render_all_motion [OF assms(1), of v]
  show ?thesis using assms(2) render_all_framed [OF assms(1) _ assms(3)] motion_fields(4,22) [OF m] configured_motion [OF m]
    by (simp add: leave_ok_def)
qed

lemma leave_ok_quiet [simp]:
  "leave_ok (s\<lparr>k_status := a\<rparr>) = leave_ok s" "leave_ok (s\<lparr>k_status_error := b\<rparr>) = leave_ok s" "leave_ok (s\<lparr>k_log := l\<rparr>) = leave_ok s"
  "leave_ok (s\<lparr>k_password := p\<rparr>) = leave_ok s" "leave_ok (s\<lparr>k_len := n\<rparr>) = leave_ok s" "leave_ok (s\<lparr>k_shake := i\<rparr>) = leave_ok s"
  "leave_ok (s\<lparr>k_fp := fp\<rparr>) = leave_ok s" "leave_ok (s\<lparr>k_read_fault := b\<rparr>) = leave_ok s" "leave_ok (s\<lparr>k_media := md\<rparr>) = leave_ok s"
  "leave_ok (s\<lparr>k_ptr := pt\<rparr>) = leave_ok s" "leave_ok (s\<lparr>k_ptr_fault := b\<rparr>) = leave_ok s" "leave_ok (s\<lparr>k_xkb := x\<rparr>) = leave_ok s"
  "leave_ok (s\<lparr>k_xkb_fault := b\<rparr>) = leave_ok s" "leave_ok (s\<lparr>k_running := b\<rparr>) = leave_ok s" "leave_ok (s\<lparr>k_unlocking := u\<rparr>) = leave_ok s"
  "leave_ok (s\<lparr>k_locked := b\<rparr>) = leave_ok s"
  by (simp_all add: leave_ok_def framed_def)

lemma unlock_leave_ok: "leave_ok (unlock_session s)"
  by (simp add: leave_ok_def unlock_session_def)

lemma begin_leave_ok:
  assumes "addr_ok s" and "leave_ok s" and "vw_fail v = {}"
  shows "leave_ok (begin_leave v s)"
proof -
  let ?s = "start_phase Phase_leave 320 (s\<lparr>k_shake := -1\<rparr>)"
  have a: "addr_ok ?s" using assms(1) by (simp add: start_phase_def)
  note m = render_all_motion [OF a, of v]
  have "framed (render_all v ?s)" by (rule render_all_framed [OF a _ assms(3)]) (simp add: start_phase_def)
  moreover have "\<exists>x \<in> set (k_outputs (render_all v ?s)). lo_configured x" if "\<exists>x \<in> set (k_outputs s). lo_configured x"
    using configured_motion [OF m] that by (simp add: start_phase_def)
  ultimately show ?thesis using assms(2) unlock_leave_ok by (simp add: begin_leave_def leave_ok_def)
qed

lemma callbacks_leave_ok:
  "addr_ok s \<Longrightarrow> leave_ok s \<Longrightarrow> vw_fail v = {} \<Longrightarrow> leave_ok (fold (fp_callback v) cs s)"
proof (induction cs arbitrary: s)
  case (Cons c cs)
  have "leave_ok (fp_callback v c s)"
    using Cons.prems by (cases c) (auto simp: fp_callback_def on_fprint_match_def on_fprint_status_def
        intro!: begin_leave_ok render_all_leave_ok)
  then show ?case using Cons.IH callback_fields [OF Cons.prems(1)] Cons.prems(3) by simp
qed simp

lemma put_configured:
  assumes "addr_ok s" and "x \<in> set (k_outputs s)" and "lo_addr y = lo_addr x" and "lo_configured x \<Longrightarrow> lo_configured y"
    and "\<exists>z \<in> set (k_outputs s). lo_configured z"
  shows "\<exists>w \<in> set (k_outputs (put_output y s)). lo_configured w"
proof -
  obtain z where z: "z \<in> set (k_outputs s)" "lo_configured z" using assms(5) by blast
  have "(if lo_addr z = lo_addr y then y else z) \<in> set (k_outputs (put_output y s))"
    using z(1) by (simp add: put_output_def)
  moreover have "z = x" if "lo_addr z = lo_addr y" using that z(1) assms(1-3) by (auto simp: addr_ok_def distinct_map inj_on_def)
  ultimately show ?thesis using z(2) assms(4) by (cases "lo_addr z = lo_addr y") auto
qed

lemma surface_leave_ok:
  assumes "addr_ok s" and "leave_ok s"
  shows "addr_ok (create_lock_surface a s) \<and> leave_ok (create_lock_surface a s)"
proof (cases "output_at a s")
  case (Some x)
  let ?y = "x\<lparr>lo_surface := Some (k_surfaces s)\<rparr>"
  have x: "x \<in> set (k_outputs s)" using output_atD [OF Some] by simp
  have "\<exists>w \<in> set (k_outputs (put_output ?y s)). lo_configured w" if "\<exists>z \<in> set (k_outputs s). lo_configured z"
    by (rule put_configured [OF assms(1) x _ _ that]) simp_all
  moreover have "framed (put_output ?y s)" if "framed s" using that x by (auto simp: framed_def put_output_def)
  moreover have "k_phase (put_output ?y s) = k_phase s" "k_unlocks (put_output ?y s) = k_unlocks s" by (simp_all add: put_output_def)
  ultimately have "leave_ok (put_output ?y s)" using assms(2) by (simp add: leave_ok_def)
  then show ?thesis using Some assms put_addr_ok [OF assms(1), of ?y]
    by (simp add: create_lock_surface_def) (simp add: leave_ok_def framed_def addr_ok_def)
qed (use assms in \<open>simp add: create_lock_surface_def\<close>)

lemma surfaces_leave_ok: "addr_ok s \<Longrightarrow> leave_ok s \<Longrightarrow> leave_ok (fold create_lock_surface as s)"
  by (induction as arbitrary: s) (simp_all add: surface_leave_ok)

lemma put_render_leave_ok:
  assumes "addr_ok s" and "x \<in> set (k_outputs s)" and "leave_ok s" and "vw_fail v = {}"
    and "lo_addr y = lo_addr x" and "lo_configured x \<Longrightarrow> lo_configured y"
  shows "leave_ok (render_output v y (put_output y s))"
proof -
  let ?t = "render_output v y (put_output y s)"
  have m: "motion (put_output y s) ?t"
    by (rule render_motion [OF put_addr_ok [OF assms(1)] put_still [OF assms(2,5)]])
  have u: "k_unlocks ?t = k_unlocks s" "k_phase ?t = Phase_leave \<Longrightarrow> k_phase s = Phase_leave"
    using motion_fields(4,22) [OF m] by (simp_all add: put_output_def)
  have "framed ?t \<and> (\<exists>z \<in> set (k_outputs ?t). lo_configured z)" if l: "k_phase s = Phase_leave" "k_unlocks s = 0"
  proof
    have fr: "framed s" "\<exists>z \<in> set (k_outputs s). lo_configured z" using assms(3) l by (simp_all add: leave_ok_def)
    have "k_phase (put_output y s) = Phase_leave" using l by (simp add: put_output_def)
    note outs = render_output_outputs [OF this assms(4), of y]
    show "framed ?t" using fr(1) unfolding framed_def outs by (auto simp: put_output_def split: if_splits)
    have "\<exists>w \<in> set (k_outputs (put_output y s)). lo_configured w"
      by (rule put_configured [OF assms(1,2,5,6) fr(2)])
    then show "\<exists>z \<in> set (k_outputs ?t). lo_configured z" using configured_motion [OF m] by blast
  qed
  then show ?thesis using u by (auto simp: leave_ok_def)
qed

lemma step_leave_ok:
  assumes "lock_inv s" and "leave_ok s" and "paints e"
  shows "leave_ok (lock_step e s)"
proof (cases e)
  case (L_configure v a w h)
  show ?thesis
  proof (cases "output_at a s")
    case (Some x)
    have "leave_ok (lock_surface_configure v w h x s)"
      unfolding lock_surface_configure_def Let_def
      by (rule put_render_leave_ok [OF lock_inv_addr [OF assms(1)] _ assms(2)])
        (use output_atD [OF Some] assms(3) L_configure in auto)
    then show ?thesis using L_configure Some assms(2) by simp
  qed (use L_configure assms(2) in simp)
next
  case (L_frame v a)
  show ?thesis
  proof (cases "output_at a s")
    case (Some x)
    have "leave_ok (render_output v (x\<lparr>lo_frame := False\<rparr>) (put_output (x\<lparr>lo_frame := False\<rparr>) s))"
      by (rule put_render_leave_ok [OF lock_inv_addr [OF assms(1)] _ assms(2)])
        (use output_atD [OF Some] assms(3) L_frame in auto)
    then show ?thesis using L_frame Some assms(2) unlock_leave_ok by (simp add: frame_done_def Let_def)
  qed (use L_frame assms(2) in simp)
next
  case (L_key v env pressed ks u)
  have a: "addr_ok s" by (rule lock_inv_addr [OF assms(1)])
  show ?thesis using L_key assms(2,3) a
    by (cases ks) (auto simp: kb_key_def submit_password_def key_text_def Let_def intro!: render_all_leave_ok begin_leave_ok)
next
  case (L_fprint v f)
  obtain fp cs where h: "fp_handle f (k_fp s) = (fp, cs)" by (cases "fp_handle f (k_fp s)")
  then show ?thesis using L_fprint assms callbacks_leave_ok [of "s\<lparr>k_fp := fp\<rparr>" v cs] lock_inv_addr [OF assms(1)] by simp
next
  case (L_repaint v)
  then show ?thesis using render_all_leave_ok [OF lock_inv_addr [OF assms(1)] assms(2)] assms(3) by simp
next
  case (L_output name)
  let ?s = "s\<lparr>k_next := Suc (k_next s), k_outputs := \<lparr>lo_addr = k_next s, lo_name = name, lo_surface = None, lo_size = (0, 0),
                   lo_configured = False, lo_frame = False\<rparr> # k_outputs s\<rparr>"
  have "leave_ok ?s" using assms(2) by (simp add: leave_ok_def framed_def)
  moreover have "addr_ok ?s" using lock_inv_addr [OF assms(1)] by (force simp: addr_ok_def less_Suc_eq)
  ultimately show ?thesis using L_output surface_leave_ok by (simp add: reg_global_output_def Let_def)
next
  case (L_remove name)
  show ?thesis
  proof (cases "List.find (\<lambda>x. lo_name x = name) (k_outputs s)")
    case (Some x)
    have "set (remove1 x (k_outputs s)) \<subseteq> set (k_outputs s)" by (rule set_remove1_subset)
    then have "leave_ok (s\<lparr>k_outputs := remove1 x (k_outputs s)\<rparr>)"
      if "k_phase s \<noteq> Phase_leave \<or> (\<exists>y \<in> set (remove1 x (k_outputs s)). lo_configured y)"
      using that assms(2) by (auto simp: leave_ok_def framed_def)
    then show ?thesis using L_remove Some unlock_leave_ok by (simp add: reg_remove_def Let_def)
  qed (use L_remove assms(2) in \<open>simp add: reg_remove_def\<close>)
next
  case L_locked
  have "addr_ok (s\<lparr>k_locked := True\<rparr>)" using lock_inv_addr [OF assms(1)] by (simp add: addr_ok_def)
  then show ?thesis using L_locked assms(2) by (simp add: lock_locked_def surfaces_leave_ok)
qed (use assms(2) in \<open>simp_all add: lock_finished_def kb_keymap_def kb_modifiers_def pt_enter_def pt_leave_def pt_button_def
    split: option.splits\<close>)

lemma run_leave_ok: "lock_inv s \<Longrightarrow> leave_ok s \<Longrightarrow> list_all paints es \<Longrightarrow> leave_ok (fold lock_step es s)"
  by (induction es arbitrary: s) (simp_all add: step_leave_ok lock_step_inv)

lemma main_leave_ok:
  assumes "lock_main user reduced scale globals es0 es1 es = Some s" and "list_all paints (es0 @ es1 @ es)"
  shows "leave_ok s"
proof -
  let ?b = "lock_boot user reduced scale"
  let ?s0 = "fold lock_step es0 ?b"
  let ?s1 = "fold lock_step es1 (request_lock ?s0)"
  have k: "list_all paints es0" "list_all paints es1" "list_all paints es" using assms(2) by simp_all
  have "leave_ok ?b" by (simp add: leave_ok_def lock_boot_def start_phase_def)
  then have "leave_ok ?s0" by (rule run_leave_ok [OF boot_inv _ k(1)])
  then have "leave_ok (request_lock ?s0)" by (simp add: leave_ok_def framed_def request_lock_def)
  then have "leave_ok ?s1" by (rule run_leave_ok [OF main_phases(2) [OF assms(1)] _ k(2)])
  then show ?thesis using run_leave_ok [OF main_phases(3) [OF assms(1)] _ k(3)] main_phases(1) [OF assms(1)] by simp
qed

lemma submit_effect:
  assumes "lock_inv s" and "NUL \<notin> set (text_of s)" and "text_of s \<noteq> []"
  obtains t where "submit_password v env s =
      (if authentic env (k_user s) (text_of s) then begin_leave v t
       else render_all v (t\<lparr>k_shake := (if k_reduced t then k_shake t else vw_now v),
              k_status := (if au_socket env then Incorrect_pin else Incorrect_password), k_status_error := True\<rparr>))"
    "addr_ok t" "k_unlocks t = k_unlocks s" "k_locked t = k_locked s" "k_phase t = Phase_leave \<Longrightarrow> k_phase s = Phase_leave"
    "(\<exists>x \<in> set (k_outputs t). lo_configured x) = (\<exists>x \<in> set (k_outputs s). lo_configured x)"
    "leave_ok s \<Longrightarrow> vw_fail v = {} \<Longrightarrow> leave_ok t"
proof -
  have a: "addr_ok s" "k_len s < length (k_password s)" using assms(1) by (simp_all add: lock_inv_def)
  have c: "cstr ((k_password s)[k_len s := NUL]) = text_of s"
    using cstr_terminated [OF a(2)] assms(2) by (simp add: text_of_def)
  have e: "k_len s \<noteq> 0" using assms(3) by (auto simp: text_of_def)
  define s1 where "s1 = s\<lparr>k_password := (k_password s)[k_len s := NUL], k_status := Authenticating, k_status_error := False\<rparr>"
  have a1: "addr_ok s1" using a(1) by (simp add: s1_def)
  note m = render_all_motion [OF a1, of v]
  show thesis
  proof (rule that [where t = "(render_all v s1)\<lparr>k_log := k_log s @ [Tried env (k_user s) (text_of s)],
      k_password := replicate 1024 NUL, k_len := 0\<rparr>"])
    show "leave_ok ((render_all v s1)\<lparr>k_log := k_log s @ [Tried env (k_user s) (text_of s)], k_password := replicate 1024 NUL, k_len := 0\<rparr>)"
      if "leave_ok s" "vw_fail v = {}"
      using that render_all_leave_ok [OF a1 _ that(2)] by (simp add: s1_def)
  qed (use a1 c e m motion_fields(4,7,22) [OF m] configured_motion [OF m] in
      \<open>simp_all add: submit_password_def Let_def pam_authenticate_iff flip: s1_def\<close>, simp_all add: s1_def)
qed

text \<open>The frame of an output that is being left, and the one after it, when the animation's time has passed.\<close>

lemma leave_frame:
  assumes "lock_inv s" and "k_phase s = Phase_leave" and "k_unlocks s = 0" and "output_at a s = Some x" and "lo_frame x"
    and "vw_fail v = {}" and "0 \<le> vw_now v" and "k_anim_start s \<le> vw_now v"
  shows "k_unlocks (lock_step (L_frame v a) s) = 1 \<or>
    (\<exists>y. output_at a (lock_step (L_frame v a) s) = Some y \<and> lo_frame y \<and> k_phase (lock_step (L_frame v a) s) = Phase_leave \<and>
       k_unlocks (lock_step (L_frame v a) s) = 0 \<and> k_anim_ms (lock_step (L_frame v a) s) = k_anim_ms s \<and>
       0 \<le> k_anim_start (lock_step (L_frame v a) s) \<and> k_anim_start (lock_step (L_frame v a) s) \<le> vw_now v)"
proof -
  let ?x = "x\<lparr>lo_frame := False\<rparr>"
  let ?p = "put_output ?x s"
  have x: "x \<in> set (k_outputs s)" "lo_addr x = a" using output_atD [OF assms(4)] by simp_all
  have st: "lock_step (L_frame v a) s = frame_done v x s" using assms(4,5) by simp
  obtain b t where t: "apply_motion (vw_now v) ?p = (b, t)" by (cases "apply_motion (vw_now v) ?p")
  have p: "k_phase ?p = Phase_leave" "k_unlocks ?p = 0" "k_anim_start ?p = k_anim_start s" "k_anim_ms ?p = k_anim_ms s"
    using assms(2,3) by (simp_all add: put_output_def)
  have tf: "k_phase t = Phase_leave" "k_unlocks t = 0" "k_anim_ms t = k_anim_ms s" "k_outputs t = k_outputs ?p"
    "0 \<le> k_anim_start t" "k_anim_start t \<le> vw_now v"
    using t p assms(7,8) by (auto simp: apply_motion_def advance_phase_def shake_offset_def Let_def split: if_splits)
  have r: "render_output v ?x ?p = put_output (?x\<lparr>lo_frame := True\<rparr>) t"
    using tf(1) assms(6) by (simp add: render_output_def t)
  have "output_at a (put_output (?x\<lparr>lo_frame := True\<rparr>) t) = Some (?x\<lparr>lo_frame := True\<rparr>)"
  proof -
    have in_p: "?x \<in> set (k_outputs ?p)" using x by (force simp: put_output_def)
    have "?x\<lparr>lo_frame := True\<rparr> \<in> set (k_outputs (put_output (?x\<lparr>lo_frame := True\<rparr>) t))"
      using in_p tf(4) by (force simp: put_output_def)
    then obtain z where z: "output_at a (put_output (?x\<lparr>lo_frame := True\<rparr>) t) = Some z"
      using x(2) unfolding output_at_def
      by (cases "List.find (\<lambda>x. lo_addr x = a) (k_outputs (put_output (?x\<lparr>lo_frame := True\<rparr>) t))") (auto simp: find_None_iff)
    then have "z \<in> set (k_outputs (put_output (?x\<lparr>lo_frame := True\<rparr>) t))" "lo_addr z = a" using output_atD by blast+
    then have "z = ?x\<lparr>lo_frame := True\<rparr>" using x(2) by (auto simp: put_output_def split: if_splits)
    then show ?thesis using z by simp
  qed
  moreover have "k_phase (put_output y t) = k_phase t" "k_unlocks (put_output y t) = k_unlocks t" "k_anim_ms (put_output y t) = k_anim_ms t"
    "k_anim_start (put_output y t) = k_anim_start t" for y by (simp_all add: put_output_def)
  moreover have "k_unlocks (unlock_session (?p\<lparr>k_phase := Phase_idle\<rparr>)) = 1" using p(2) by (simp add: unlock_session_def)
  ultimately show ?thesis using tf r unfolding st frame_done_def Let_def by (auto split: if_splits)
qed

lemma render_output_unlocks: "k_unlocks (render_output v x s) = k_unlocks s"
  using motion_fields(4) [OF motion_apply [of s "vw_now v"]] by (auto simp: render_output_def put_output_def split: prod.splits)

lemma frame_unlocks_mono: "k_unlocks s \<le> k_unlocks (lock_step (L_frame v a) s)"
proof (cases "output_at a s")
  case (Some x)
  have "k_unlocks (put_output y s) = k_unlocks s" for y by (simp add: put_output_def)
  then show ?thesis using Some by (simp add: frame_done_def Let_def unlock_session_def render_output_unlocks)
qed simp

lemma leave_frames:
  assumes "lock_inv s" and "k_phase s = Phase_leave" and "k_unlocks s = 0" and "output_at a s = Some x" and "lo_frame x"
    and "vw_fail v = {}" and "0 \<le> vw_now v" and "k_anim_start s \<le> vw_now v"
    and "k_anim_ms s \<le> real_of_int (vw_now w - vw_now v) / 1000"
  shows "k_unlocks (lock_step (L_frame w a) (lock_step (L_frame v a) s)) \<ge> 1"
proof -
  let ?t = "lock_step (L_frame v a) s"
  consider "k_unlocks ?t = 1" | y where "output_at a ?t = Some y" "lo_frame y" "k_phase ?t = Phase_leave" "k_unlocks ?t = 0"
    "k_anim_ms ?t = k_anim_ms s" "0 \<le> k_anim_start ?t" "k_anim_start ?t \<le> vw_now v"
    using leave_frame [OF assms(1-8)] by blast
  then show ?thesis
  proof cases
    case 1
    then show ?thesis using frame_unlocks_mono [of ?t w a] by simp
  next
    case (2 y)
    have "real_of_int (vw_now w - vw_now v) \<le> real_of_int (vw_now w - k_anim_start ?t)" using 2(7) by simp
    then have ms: "k_anim_ms ?t \<le> real_of_int (vw_now w - k_anim_start ?t) / 1000" using assms(9) 2(5) by simp
    have "k_phase (put_output z ?t) = k_phase ?t" "k_unlocks (put_output z ?t) = k_unlocks ?t" "k_anim_ms (put_output z ?t) = k_anim_ms ?t"
      "k_anim_start (put_output z ?t) = k_anim_start ?t" for z by (simp_all add: put_output_def)
    then show ?thesis using 2 ms by (simp add: frame_done_def Let_def unlock_session_def)
  qed
qed

text \<open>
  The session is open, or it is being left and an output waits for a frame: two frames of that output, as far
  apart as the animation lasts, send the unlock.
\<close>

definition opens :: "lock_state \<Rightarrow> bool" where
  "opens t \<longleftrightarrow> k_unlocks t > 0 \<or>
    (k_phase t = Phase_leave \<and> (\<exists>a x. output_at a t = Some x \<and> lo_frame x \<and>
       (\<forall>v w. vw_fail v = {} \<and> 0 \<le> vw_now v \<and> k_anim_start t \<le> vw_now v \<and>
          k_anim_ms t \<le> real_of_int (vw_now w - vw_now v) / 1000 \<longrightarrow>
          k_unlocks (lock_step (L_frame w a) (lock_step (L_frame v a) t)) > 0)))"

lemma output_at_member: "addr_ok s \<Longrightarrow> x \<in> set (k_outputs s) \<Longrightarrow> output_at (lo_addr x) s = Some x"
proof -
  assume a: "addr_ok s" "x \<in> set (k_outputs s)"
  then obtain y where y: "output_at (lo_addr x) s = Some y"
    by (cases "output_at (lo_addr x) s") (auto simp: output_at_def find_None_iff)
  then show ?thesis using output_atD [OF y] a by (auto simp: addr_ok_def distinct_map inj_on_def)
qed

lemma motion_error: "motion s t \<Longrightarrow> k_status_error t = k_status_error s"
  by (auto simp: motion_def)

lemma submit_refused:
  assumes "lock_inv s" and "NUL \<notin> set (text_of s)" and "text_of s \<noteq> []" and "k_phase s \<noteq> Phase_leave"
    and "\<not> authentic env (k_user s) (text_of s)"
  shows "k_unlocks (submit_password v env s) = k_unlocks s \<and> k_phase (submit_password v env s) \<noteq> Phase_leave \<and>
    k_status_error (submit_password v env s)"
proof (rule submit_effect [OF assms(1-3), of v env])
  fix t :: lock_state
  let ?t = "t\<lparr>k_shake := (if k_reduced t then k_shake t else vw_now v),
            k_status := (if au_socket env then Incorrect_pin else Incorrect_password), k_status_error := True\<rparr>"
  assume t: "submit_password v env s = (if authentic env (k_user s) (text_of s) then begin_leave v t else render_all v ?t)"
    "addr_ok t" "k_unlocks t = k_unlocks s" "k_phase t = Phase_leave \<Longrightarrow> k_phase s = Phase_leave"
  have "addr_ok ?t" using t(2) by simp
  note m = render_all_motion [OF this, of v]
  show ?thesis using t(1,3,4) assms(4,5) motion_fields(4,22) [OF m] motion_error [OF m] by auto
qed

lemma begin_leave_phase: "addr_ok s \<Longrightarrow> k_phase s \<noteq> Phase_leave \<Longrightarrow> k_unlocks (begin_leave v s) > 0 \<or> k_phase (begin_leave v s) = Phase_leave"
proof -
  let ?s = "start_phase Phase_leave 320 (s\<lparr>k_shake := -1\<rparr>)"
  assume "addr_ok s" "k_phase s \<noteq> Phase_leave"
  moreover from this(1) have a: "addr_ok ?s" by (simp add: start_phase_def)
  ultimately show ?thesis using motion_fields(21) [OF render_all_motion [OF a, of v]]
    by (simp add: begin_leave_def unlock_session_def) (simp add: start_phase_def)
qed

text \<open>A run: one output, the lock, a keymap, the key \<open>a\<close> and Return; PAM accepts the password \<open>a\<close>.\<close>

definition demo_view :: view where
  "demo_view = \<lparr>vw_now = 0, vw_fail = {}\<rparr>"

definition demo_env :: auth_env where
  "demo_env = \<lparr>au_uid = 1000, au_socket = False, au_connect = False, au_reply = (\<lambda>r. None), au_pam_start = (\<lambda>a u. 0),
     au_pam = (\<lambda>u conv. if conv True [1] = Inr [Some ''a''] then 0 else 7)\<rparr>"

definition demo_keys :: "lock_event list" where
  "demo_keys = [L_keymap Keymap_compiled, L_key demo_view demo_env True Sym_other ''a'']"

definition demo_typed :: lock_state where
  "demo_typed = the (lock_main ''ann'' False 1 True [L_output 1] [L_locked] demo_keys)"

lemma demo_typed_main: "lock_main ''ann'' False 1 True [L_output 1] [L_locked] demo_keys = Some demo_typed"
  by (simp add: demo_typed_def lock_main_def Let_def)

lemma main_snoc:
  "lock_main user reduced scale globals es0 es1 es = Some s \<Longrightarrow>
   lock_main user reduced scale globals es0 es1 (es @ [e]) = Some (lock_step e s)"
  by (auto simp: lock_main_def Let_def split: if_splits)

lemmas demo_simps = lock_main_def lock_boot_def start_phase_def reg_global_output_def request_lock_def lock_locked_def
  create_lock_surface_def output_at_def put_output_def demo_keys_def kb_keymap_def kb_key_def key_fits_def key_text_def
  utf8_buffer_def render_all_def demo_view_def

lemma demo_typed_fields:
  "k_outputs demo_typed = [\<lparr>lo_addr = 0, lo_name = 1, lo_surface = Some 0, lo_size = (0, 0), lo_configured = False, lo_frame = False\<rparr>]"
  "k_surfaces demo_typed = 1" "k_xkb demo_typed = Xkb_ok" "k_phase demo_typed = Phase_enter" "k_unlocks demo_typed = 0"
  "text_of demo_typed = ''a''" "k_user demo_typed = ''ann''" "k_locked demo_typed"
  by (simp_all add: demo_typed_def demo_simps text_of_def Let_def)

lemma demo_authentic: "authentic demo_env ''ann'' ''a''"
  by (simp add: authentic_def demo_env_def pam_conv_func_def PAM_PROMPT_ECHO_OFF_def)

lemma demo_submit:
  "lock_step (L_key demo_view demo_env True Sym_return []) demo_typed = submit_password demo_view demo_env demo_typed"
  using demo_typed_fields by (simp add: kb_key_def)

lemma demo_unlocked:
  "k_unlocks (submit_password demo_view demo_env demo_typed) = 1 \<and> k_phase (submit_password demo_view demo_env demo_typed) \<noteq> Phase_leave \<and>
   k_locked (submit_password demo_view demo_env demo_typed) \<and> \<not> k_alive (submit_password demo_view demo_env demo_typed)"
proof -
  have inv: "lock_inv demo_typed" using main_reaches [OF demo_typed_main] by simp
  obtain t where t: "submit_password demo_view demo_env demo_typed = begin_leave demo_view t" "k_unlocks t = 0" "k_locked t"
    "k_phase t \<noteq> Phase_leave" "\<not> (\<exists>x \<in> set (k_outputs t). lo_configured x)"
  proof (rule submit_effect [OF inv, of demo_view demo_env])
    fix t
    assume "submit_password demo_view demo_env demo_typed =
        (if authentic demo_env (k_user demo_typed) (text_of demo_typed) then begin_leave demo_view t
         else render_all demo_view (t\<lparr>k_shake := (if k_reduced t then k_shake t else vw_now demo_view),
                k_status := (if au_socket demo_env then Incorrect_pin else Incorrect_password), k_status_error := True\<rparr>))"
      "k_unlocks t = k_unlocks demo_typed" "k_locked t = k_locked demo_typed" "k_phase t = Phase_leave \<Longrightarrow> k_phase demo_typed = Phase_leave"
      "(\<exists>x \<in> set (k_outputs t). lo_configured x) = (\<exists>x \<in> set (k_outputs demo_typed). lo_configured x)"
    then show thesis using that [of t] demo_typed_fields demo_authentic by auto
  qed (simp_all add: demo_typed_fields)
  then show ?thesis by (auto simp: begin_leave_def unlock_session_def)
qed

lemma demo_unlocks: "k_unlocks (lock_step (L_key demo_view demo_env True Sym_return []) demo_typed) = 1"
  and demo_not_leaving: "k_phase (lock_step (L_key demo_view demo_env True Sym_return []) demo_typed) \<noteq> Phase_leave"
  unfolding demo_submit using demo_unlocked by simp_all

section \<open>Properties\<close>

text \<open>
  C3: the session is unlocked only after the password typed on the keyboard was accepted for the
  session's own user by the PIN daemon or by PAM, or after the fingerprint service signalled a
  match; this holds for every order of events, hotplug, failed attempts and animations included.
\<close>

theorem unlock_requires_auth:
  assumes "lock_main user reduced scale globals es0 es1 es = Some s" and "k_unlocks s > 0"
  shows "(\<exists>v env t pw. L_key v env True Sym_return t \<in> set (es0 @ es1 @ es) \<and> Tried env user pw \<in> set (k_log s) \<and> authentic env user pw) \<or>
    (\<exists>v f. L_fprint v (Fp_signal ''VerifyStatus'' ''verify-match'' f) \<in> set (es0 @ es1 @ es))"
proof -
  note m = main_reaches [OF assms(1)]
  then have "authorised s" using assms(2) unfolding lock_inv_def by blast
  then consider "Finger_matched \<in> set (k_log s)" | env pw where "Tried env user pw \<in> set (k_log s)" "authentic env user pw"
    using m unfolding authorised_def by blast
  then show ?thesis
  proof cases
    case 1
    then obtain e where "e \<in> set (es0 @ es1 @ es)" "origin Finger_matched e" using m by blast
    then show ?thesis by auto
  next
    case (2 env pw)
    then obtain e where "e \<in> set (es0 @ es1 @ es)" "origin (Tried env user pw) e" using m by blast
    then show ?thesis using 2 by auto
  qed
qed

theorem unlock_requires_auth_witness:
  "k_unlocks (lock_step (L_key demo_view demo_env True Sym_return []) demo_typed) = 1 \<and>
   ((\<exists>v env t pw. L_key v env True Sym_return t \<in> set ([L_output 1] @ [L_locked] @ demo_keys @ [L_key demo_view demo_env True Sym_return []]) \<and>
       Tried env ''ann'' pw \<in> set (k_log (lock_step (L_key demo_view demo_env True Sym_return []) demo_typed)) \<and> authentic env ''ann'' pw) \<or>
    (\<exists>v f. L_fprint v (Fp_signal ''VerifyStatus'' ''verify-match'' f)
       \<in> set ([L_output 1] @ [L_locked] @ demo_keys @ [L_key demo_view demo_env True Sym_return []])))"
proof
  show u: "k_unlocks (lock_step (L_key demo_view demo_env True Sym_return []) demo_typed) = 1" by (rule demo_unlocks)
  show "(\<exists>v env t pw. L_key v env True Sym_return t \<in> set ([L_output 1] @ [L_locked] @ demo_keys @ [L_key demo_view demo_env True Sym_return []]) \<and>
       Tried env ''ann'' pw \<in> set (k_log (lock_step (L_key demo_view demo_env True Sym_return []) demo_typed)) \<and> authentic env ''ann'' pw) \<or>
    (\<exists>v f. L_fprint v (Fp_signal ''VerifyStatus'' ''verify-match'' f)
       \<in> set ([L_output 1] @ [L_locked] @ demo_keys @ [L_key demo_view demo_env True Sym_return []]))"
    by (rule unlock_requires_auth [OF main_snoc [OF demo_typed_main]]) (simp only: u zero_less_one)
qed

text \<open>
  C4: the buffer is the text that was typed. Every event changes the text as its key says: a
  character is appended when it fits, BackSpace removes the last byte, Escape and Return clear it,
  everything else leaves it alone; the buffer of 1024 bytes is never overrun and its last byte stays
  free for the terminator. Return on a text hands exactly that text to the authentication, wipes the
  buffer, and on a refusal shows the error and neither unlocks nor begins to leave.
\<close>

theorem password_is_typed:
  assumes "lock_main user reduced scale globals es0 es1 es = Some s" and "list_all key_ok (es0 @ es1 @ es)" and "key_ok e"
  shows "text_of (lock_step e s) = text_step e (accepts s) (text_of s) \<and>
    length (k_password s) = 1024 \<and> k_len s \<le> 1022 \<and> \<not> k_read_fault (lock_step e s) \<and>
    (\<forall>v env u. e = L_key v env True Sym_return u \<and> accepts s \<and> text_of s \<noteq> [] \<longrightarrow>
      k_log (lock_step e s) = k_log s @ [Tried env user (text_of s)] \<and> set (k_password (lock_step e s)) = {NUL} \<and>
      (\<not> authentic env user (text_of s) \<longrightarrow>
         k_unlocks (lock_step e s) = k_unlocks s \<and> k_phase (lock_step e s) \<noteq> Phase_leave \<and> k_status_error (lock_step e s)))"
proof -
  have inv: "lock_inv s" "k_user s = user" using main_reaches [OF assms(1)] by simp_all
  have nul: "NUL \<notin> set (text_of s)" "\<not> k_read_fault s" using main_text [OF assms(1,2)] by simp_all
  have ty: "text_of (lock_step e s) = text_step e (accepts s) (text_of s)" using step_text [OF inv(1) nul(1) assms(3)] by simp
  have buf: "length (k_password s) = 1024" "k_len s \<le> 1022" "\<not> k_read_fault (lock_step e s)"
    using step_text [OF inv(1) nul(1) assms(3)] nul(2) inv(1) by (simp_all add: lock_inv_def)
  have "k_log (lock_step e s) = k_log s @ [Tried env user (text_of s)] \<and> set (k_password (lock_step e s)) = {NUL} \<and>
      (\<not> authentic env user (text_of s) \<longrightarrow>
         k_unlocks (lock_step e s) = k_unlocks s \<and> k_phase (lock_step e s) \<noteq> Phase_leave \<and> k_status_error (lock_step e s))"
    if e: "e = L_key v env True Sym_return u \<and> accepts s \<and> text_of s \<noteq> []" for v env u
  proof -
    have st: "lock_step e s = submit_password v env s" using e by (simp add: accepts_def kb_key_def)
    then show ?thesis using submit_text(3,4) [OF inv(1) nul(1), of v env] submit_refused [OF inv(1) nul(1), of env v] e inv(2)
      by (simp add: accepts_def)
  qed
  then show ?thesis using ty buf by blast
qed

theorem password_is_typed_witness:
  "text_of (lock_step (L_key demo_view demo_env True Sym_return []) demo_typed) = [] \<and>
   k_log (lock_step (L_key demo_view demo_env True Sym_return []) demo_typed) = k_log demo_typed @ [Tried demo_env ''ann'' ''a'']"
proof -
  let ?e = "L_key demo_view demo_env True Sym_return []"
  have k: "list_all key_ok ([L_output 1] @ [L_locked] @ demo_keys)" "key_ok ?e" by (simp_all add: demo_keys_def)
  have a: "accepts demo_typed" using demo_typed_fields by (simp add: accepts_def)
  note p = password_is_typed [OF demo_typed_main k]
  show ?thesis using p a demo_typed_fields(6) by simp
qed



text \<open>
  An output that appears while the unlock is on its way gets a lock surface from the lock object
  that was just destroyed: the round trip of the unlock handles registry events, and the pointer to
  the lock is never cleared.
\<close>

theorem hotplug_during_unlock:
  "map_option k_lock_fault (lock_main ''ann'' False 1 True [L_output 1] [L_locked]
     (demo_keys @ [L_key demo_view demo_env True Sym_return [], L_output 2])) = Some True"
proof -
  let ?s = "submit_password demo_view demo_env demo_typed"
  have m: "lock_main ''ann'' False 1 True [L_output 1] [L_locked] (demo_keys @ [L_key demo_view demo_env True Sym_return []]) = Some ?s"
    using main_snoc [OF demo_typed_main] demo_submit by simp
  have "k_lock ?s" using main_reaches [OF m] by simp
  then have "k_lock_fault (lock_step (L_output 2) ?s)"
    using demo_unlocked by (simp add: reg_global_output_def create_lock_surface_def output_at_def Let_def)
  then show ?thesis using main_snoc [OF m, of "L_output 2"] by simp
qed

end
