(* ===== verification/Virtual_Keyboard.thy ===== *)
theory Virtual_Keyboard
  imports C_Prelude "HOL-Library.Word"
begin

text \<open>
  Typing text through a virtual keyboard, \<^verbatim>\<open>src/wayland/vkbd.c\<close>: characters of the user's layout are
  typed with its keys, runs of other characters with a generated keymap of at most 240 keys. Code
  points are numbers. xkbcommon's compiled keymap is a record of what the code reads from it; the
  second half of the theory says what a compositor makes of the requests.
\<close>

section \<open>State\<close>

definition BATCH_KEYS :: nat where "BATCH_KEYS = 240"

record type_job =
  tj_chars :: "nat list"
  tj_pos :: nat

record layout_entry =
  lk_code :: nat
  lk_mask :: nat

datatype upload_kind = Uploaded_none | Uploaded_layout | Uploaded_custom

datatype vk_request =
    Vk_keymap string
  | Vk_modifiers nat
  | Vk_key "32 word" nat bool

text \<open>A compiled keymap: the keysyms of a key's level, the modifier masks that select the level, and its text.\<close>

record xkb_keymap =
  km_min :: nat
  km_max :: nat
  km_levels :: "nat \<Rightarrow> nat"
  km_syms :: "nat \<Rightarrow> nat \<Rightarrow> nat list"
  km_masks :: "nat \<Rightarrow> nat \<Rightarrow> nat list"
  km_text :: "string option"

record vk_state =
  vk_manager :: bool
  vk_vkbd :: bool
  vk_time :: "32 word"
  vk_jobs :: "type_job list"
  vk_timer :: bool
  vk_batch :: "nat list"
  vk_run_end :: nat
  vk_run_pending :: bool
  vk_run_in_layout :: bool
  vk_uploaded :: upload_kind
  vk_layout_text :: "string option"
  vk_layout_keys :: "(nat \<rightharpoonup> layout_entry) option"
  vk_sent :: "vk_request list"

definition vk_init :: vk_state where
  "vk_init = \<lparr>vk_manager = False, vk_vkbd = False, vk_time = 0, vk_jobs = [], vk_timer = False, vk_batch = [], vk_run_end = 0,
     vk_run_pending = False, vk_run_in_layout = False, vk_uploaded = Uploaded_none, vk_layout_text = None, vk_layout_keys = None,
     vk_sent = []\<rparr>"

definition vk_send :: "vk_request list \<Rightarrow> vk_state \<Rightarrow> vk_state" where
  "vk_send rs s = s\<lparr>vk_sent := vk_sent s @ rs\<rparr>"

section \<open>The generated keymap\<close>

definition hex_digit :: "nat \<Rightarrow> char" where
  "hex_digit d = (if d < 10 then char_of (d + 48) else char_of (d + 55))"

fun show_hex :: "nat \<Rightarrow> string" where
  "show_hex n = (if n < 16 then [hex_digit n] else show_hex (n div 16) @ [hex_digit (n mod 16)])"

declare show_hex.simps [simp del]

text \<open>The buffer of 16 bytes holds every name: a code point has at most eight hexadecimal digits.\<close>

definition keysym_name :: "nat \<Rightarrow> string" where
  "keysym_name cp =
     (if cp = 10 \<or> cp = 13 then ''Return''
      else if cp = 9 then ''Tab''
      else snprintf_s 16 (''U'' @ pad0 4 (show_hex cp)))"

definition code_line :: "nat \<Rightarrow> string" where
  "code_line i = ''<K'' @ show_nat i @ ''> = '' @ show_nat (i + 9) @ '';'' @ [NL]"

definition key_line :: "nat \<Rightarrow> nat \<Rightarrow> string" where
  "key_line i cp = ''key <K'' @ show_nat i @ ''> { [ '' @ keysym_name cp @ '' ] };'' @ [NL]"

definition make_keymap :: "nat list \<Rightarrow> string" where
  "make_keymap keys =
     ''xkb_keymap {'' @ [NL] @ ''xkb_keycodes '' @ [DQUOTE] @ ''(unnamed)'' @ [DQUOTE] @ '' { minimum = 8; maximum = 255;'' @ [NL] @
     concat (map code_line [0..<length keys]) @
     ''};'' @ [NL] @ ''xkb_types '' @ [DQUOTE] @ ''(unnamed)'' @ [DQUOTE] @ '' { type '' @ [DQUOTE] @ ''ONE_LEVEL'' @ [DQUOTE] @
     '' { modifiers = none; level_name[Level1] = '' @ [DQUOTE] @ ''Any'' @ [DQUOTE] @ ''; }; };'' @ [NL] @
     ''xkb_compatibility '' @ [DQUOTE] @ ''(unnamed)'' @ [DQUOTE] @ '' { };'' @ [NL] @ ''xkb_symbols '' @ [DQUOTE] @ ''(unnamed)'' @ [DQUOTE] @ '' {'' @ [NL] @
     concat (map (\<lambda>i. key_line i (keys ! i)) [0..<length keys]) @
     ''};'' @ [NL] @ ''};'' @ [NL]"

section \<open>The layout\<close>

definition XKB_KEY_Return :: nat where "XKB_KEY_Return = 0xff0d"
definition XKB_KEY_Tab :: nat where "XKB_KEY_Tab = 0xff09"

definition sym_char :: "(nat \<Rightarrow> nat) \<Rightarrow> nat \<Rightarrow> nat" where
  "sym_char utf32 sy = (if sy = XKB_KEY_Return then 10 else if sy = XKB_KEY_Tab then 9 else utf32 sy)"

definition add_level :: "(nat \<Rightarrow> nat) \<Rightarrow> xkb_keymap \<Rightarrow> nat \<Rightarrow> nat \<Rightarrow> (nat \<rightharpoonup> layout_entry) \<Rightarrow> (nat \<rightharpoonup> layout_entry)" where
  "add_level utf32 km code level tab =
     (case km_syms km code level of
        [sy] \<Rightarrow>
          let cp = sym_char utf32 sy
          in if cp = 0 \<or> tab cp \<noteq> None then tab
             else (case take 4 (km_masks km code level) of
                     [] \<Rightarrow> tab
                   | m # _ \<Rightarrow> tab(cp \<mapsto> \<lparr>lk_code = (code + 2 ^ 32 - 8) mod 2 ^ 32, lk_mask = m\<rparr>))
      | _ \<Rightarrow> tab)"

definition layout_table :: "(nat \<Rightarrow> nat) \<Rightarrow> xkb_keymap \<Rightarrow> (nat \<rightharpoonup> layout_entry)" where
  "layout_table utf32 km =
     fold (\<lambda>code. fold (add_level utf32 km code) [0..<km_levels km code]) [km_min km..<Suc (min (km_max km) 255)] Map.empty"

text \<open>\<open>compiled\<close>: the keymap that xkbcommon makes of the layout's names, if any.\<close>

definition set_layout :: "(nat \<Rightarrow> nat) \<Rightarrow> xkb_keymap option \<Rightarrow> vk_state \<Rightarrow> vk_state" where
  "set_layout utf32 compiled s =
     (case compiled of
        None \<Rightarrow> s
      | Some km \<Rightarrow>
          s\<lparr>vk_layout_keys := Some (layout_table utf32 km), vk_layout_text := km_text km,
            vk_uploaded := (if vk_uploaded s = Uploaded_layout then Uploaded_none else vk_uploaded s)\<rparr>)"

definition layout_key :: "vk_state \<Rightarrow> nat \<Rightarrow> layout_entry option" where
  "layout_key s cp = (case vk_layout_keys s of None \<Rightarrow> None | Some tab \<Rightarrow> tab (if cp = 13 then 10 else cp))"

section \<open>Typing\<close>

record vk_env =
  ve_display :: bool
  ve_announced :: bool
  ve_seat :: bool
  ve_created :: bool

definition ensure_vkbd :: "vk_env \<Rightarrow> vk_state \<Rightarrow> bool \<times> vk_state" where
  "ensure_vkbd env s =
     (if vk_vkbd s then (True, s)
      else if \<not> ve_display env then (False, s)
      else
        let s1 = s\<lparr>vk_manager := vk_manager s \<or> ve_announced env\<rparr>
        in if \<not> vk_manager s1 then (False, s1)
           else if \<not> ve_seat env then (False, s1)
           else (ve_created env, s1\<lparr>vk_vkbd := ve_created env\<rparr>))"

definition batch_index :: "nat list \<Rightarrow> nat \<Rightarrow> nat option" where
  "batch_index batch cp = List.find (\<lambda>i. batch ! i = cp) [0..<length batch]"

definition schedule :: "vk_state \<Rightarrow> vk_state" where
  "schedule s = s\<lparr>vk_timer := True\<rparr>"

text \<open>\<open>fd\<close>: the shared memory file for the keymap could be made.\<close>

definition upload_layout :: "bool \<Rightarrow> vk_state \<Rightarrow> bool \<times> vk_state" where
  "upload_layout fd s =
     (if \<not> fd then (False, s)
      else (True, (vk_send [Vk_keymap (the (vk_layout_text s)), Vk_modifiers 0] s)\<lparr>vk_uploaded := Uploaded_layout\<rparr>))"

text \<open>The characters of a custom run and its keys, from the position on.\<close>

fun custom_run :: "(nat \<Rightarrow> bool) \<Rightarrow> nat list \<Rightarrow> nat list \<Rightarrow> nat \<times> nat list" where
  "custom_run in_layout [] batch = (0, batch)"
| "custom_run in_layout (c # cs) batch =
     (if in_layout c then (0, batch)
      else if batch_index batch c = None
      then (if length batch = BATCH_KEYS then (0, batch)
            else case custom_run in_layout cs (batch @ [c]) of (n, b) \<Rightarrow> (Suc n, b))
      else case custom_run in_layout cs batch of (n, b) \<Rightarrow> (Suc n, b))"

definition upload_custom :: "bool \<Rightarrow> type_job \<Rightarrow> vk_state \<Rightarrow> bool \<times> vk_state" where
  "upload_custom fd job s =
     (case custom_run (\<lambda>c. layout_key s c \<noteq> None) (drop (tj_pos job) (tj_chars job)) [] of (n, batch) \<Rightarrow>
        let s1 = s\<lparr>vk_batch := batch, vk_run_end := tj_pos job + n\<rparr>
        in if \<not> fd then (False, s1)
           else (True, (vk_send [Vk_keymap (make_keymap batch), Vk_modifiers 0] s1)\<lparr>vk_uploaded := Uploaded_custom\<rparr>))"

definition press :: "nat \<Rightarrow> nat \<Rightarrow> vk_state \<Rightarrow> vk_state" where
  "press code m s =
     (vk_send ([Vk_modifiers m, Vk_key (vk_time s) code True, Vk_key (vk_time s + 1) code False] @
        (if m \<noteq> 0 then [Vk_modifiers 0] else [])) s)\<lparr>vk_time := vk_time s + 2\<rparr>"

definition press_char :: "nat \<Rightarrow> vk_state \<Rightarrow> vk_state" where
  "press_char c s =
     (if vk_run_in_layout s
      then (case layout_key s c of None \<Rightarrow> s | Some k \<Rightarrow> press (lk_code k) (lk_mask k) s)
      else (case batch_index (vk_batch s) c of None \<Rightarrow> s | Some i \<Rightarrow> press (i + 1) 0 s))"

definition head_job :: "type_job \<Rightarrow> vk_state \<Rightarrow> vk_state" where
  "head_job job s = s\<lparr>vk_jobs := job # tl (vk_jobs s)\<rparr>"

definition press_run :: "type_job \<Rightarrow> vk_state \<Rightarrow> vk_state" where
  "press_run job s =
     head_job (job\<lparr>tj_pos := vk_run_end s\<rparr>)
       (fold press_char (map (\<lambda>i. tj_chars job ! i) [tj_pos job..<vk_run_end s]) s)"

definition run_finish :: "vk_state \<Rightarrow> vk_state" where
  "run_finish s =
     (let job = hd (vk_jobs s);
          s1 = (if tj_pos job \<ge> length (tj_chars job) then s\<lparr>vk_jobs := tl (vk_jobs s)\<rparr> else s)
      in if vk_jobs s1 \<noteq> [] then schedule s1 else s1)"

definition layout_run :: "vk_state \<Rightarrow> type_job \<Rightarrow> nat" where
  "layout_run s job = tj_pos job + length (takeWhile (\<lambda>c. layout_key s c \<noteq> None) (drop (tj_pos job) (tj_chars job)))"

definition run_job :: "bool \<Rightarrow> vk_state \<Rightarrow> vk_state" where
  "run_job fd s0 =
     (let s = s0\<lparr>vk_timer := False\<rparr>
      in case vk_jobs s of
           [] \<Rightarrow> s
         | job # _ \<Rightarrow>
             if vk_run_pending s then run_finish (press_run job (s\<lparr>vk_run_pending := False\<rparr>))
             else if tj_pos job < length (tj_chars job) then
               (if layout_key s (tj_chars job ! tj_pos job) \<noteq> None \<and> vk_layout_text s \<noteq> None then
                  let s1 = s\<lparr>vk_run_end := layout_run s job, vk_run_in_layout := True\<rparr>
                  in if vk_uploaded s1 \<noteq> Uploaded_layout \<and> fst (upload_layout fd s1)
                     then schedule ((snd (upload_layout fd s1))\<lparr>vk_run_pending := True\<rparr>)
                     else run_finish (press_run job s1)
                else
                  case upload_custom fd job (s\<lparr>vk_run_in_layout := False\<rparr>) of (ok, s1) \<Rightarrow>
                    if \<not> ok then run_finish (head_job (job\<lparr>tj_pos := length (tj_chars job)\<rparr>) s1)
                    else schedule (s1\<lparr>vk_run_pending := True\<rparr>))
             else run_finish s)"

definition type_text :: "vk_env \<Rightarrow> bool \<Rightarrow> nat list \<Rightarrow> vk_state \<Rightarrow> vk_state" where
  "type_text env fd cps s =
     (if cps = [] then s
      else case ensure_vkbd env s of (ok, s1) \<Rightarrow>
             if \<not> ok then s1
             else
               let s2 = s1\<lparr>vk_jobs := vk_jobs s1 @ [\<lparr>tj_chars = cps, tj_pos = 0\<rparr>]\<rparr>
               in if \<not> vk_timer s2 \<and> length (vk_jobs s2) = 1 then run_job fd s2 else s2)"

datatype vk_event =
    V_type vk_env bool "nat list"
  | V_timer bool
  | V_layout "xkb_keymap option"

fun vk_step :: "(nat \<Rightarrow> nat) \<Rightarrow> vk_event \<Rightarrow> vk_state \<Rightarrow> vk_state" where
  "vk_step utf32 (V_type env fd cps) s = type_text env fd cps s"
| "vk_step utf32 (V_timer fd) s = (if vk_timer s then run_job fd s else s)"
| "vk_step utf32 (V_layout compiled) s = set_layout utf32 compiled s"

section \<open>What the compositor makes of a keymap\<close>

text \<open>
  The reading of a generated keymap: the line of a key code names the key, the line of the key its
  keysym. Names are \<open>Return\<close>, \<open>Tab\<close> or \<open>U\<close> and the hexadecimal code point of a printable character.
\<close>

definition hex_digit_val :: "char \<Rightarrow> nat" where
  "hex_digit_val c = (if of_char c < (65 :: nat) then of_char c - 48 else of_char c - 55)"

definition hex_val :: "string \<Rightarrow> nat" where
  "hex_val s = foldl (\<lambda>v c. v * 16 + hex_digit_val c) 0 s"

definition printable :: "nat \<Rightarrow> bool" where
  "printable c \<longleftrightarrow> 0x20 \<le> c \<and> c \<le> 0x7e \<or> 0xa0 \<le> c \<and> c \<le> 0x10ffff"

definition sym_of_name :: "string \<Rightarrow> nat option" where
  "sym_of_name name =
     (if name = ''Return'' then Some 10
      else if name = ''Tab'' then Some 9
      else case name of
             [] \<Rightarrow> None
           | c # h \<Rightarrow> if c = CHR ''U'' \<and> printable (hex_val h) then Some (hex_val h) else None)"

definition parse_code :: "string \<Rightarrow> (string \<times> nat) option" where
  "parse_code l =
     (let r = drop 2 l; i = takeWhile is_digit r; q = dropWhile is_digit r; v = drop 4 q
      in if has_prefix ''<K'' l \<and> has_prefix ''> = '' q \<and> dropWhile is_digit v = '';'' then Some (i, dec_val (takeWhile is_digit v))
         else None)"

definition parse_key :: "string \<Rightarrow> (string \<times> string) option" where
  "parse_key l =
     (let r = drop 6 l; i = takeWhile is_digit r; q = dropWhile is_digit r; v = drop 6 q
      in if has_prefix ''key <K'' l \<and> has_prefix ''> { [ '' q \<and> dropWhile (\<lambda>c. c \<noteq> SPC) v = '' ] };''
         then Some (i, takeWhile (\<lambda>c. c \<noteq> SPC) v)
         else None)"

definition custom_symbol :: "string \<Rightarrow> nat \<Rightarrow> nat \<Rightarrow> nat option" where
  "custom_symbol t code mods =
     (let ls = strtok_all NL t
      in if mods \<noteq> 0 \<or> code < 8 \<or> code > 255 then None
         else case List.find (\<lambda>p. snd p = code) (List.map_filter parse_code ls) of
                None \<Rightarrow> None
              | Some p \<Rightarrow> Option.bind (map_of (List.map_filter parse_key ls) (fst p)) sym_of_name)"

lemma of_char_blank: "h = SPC \<Longrightarrow> of_char h = (32 :: nat)" "h = NL \<Longrightarrow> of_char h = (10 :: nat)"
  by simp_all

lemma hex_digit_simps:
  assumes "d < 16"
  shows "hex_digit_val (hex_digit d) = d" "hex_digit d \<noteq> SPC" "hex_digit d \<noteq> NL"
proof -
  have o: "of_char (hex_digit d) = (if d < 10 then d + 48 else d + 55)" using assms by (simp add: hex_digit_def)
  show "hex_digit_val (hex_digit d) = d" using assms by (auto simp: hex_digit_val_def o)
  have "of_char (hex_digit d) \<noteq> (32 :: nat)" "of_char (hex_digit d) \<noteq> (10 :: nat)" by (simp_all add: o)
  then show "hex_digit d \<noteq> SPC" "hex_digit d \<noteq> NL" using of_char_blank by blast+
qed

lemma hex_val_snoc: "hex_val (s @ [c]) = hex_val s * 16 + hex_digit_val c"
  by (simp add: hex_val_def)

lemma hex_val_show [simp]: "hex_val (show_hex n) = n"
proof (induction n rule: show_hex.induct)
  case (1 n)
  show ?case
  proof (cases "n < 16")
    case True
    then show ?thesis by (simp add: show_hex.simps hex_val_def hex_digit_simps)
  next
    case False
    then have "hex_val (show_hex n) = n div 16 * 16 + n mod 16"
      using 1 by (subst show_hex.simps) (simp add: hex_val_snoc hex_digit_simps)
    then show ?thesis by simp
  qed
qed

lemma hex_val_pad [simp]: "hex_val (pad0 w s) = hex_val s"
proof -
  have "foldl (\<lambda>v c. v * 16 + hex_digit_val c) 0 (replicate k (CHR ''0'')) = 0" for k
    by (induction k) (simp_all add: hex_digit_val_def)
  then show ?thesis by (simp add: pad0_def hex_val_def)
qed

lemma show_hex_chars: "c \<in> set (show_hex n) \<Longrightarrow> c \<noteq> SPC \<and> c \<noteq> NL"
proof (induction n rule: show_hex.induct)
  case (1 n)
  then show ?case
    by (subst (asm) (2) show_hex.simps) (auto simp: hex_digit_simps split: if_splits)
qed

lemma show_hex_length: "n < 16 ^ Suc k \<Longrightarrow> length (show_hex n) \<le> Suc k"
proof (induction k arbitrary: n)
  case 0
  then show ?case by (subst show_hex.simps) simp
next
  case (Suc k)
  have "n div 16 < 16 ^ Suc k" using Suc.prems by (simp add: less_mult_imp_div_less)
  then have "length (show_hex (n div 16)) \<le> Suc k" by (rule Suc.IH)
  then show ?case by (subst show_hex.simps) simp
qed

text \<open>Characters that can be typed with a keymap of their own.\<close>

definition typable :: "nat \<Rightarrow> bool" where
  "typable c \<longleftrightarrow> c \<in> {9, 10, 13} \<or> printable c"

definition norm_char :: "nat \<Rightarrow> nat" where
  "norm_char c = (if c = 13 then 10 else c)"

lemma name_fits: "c \<le> 0x10ffff \<Longrightarrow> snprintf_s 16 (''U'' @ pad0 4 (show_hex c)) = ''U'' @ pad0 4 (show_hex c)"
proof -
  assume "c \<le> 0x10ffff"
  then have "length (show_hex c) \<le> Suc 5" by (intro show_hex_length) simp
  then show ?thesis by (simp add: snprintf_s_def pad0_def)
qed

lemma keysym_name_ok:
  assumes "typable c"
  shows "sym_of_name (keysym_name c) = Some (norm_char c)" "SPC \<notin> set (keysym_name c)" "NL \<notin> set (keysym_name c)"
proof -
  have n: "snprintf_s 16 (''U'' @ pad0 4 (show_hex c)) = ''U'' @ pad0 4 (show_hex c)" if "c \<notin> {9, 10, 13}"
    using assms that by (intro name_fits) (auto simp: typable_def printable_def)
  have z: "CHR ''0'' \<noteq> SPC" "CHR ''0'' \<noteq> NL" by simp_all
  show "SPC \<notin> set (keysym_name c)" "NL \<notin> set (keysym_name c)"
    using n show_hex_chars by (auto simp: keysym_name_def pad0_def)
  show "sym_of_name (keysym_name c) = Some (norm_char c)"
    using n assms by (auto simp: keysym_name_def sym_of_name_def norm_char_def typable_def)
qed

definition code_body :: "nat \<Rightarrow> string" where
  "code_body i = ''<K'' @ show_nat i @ ''> = '' @ show_nat (i + 9) @ '';''"

definition key_body :: "nat \<Rightarrow> nat \<Rightarrow> string" where
  "key_body i cp = ''key <K'' @ show_nat i @ ''> { [ '' @ keysym_name cp @ '' ] };''"

lemma bodies: "code_line i = code_body i @ [NL]" "key_line i cp = key_body i cp @ [NL]"
  by (simp_all add: code_line_def code_body_def key_line_def key_body_def)

lemma digits_no_nl: "NL \<notin> set (show_nat n)"
  using show_nat_digits [of NL n] by (auto simp: is_digit_def)

lemma digits_hit:
  assumes "\<not> is_digit c"
  shows "takeWhile is_digit (show_nat n @ c # r) = show_nat n" "dropWhile is_digit (show_nat n @ c # r) = c # r"
  by (rule takeWhile_hit dropWhile_hit; use show_nat_digits assms in blast)+

lemma not_digit: "\<not> is_digit (CHR ''>'')" "\<not> is_digit (CHR '';'')"
  by (simp_all add: is_digit_def)

lemma code_body_ok: "code_body i \<noteq> []" "NL \<notin> set (code_body i)" "parse_code (code_body i) = Some (show_nat i, i + 9)" "parse_key (code_body i) = None"
proof -
  show "code_body i \<noteq> []" "NL \<notin> set (code_body i)" by (simp_all add: code_body_def digits_no_nl)
  show "parse_code (code_body i) = Some (show_nat i, i + 9)"
    by (simp add: parse_code_def code_body_def has_prefix_def Let_def digits_hit not_digit)
  show "parse_key (code_body i) = None" by (simp add: parse_key_def code_body_def has_prefix_def Let_def)
qed

lemma key_body_ok:
  assumes "typable c"
  shows "key_body i c \<noteq> []" "NL \<notin> set (key_body i c)" "parse_key (key_body i c) = Some (show_nat i, keysym_name c)" "parse_code (key_body i c) = None"
proof -
  have n: "takeWhile (\<lambda>c. c \<noteq> SPC) (keysym_name c @ SPC # r) = keysym_name c" "dropWhile (\<lambda>c. c \<noteq> SPC) (keysym_name c @ SPC # r) = SPC # r" for r
    by (rule takeWhile_hit dropWhile_hit; use keysym_name_ok(2) [OF assms] in blast)+
  show "key_body i c \<noteq> []" "NL \<notin> set (key_body i c)" using keysym_name_ok(3) [OF assms] by (simp_all add: key_body_def digits_no_nl)
  show "parse_key (key_body i c) = Some (show_nat i, keysym_name c)"
    using n by (simp add: parse_key_def key_body_def has_prefix_def Let_def digits_hit not_digit)
  show "parse_code (key_body i c) = None" by (simp add: parse_code_def key_body_def has_prefix_def Let_def)
qed

lemma strtok_lines:
  "(\<And>x. x \<in> set xs \<Longrightarrow> f x \<noteq> [] \<and> NL \<notin> set (f x)) \<Longrightarrow>
   strtok_all NL (concat (map (\<lambda>x. f x @ [NL]) xs) @ r) = map f xs @ strtok_all NL r"
  by (induction xs) (simp_all add: strtok_all_hit)

definition keymap_head :: "string list" where
  "keymap_head = [''xkb_keymap {'', ''xkb_keycodes '' @ [DQUOTE] @ ''(unnamed)'' @ [DQUOTE] @ '' { minimum = 8; maximum = 255;'']"

definition keymap_mid :: "string list" where
  "keymap_mid = [''};'', ''xkb_types '' @ [DQUOTE] @ ''(unnamed)'' @ [DQUOTE] @ '' { type '' @ [DQUOTE] @ ''ONE_LEVEL'' @ [DQUOTE] @
     '' { modifiers = none; level_name[Level1] = '' @ [DQUOTE] @ ''Any'' @ [DQUOTE] @ ''; }; };'',
     ''xkb_compatibility '' @ [DQUOTE] @ ''(unnamed)'' @ [DQUOTE] @ '' { };'', ''xkb_symbols '' @ [DQUOTE] @ ''(unnamed)'' @ [DQUOTE] @ '' {'']"

definition keymap_tail :: "string list" where
  "keymap_tail = [''};'', ''};'']"

lemma make_keymap_parts:
  "make_keymap keys = concat (map (\<lambda>l. l @ [NL]) keymap_head) @ concat (map (\<lambda>i. code_body i @ [NL]) [0..<length keys]) @
     concat (map (\<lambda>l. l @ [NL]) keymap_mid) @ concat (map (\<lambda>i. key_body i (keys ! i) @ [NL]) [0..<length keys]) @
     concat (map (\<lambda>l. l @ [NL]) keymap_tail)"
proof -
  have "code_line = (\<lambda>i. code_body i @ [NL])" by (simp add: fun_eq_iff bodies)
  then show ?thesis by (simp add: make_keymap_def keymap_head_def keymap_mid_def keymap_tail_def bodies)
qed

lemma fixed_lines:
  "l \<in> set (keymap_head @ keymap_mid @ keymap_tail) \<Longrightarrow> l \<noteq> [] \<and> NL \<notin> set l \<and> parse_code l = None \<and> parse_key l = None"
proof -
  assume l: "l \<in> set (keymap_head @ keymap_mid @ keymap_tail)"
  have "list_all (\<lambda>l. l \<noteq> [] \<and> NL \<notin> set l \<and> \<not> has_prefix ''<K'' l \<and> \<not> has_prefix ''key <K'' l) (keymap_head @ keymap_mid @ keymap_tail)"
    by (simp add: keymap_head_def keymap_mid_def keymap_tail_def has_prefix_def)
  then have "l \<noteq> [] \<and> NL \<notin> set l \<and> \<not> has_prefix ''<K'' l \<and> \<not> has_prefix ''key <K'' l" using l by (simp add: list_all_iff)
  then show ?thesis by (simp only: parse_code_def parse_key_def Let_def if_False simp_thms)
qed

lemma keymap_lines:
  assumes "list_all typable keys"
  shows "strtok_all NL (make_keymap keys) = keymap_head @ map code_body [0..<length keys] @ keymap_mid @
    map (\<lambda>i. key_body i (keys ! i)) [0..<length keys] @ keymap_tail"
proof -
  have k: "typable (keys ! i)" if "i < length keys" for i using assms that by (simp add: list_all_length)
  have "strtok_all NL (concat (map (\<lambda>l. l @ [NL]) keymap_tail)) = keymap_tail"
    using strtok_lines [of keymap_tail "\<lambda>l. l" "[]"] fixed_lines by simp
  moreover have "strtok_all NL (concat (map (\<lambda>i. key_body i (keys ! i) @ [NL]) [0..<length keys]) @ r) =
      map (\<lambda>i. key_body i (keys ! i)) [0..<length keys] @ strtok_all NL r" for r
    by (rule strtok_lines) (use key_body_ok k in simp)
  moreover have "strtok_all NL (concat (map (\<lambda>i. code_body i @ [NL]) [0..<length keys]) @ r) =
      map code_body [0..<length keys] @ strtok_all NL r" for r
    by (rule strtok_lines) (use code_body_ok in simp)
  moreover have "strtok_all NL (concat (map (\<lambda>l. l @ [NL]) keymap_head) @ r) = keymap_head @ strtok_all NL r"
    "strtok_all NL (concat (map (\<lambda>l. l @ [NL]) keymap_mid) @ r) = keymap_mid @ strtok_all NL r" for r
    using strtok_lines [of keymap_head "\<lambda>l. l" r] strtok_lines [of keymap_mid "\<lambda>l. l" r] fixed_lines by simp_all
  ultimately show ?thesis by (simp add: make_keymap_parts)
qed

lemma map_filter_none: "(\<And>x. x \<in> set xs \<Longrightarrow> f x = None) \<Longrightarrow> List.map_filter f xs = []"
  by (induction xs) (simp_all add: map_filter_simps)

lemma map_filter_some: "(\<And>x. x \<in> set xs \<Longrightarrow> f (g x) = Some (h x)) \<Longrightarrow> List.map_filter f (map g xs) = map h xs"
  by (induction xs) (simp_all add: map_filter_simps)

lemma map_filter_append: "List.map_filter f (xs @ ys) = List.map_filter f xs @ List.map_filter f ys"
  by (simp add: map_filter_def)

lemma keymap_parsed:
  assumes "list_all typable keys"
  shows "List.map_filter parse_code (strtok_all NL (make_keymap keys)) = map (\<lambda>i. (show_nat i, i + 9)) [0..<length keys]"
    "List.map_filter parse_key (strtok_all NL (make_keymap keys)) = map (\<lambda>i. (show_nat i, keysym_name (keys ! i))) [0..<length keys]"
proof -
  have k: "typable (keys ! i)" if "i < length keys" for i using assms that by (simp add: list_all_length)
  have f: "List.map_filter parse_code l = []" "List.map_filter parse_key l = []" if "l \<in> {keymap_head, keymap_mid, keymap_tail}" for l
    using fixed_lines that by (auto intro!: map_filter_none)
  have f: "List.map_filter parse_code keymap_head = []" "List.map_filter parse_code keymap_mid = []" "List.map_filter parse_code keymap_tail = []"
    "List.map_filter parse_key keymap_head = []" "List.map_filter parse_key keymap_mid = []" "List.map_filter parse_key keymap_tail = []"
    by (rule f; simp)+
  have x: "List.map_filter parse_key (map code_body [0..<length keys]) = []"
    "List.map_filter parse_code (map (\<lambda>i. key_body i (keys ! i)) [0..<length keys]) = []"
    by (rule map_filter_none; use code_body_ok key_body_ok k in auto)+
  have y: "List.map_filter parse_code (map code_body [0..<length keys]) = map (\<lambda>i. (show_nat i, i + 9)) [0..<length keys]"
    "List.map_filter parse_key (map (\<lambda>i. key_body i (keys ! i)) [0..<length keys]) = map (\<lambda>i. (show_nat i, keysym_name (keys ! i))) [0..<length keys]"
    by (rule map_filter_some; use code_body_ok key_body_ok k in simp)+
  show "List.map_filter parse_code (strtok_all NL (make_keymap keys)) = map (\<lambda>i. (show_nat i, i + 9)) [0..<length keys]"
    "List.map_filter parse_key (strtok_all NL (make_keymap keys)) = map (\<lambda>i. (show_nat i, keysym_name (keys ! i))) [0..<length keys]"
    by (simp_all add: keymap_lines [OF assms] map_filter_append x y f)
qed

lemma show_nat_inj: "inj show_nat"
  by (metis injI dec_val_show_nat)

lemma custom_symbol_ok:
  assumes "list_all typable keys" and "length keys \<le> BATCH_KEYS" and "i < length keys"
  shows "custom_symbol (make_keymap keys) (i + 9) 0 = Some (norm_char (keys ! i))"
proof -
  have "List.find (\<lambda>p. snd p = i + 9) (map (\<lambda>i. (show_nat i, i + 9)) [0..<length keys]) = Some (show_nat i, i + 9)"
    using assms(3) by (auto simp: find_Some_iff intro!: exI [of _ i])
  moreover have "map_of (map (\<lambda>i. (show_nat i, keysym_name (keys ! i))) [0..<length keys]) (show_nat i) = Some (keysym_name (keys ! i))"
    using assms(3) by (subst map_of_eq_Some_iff) (auto simp: comp_def distinct_map intro: inj_on_subset [OF show_nat_inj])
  moreover have "i + 9 \<le> 255" using assms(2,3) by (simp add: BATCH_KEYS_def)
  moreover have "typable (keys ! i)" using assms(1,3) by (simp add: list_all_length)
  ultimately show ?thesis by (simp add: custom_symbol_def Let_def keymap_parsed [OF assms(1)] keysym_name_ok)
qed

text \<open>
  The reading of the layout's own keymap: the level that the modifiers select. Different levels of a
  key are selected by different modifiers, and key codes start at 8.
\<close>

definition layout_symbol :: "(nat \<Rightarrow> nat) \<Rightarrow> xkb_keymap \<Rightarrow> nat \<Rightarrow> nat \<Rightarrow> nat option" where
  "layout_symbol utf32 km code mods =
     (if code < km_min km \<or> code > km_max km then None
      else case List.find (\<lambda>l. mods \<in> set (km_masks km code l)) [0..<km_levels km code] of
             None \<Rightarrow> None
           | Some l \<Rightarrow> (case km_syms km code l of [sy] \<Rightarrow> Some (sym_char utf32 sy) | _ \<Rightarrow> None))"

definition keymap_ok :: "xkb_keymap \<Rightarrow> bool" where
  "keymap_ok km \<longleftrightarrow> 8 \<le> km_min km \<and> km_text km \<noteq> None \<and> (\<forall>keys. km_text km \<noteq> Some (make_keymap keys)) \<and>
     (\<forall>code l k m. m \<in> set (km_masks km code l) \<and> m \<in> set (km_masks km code k) \<longrightarrow> l = k)"

definition symbol :: "(nat \<Rightarrow> nat) \<Rightarrow> xkb_keymap option \<Rightarrow> string \<Rightarrow> nat \<Rightarrow> nat \<Rightarrow> nat option" where
  "symbol utf32 lay t code mods =
     (case lay of
        Some km \<Rightarrow> if km_text km = Some t then layout_symbol utf32 km code mods else custom_symbol t code mods
      | None \<Rightarrow> custom_symbol t code mods)"

definition table_ok :: "(nat \<Rightarrow> nat) \<Rightarrow> xkb_keymap \<Rightarrow> (nat \<rightharpoonup> layout_entry) \<Rightarrow> bool" where
  "table_ok utf32 km tab \<longleftrightarrow> (\<forall>cp k. tab cp = Some k \<longrightarrow> layout_symbol utf32 km (lk_code k + 8) (lk_mask k) = Some cp)"

lemma add_level_ok:
  assumes "keymap_ok km" and "table_ok utf32 km tab" and "km_min km \<le> code" and "code \<le> min (km_max km) 255" and "l < km_levels km code"
  shows "table_ok utf32 km (add_level utf32 km code l tab)"
proof (cases "\<exists>sy m ms. km_syms km code l = [sy] \<and> sym_char utf32 sy \<noteq> 0 \<and> tab (sym_char utf32 sy) = None \<and> take 4 (km_masks km code l) = m # ms")
  case True
  then obtain sy m ms where a: "km_syms km code l = [sy]" "sym_char utf32 sy \<noteq> 0" "tab (sym_char utf32 sy) = None" "take 4 (km_masks km code l) = m # ms"
    by blast
  have m: "m \<in> set (km_masks km code l)" using a(4) by (metis in_set_takeD list.set_intros(1))
  have "List.find (\<lambda>k. m \<in> set (km_masks km code k)) [0..<km_levels km code] = Some l"
  proof -
    have "m \<notin> set (km_masks km code k)" if "k < l" for k using m assms(1) that unfolding keymap_ok_def by (metis less_irrefl)
    then show ?thesis using m assms(5) by (auto simp: find_Some_iff intro!: exI [of _ l])
  qed
  moreover have "(code + 2 ^ 32 - 8) mod 2 ^ 32 = code - 8"
  proof -
    have "code + 2 ^ 32 - 8 = (code - 8) + 2 ^ 32" using assms(1,3) by (simp add: keymap_ok_def)
    moreover have "code \<le> 255" using assms(4) by simp
    then have "code - 8 < 2 ^ 32" by (rule le_less_trans [OF diff_le_self le_less_trans]) simp
    ultimately show ?thesis by (simp only: mod_add_self2 mod_less)
  qed
  ultimately have "layout_symbol utf32 km ((code + 2 ^ 32 - 8) mod 2 ^ 32 + 8) m = Some (sym_char utf32 sy)"
    using a(1) assms(1,3,4) by (simp add: layout_symbol_def keymap_ok_def)
  then show ?thesis using a assms(2) by (simp add: add_level_def table_ok_def Let_def)
next
  case False
  then have "add_level utf32 km code l tab = tab"
    by (auto simp: add_level_def Let_def split: list.splits)
  then show ?thesis using assms(2) by simp
qed

lemma fold_keeps: "P s \<Longrightarrow> (\<And>x s. x \<in> set xs \<Longrightarrow> P s \<Longrightarrow> P (f x s)) \<Longrightarrow> P (fold f xs s)"
  by (induction xs arbitrary: s) simp_all

lemma layout_table_ok: "keymap_ok km \<Longrightarrow> table_ok utf32 km (layout_table utf32 km)"
  unfolding layout_table_def
proof (rule fold_keeps [where P = "table_ok utf32 km"])
  show "table_ok utf32 km Map.empty" by (simp add: table_ok_def)
  fix code tab
  assume km: "keymap_ok km" and code: "code \<in> set [km_min km..<Suc (min (km_max km) 255)]" and tab: "table_ok utf32 km tab"
  have c: "km_min km \<le> code" "code \<le> min (km_max km) 255" using code by auto
  show "table_ok utf32 km (fold (add_level utf32 km code) [0..<km_levels km code] tab)"
    by (rule fold_keeps [where P = "table_ok utf32 km", OF tab]) (simp add: add_level_ok [OF km _ c])
qed

section \<open>What the compositor sees\<close>

text \<open>\<open>sc_error\<close>: a key or modifiers before any keymap, which the protocol forbids.\<close>

record screen =
  sc_keymap :: "string option"
  sc_mods :: nat
  sc_out :: "nat list"
  sc_error :: bool

fun see :: "(string \<Rightarrow> nat \<Rightarrow> nat \<Rightarrow> nat option) \<Rightarrow> vk_request \<Rightarrow> screen \<Rightarrow> screen" where
  "see sy (Vk_keymap t) c = c\<lparr>sc_keymap := Some t\<rparr>"
| "see sy (Vk_modifiers m) c = c\<lparr>sc_mods := m, sc_error := sc_error c \<or> sc_keymap c = None\<rparr>"
| "see sy (Vk_key t code pressed) c =
     (case sc_keymap c of
        None \<Rightarrow> c\<lparr>sc_error := True\<rparr>
      | Some km \<Rightarrow>
          if pressed then c\<lparr>sc_out := sc_out c @ (case sy km (code + 8) (sc_mods c) of None \<Rightarrow> [] | Some x \<Rightarrow> [x])\<rparr> else c)"

definition seen :: "(string \<Rightarrow> nat \<Rightarrow> nat \<Rightarrow> nat option) \<Rightarrow> vk_state \<Rightarrow> screen" where
  "seen sy s = fold (see sy) (vk_sent s) \<lparr>sc_keymap = None, sc_mods = 0, sc_out = [], sc_error = False\<rparr>"

lemma seen_send: "seen sy (vk_send rs s) = fold (see sy) rs (seen sy s)"
  by (simp add: seen_def vk_send_def)

lemma seen_press:
  assumes "sc_keymap (seen sy s) = Some t" and "sc_mods (seen sy s) = 0" and "sy t (code + 8) m = Some x"
  shows "seen sy (press code m s) = (seen sy s)\<lparr>sc_out := sc_out (seen sy s) @ [x]\<rparr>"
proof -
  have q: "seen sy (r\<lparr>vk_time := n\<rparr>) = seen sy r" for r n by (simp add: seen_def)
  show ?thesis using assms by (cases "seen sy s") (simp add: press_def q seen_send)
qed

text \<open>What is left of a job, and the characters that its next run presses.\<close>

definition remaining :: "type_job \<Rightarrow> nat list" where
  "remaining job = map norm_char (drop (tj_pos job) (tj_chars job))"

lemma press_same:
  "vk_run_in_layout (press_char c s) = vk_run_in_layout s" "layout_key (press_char c s) = layout_key s" "vk_batch (press_char c s) = vk_batch s"
  "vk_jobs (press_char c s) = vk_jobs s" "vk_timer (press_char c s) = vk_timer s" "vk_run_pending (press_char c s) = vk_run_pending s"
  "vk_uploaded (press_char c s) = vk_uploaded s" "vk_layout_text (press_char c s) = vk_layout_text s" "vk_layout_keys (press_char c s) = vk_layout_keys s"
  "vk_vkbd (press_char c s) = vk_vkbd s" "vk_run_end (press_char c s) = vk_run_end s"
  by (auto simp: press_char_def press_def vk_send_def layout_key_def fun_eq_iff split: option.splits)

text \<open>The keys of a run are right: each of its characters has a key that gives it under the keymap in force.\<close>

definition key_for :: "(string \<Rightarrow> nat \<Rightarrow> nat \<Rightarrow> nat option) \<Rightarrow> vk_state \<Rightarrow> string \<Rightarrow> nat \<Rightarrow> bool" where
  "key_for sy s t c \<longleftrightarrow>
     (if vk_run_in_layout s then (\<exists>k. layout_key s c = Some k \<and> sy t (lk_code k + 8) (lk_mask k) = Some (norm_char c))
      else (\<exists>i. batch_index (vk_batch s) c = Some i \<and> sy t (i + 1 + 8) 0 = Some (norm_char c)))"

lemma press_chars:
  assumes "sc_keymap (seen sy s) = Some t" and "sc_mods (seen sy s) = 0" and "list_all (key_for sy s t) cs"
  shows "seen sy (fold press_char cs s) = (seen sy s)\<lparr>sc_out := sc_out (seen sy s) @ map norm_char cs\<rparr>"
  using assms
proof (induction cs arbitrary: s)
  case (Cons c cs)
  have "key_for sy s t c" using Cons.prems(3) by simp
  then have one: "seen sy (press_char c s) = (seen sy s)\<lparr>sc_out := sc_out (seen sy s) @ [norm_char c]\<rparr>"
    using seen_press [OF Cons.prems(1,2)] by (auto simp: key_for_def press_char_def split: if_splits)
  have "key_for sy (press_char c s) t = key_for sy s t" by (simp add: key_for_def fun_eq_iff press_same)
  then have "seen sy (fold press_char cs (press_char c s)) =
      (seen sy (press_char c s))\<lparr>sc_out := sc_out (seen sy (press_char c s)) @ map norm_char cs\<rparr>"
    using Cons.prems one by (intro Cons.IH) simp_all
  then show ?case by (simp add: one)
qed simp

section \<open>Runs\<close>

lemma batch_index_Some: "batch_index b c = Some i \<Longrightarrow> i < length b \<and> b ! i = c"
  by (auto simp: batch_index_def find_Some_iff)

lemma batch_index_member: "c \<in> set b \<Longrightarrow> \<exists>i. batch_index b c = Some i"
  by (cases "batch_index b c") (auto simp: batch_index_def find_None_iff in_set_conv_nth)

lemma custom_run_spec:
  "custom_run L cs batch = (n, b) \<Longrightarrow> length batch \<le> BATCH_KEYS \<Longrightarrow>
   n \<le> length cs \<and> set (take n cs) \<subseteq> set b \<and> set batch \<subseteq> set b \<and> set b \<subseteq> set batch \<union> set cs \<and> length b \<le> BATCH_KEYS"
proof (induction L cs batch arbitrary: n b rule: custom_run.induct)
  case (2 L c cs batch)
  show ?case
  proof (cases "L c \<or> batch_index batch c = None \<and> length batch = BATCH_KEYS")
    case False
    let ?batch = "if batch_index batch c = None then batch @ [c] else batch"
    obtain k where k: "custom_run L cs ?batch = (k, b)" "n = Suc k"
      using False 2(3) by (auto split: prod.splits if_splits)
    have c: "c \<in> set ?batch" using batch_index_Some [of batch c] by (auto intro: nth_mem)
    have "k \<le> length cs \<and> set (take k cs) \<subseteq> set b \<and> set ?batch \<subseteq> set b \<and> set b \<subseteq> set ?batch \<union> set cs \<and> length b \<le> BATCH_KEYS"
      using 2(1,2) False k(1) 2(4) by (cases "batch_index batch c = None") auto
    then show ?thesis using k(2) c by (auto split: if_splits)
  qed (use 2 in \<open>auto split: if_splits\<close>)
qed auto

lemma custom_run_starts: "cs \<noteq> [] \<Longrightarrow> \<not> L (hd cs) \<Longrightarrow> fst (custom_run L cs []) > 0"
  by (cases cs) (auto simp: BATCH_KEYS_def batch_index_def split: prod.splits)

definition job_ok :: "type_job \<Rightarrow> bool" where
  "job_ok j \<longleftrightarrow> tj_pos j < length (tj_chars j) \<and> list_all typable (tj_chars j)"

definition layout_is :: "(nat \<Rightarrow> nat) \<Rightarrow> xkb_keymap option \<Rightarrow> vk_state \<Rightarrow> bool" where
  "layout_is utf32 lay s \<longleftrightarrow> vk_layout_keys s = map_option (layout_table utf32) lay \<and> vk_layout_text s = Option.bind lay km_text"

text \<open>Between the steps of a handler: what was typed and what is left make up the text.\<close>

definition vk_mid :: "(nat \<Rightarrow> nat) \<Rightarrow> xkb_keymap option \<Rightarrow> nat list \<Rightarrow> vk_state \<Rightarrow> bool" where
  "vk_mid utf32 lay T s \<longleftrightarrow> (let c = seen (symbol utf32 lay) s in
     layout_is utf32 lay s \<and> (vk_jobs s \<noteq> [] \<longrightarrow> vk_vkbd s) \<and> list_all job_ok (tl (vk_jobs s)) \<and>
     (vk_jobs s \<noteq> [] \<longrightarrow> tj_pos (hd (vk_jobs s)) \<le> length (tj_chars (hd (vk_jobs s))) \<and> list_all typable (tj_chars (hd (vk_jobs s)))) \<and>
     \<not> sc_error c \<and> sc_mods c = 0 \<and> (vk_uploaded s = Uploaded_layout \<longrightarrow> sc_keymap c = vk_layout_text s \<and> vk_layout_text s \<noteq> None) \<and>
     sc_out c @ concat (map remaining (vk_jobs s)) = T)"

text \<open>The next run of the head job is ready: its keys are right under the keymap in force.\<close>

definition run_ready :: "(nat \<Rightarrow> nat) \<Rightarrow> xkb_keymap option \<Rightarrow> vk_state \<Rightarrow> bool" where
  "run_ready utf32 lay s \<longleftrightarrow> vk_jobs s \<noteq> [] \<and> tj_pos (hd (vk_jobs s)) < vk_run_end s \<and> vk_run_end s \<le> length (tj_chars (hd (vk_jobs s))) \<and>
     (\<exists>t. sc_keymap (seen (symbol utf32 lay) s) = Some t \<and>
        list_all (key_for (symbol utf32 lay) s t) (drop (tj_pos (hd (vk_jobs s))) (take (vk_run_end s) (tj_chars (hd (vk_jobs s))))))"

definition vk_inv :: "(nat \<Rightarrow> nat) \<Rightarrow> xkb_keymap option \<Rightarrow> nat list \<Rightarrow> vk_state \<Rightarrow> bool" where
  "vk_inv utf32 lay T s \<longleftrightarrow> vk_mid utf32 lay T s \<and> list_all job_ok (vk_jobs s) \<and> (vk_jobs s \<noteq> [] \<longrightarrow> vk_timer s) \<and>
     (vk_run_pending s \<longrightarrow> run_ready utf32 lay s)"

definition work :: "vk_state \<Rightarrow> nat" where
  "work s = (\<Sum>j\<leftarrow>vk_jobs s. 2 * (length (tj_chars j) - tj_pos j)) - (if vk_run_pending s then 1 else 0)"

lemma seen_quiet [simp]:
  "seen sy (s\<lparr>vk_timer := a\<rparr>) = seen sy s" "seen sy (s\<lparr>vk_jobs := j\<rparr>) = seen sy s" "seen sy (s\<lparr>vk_run_pending := b\<rparr>) = seen sy s"
  "seen sy (s\<lparr>vk_run_end := n\<rparr>) = seen sy s" "seen sy (s\<lparr>vk_run_in_layout := b\<rparr>) = seen sy s" "seen sy (s\<lparr>vk_batch := l\<rparr>) = seen sy s"
  "seen sy (s\<lparr>vk_uploaded := u\<rparr>) = seen sy s" "seen sy (s\<lparr>vk_manager := b\<rparr>) = seen sy s" "seen sy (s\<lparr>vk_vkbd := b\<rparr>) = seen sy s"
  by (simp_all add: seen_def)

lemma layout_quiet [simp]:
  "layout_is utf32 lay (s\<lparr>vk_timer := a\<rparr>) = layout_is utf32 lay s" "layout_is utf32 lay (s\<lparr>vk_jobs := j\<rparr>) = layout_is utf32 lay s"
  "layout_is utf32 lay (s\<lparr>vk_run_pending := b\<rparr>) = layout_is utf32 lay s" "layout_is utf32 lay (s\<lparr>vk_run_end := n\<rparr>) = layout_is utf32 lay s"
  "layout_is utf32 lay (s\<lparr>vk_run_in_layout := b\<rparr>) = layout_is utf32 lay s" "layout_is utf32 lay (s\<lparr>vk_batch := l\<rparr>) = layout_is utf32 lay s"
  "layout_is utf32 lay (s\<lparr>vk_uploaded := u\<rparr>) = layout_is utf32 lay s" "layout_is utf32 lay (vk_send rs s) = layout_is utf32 lay s"
  "layout_is utf32 lay (s\<lparr>vk_manager := b\<rparr>) = layout_is utf32 lay s" "layout_is utf32 lay (s\<lparr>vk_vkbd := b\<rparr>) = layout_is utf32 lay s"
  by (simp_all add: layout_is_def vk_send_def)

lemma finish_inv:
  assumes "vk_mid utf32 lay T s" and "vk_jobs s \<noteq> []" and "\<not> vk_run_pending s"
  shows "vk_inv utf32 lay T (run_finish s) \<and> work (run_finish s) \<le> work s"
proof -
  obtain j js where j: "vk_jobs s = j # js" using assms(2) by (cases "vk_jobs s") auto
  show ?thesis
  proof (cases "length (tj_chars j) \<le> tj_pos j")
    case True
    then have r: "remaining j = []" by (simp add: remaining_def)
    show ?thesis
    proof (cases js)
      case Nil
      then show ?thesis using assms(1,3) j True r
        by (simp add: run_finish_def vk_inv_def vk_mid_def work_def Let_def)
    next
      case (Cons k ks)
      then show ?thesis using assms(1,3) j True r
        by (simp add: run_finish_def vk_inv_def vk_mid_def work_def schedule_def job_ok_def Let_def)
    qed
  next
    case False
    then show ?thesis using assms(1,3) j
      by (simp add: run_finish_def vk_inv_def vk_mid_def work_def schedule_def job_ok_def Let_def)
  qed
qed

lemma run_chars: "n \<le> length cs \<Longrightarrow> map (\<lambda>i. cs ! i) [k..<n] = drop k (take n cs)"
  by (rule nth_equalityI) simp_all

lemma fold_press_same:
  "vk_jobs (fold press_char cs s) = vk_jobs s" "vk_run_pending (fold press_char cs s) = vk_run_pending s"
  "vk_uploaded (fold press_char cs s) = vk_uploaded s" "vk_layout_text (fold press_char cs s) = vk_layout_text s"
  "vk_layout_keys (fold press_char cs s) = vk_layout_keys s" "vk_vkbd (fold press_char cs s) = vk_vkbd s" "vk_run_end (fold press_char cs s) = vk_run_end s"
  by (induction cs arbitrary: s) (simp_all add: press_same)

lemma drop_split: "k \<le> n \<Longrightarrow> drop k xs = drop k (take n xs) @ drop n xs"
proof -
  assume "k \<le> n"
  then have "drop n xs = drop (n - k) (drop k xs)" by simp
  then show ?thesis by (simp only: drop_take append_take_drop_id)
qed

lemma press_run_mid:
  assumes "vk_mid utf32 lay T s" and "vk_jobs s = j # js" and "run_ready utf32 lay s" and "\<not> vk_run_pending s"
  shows "vk_mid utf32 lay T (press_run j s)" "vk_jobs (press_run j s) \<noteq> []" "\<not> vk_run_pending (press_run j s)"
    "work (press_run j s) + 2 \<le> work s"
proof -
  let ?n = "vk_run_end s"
  let ?sy = "symbol utf32 lay"
  obtain t where t: "sc_keymap (seen ?sy s) = Some t" "list_all (key_for ?sy s t) (drop (tj_pos j) (take ?n (tj_chars j)))"
    and n: "tj_pos j < ?n" "?n \<le> length (tj_chars j)"
    using assms(2,3) by (auto simp: run_ready_def)
  have m: "sc_mods (seen ?sy s) = 0" using assms(1) by (simp add: vk_mid_def Let_def)
  have seen: "seen ?sy (press_run j s) = (seen ?sy s)\<lparr>sc_out := sc_out (seen ?sy s) @ map norm_char (drop (tj_pos j) (take ?n (tj_chars j)))\<rparr>"
    using press_chars [OF t(1) m t(2)] n(2) by (simp add: press_run_def head_job_def run_chars)
  have jobs: "vk_jobs (press_run j s) = j\<lparr>tj_pos := ?n\<rparr> # js" using assms(2) by (simp add: press_run_def head_job_def fold_press_same)
  have "drop (tj_pos j) (tj_chars j) = drop (tj_pos j) (take ?n (tj_chars j)) @ drop ?n (tj_chars j)"
    by (rule drop_split) (use n(1) in simp)
  then have rem: "remaining j = map norm_char (drop (tj_pos j) (take ?n (tj_chars j))) @ remaining (j\<lparr>tj_pos := ?n\<rparr>)"
    unfolding remaining_def by (metis map_append type_job.select_convs(1) type_job.select_convs(2) type_job.surjective type_job.update_convs(2))
  have same: "layout_is utf32 lay (press_run j s) = layout_is utf32 lay s" "vk_vkbd (press_run j s) = vk_vkbd s"
    "vk_uploaded (press_run j s) = vk_uploaded s" "vk_layout_text (press_run j s) = vk_layout_text s" "vk_run_pending (press_run j s) = vk_run_pending s"
    by (simp_all add: press_run_def head_job_def layout_is_def fold_press_same)
  show "vk_mid utf32 lay T (press_run j s)"
    using assms(1,2) n(2) rem unfolding vk_mid_def Let_def jobs seen same by simp
  show "vk_jobs (press_run j s) \<noteq> []" "\<not> vk_run_pending (press_run j s)" using jobs same assms(4) by simp_all
  show "work (press_run j s) + 2 \<le> work s" using n assms(2,4) by (simp add: work_def jobs same)
qed

lemma run_ready_quiet [simp]:
  "run_ready utf32 lay (s\<lparr>vk_timer := a\<rparr>) = run_ready utf32 lay s" "run_ready utf32 lay (s\<lparr>vk_run_pending := b\<rparr>) = run_ready utf32 lay s"
  "run_ready utf32 lay (s\<lparr>vk_uploaded := u\<rparr>) = run_ready utf32 lay s"
  by (simp_all add: run_ready_def key_for_def [abs_def] layout_key_def)

lemma mid_quiet [simp]:
  "vk_mid utf32 lay T (s\<lparr>vk_timer := a\<rparr>) = vk_mid utf32 lay T s" "vk_mid utf32 lay T (s\<lparr>vk_run_pending := b\<rparr>) = vk_mid utf32 lay T s"
  "vk_mid utf32 lay T (s\<lparr>vk_run_end := n\<rparr>) = vk_mid utf32 lay T s" "vk_mid utf32 lay T (s\<lparr>vk_run_in_layout := b\<rparr>) = vk_mid utf32 lay T s"
  "vk_mid utf32 lay T (s\<lparr>vk_batch := l\<rparr>) = vk_mid utf32 lay T s"
  by (simp_all add: vk_mid_def)

lemma layout_key_quiet [simp]:
  "layout_key (s\<lparr>vk_timer := a\<rparr>) = layout_key s" "layout_key (s\<lparr>vk_run_end := n\<rparr>) = layout_key s" "layout_key (s\<lparr>vk_run_in_layout := b\<rparr>) = layout_key s"
  "layout_key (s\<lparr>vk_batch := l\<rparr>) = layout_key s" "layout_key (s\<lparr>vk_uploaded := u\<rparr>) = layout_key s" "layout_key (vk_send rs s) = layout_key s"
  by (simp_all add: layout_key_def fun_eq_iff vk_send_def)

lemma layout_run_quiet [simp]:
  "layout_run (s\<lparr>vk_timer := a\<rparr>) = layout_run s" "layout_run (s\<lparr>vk_run_end := n\<rparr>) = layout_run s"
  "layout_run (s\<lparr>vk_run_in_layout := b\<rparr>) = layout_run s"
  by (simp_all add: layout_run_def fun_eq_iff)

lemma layout_run_cong: "layout_key r = layout_key s \<Longrightarrow> layout_run r j = layout_run s j"
  by (simp add: layout_run_def)

abbreviation layout_fine :: "xkb_keymap option \<Rightarrow> bool" where
  "layout_fine lay \<equiv> pred_option keymap_ok lay"

lemma layout_key_symbol:
  assumes "layout_fine lay" and "layout_is utf32 lay s" and "layout_key s c = Some k"
  obtains t where "vk_layout_text s = Some t" "symbol utf32 lay t (lk_code k + 8) (lk_mask k) = Some (norm_char c)"
proof -
  obtain km where km: "lay = Some km" "keymap_ok km"
    using assms by (cases lay) (auto simp: layout_is_def layout_key_def)
  then obtain t where t: "km_text km = Some t" by (auto simp: keymap_ok_def)
  have "layout_table utf32 km (norm_char c) = Some k"
    using assms(2,3) km(1) by (auto simp: layout_is_def layout_key_def norm_char_def)
  then have "layout_symbol utf32 km (lk_code k + 8) (lk_mask k) = Some (norm_char c)"
    using layout_table_ok [OF km(2)] by (simp add: table_ok_def)
  then show thesis using that [of t] t km(1) assms(2) by (simp add: symbol_def layout_is_def)
qed

lemma layout_ready:
  assumes "layout_fine lay" and "layout_is utf32 lay s" and "vk_jobs s = j # js" and "job_ok j"
    and "layout_key s (tj_chars j ! tj_pos j) \<noteq> None" and "vk_run_end s = layout_run s j" and "vk_run_in_layout s"
    and "sc_keymap (seen (symbol utf32 lay) s) = vk_layout_text s"
  shows "run_ready utf32 lay s"
proof -
  let ?tw = "takeWhile (\<lambda>c. layout_key s c \<noteq> None) (drop (tj_pos j) (tj_chars j))"
  obtain k where "layout_key s (tj_chars j ! tj_pos j) = Some k" using assms(5) by blast
  then obtain t where t: "vk_layout_text s = Some t" by (rule layout_key_symbol [OF assms(1,2)])
  have p: "tj_pos j < length (tj_chars j)" using assms(4) by (simp add: job_ok_def)
  then have "drop (tj_pos j) (tj_chars j) = tj_chars j ! tj_pos j # drop (Suc (tj_pos j)) (tj_chars j)" by (simp add: Cons_nth_drop_Suc)
  then have pos: "length ?tw > 0" using assms(5) by simp
  have len: "length ?tw \<le> length (tj_chars j) - tj_pos j" using length_takeWhile_le [of _ "drop (tj_pos j) (tj_chars j)"] by simp
  have run: "drop (tj_pos j) (take (layout_run s j) (tj_chars j)) = ?tw"
    by (simp add: layout_run_def drop_take takeWhile_eq_take [symmetric])
  have "key_for (symbol utf32 lay) s t c" if "c \<in> set ?tw" for c
  proof -
    have "layout_key s c \<noteq> None" using set_takeWhileD [OF that] by blast
    then obtain k where k: "layout_key s c = Some k" by blast
    then show ?thesis using layout_key_symbol [OF assms(1,2) k] t assms(7) by (auto simp: key_for_def)
  qed
  then have "list_all (key_for (symbol utf32 lay) s t) ?tw" by (simp add: list_all_iff)
  then show ?thesis using assms(3,6,8) t pos len p run by (simp add: run_ready_def layout_run_def)
qed

lemma upload_layout_run:
  assumes "layout_fine lay" and "vk_mid utf32 lay T s" and "vk_layout_text s = Some t" and "vk_uploaded s \<noteq> Uploaded_layout"
  shows "vk_mid utf32 lay T (snd (upload_layout True s))" "sc_keymap (seen (symbol utf32 lay) (snd (upload_layout True s))) = Some t"
  using assms(2-4) by (simp_all add: upload_layout_def vk_mid_def seen_send Let_def) (simp_all add: vk_send_def)

lemma custom_ready:
  assumes "layout_fine lay" and "vk_mid utf32 lay T s" and "vk_jobs s = j # js" and "job_ok j"
    and "layout_key s (tj_chars j ! tj_pos j) = None" and "\<not> vk_run_in_layout s" and "upload_custom True j s = (ok, r)"
  shows "ok" "vk_mid utf32 lay T r" "run_ready utf32 lay r" "vk_jobs r = vk_jobs s"
proof -
  let ?L = "\<lambda>c. layout_key s c \<noteq> None"
  let ?sy = "symbol utf32 lay"
  let ?cs = "drop (tj_pos j) (tj_chars j)"
  obtain n b where nb: "custom_run ?L ?cs [] = (n, b)" by (cases "custom_run ?L ?cs []")
  have r: "r = (vk_send [Vk_keymap (make_keymap b), Vk_modifiers 0] (s\<lparr>vk_batch := b, vk_run_end := tj_pos j + n\<rparr>))\<lparr>vk_uploaded := Uploaded_custom\<rparr>"
    and ok: "ok" using assms(7) unfolding upload_custom_def nb by (simp_all add: Let_def)
  show "ok" by (rule ok)
  have p: "tj_pos j < length (tj_chars j)" "list_all typable (tj_chars j)" using assms(4) by (simp_all add: job_ok_def)
  then have "hd ?cs = tj_chars j ! tj_pos j" "?cs \<noteq> []" by (simp_all add: hd_drop_conv_nth)
  then have n0: "n > 0" using custom_run_starts [of ?cs ?L] assms(5) nb by simp
  have sp: "n \<le> length ?cs" "set (take n ?cs) \<subseteq> set b" "set b \<subseteq> set ?cs" "length b \<le> BATCH_KEYS"
    using custom_run_spec [OF nb] by (simp_all add: BATCH_KEYS_def)
  have tb: "list_all typable b" using sp(3) p(2) by (auto simp: list_all_iff dest: in_set_dropD)
  have q: "seen ?sy (r\<lparr>vk_batch := l\<rparr>) = seen ?sy r" for r l by simp
  have seen: "seen ?sy r = (seen ?sy s)\<lparr>sc_keymap := Some (make_keymap b), sc_mods := 0\<rparr>"
    using assms(2) unfolding r vk_mid_def Let_def by (simp add: seen_send)
  show jobs: "vk_jobs r = vk_jobs s" by (simp add: r vk_send_def)
  have same: "layout_is utf32 lay r = layout_is utf32 lay s" "vk_uploaded r = Uploaded_custom" "vk_vkbd r = vk_vkbd s"
    "vk_run_in_layout r = vk_run_in_layout s" "vk_batch r = b" "vk_run_end r = tj_pos j + n" by (simp_all add: r layout_is_def vk_send_def)
  show "vk_mid utf32 lay T r" using assms(2) unfolding vk_mid_def Let_def seen jobs same by simp
  have "symbol utf32 lay (make_keymap b) = custom_symbol (make_keymap b)"
    using assms(1) by (auto simp: symbol_def fun_eq_iff keymap_ok_def split: option.splits)
  then have "key_for ?sy r (make_keymap b) c" if "c \<in> set (take n ?cs)" for c
  proof -
    have "c \<in> set b" using that sp(2) by blast
    then obtain i where i: "batch_index b c = Some i" using batch_index_member by blast
    then have "i < length b" "b ! i = c" using batch_index_Some by blast+
    then have "?sy (make_keymap b) (i + 9) 0 = Some (norm_char c)"
      using custom_symbol_ok [OF tb sp(4)] \<open>symbol utf32 lay (make_keymap b) = custom_symbol (make_keymap b)\<close> by auto
    then show ?thesis using i assms(6) by (simp add: key_for_def same add.commute [of 9])
  qed
  then have "list_all (key_for ?sy r (make_keymap b)) (take n ?cs)" by (simp add: list_all_iff)
  moreover have "drop (tj_pos j) (take (tj_pos j + n) (tj_chars j)) = take n ?cs" by (simp add: drop_take)
  ultimately show "run_ready utf32 lay r" using assms(3) n0 sp(1) p(1) by (simp add: run_ready_def jobs same seen)
qed

lemma run_job_pending:
  assumes "vk_mid utf32 lay T s" and "vk_jobs s = j # js" and "job_ok j" and "vk_run_pending s" and "run_ready utf32 lay s"
  shows "vk_inv utf32 lay T (run_job True s) \<and> work (run_job True s) < work s"
proof -
  let ?p = "s\<lparr>vk_timer := False, vk_run_pending := False\<rparr>"
  have "vk_mid utf32 lay T ?p" "vk_jobs ?p = j # js" "run_ready utf32 lay ?p" "\<not> vk_run_pending ?p" using assms by simp_all
  note pr = press_run_mid [OF this]
  have "work ?p = Suc (work s)" using assms(2-4) by (simp add: work_def job_ok_def)
  then show ?thesis using pr finish_inv [OF pr(1-3)] assms(2,4) by (simp add: run_job_def Let_def)
qed

lemma run_job_layout:
  assumes "layout_fine lay" and "vk_mid utf32 lay T s" and "vk_jobs s = j # js" and "list_all job_ok (vk_jobs s)" and "\<not> vk_run_pending s"
    and "layout_key s (tj_chars j ! tj_pos j) \<noteq> None" and "vk_layout_text s = Some t"
  shows "vk_inv utf32 lay T (run_job True s) \<and> work (run_job True s) < work s"
proof -
  let ?r = "s\<lparr>vk_timer := False, vk_run_end := layout_run s j, vk_run_in_layout := True\<rparr>"
  have ok: "job_ok j" "tj_pos j < length (tj_chars j)" using assms(3,4) by (simp_all add: job_ok_def)
  have li: "layout_is utf32 lay s" using assms(2) by (simp add: vk_mid_def Let_def)
  have rm: "vk_mid utf32 lay T ?r" using assms(2) by simp
  show ?thesis
  proof (cases "vk_uploaded s = Uploaded_layout")
    case True
    have "run_ready utf32 lay ?r"
      by (rule layout_ready [OF assms(1)]) (use li ok(1) assms(2,3,6) True in \<open>simp_all add: vk_mid_def Let_def\<close>)
    note pr = press_run_mid [OF rm _ this]
    have "work ?r = work s" by (simp add: work_def)
    then show ?thesis using pr [of j js] finish_inv [of utf32 lay T "press_run j ?r"] True assms(3,5-7) ok by (simp add: run_job_def Let_def)
  next
    case up: False
    let ?u = "snd (upload_layout True ?r)"
    have u: "vk_mid utf32 lay T ?u" "sc_keymap (seen (symbol utf32 lay) ?u) = Some t"
      using upload_layout_run [OF assms(1) rm] assms(7) up by simp_all
    have same: "vk_jobs ?u = j # js" "layout_is utf32 lay ?u" "layout_key ?u = layout_key s" "vk_run_end ?u = layout_run s j"
      "vk_run_in_layout ?u" "vk_layout_text ?u = Some t" "vk_run_pending ?u = vk_run_pending s" using assms(3,7) li
      by (simp_all add: upload_layout_def) (simp_all add: vk_send_def)
    have "run_ready utf32 lay ?u"
      by (rule layout_ready [OF assms(1)]) (use same ok(1) assms(6) u layout_run_cong [OF same(3)] in simp_all)
    moreover have "work (?u\<lparr>vk_run_pending := True\<rparr>) < work s" using same assms(3,5) ok by (simp add: work_def)
    ultimately show ?thesis using u(1) same assms(3-7) up ok
      by (simp add: run_job_def Let_def upload_layout_def [of True] vk_inv_def schedule_def work_def)
  qed
qed

lemma run_job_custom:
  assumes "layout_fine lay" and "vk_mid utf32 lay T s" and "vk_jobs s = j # js" and "list_all job_ok (vk_jobs s)" and "\<not> vk_run_pending s"
    and "layout_key s (tj_chars j ! tj_pos j) = None"
  shows "vk_inv utf32 lay T (run_job True s) \<and> work (run_job True s) < work s"
proof -
  let ?s = "s\<lparr>vk_timer := False, vk_run_in_layout := False\<rparr>"
  have ok: "job_ok j" "tj_pos j < length (tj_chars j)" using assms(3,4) by (simp_all add: job_ok_def)
  obtain ok' r where r: "upload_custom True j ?s = (ok', r)" by (cases "upload_custom True j ?s")
  have c: "ok'" "vk_mid utf32 lay T r" "run_ready utf32 lay r" "vk_jobs r = vk_jobs s"
    using custom_ready [OF assms(1) _ _ ok(1) _ _ r] assms(2,3,6) by simp_all
  have "work (r\<lparr>vk_run_pending := True\<rparr>) < work s" using c(4) assms(3,5) ok by (simp add: work_def)
  then show ?thesis using c assms(3-6) ok r by (simp add: run_job_def Let_def vk_inv_def schedule_def work_def)
qed

lemma run_job_inv:
  assumes "layout_fine lay" and "vk_mid utf32 lay T s" and "list_all job_ok (vk_jobs s)" and "vk_jobs s \<noteq> []"
    and "vk_run_pending s \<longrightarrow> run_ready utf32 lay s"
  shows "vk_inv utf32 lay T (run_job True s) \<and> work (run_job True s) < work s"
proof -
  obtain j js where j: "vk_jobs s = j # js" using assms(4) by (cases "vk_jobs s") auto
  have li: "layout_is utf32 lay s" using assms(2) by (simp add: vk_mid_def Let_def)
  consider "vk_run_pending s" | "\<not> vk_run_pending s" "layout_key s (tj_chars j ! tj_pos j) = None"
    | k where "\<not> vk_run_pending s" "layout_key s (tj_chars j ! tj_pos j) = Some k" by blast
  then show ?thesis
  proof cases
    case 1
    then show ?thesis using run_job_pending [OF assms(2) j] assms(3,5) j by simp
  next
    case 2
    then show ?thesis using run_job_custom [OF assms(1,2) j assms(3)] by simp
  next
    case (3 k)
    from layout_key_symbol [OF assms(1) li 3(2)] obtain t where "vk_layout_text s = Some t" .
    then show ?thesis using run_job_layout [OF assms(1,2) j assms(3) 3(1)] 3(2) by simp
  qed
qed

section \<open>Sequences of events\<close>

text \<open>Events of a compositor that offers a virtual keyboard, with memory for the keymaps, and text that can be typed.\<close>

fun good :: "vk_event \<Rightarrow> bool" where
  "good (V_type env fd cps) = (ve_display env \<and> ve_announced env \<and> ve_seat env \<and> ve_created env \<and> fd \<and> list_all typable cps)"
| "good (V_timer fd) = fd"
| "good (V_layout lay) = False"

fun event_text :: "vk_event \<Rightarrow> nat list" where
  "event_text (V_type env fd cps) = cps"
| "event_text _ = []"

definition typed_in :: "vk_event list \<Rightarrow> nat list" where
  "typed_in es = concat (map event_text es)"

lemma type_text_inv:
  assumes "layout_fine lay" and "vk_inv utf32 lay T s" and "good (V_type env fd cps)"
  shows "vk_inv utf32 lay (T @ map norm_char cps) (type_text env fd cps s)"
proof (cases "cps = []")
  case False
  define s1 where "s1 = s\<lparr>vk_manager := (vk_manager s \<or> \<not> vk_vkbd s), vk_vkbd := True\<rparr>"
  have e: "ensure_vkbd env s = (True, s1)" using assms(3) by (cases s) (simp add: ensure_vkbd_def s1_def Let_def)
  let ?j = "\<lparr>tj_chars = cps, tj_pos = 0\<rparr>"
  let ?s = "s1\<lparr>vk_jobs := vk_jobs s @ [?j]\<rparr>"
  have j: "job_ok ?j" using assms(3) False by (simp add: job_ok_def)
  have r: "remaining ?j = map norm_char cps" by (simp add: remaining_def)
  have jobs: "list_all job_ok (vk_jobs s @ [?j])" using assms(2) j by (simp add: vk_inv_def)
  have mid: "vk_mid utf32 lay (T @ map norm_char cps) ?s"
    using assms(2,3) False j r by (cases "vk_jobs s") (simp_all add: vk_inv_def vk_mid_def s1_def job_ok_def Let_def)
  have "key_for sy ?s = key_for sy s" "seen sy ?s = seen sy s" for sy
    by (simp_all add: s1_def key_for_def layout_key_def fun_eq_iff seen_def)
  then have ready: "run_ready utf32 lay ?s" if "vk_run_pending s"
    using assms(2) that by (simp add: vk_inv_def run_ready_def) (simp add: s1_def)
  have f: "vk_timer ?s = vk_timer s" "vk_run_pending ?s = vk_run_pending s" "vk_jobs s1 = vk_jobs s" by (simp_all add: s1_def)
  show ?thesis
  proof (cases "vk_timer s \<or> vk_jobs s \<noteq> []")
    case True
    then have "vk_timer s" using assms(2) by (auto simp: vk_inv_def)
    then show ?thesis using False e mid jobs ready f by (simp add: type_text_def vk_inv_def Let_def)
  next
    case new: False
    have "fd" using assms(3) by simp
    then have "type_text env fd cps s = run_job True ?s" using False e new f by (simp add: type_text_def Let_def)
    moreover have "vk_inv utf32 lay (T @ map norm_char cps) (run_job True ?s)"
      using run_job_inv [OF assms(1) mid] jobs ready f by simp
    ultimately show ?thesis by simp
  qed
qed (use assms(2) in \<open>simp add: type_text_def\<close>)

lemma timer_inv:
  assumes "layout_fine lay" and "vk_inv utf32 lay T s"
  shows "vk_inv utf32 lay T (vk_step utf32 (V_timer True) s) \<and>
    (vk_jobs s \<noteq> [] \<longrightarrow> work (vk_step utf32 (V_timer True) s) < work s)"
proof (cases "vk_jobs s = []")
  case True
  then have "\<not> vk_run_pending s" using assms(2) by (auto simp: vk_inv_def run_ready_def)
  then show ?thesis using True assms(2) by (simp add: run_job_def Let_def vk_inv_def)
next
  case False
  have p: "vk_mid utf32 lay T s" "list_all job_ok (vk_jobs s)" "vk_timer s" "vk_run_pending s \<longrightarrow> run_ready utf32 lay s"
    using assms(2) False by (simp_all add: vk_inv_def)
  show ?thesis using run_job_inv [OF assms(1) p(1,2) False p(4)] p(3) by simp
qed

lemma step_text_inv:
  assumes "layout_fine lay" and "vk_inv utf32 lay T s" and "good e"
  shows "vk_inv utf32 lay (T @ map norm_char (event_text e)) (vk_step utf32 e s)"
  using assms type_text_inv timer_inv by (cases e) auto

lemma run_text_inv:
  "layout_fine lay \<Longrightarrow> vk_inv utf32 lay T s \<Longrightarrow> list_all good es \<Longrightarrow>
   vk_inv utf32 lay (T @ map norm_char (typed_in es)) (fold (vk_step utf32) es s)"
proof (induction es arbitrary: T s)
  case (Cons e es)
  have "vk_inv utf32 lay (T @ map norm_char (event_text e)) (vk_step utf32 e s)" using Cons.prems by (intro step_text_inv) simp_all
  from Cons.IH [OF Cons.prems(1) this] Cons.prems(3) show ?case by (simp add: typed_in_def)
qed (simp add: typed_in_def)

lemma layout_start: "vk_inv utf32 lay [] (set_layout utf32 lay vk_init)"
  by (cases lay) (simp_all add: set_layout_def vk_init_def vk_inv_def vk_mid_def layout_is_def seen_def Let_def)

lemma timers_drain:
  "layout_fine lay \<Longrightarrow> vk_inv utf32 lay T s \<Longrightarrow> work s \<le> n \<Longrightarrow>
   vk_inv utf32 lay T (fold (vk_step utf32) (replicate n (V_timer True)) s) \<and> vk_jobs (fold (vk_step utf32) (replicate n (V_timer True)) s) = []"
proof (induction n arbitrary: s)
  case 0
  have "vk_jobs s = []"
  proof (rule ccontr)
    assume "vk_jobs s \<noteq> []"
    then show False using timer_inv [OF 0(1,2)] 0(3) by simp
  qed
  then show ?case using 0 by simp
next
  case (Suc n)
  note t = timer_inv [OF Suc.prems(1,2)]
  show ?case
  proof (cases "vk_jobs s = []")
    case True
    then have "vk_jobs (vk_step utf32 (V_timer True) s) = []" by (simp add: run_job_def Let_def)
    then have "work (vk_step utf32 (V_timer True) s) \<le> n" by (simp add: work_def)
    then show ?thesis using Suc.IH [OF Suc.prems(1)] t by simp
  next
    case False
    then have "work (vk_step utf32 (V_timer True) s) \<le> n" using t Suc.prems(3) by simp
    then show ?thesis using Suc.IH [OF Suc.prems(1)] t by simp
  qed
qed

lemma work_bound: "vk_inv utf32 lay T s \<Longrightarrow> work s \<le> 2 * length T"
proof -
  assume "vk_inv utf32 lay T s"
  then have "T = sc_out (seen (symbol utf32 lay) s) @ concat (map remaining (vk_jobs s))" by (simp add: vk_inv_def vk_mid_def Let_def)
  moreover have "(\<Sum>j\<leftarrow>js. 2 * (length (tj_chars j) - tj_pos j)) = 2 * length (concat (map remaining js))" for js
    by (induction js) (simp_all add: remaining_def)
  ultimately show ?thesis by (simp add: work_def)
qed

section \<open>Properties\<close>



text \<open>A layout with the key \<open>a\<close>, and a text with a character outside it.\<close>

definition demo_keymap :: xkb_keymap where
  "demo_keymap = \<lparr>km_min = 38, km_max = 38, km_levels = (\<lambda>c. 1), km_syms = (\<lambda>c l. [97]), km_masks = (\<lambda>c l. [l]), km_text = Some ''layout''\<rparr>"

definition demo_vk_env :: vk_env where
  "demo_vk_env = \<lparr>ve_display = True, ve_announced = True, ve_seat = True, ve_created = True\<rparr>"

definition demo_events :: "vk_event list" where
  "demo_events = [V_type demo_vk_env True [97, 0x1f600, 13]]"

lemma demo_layout_fine: "layout_fine (Some demo_keymap)"
  by (simp add: keymap_ok_def demo_keymap_def make_keymap_def)

lemma demo_good: "list_all good demo_events"
  by (simp add: demo_events_def demo_vk_env_def typable_def printable_def)



text \<open>
  When the memory file for the layout's keymap cannot be made, the run is typed all the same: the
  first text then sends keys before any keymap, which the protocol forbids.
\<close>

theorem layout_upload_failure:
  "sc_error (seen (symbol (\<lambda>s. s) (Some demo_keymap))
     (vk_step (\<lambda>s. s) (V_type demo_vk_env False [97]) (set_layout (\<lambda>s. s) (Some demo_keymap) vk_init)))"
proof -
  have k: "layout_table (\<lambda>s. s) demo_keymap = [97 \<mapsto> \<lparr>lk_code = 30, lk_mask = 0\<rparr>]"
    by (simp add: layout_table_def demo_keymap_def add_level_def sym_char_def XKB_KEY_Return_def XKB_KEY_Tab_def)
  have t: "km_text demo_keymap = Some ''layout''" by (simp add: demo_keymap_def)
  show ?thesis
    by (simp add: set_layout_def k type_text_def ensure_vkbd_def demo_vk_env_def vk_init_def run_job_def layout_key_def
        t upload_layout_def press_run_def head_job_def layout_run_def press_char_def press_def vk_send_def run_finish_def seen_def Let_def)
qed

end
