(* ===== verification/Ime.thy ===== *)
theory Ime
  imports C_Prelude "HOL-Library.Word"
begin

text \<open>
  The input method, \<^verbatim>\<open>src/wayland/ime.c\<close>: the text field's state, the keyboard grab, the virtual keyboard that
  passes on what the input method does not use, preedit and commit requests, and the candidate popup.
  The client's callbacks are the lists of calls they make. The log records the requests and, for
  reference, the \<open>done\<close> events with the state that they make current.
\<close>

section \<open>State\<close>

definition KEY_COUNT :: nat where "KEY_COUNT = 1024"

record ime_field =
  if_active :: bool
  if_surrounding :: "string option"
  if_cursor :: nat
  if_purpose :: nat
  if_hint :: nat

definition empty_field :: ime_field where
  "empty_field = \<lparr>if_active = False, if_surrounding = None, if_cursor = 0, if_purpose = 0, if_hint = 0\<rparr>"

datatype ime_request =
    Im_create
  | Im_destroy
  | Im_preedit string int int
  | Im_delete nat nat
  | Im_string string
  | Im_commit "32 word"
  | Grab_create
  | Grab_release
  | Fwd_create
  | Fwd_keymap
  | Fwd_key nat bool
  | Fwd_modifiers nat nat nat nat
  | Popup_create
  | Popup_show int int int int
  | Popup_hide

datatype ime_note = Done_seen bool | Sent ime_request | Told_key nat bool | Told_state ime_field | Told_click int int

record ime_state =
  i_display :: bool
  i_im :: bool
  i_grab :: "nat option"
  i_grabs :: nat
  i_forward :: bool
  i_keymap_set :: bool
  i_forwarded :: "nat set"
  i_xkb :: bool
  i_pending :: ime_field
  i_current :: ime_field
  i_serial :: "32 word"
  i_want_grab :: bool
  i_key_depth :: nat
  i_popup :: bool
  i_pointer :: bool
  i_inside :: bool
  i_xy :: "int \<times> int"
  i_log :: "ime_note list"

definition ime_init :: ime_state where
  "ime_init = \<lparr>i_display = False, i_im = False, i_grab = None, i_grabs = 0, i_forward = False, i_keymap_set = False, i_forwarded = {},
     i_xkb = False, i_pending = empty_field, i_current = empty_field, i_serial = 0, i_want_grab = False, i_key_depth = 0,
     i_popup = False, i_pointer = False, i_inside = False, i_xy = (0, 0), i_log = []\<rparr>"

definition im_note :: "ime_note list \<Rightarrow> ime_state \<Rightarrow> ime_state" where
  "im_note ns s = s\<lparr>i_log := i_log s @ ns\<rparr>"

definition im_send :: "ime_request list \<Rightarrow> ime_state \<Rightarrow> ime_state" where
  "im_send rs s = im_note (map Sent rs) s"

section \<open>Forwarded keys\<close>

definition send_forward :: "nat \<Rightarrow> bool \<Rightarrow> ime_state \<Rightarrow> ime_state" where
  "send_forward key pressed s = (if \<not> i_forward s \<or> \<not> i_keymap_set s then s else im_send [Fwd_key key pressed] s)"

definition release_key :: "nat \<Rightarrow> ime_state \<Rightarrow> ime_state" where
  "release_key key s =
     (if key \<in> i_forwarded s then (send_forward key False s)\<lparr>i_forwarded := i_forwarded s - {key}\<rparr> else s)"

definition release_forwarded_keys :: "ime_state \<Rightarrow> ime_state" where
  "release_forwarded_keys s =
     (let s1 = fold release_key [0..<KEY_COUNT] s
      in if i_forward s1 \<and> i_keymap_set s1 then im_send [Fwd_modifiers 0 0 0 0] s1 else s1)"

definition update_grab :: "ime_state \<Rightarrow> ime_state" where
  "update_grab s =
     (if i_key_depth s \<noteq> 0 then s
      else
        let grab = (i_want_grab s \<and> if_active (i_current s) \<and> i_im s)
        in if grab \<and> i_grab s = None
           then (im_send [Grab_create] s)\<lparr>i_grab := Some (i_grabs s), i_grabs := Suc (i_grabs s)\<rparr>
           else if \<not> grab \<and> i_grab s \<noteq> None
           then (im_send [Grab_release] (release_forwarded_keys s))\<lparr>i_grab := None\<rparr>
           else s)"

section \<open>The client's calls\<close>

definition ime_set_grab :: "bool \<Rightarrow> ime_state \<Rightarrow> ime_state" where
  "ime_set_grab grab s = (let s1 = s\<lparr>i_want_grab := grab\<rparr> in if i_display s1 then update_grab s1 else s1)"

definition ime_forward_key :: "nat \<Rightarrow> bool \<Rightarrow> ime_state \<Rightarrow> ime_state" where
  "ime_forward_key key pressed s =
     (let s1 = send_forward key pressed s
      in if key < KEY_COUNT
         then s1\<lparr>i_forwarded := (if pressed then insert key (i_forwarded s1) else i_forwarded s1 - {key})\<rparr> else s1)"

definition ime_key_forwarded :: "nat \<Rightarrow> ime_state \<Rightarrow> bool" where
  "ime_key_forwarded key s \<longleftrightarrow> key < KEY_COUNT \<and> key \<in> i_forwarded s"

definition ime_active :: "ime_state \<Rightarrow> bool" where
  "ime_active s \<longleftrightarrow> i_im s \<and> if_active (i_current s)"

text \<open>A text is \<open>NULL\<close> or a string.\<close>

definition ime_preedit :: "string option \<Rightarrow> int \<Rightarrow> int \<Rightarrow> ime_state \<Rightarrow> ime_state" where
  "ime_preedit t cursor_begin cursor_end s =
     (if \<not> i_im s \<or> \<not> if_active (i_current s) then s
      else im_send ((case t of None \<Rightarrow> [] | Some u \<Rightarrow> if u = [] then [] else [Im_preedit u cursor_begin cursor_end]) @ [Im_commit (i_serial s)]) s)"

definition ime_replace :: "nat \<Rightarrow> nat \<Rightarrow> string option \<Rightarrow> ime_state \<Rightarrow> ime_state" where
  "ime_replace delete_before delete_after t s =
     (if \<not> i_im s \<or> \<not> if_active (i_current s) then s
      else im_send ((if delete_before > 0 \<or> delete_after > 0 then [Im_delete delete_before delete_after] else []) @
             (case t of None \<Rightarrow> [] | Some u \<Rightarrow> if u = [] then [] else [Im_string u]) @ [Im_commit (i_serial s)]) s)"

text \<open>\<open>mem\<close>: the shared memory for the pixels could be made.\<close>

definition ime_popup_show :: "bool \<Rightarrow> int \<Rightarrow> int \<Rightarrow> int \<Rightarrow> int \<Rightarrow> bool \<Rightarrow> ime_state \<Rightarrow> ime_state" where
  "ime_popup_show pixels width height stride scale mem s =
     (if \<not> i_im s \<or> \<not> pixels \<or> width \<le> 0 \<or> height \<le> 0 then s
      else
        let s1 = (if \<not> i_popup s then (im_send [Popup_create] s)\<lparr>i_popup := True\<rparr> else s)
        in if \<not> mem then s1 else im_send [Popup_show width height stride (if scale > 0 then scale else 1)] s1)"

definition ime_popup_hide :: "ime_state \<Rightarrow> ime_state" where
  "ime_popup_hide s = (if \<not> i_popup s then s else im_send [Popup_hide] s)"

datatype client_call =
    C_set_grab bool
  | C_forward nat bool
  | C_preedit "string option" int int
  | C_replace nat nat "string option"
  | C_popup_show bool int int int int bool
  | C_popup_hide

fun ime_call :: "client_call \<Rightarrow> ime_state \<Rightarrow> ime_state" where
  "ime_call (C_set_grab b) s = ime_set_grab b s"
| "ime_call (C_forward k b) s = ime_forward_key k b s"
| "ime_call (C_preedit t b e) s = ime_preedit t b e s"
| "ime_call (C_replace b a t) s = ime_replace b a t s"
| "ime_call (C_popup_show p w h st sc mem) s = ime_popup_show p w h st sc mem s"
| "ime_call C_popup_hide s = ime_popup_hide s"

section \<open>The grab\<close>

text \<open>\<open>ok\<close>: the keymap has the known format and could be mapped; \<open>compiled\<close>: xkbcommon accepted it.\<close>

definition grab_keymap :: "bool \<Rightarrow> bool \<Rightarrow> ime_state \<Rightarrow> ime_state" where
  "grab_keymap ok compiled s =
     (if \<not> ok then s
      else
        let s1 = (if compiled then s\<lparr>i_xkb := True\<rparr> else s)
        in if i_forward s1 then (im_send [Fwd_keymap] s1)\<lparr>i_keymap_set := True\<rparr> else s1)"

definition grab_key :: "nat \<Rightarrow> nat \<Rightarrow> bool \<Rightarrow> client_call list \<Rightarrow> bool \<Rightarrow> ime_state \<Rightarrow> ime_state" where
  "grab_key grab key pressed calls consumed s =
     (if i_grab s \<noteq> Some grab then s
      else
        let s1 = im_note [Told_key key pressed] (s\<lparr>i_key_depth := i_key_depth s + 1\<rparr>);
            s2 = fold ime_call calls s1;
            s3 = (if key \<ge> KEY_COUNT then (if \<not> consumed then send_forward key pressed s2 else s2)
                  else if pressed
                  then (if \<not> consumed
                        then (let t = send_forward key True s2 in t\<lparr>i_forwarded := insert key (i_forwarded t)\<rparr>) else s2)
                  else if key \<in> i_forwarded s2
                  then (let t = send_forward key False s2 in t\<lparr>i_forwarded := i_forwarded t - {key}\<rparr>)
                  else s2)
        in update_grab (s3\<lparr>i_key_depth := i_key_depth s3 - 1\<rparr>))"

definition grab_modifiers :: "nat \<Rightarrow> nat \<Rightarrow> nat \<Rightarrow> nat \<Rightarrow> nat \<Rightarrow> ime_state \<Rightarrow> ime_state" where
  "grab_modifiers grab depressed latched locked grp s =
     (if i_grab s \<noteq> Some grab then s
      else if i_forward s \<and> i_keymap_set s then im_send [Fwd_modifiers depressed latched locked grp] s else s)"

section \<open>The text field\<close>

definition im_activate :: "ime_state \<Rightarrow> ime_state" where
  "im_activate s = s\<lparr>i_pending := empty_field\<lparr>if_active := True\<rparr>\<rparr>"

definition im_deactivate :: "ime_state \<Rightarrow> ime_state" where
  "im_deactivate s = s\<lparr>i_pending := (i_pending s)\<lparr>if_active := False\<rparr>\<rparr>"

definition im_surrounding_text :: "string \<Rightarrow> nat \<Rightarrow> ime_state \<Rightarrow> ime_state" where
  "im_surrounding_text t cursor s = s\<lparr>i_pending := (i_pending s)\<lparr>if_surrounding := Some t, if_cursor := cursor\<rparr>\<rparr>"

definition im_content_type :: "nat \<Rightarrow> nat \<Rightarrow> ime_state \<Rightarrow> ime_state" where
  "im_content_type hint purpose s = s\<lparr>i_pending := (i_pending s)\<lparr>if_hint := hint, if_purpose := purpose\<rparr>\<rparr>"

definition im_done :: "client_call list \<Rightarrow> ime_state \<Rightarrow> ime_state" where
  "im_done calls s =
     (let s1 = im_note [Done_seen (if_active (i_pending s))] (s\<lparr>i_serial := i_serial s + 1, i_current := i_pending s\<rparr>);
          s2 = update_grab s1
      in fold ime_call calls (im_note [Told_state (i_current s2)] s2))"

definition im_unavailable :: "ime_state \<Rightarrow> ime_state" where
  "im_unavailable s = (im_send [Im_destroy] s)\<lparr>i_im := False\<rparr>"

section \<open>The pointer on the popup\<close>

definition pointer_enter :: "bool \<Rightarrow> int \<Rightarrow> int \<Rightarrow> ime_state \<Rightarrow> ime_state" where
  "pointer_enter on_popup x y s = s\<lparr>i_inside := (i_popup s \<and> on_popup), i_xy := (x, y)\<rparr>"

definition pointer_leave :: "ime_state \<Rightarrow> ime_state" where
  "pointer_leave s = s\<lparr>i_inside := False\<rparr>"

definition pointer_motion :: "int \<Rightarrow> int \<Rightarrow> ime_state \<Rightarrow> ime_state" where
  "pointer_motion x y s = (if \<not> i_inside s then s else s\<lparr>i_xy := (x, y)\<rparr>)"

definition pointer_button :: "bool \<Rightarrow> client_call list \<Rightarrow> ime_state \<Rightarrow> ime_state" where
  "pointer_button pressed calls s =
     (if i_inside s \<and> pressed then fold ime_call calls (im_note [Told_click (fst (i_xy s)) (snd (i_xy s))] s) else s)"

definition seat_capabilities :: "bool \<Rightarrow> ime_state \<Rightarrow> ime_state" where
  "seat_capabilities has_pointer s =
     (if has_pointer \<and> \<not> i_pointer s then s\<lparr>i_pointer := True\<rparr>
      else if \<not> has_pointer \<and> i_pointer s then s\<lparr>i_pointer := False, i_inside := False\<rparr> else s)"

section \<open>Start\<close>

record ime_env =
  ie_display :: bool
  ie_seat :: bool
  ie_globals :: bool

definition ime_start :: "ime_env \<Rightarrow> ime_state \<Rightarrow> bool \<times> ime_state" where
  "ime_start env s =
     (if i_im s then (True, s)
      else if \<not> ie_display env then (False, s)
      else
        let s1 = s\<lparr>i_display := True\<rparr>
        in if \<not> ie_seat env then (False, s1)
           else if \<not> ie_globals env then (False, s1)
           else (True, (im_send [Fwd_create, Im_create] s1)\<lparr>i_forward := True, i_im := True\<rparr>))"

datatype ime_event =
    I_keymap nat bool bool
  | I_key nat nat bool "client_call list" bool
  | I_modifiers nat nat nat nat nat
  | I_activate
  | I_deactivate
  | I_surrounding string nat
  | I_content nat nat
  | I_done "client_call list"
  | I_unavailable
  | I_pointer_enter bool int int
  | I_pointer_leave
  | I_pointer_motion int int
  | I_pointer_button bool "client_call list"
  | I_seat bool
  | I_call client_call

text \<open>Events of the input method arrive while it exists, events of a grab while that grab exists.\<close>

fun ime_step :: "ime_event \<Rightarrow> ime_state \<Rightarrow> ime_state" where
  "ime_step (I_keymap g ok compiled) s = (if i_grab s = Some g then grab_keymap ok compiled s else s)"
| "ime_step (I_key g key pressed calls consumed) s = grab_key g key pressed calls consumed s"
| "ime_step (I_modifiers g d l k gr) s = grab_modifiers g d l k gr s"
| "ime_step I_activate s = (if i_im s then im_activate s else s)"
| "ime_step I_deactivate s = (if i_im s then im_deactivate s else s)"
| "ime_step (I_surrounding t c) s = (if i_im s then im_surrounding_text t c s else s)"
| "ime_step (I_content h p) s = (if i_im s then im_content_type h p s else s)"
| "ime_step (I_done calls) s = (if i_im s then im_done calls s else s)"
| "ime_step I_unavailable s = (if i_im s then im_unavailable s else s)"
| "ime_step (I_pointer_enter b x y) s = (if i_pointer s then pointer_enter b x y s else s)"
| "ime_step I_pointer_leave s = (if i_pointer s then pointer_leave s else s)"
| "ime_step (I_pointer_motion x y) s = (if i_pointer s then pointer_motion x y s else s)"
| "ime_step (I_pointer_button b calls) s = (if i_pointer s then pointer_button b calls s else s)"
| "ime_step (I_seat b) s = seat_capabilities b s"
| "ime_step (I_call c) s = ime_call c s"

definition ime_run :: "ime_env \<Rightarrow> ime_event list \<Rightarrow> ime_state" where
  "ime_run env es = fold ime_step es (snd (ime_start env ime_init))"

section \<open>The protocol's view\<close>

text \<open>
  A monitor reads the log. \<open>m_held\<close> are the keys that are down on the virtual keyboard. It fails when a
  request names an object that does not exist, edits a field that is not active, commits with a
  serial other than the number of \<open>done\<close> events, takes a second grab, types without a keymap, or gives
  the grab back while a key of the table is still down.
\<close>

record monitor =
  m_im :: bool
  m_active :: bool
  m_dones :: nat
  m_grab :: bool
  m_forward :: bool
  m_keymap :: bool
  m_held :: "nat set"
  m_popup :: bool
  m_ok :: bool

definition monitor_init :: monitor where
  "monitor_init = \<lparr>m_im = False, m_active = False, m_dones = 0, m_grab = False, m_forward = False, m_keymap = False, m_held = {},
     m_popup = False, m_ok = True\<rparr>"

definition check :: "bool \<Rightarrow> monitor \<Rightarrow> monitor" where
  "check b m = m\<lparr>m_ok := m_ok m \<and> b\<rparr>"

fun watch_request :: "ime_request \<Rightarrow> monitor \<Rightarrow> monitor" where
  "watch_request Im_create m = (check (\<not> m_im m) m)\<lparr>m_im := True\<rparr>"
| "watch_request Im_destroy m = (check (m_im m) m)\<lparr>m_im := False\<rparr>"
| "watch_request (Im_preedit t b e) m = check (m_im m \<and> m_active m \<and> t \<noteq> []) m"
| "watch_request (Im_delete b a) m = check (m_im m \<and> m_active m) m"
| "watch_request (Im_string t) m = check (m_im m \<and> m_active m \<and> t \<noteq> []) m"
| "watch_request (Im_commit n) m = check (m_im m \<and> m_active m \<and> n = of_nat (m_dones m)) m"
| "watch_request Grab_create m = (check (m_im m \<and> m_active m \<and> \<not> m_grab m) m)\<lparr>m_grab := True\<rparr>"
| "watch_request Grab_release m = (check (m_grab m \<and> m_held m \<inter> {..<KEY_COUNT} = {}) m)\<lparr>m_grab := False\<rparr>"
| "watch_request Fwd_create m = m\<lparr>m_forward := True\<rparr>"
| "watch_request Fwd_keymap m = (check (m_forward m) m)\<lparr>m_keymap := True\<rparr>"
| "watch_request (Fwd_key k pressed) m =
     (check (m_forward m \<and> m_keymap m) m)\<lparr>m_held := (if pressed then insert k (m_held m) else m_held m - {k})\<rparr>"
| "watch_request (Fwd_modifiers d l k g) m = check (m_forward m \<and> m_keymap m) m"
| "watch_request Popup_create m = (check (m_im m \<and> \<not> m_popup m) m)\<lparr>m_popup := True\<rparr>"
| "watch_request (Popup_show w h st sc) m = check (m_popup m \<and> w > 0 \<and> h > 0 \<and> sc > 0) m"
| "watch_request Popup_hide m = check (m_popup m) m"

fun watch :: "ime_note \<Rightarrow> monitor \<Rightarrow> monitor" where
  "watch (Done_seen a) m = m\<lparr>m_dones := Suc (m_dones m), m_active := a\<rparr>"
| "watch (Sent r) m = watch_request r m"
| "watch _ m = m"

definition seen_by :: "ime_state \<Rightarrow> monitor" where
  "seen_by s = fold watch (i_log s) monitor_init"

lemma seen_note [simp]: "seen_by (im_note ns s) = fold watch ns (seen_by s)"
  by (simp add: seen_by_def im_note_def)

lemma seen_by_send [simp]: "seen_by (im_send rs s) = fold watch_request rs (seen_by s)"
proof -
  have "fold watch (map Sent rs) m = fold watch_request rs m" for m by (induction rs arbitrary: m) simp_all
  then show ?thesis by (simp add: im_send_def)
qed

lemma note_fields [simp]:
  "i_display (im_note ns s) = i_display s" "i_im (im_note ns s) = i_im s" "i_grab (im_note ns s) = i_grab s" "i_forward (im_note ns s) = i_forward s"
  "i_keymap_set (im_note ns s) = i_keymap_set s" "i_forwarded (im_note ns s) = i_forwarded s" "i_current (im_note ns s) = i_current s"
  "i_serial (im_note ns s) = i_serial s" "i_want_grab (im_note ns s) = i_want_grab s" "i_key_depth (im_note ns s) = i_key_depth s"
  "i_popup (im_note ns s) = i_popup s" "i_pending (im_note ns s) = i_pending s" "i_grabs (im_note ns s) = i_grabs s"
  by (simp_all add: im_note_def)

lemma send_fields [simp]:
  "i_display (im_send ns s) = i_display s" "i_im (im_send ns s) = i_im s" "i_grab (im_send ns s) = i_grab s" "i_forward (im_send ns s) = i_forward s"
  "i_keymap_set (im_send ns s) = i_keymap_set s" "i_forwarded (im_send ns s) = i_forwarded s" "i_current (im_send ns s) = i_current s"
  "i_serial (im_send ns s) = i_serial s" "i_want_grab (im_send ns s) = i_want_grab s" "i_key_depth (im_send ns s) = i_key_depth s"
  "i_popup (im_send ns s) = i_popup s" "i_pending (im_send ns s) = i_pending s" "i_grabs (im_send ns s) = i_grabs s"
  by (simp_all add: im_send_def)

lemma seen_by_quiet [simp]:
  "seen_by (s\<lparr>i_display := a\<rparr>) = seen_by s" "seen_by (s\<lparr>i_im := a\<rparr>) = seen_by s" "seen_by (s\<lparr>i_grab := g\<rparr>) = seen_by s"
  "seen_by (s\<lparr>i_grabs := n\<rparr>) = seen_by s" "seen_by (s\<lparr>i_forward := a\<rparr>) = seen_by s" "seen_by (s\<lparr>i_keymap_set := a\<rparr>) = seen_by s"
  "seen_by (s\<lparr>i_forwarded := K\<rparr>) = seen_by s" "seen_by (s\<lparr>i_xkb := a\<rparr>) = seen_by s" "seen_by (s\<lparr>i_pending := f\<rparr>) = seen_by s"
  "seen_by (s\<lparr>i_current := f\<rparr>) = seen_by s" "seen_by (s\<lparr>i_serial := w\<rparr>) = seen_by s" "seen_by (s\<lparr>i_want_grab := a\<rparr>) = seen_by s"
  "seen_by (s\<lparr>i_key_depth := n\<rparr>) = seen_by s" "seen_by (s\<lparr>i_popup := a\<rparr>) = seen_by s" "seen_by (s\<lparr>i_pointer := a\<rparr>) = seen_by s"
  "seen_by (s\<lparr>i_inside := a\<rparr>) = seen_by s" "seen_by (s\<lparr>i_xy := p\<rparr>) = seen_by s"
  by (simp_all add: seen_by_def)

section \<open>The invariant\<close>

definition keys_known :: "ime_state \<Rightarrow> bool" where
  "keys_known s \<longleftrightarrow> m_held (seen_by s) \<inter> {..<KEY_COUNT} \<subseteq> i_forwarded s \<and> i_forwarded s \<subseteq> {..<KEY_COUNT} \<and>
     (\<not> (i_forward s \<and> i_keymap_set s) \<longrightarrow> m_held (seen_by s) = {})"

definition in_step :: "ime_state \<Rightarrow> bool" where
  "in_step s \<longleftrightarrow> (let m = seen_by s in
     m_ok m \<and> m_im m = i_im s \<and> m_active m = if_active (i_current s) \<and> i_serial s = of_nat (m_dones m) \<and> m_grab m = (i_grab s \<noteq> None) \<and>
     m_forward m = i_forward s \<and> m_keymap m = i_keymap_set s \<and> m_popup m = i_popup s \<and> (i_im s \<or> i_grab s \<noteq> None \<longrightarrow> i_display s))"

definition grab_right :: "ime_state \<Rightarrow> bool" where
  "grab_right s \<longleftrightarrow> (i_grab s \<noteq> None \<longrightarrow> i_want_grab s \<and> if_active (i_current s)) \<and>
     (i_im s \<and> i_want_grab s \<and> if_active (i_current s) \<longrightarrow> i_grab s \<noteq> None)"

definition ime_mid :: "ime_state \<Rightarrow> bool" where
  "ime_mid s \<longleftrightarrow> in_step s \<and> keys_known s"

definition ime_inv :: "ime_state \<Rightarrow> bool" where
  "ime_inv s \<longleftrightarrow> ime_mid s \<and> i_key_depth s = 0 \<and> grab_right s"

lemmas mid_defs = ime_mid_def in_step_def keys_known_def Let_def check_def

lemma ime_mid_quiet [simp]:
  "ime_mid (s\<lparr>i_key_depth := n\<rparr>) = ime_mid s" "ime_mid (s\<lparr>i_want_grab := a\<rparr>) = ime_mid s" "ime_mid (s\<lparr>i_pending := f\<rparr>) = ime_mid s"
  "ime_mid (s\<lparr>i_grabs := k\<rparr>) = ime_mid s" "ime_mid (s\<lparr>i_inside := b\<rparr>) = ime_mid s" "ime_mid (s\<lparr>i_xy := p\<rparr>) = ime_mid s"
  "ime_mid (s\<lparr>i_pointer := b\<rparr>) = ime_mid s" "ime_mid (s\<lparr>i_xkb := b\<rparr>) = ime_mid s"
  by (simp_all add: mid_defs)

lemma press_mid: "ime_mid s \<Longrightarrow> k < KEY_COUNT \<Longrightarrow> ime_mid ((send_forward k True s)\<lparr>i_forwarded := insert k (i_forwarded s)\<rparr>)"
  by (auto simp: mid_defs send_forward_def)

lemma unpress_mid: "ime_mid s \<Longrightarrow> ime_mid ((send_forward k False s)\<lparr>i_forwarded := i_forwarded s - {k}\<rparr>)"
  by (auto simp: mid_defs send_forward_def)

lemma far_key_mid: "ime_mid s \<Longrightarrow> KEY_COUNT \<le> k \<Longrightarrow> ime_mid (send_forward k p s)"
  by (auto simp: mid_defs send_forward_def)

lemma send_forward_fields [simp]:
  "i_forwarded (send_forward k p s) = i_forwarded s" "i_forward (send_forward k p s) = i_forward s" "i_keymap_set (send_forward k p s) = i_keymap_set s"
  "i_grab (send_forward k p s) = i_grab s" "i_im (send_forward k p s) = i_im s" "i_current (send_forward k p s) = i_current s"
  "i_want_grab (send_forward k p s) = i_want_grab s" "i_key_depth (send_forward k p s) = i_key_depth s" "i_display (send_forward k p s) = i_display s"
  by (simp_all add: send_forward_def)

lemma release_key_mid: "ime_mid s \<Longrightarrow> ime_mid (release_key k s)"
  by (simp add: release_key_def unpress_mid)

lemma release_key_fields [simp]:
  "i_forward (release_key k s) = i_forward s" "i_keymap_set (release_key k s) = i_keymap_set s" "i_grab (release_key k s) = i_grab s"
  "i_im (release_key k s) = i_im s" "i_current (release_key k s) = i_current s" "i_want_grab (release_key k s) = i_want_grab s"
  "i_key_depth (release_key k s) = i_key_depth s" "i_forwarded (release_key k s) = i_forwarded s - {k}"
  by (auto simp: release_key_def)

lemma release_keys:
  "ime_mid s \<Longrightarrow> ime_mid (fold release_key ks s) \<and> i_forwarded (fold release_key ks s) = i_forwarded s - set ks \<and>
   i_grab (fold release_key ks s) = i_grab s \<and> i_im (fold release_key ks s) = i_im s \<and> i_current (fold release_key ks s) = i_current s \<and>
   i_want_grab (fold release_key ks s) = i_want_grab s \<and> i_key_depth (fold release_key ks s) = i_key_depth s"
proof (induction ks arbitrary: s)
  case (Cons k ks)
  show ?case using Cons.IH [OF release_key_mid [OF Cons.prems], of k] by auto
qed simp

lemma release_forwarded_mid:
  assumes "ime_mid s"
  shows "ime_mid (release_forwarded_keys s)" "i_forwarded (release_forwarded_keys s) = {}" "i_grab (release_forwarded_keys s) = i_grab s"
    "i_im (release_forwarded_keys s) = i_im s" "i_current (release_forwarded_keys s) = i_current s"
    "i_want_grab (release_forwarded_keys s) = i_want_grab s" "i_key_depth (release_forwarded_keys s) = i_key_depth s"
proof -
  define t where "t = fold release_key [0..<KEY_COUNT] s"
  have t: "ime_mid t" "i_forwarded t = i_forwarded s - {0..<KEY_COUNT}" "i_grab t = i_grab s" "i_im t = i_im s" "i_current t = i_current s"
    "i_want_grab t = i_want_grab s" "i_key_depth t = i_key_depth s"
    using release_keys [OF assms, of "[0..<KEY_COUNT]"] by (simp_all add: t_def)
  have "i_forwarded s \<subseteq> {..<KEY_COUNT}" using assms by (simp add: ime_mid_def keys_known_def)
  then have f: "i_forwarded t = {}" using t(2) by auto
  have r: "release_forwarded_keys s = (if i_forward t \<and> i_keymap_set t then im_send [Fwd_modifiers 0 0 0 0] t else t)"
    by (simp add: release_forwarded_keys_def t_def Let_def)
  show "ime_mid (release_forwarded_keys s)" using t(1) unfolding r by (auto simp: mid_defs)
  show "i_forwarded (release_forwarded_keys s) = {}" "i_grab (release_forwarded_keys s) = i_grab s"
    "i_im (release_forwarded_keys s) = i_im s" "i_current (release_forwarded_keys s) = i_current s"
    "i_want_grab (release_forwarded_keys s) = i_want_grab s" "i_key_depth (release_forwarded_keys s) = i_key_depth s"
    using t f unfolding r by simp_all
qed

lemma update_grab_mid:
  assumes "ime_mid s"
  shows "ime_mid (update_grab s)" "i_key_depth s = 0 \<Longrightarrow> grab_right (update_grab s)" "i_key_depth (update_grab s) = i_key_depth s"
proof -
  note r = release_forwarded_mid [OF assms]
  have "m_held (seen_by (release_forwarded_keys s)) \<inter> {..<KEY_COUNT} = {}" using r(1,2) by (simp add: ime_mid_def keys_known_def)
  then have g: "ime_mid ((im_send [Grab_release] (release_forwarded_keys s))\<lparr>i_grab := None\<rparr>)" if "i_grab s \<noteq> None"
    using r(1,2,3) that by (simp add: mid_defs)
  have c: "ime_mid ((im_send [Grab_create] s)\<lparr>i_grab := Some (i_grabs s), i_grabs := Suc (i_grabs s)\<rparr>)"
    if "if_active (i_current s)" "i_im s" "i_grab s = None" using assms that by (simp add: mid_defs)
  show "ime_mid (update_grab s)" using assms g c by (simp add: update_grab_def Let_def)
  show "i_key_depth (update_grab s) = i_key_depth s" using r by (simp add: update_grab_def Let_def)
  show "grab_right (update_grab s)" if "i_key_depth s = 0"
    using that r by (auto simp: update_grab_def grab_right_def Let_def)
qed

lemma edit_mid: "ime_mid s \<Longrightarrow> ime_mid (ime_preedit t b e s)" "ime_mid s \<Longrightarrow> ime_mid (ime_replace db da t s)"
  by (auto simp: ime_preedit_def ime_replace_def mid_defs split: option.splits)

lemma popup_mid: "ime_mid s \<Longrightarrow> ime_mid (ime_popup_show p w h st sc mem s)" "ime_mid s \<Longrightarrow> ime_mid (ime_popup_hide s)"
  by (simp_all add: ime_popup_show_def ime_popup_hide_def mid_defs)

lemma forward_mid: "ime_mid s \<Longrightarrow> ime_mid (ime_forward_key k p s)"
  using press_mid [of s k] unpress_mid [of s k] far_key_mid [of s k p] by (simp add: ime_forward_key_def Let_def)

lemma other_calls_fields:
  assumes "\<forall>b. c \<noteq> C_set_grab b"
  shows "i_grab (ime_call c s) = i_grab s" "i_im (ime_call c s) = i_im s" "i_current (ime_call c s) = i_current s"
    "i_want_grab (ime_call c s) = i_want_grab s" "i_key_depth (ime_call c s) = i_key_depth s"
  using assms by (cases c; simp add: ime_preedit_def ime_replace_def ime_popup_show_def ime_popup_hide_def ime_forward_key_def Let_def)+

lemma keep_inv:
  assumes "ime_inv s" and "ime_mid t" and "i_grab t = i_grab s" and "i_im t = i_im s" and "i_current t = i_current s"
    and "i_want_grab t = i_want_grab s" and "i_key_depth t = i_key_depth s"
  shows "ime_inv t"
proof -
  have "grab_right t = grab_right s" using assms(3-6) by (simp add: grab_right_def)
  then show ?thesis using assms(1,2,7) by (simp add: ime_inv_def)
qed

lemma call_mid: "ime_mid s \<Longrightarrow> ime_mid (ime_call c s)"
  by (cases c) (simp_all add: edit_mid popup_mid forward_mid ime_set_grab_def update_grab_mid Let_def)

lemma call_depth: "ime_mid s \<Longrightarrow> i_key_depth (ime_call c s) = i_key_depth s"
proof (cases c)
  case (C_set_grab b)
  assume "ime_mid s"
  then show ?thesis using C_set_grab update_grab_mid(3) [of "s\<lparr>i_want_grab := b\<rparr>"] by (simp add: ime_set_grab_def Let_def)
qed (use other_calls_fields [of c s] in simp_all)

lemma call_inv: "ime_inv s \<Longrightarrow> ime_inv (ime_call c s)"
proof (cases c)
  case (C_set_grab b)
  assume inv: "ime_inv s"
  let ?s = "s\<lparr>i_want_grab := b\<rparr>"
  have m: "ime_mid ?s" "i_key_depth ?s = 0" using inv by (simp_all add: ime_inv_def)
  note u = update_grab_mid [OF m(1)]
  have "in_step s" using inv by (simp add: ime_inv_def ime_mid_def)
  then have "grab_right ?s" if "\<not> i_display s" using that by (auto simp: grab_right_def in_step_def Let_def)
  then show ?thesis using C_set_grab u m by (simp add: ime_set_grab_def ime_inv_def Let_def)
qed (rule keep_inv [OF _ call_mid other_calls_fields]; simp add: ime_inv_def)+

lemma calls_inv: "ime_inv s \<Longrightarrow> ime_inv (fold ime_call cs s)"
  by (induction cs arbitrary: s) (simp_all add: call_inv)

lemma calls_mid: "ime_mid s \<Longrightarrow> ime_mid (fold ime_call cs s) \<and> i_key_depth (fold ime_call cs s) = i_key_depth s"
  by (induction cs arbitrary: s) (simp_all add: call_mid call_depth)

lemma told_mid [simp]: "ime_mid (im_note [Told_key k p] s) = ime_mid s" "ime_mid (im_note [Told_state f] s) = ime_mid s"
    "ime_mid (im_note [Told_click x y] s) = ime_mid s"
  by (simp_all add: mid_defs)

lemma told_inv [simp]: "ime_inv (im_note [Told_state f] s) = ime_inv s" "ime_inv (im_note [Told_click x y] s) = ime_inv s"
  unfolding ime_inv_def grab_right_def by simp_all

lemma grab_key_inv: "ime_inv s \<Longrightarrow> ime_inv (grab_key g k p calls consumed s)"
proof (cases "i_grab s = Some g")
  case True
  assume inv: "ime_inv s"
  define t where "t = fold ime_call calls (im_note [Told_key k p] (s\<lparr>i_key_depth := i_key_depth s + 1\<rparr>))"
  define u where "u = (if k \<ge> KEY_COUNT then (if \<not> consumed then send_forward k p t else t)
                  else if p
                  then (if \<not> consumed
                        then (let t = send_forward k True t in t\<lparr>i_forwarded := insert k (i_forwarded t)\<rparr>) else t)
                  else if k \<in> i_forwarded t
                  then (let t = send_forward k False t in t\<lparr>i_forwarded := i_forwarded t - {k}\<rparr>)
                  else t)"
  have "ime_mid (im_note [Told_key k p] (s\<lparr>i_key_depth := i_key_depth s + 1\<rparr>))" "i_key_depth s = 0"
    using inv by (simp_all add: ime_inv_def)
  then have t: "ime_mid t" "i_key_depth t = 1" using calls_mid unfolding t_def by simp_all
  then have "ime_mid u" "i_key_depth u = 1" using press_mid [of t k] unpress_mid [of t k] far_key_mid [of t k]
    by (simp_all add: u_def Let_def)
  then have "ime_inv (update_grab (u\<lparr>i_key_depth := i_key_depth u - 1\<rparr>))"
    using update_grab_mid [of "u\<lparr>i_key_depth := 0\<rparr>"] by (simp add: ime_inv_def)
  moreover have "grab_key g k p calls consumed s = update_grab (u\<lparr>i_key_depth := i_key_depth u - 1\<rparr>)"
    using True by (simp only: grab_key_def t_def u_def Let_def not_True_eq_False if_False simp_thms)
  ultimately show ?thesis by simp
qed (simp add: grab_key_def)

lemma done_inv: "ime_inv s \<Longrightarrow> i_im s \<Longrightarrow> ime_inv (im_done calls s)"
proof -
  assume inv: "ime_inv s" "i_im s"
  let ?s = "im_note [Done_seen (if_active (i_pending s))] (s\<lparr>i_serial := i_serial s + 1, i_current := i_pending s\<rparr>)"
  have "ime_mid ?s" "i_key_depth ?s = 0" using inv by (simp_all add: ime_inv_def mid_defs)
  then have "ime_inv (update_grab ?s)" using update_grab_mid by (simp add: ime_inv_def)
  then show ?thesis by (simp add: im_done_def Let_def calls_inv)
qed

lemma keymap_inv: "ime_inv s \<Longrightarrow> ime_inv (grab_keymap ok compiled s)"
proof (rule keep_inv [of s])
  assume "ime_inv s"
  then show "ime_mid (grab_keymap ok compiled s)" by (simp add: ime_inv_def grab_keymap_def) (simp add: mid_defs)
qed (simp_all add: grab_keymap_def Let_def)

lemma modifiers_inv: "ime_inv s \<Longrightarrow> ime_inv (grab_modifiers g d l k gr s)"
proof (rule keep_inv [of s])
  assume "ime_inv s"
  then show "ime_mid (grab_modifiers g d l k gr s)" by (simp add: ime_inv_def grab_modifiers_def) (simp add: mid_defs)
qed (simp_all add: grab_modifiers_def)

lemma unavailable_inv: "ime_inv s \<Longrightarrow> i_im s \<Longrightarrow> ime_inv (im_unavailable s)"
proof -
  assume inv: "ime_inv s" "i_im s"
  then have "ime_mid (im_unavailable s)" by (simp add: ime_inv_def im_unavailable_def) (simp add: mid_defs)
  moreover have f: "i_grab (im_unavailable s) = i_grab s" "i_want_grab (im_unavailable s) = i_want_grab s"
    "i_current (im_unavailable s) = i_current s" "\<not> i_im (im_unavailable s)" by (simp_all add: im_unavailable_def)
  have "grab_right s" using inv by (simp add: ime_inv_def)
  then have "grab_right (im_unavailable s)" using f(4) unfolding grab_right_def f(1-3) by blast
  ultimately show ?thesis using inv by (simp add: ime_inv_def) (simp add: im_unavailable_def)
qed

lemma inv_quiet [simp]:
  "ime_inv (s\<lparr>i_pending := f\<rparr>) = ime_inv s" "ime_inv (s\<lparr>i_inside := b\<rparr>) = ime_inv s" "ime_inv (s\<lparr>i_xy := p\<rparr>) = ime_inv s"
  "ime_inv (s\<lparr>i_pointer := b\<rparr>) = ime_inv s"
  unfolding ime_inv_def grab_right_def by simp_all

lemma ime_step_inv: "ime_inv s \<Longrightarrow> ime_inv (ime_step e s)"
  by (cases e) (simp_all add: keymap_inv grab_key_inv modifiers_inv done_inv unavailable_inv call_inv calls_inv im_activate_def im_deactivate_def
      im_surrounding_text_def im_content_type_def pointer_enter_def pointer_leave_def pointer_motion_def pointer_button_def seat_capabilities_def)

interpretation ime: event_machine ime_step ime_inv
  by unfold_locales (rule ime_step_inv)

lemma start_inv: "ime_inv (snd (ime_start env ime_init))"
  by (simp add: ime_start_def ime_init_def ime_inv_def grab_right_def mid_defs empty_field_def)
    (simp add: im_send_def im_note_def seen_by_def monitor_init_def check_def)

section \<open>Properties\<close>



definition demo_ime_env :: ime_env where
  "demo_ime_env = \<lparr>ie_display = True, ie_seat = True, ie_globals = True\<rparr>"

definition demo_ime_events :: "ime_event list" where
  "demo_ime_events = [I_call (C_set_grab True), I_activate, I_done [], I_keymap 0 True True, I_key 0 30 True [] False]"


end
