(* ===== verification/Clipboard_Watch.thy ===== *)
theory Clipboard_Watch
  imports C_Prelude "HOL-Library.Word"
begin

text \<open>
  The clipboard history's view of the selection, \<^verbatim>\<open>src/wayland/clipboard_watch.c\<close>: offers and their types,
  the choice of the type to read, reading with a limit, the own selection and the paste keys. Offers,
  devices, sources and reads have numbers of their own; the log records requests and callbacks.
\<close>

section \<open>State\<close>

definition MAX_TEXT :: nat where "MAX_TEXT = 4 * 1024 * 1024"
definition MAX_IMAGE :: nat where "MAX_IMAGE = 24 * 1024 * 1024"

definition PASSWORD_HINT :: string where "PASSWORD_HINT = ''x-kde-passwordManagerHint''"

type_synonym bytes = "8 word list"

record read_job =
  rj_mime :: string
  rj_buf :: bytes
  rj_limit :: nat

datatype clip_note =
    Offered nat string
  | Receive nat string
  | Destroy_offer nat
  | Told_hidden
  | Told string bytes
  | Source_offers nat "string list"
  | Destroy_source nat
  | Set_selection nat
  | Sent_bytes nat bytes
  | Closed_fd
  | Paste_keymap
  | Paste_key "32 word" nat bool
  | Paste_modifiers nat

record clip_state =
  cl_display :: bool
  cl_manager :: bool
  cl_vk_manager :: bool
  cl_vkbd :: bool
  cl_vk_time :: "32 word"
  cl_callback :: bool
  cl_device :: "nat option"
  cl_devices :: nat
  cl_offers :: "nat \<rightharpoonup> string list option"
  cl_next_offer :: nat
  cl_jobs :: "nat \<rightharpoonup> read_job"
  cl_next_job :: nat
  cl_own_source :: "nat option"
  cl_own_data :: "bytes option"
  cl_own_mime :: "string option"
  cl_sources :: "nat set"
  cl_next_source :: nat
  cl_log :: "clip_note list"
  cl_fault :: bool

definition clip_init :: clip_state where
  "clip_init = \<lparr>cl_display = False, cl_manager = False, cl_vk_manager = False, cl_vkbd = False, cl_vk_time = 0, cl_callback = False,
     cl_device = None, cl_devices = 0, cl_offers = Map.empty, cl_next_offer = 0, cl_jobs = Map.empty, cl_next_job = 0,
     cl_own_source = None, cl_own_data = None, cl_own_mime = None, cl_sources = {}, cl_next_source = 0, cl_log = [], cl_fault = False\<rparr>"

definition clip_note :: "clip_note list \<Rightarrow> clip_state \<Rightarrow> clip_state" where
  "clip_note ns s = s\<lparr>cl_log := cl_log s @ ns\<rparr>"

section \<open>Choosing the type\<close>

definition image_types :: "string list" where
  "image_types = [''image/png'', ''image/jpeg'', ''image/bmp'']"

definition text_types :: "string list" where
  "text_types = [''text/plain;charset=utf-8'', ''UTF8_STRING'', ''text/plain'', ''STRING'', ''TEXT'']"

fun has_mime :: "string list \<Rightarrow> string \<Rightarrow> bool" where
  "has_mime [] mime = False"
| "has_mime (m # ms) mime = (if m = mime then True else has_mime ms mime)"

text \<open>The loops of \<open>pick_mime\<close>: over the images inside the loop over the texts, and over the images alone.\<close>

fun pick_image_not_uri :: "string list \<Rightarrow> string list \<Rightarrow> string option" where
  "pick_image_not_uri ms [] = None"
| "pick_image_not_uri ms (i # is) =
     (if has_mime ms i \<and> \<not> has_mime ms ''text/uri-list'' then Some i else pick_image_not_uri ms is)"

fun pick_text :: "string list \<Rightarrow> string list \<Rightarrow> string option" where
  "pick_text ms [] = None"
| "pick_text ms (t # ts) =
     (if has_mime ms t
      then (case pick_image_not_uri ms image_types of Some i \<Rightarrow> Some i | None \<Rightarrow> Some t)
      else pick_text ms ts)"

fun pick_image :: "string list \<Rightarrow> string list \<Rightarrow> string option" where
  "pick_image ms [] = None"
| "pick_image ms (i # is) = (if has_mime ms i then Some i else pick_image ms is)"

definition pick_mime :: "string list \<Rightarrow> string option" where
  "pick_mime ms = (case pick_text ms text_types of Some m \<Rightarrow> Some m | None \<Rightarrow> pick_image ms image_types)"

section \<open>Offers\<close>

definition device_data_offer :: "clip_state \<Rightarrow> clip_state" where
  "device_data_offer s = s\<lparr>cl_offers := (cl_offers s)(cl_next_offer s \<mapsto> Some []), cl_next_offer := Suc (cl_next_offer s)\<rparr>"

definition offer_mime :: "nat \<Rightarrow> string \<Rightarrow> clip_state \<Rightarrow> clip_state" where
  "offer_mime x mime s =
     (case cl_offers s x of
        Some (Some ms) \<Rightarrow> clip_note [Offered x mime] (s\<lparr>cl_offers := (cl_offers s)(x \<mapsto> Some (ms @ [mime]))\<rparr>)
      | _ \<Rightarrow> s)"

definition free_offer :: "nat \<Rightarrow> clip_state \<Rightarrow> clip_state" where
  "free_offer x s =
     clip_note [Destroy_offer x] (s\<lparr>cl_fault := cl_fault s \<or> cl_offers s x = None, cl_offers := (cl_offers s)(x := None)\<rparr>)"

text \<open>\<open>pipe\<close>: a pipe could be made for the data.\<close>

definition device_selection :: "nat option \<Rightarrow> bool \<Rightarrow> clip_state \<Rightarrow> clip_state" where
  "device_selection offer pipe s =
     (case offer of
        None \<Rightarrow> s
      | Some x \<Rightarrow>
          (case cl_offers s x of
             None \<Rightarrow> s\<lparr>cl_fault := True\<rparr>
           | Some None \<Rightarrow> free_offer x s
           | Some (Some ms) \<Rightarrow>
               if has_mime ms PASSWORD_HINT then free_offer x (if cl_callback s then clip_note [Told_hidden] s else s)
               else (case pick_mime ms of
                       None \<Rightarrow> free_offer x s
                     | Some mime \<Rightarrow>
                         if \<not> pipe then free_offer x s
                         else free_offer x (clip_note [Receive x mime]
                                (s\<lparr>cl_jobs := (cl_jobs s)(cl_next_job s \<mapsto>
                                     \<lparr>rj_mime = mime, rj_buf = [], rj_limit = (if has_prefix ''image/'' mime then MAX_IMAGE else MAX_TEXT)\<rparr>),
                                   cl_next_job := Suc (cl_next_job s)\<rparr>)))))"

definition device_primary :: "nat option \<Rightarrow> clip_state \<Rightarrow> clip_state" where
  "device_primary offer s = (case offer of None \<Rightarrow> s | Some x \<Rightarrow> free_offer x s)"

definition device_finished :: "nat \<Rightarrow> clip_state \<Rightarrow> clip_state" where
  "device_finished d s = (if cl_device s = Some d then s\<lparr>cl_device := None\<rparr> else s)"

section \<open>Reading\<close>

text \<open>A chunk arrives: an error, the end (no bytes) or some bytes.\<close>

definition on_read :: "nat \<Rightarrow> bytes option \<Rightarrow> clip_state \<Rightarrow> clip_state" where
  "on_read j chunk s =
     (case cl_jobs s j of
        None \<Rightarrow> s
      | Some job \<Rightarrow>
          let freed = s\<lparr>cl_jobs := (cl_jobs s)(j := None)\<rparr>
          in case chunk of
               None \<Rightarrow> freed
             | Some c \<Rightarrow>
                 if length c > 0 then
                   (if length (rj_buf job) + length c > rj_limit job then freed
                    else s\<lparr>cl_jobs := (cl_jobs s)(j \<mapsto> job\<lparr>rj_buf := rj_buf job @ c\<rparr>)\<rparr>)
                 else if length (rj_buf job) > 0 \<and> cl_callback s then clip_note [Told (rj_mime job) (rj_buf job)] freed
                 else freed)"

section \<open>The own selection\<close>

record clip_env =
  ce_display :: bool
  ce_manager :: bool
  ce_vk_manager :: bool
  ce_seat :: bool
  ce_keymap :: bool

definition ensure_globals :: "clip_env \<Rightarrow> clip_state \<Rightarrow> bool \<times> clip_state" where
  "ensure_globals env s =
     (if cl_display s then (cl_manager s, s)
      else if \<not> ce_display env then (False, s)
      else (ce_manager env, s\<lparr>cl_display := True, cl_manager := ce_manager env, cl_vk_manager := ce_vk_manager env\<rparr>))"

definition clipboard_watch_start :: "clip_env \<Rightarrow> bool \<Rightarrow> clip_state \<Rightarrow> bool \<times> clip_state" where
  "clipboard_watch_start env func s =
     (case ensure_globals env (s\<lparr>cl_callback := func\<rparr>) of (ok, s1) \<Rightarrow>
        if \<not> ok then (False, s1)
        else if cl_device s1 \<noteq> None then (True, s1)
        else if \<not> ce_seat env then (False, s1)
        else (True, s1\<lparr>cl_device := Some (cl_devices s1), cl_devices := Suc (cl_devices s1)\<rparr>))"

definition source_send :: "nat \<Rightarrow> clip_state \<Rightarrow> clip_state" where
  "source_send src s =
     (if cl_own_source s \<noteq> Some src then clip_note [Closed_fd] s
      else case cl_own_data s of None \<Rightarrow> clip_note [Closed_fd] s | Some d \<Rightarrow> clip_note [Sent_bytes src d] s)"

definition destroy_source :: "nat \<Rightarrow> clip_state \<Rightarrow> clip_state" where
  "destroy_source src s =
     clip_note [Destroy_source src] (s\<lparr>cl_fault := cl_fault s \<or> src \<notin> cl_sources s, cl_sources := cl_sources s - {src}\<rparr>)"

definition source_cancelled :: "nat \<Rightarrow> clip_state \<Rightarrow> clip_state" where
  "source_cancelled src s =
     destroy_source src (if cl_own_source s = Some src
       then s\<lparr>cl_own_source := None, cl_own_data := None, cl_own_mime := None\<rparr> else s)"

definition clipboard_set :: "clip_env \<Rightarrow> string option \<Rightarrow> bytes option \<Rightarrow> clip_state \<Rightarrow> bool \<times> clip_state" where
  "clipboard_set env mime data s0 =
     (case ensure_globals env s0 of (ok, s) \<Rightarrow>
        case (mime, data) of
          (Some m, Some d) \<Rightarrow>
            if \<not> ok \<or> cl_device s = None then (False, s)
            else
              let src = cl_next_source s;
                  types = (if has_prefix ''image/'' m then [m]
                           else [''text/plain;charset=utf-8'', ''text/plain'', ''UTF8_STRING'', ''STRING'', ''TEXT'']);
                  s1 = clip_note [Source_offers src types] (s\<lparr>cl_next_source := Suc src, cl_sources := insert src (cl_sources s)\<rparr>);
                  s2 = (case cl_own_source s1 of None \<Rightarrow> s1 | Some old \<Rightarrow> destroy_source old s1)
              in (True, clip_note [Set_selection src] (s2\<lparr>cl_own_source := Some src, cl_own_data := Some d, cl_own_mime := Some m\<rparr>))
        | _ \<Rightarrow> (False, s))"

section \<open>Pasting\<close>

definition KEY_LEFTCTRL :: nat where "KEY_LEFTCTRL = 29"
definition KEY_V :: nat where "KEY_V = 47"

definition clipboard_send_paste :: "clip_env \<Rightarrow> clip_state \<Rightarrow> bool \<times> clip_state" where
  "clipboard_send_paste env s0 =
     (let s = snd (ensure_globals env s0)
      in if \<not> cl_display s \<or> \<not> cl_vk_manager s then (False, s)
         else if \<not> cl_vkbd s \<and> \<not> ce_seat env then (False, s)
         else
           let s1 = s\<lparr>cl_vkbd := True\<rparr>; t = cl_vk_time s1
           in if \<not> ce_keymap env then (False, s1)
              else (True, clip_note [Paste_keymap, Paste_key t KEY_LEFTCTRL True, Paste_modifiers 4, Paste_key (t + 1) KEY_V True,
                      Paste_key (t + 2) KEY_V False, Paste_key (t + 3) KEY_LEFTCTRL False, Paste_modifiers 0]
                      (s1\<lparr>cl_vk_time := t + 4\<rparr>)))"

section \<open>The machine\<close>

datatype clip_event =
    K_offer
  | K_mime nat string
  | K_selection "nat option" bool
  | K_primary "nat option"
  | K_finished nat
  | K_read nat "bytes option"
  | K_send nat
  | K_cancelled nat
  | K_start clip_env bool
  | K_set clip_env "string option" "bytes option"
  | K_paste clip_env

text \<open>
  The device announces an offer and then makes it the selection or the primary selection, once;
  sources get events while they exist.
\<close>

fun clip_step :: "clip_event \<Rightarrow> clip_state \<Rightarrow> clip_state" where
  "clip_step K_offer s = (if cl_device s = None then s else device_data_offer s)"
| "clip_step (K_mime x m) s = offer_mime x m s"
| "clip_step (K_selection x pipe) s =
     (if cl_device s = None \<or> (case x of None \<Rightarrow> False | Some y \<Rightarrow> cl_offers s y = None) then s else device_selection x pipe s)"
| "clip_step (K_primary x) s =
     (if cl_device s = None \<or> (case x of None \<Rightarrow> False | Some y \<Rightarrow> cl_offers s y = None) then s else device_primary x s)"
| "clip_step (K_finished d) s = device_finished d s"
| "clip_step (K_read j c) s = on_read j c s"
| "clip_step (K_send src) s = (if src \<in> cl_sources s then source_send src s else s)"
| "clip_step (K_cancelled src) s = (if src \<in> cl_sources s then source_cancelled src s else s)"
| "clip_step (K_start env func) s = snd (clipboard_watch_start env func s)"
| "clip_step (K_set env m d) s = snd (clipboard_set env m d s)"
| "clip_step (K_paste env) s = snd (clipboard_send_paste env s)"

section \<open>The invariant\<close>

lemma note_simps [simp]:
  "cl_log (clip_note ns s) = cl_log s @ ns" "cl_offers (clip_note ns s) = cl_offers s" "cl_jobs (clip_note ns s) = cl_jobs s"
  "cl_fault (clip_note ns s) = cl_fault s" "cl_next_offer (clip_note ns s) = cl_next_offer s" "cl_sources (clip_note ns s) = cl_sources s"
  "cl_own_source (clip_note ns s) = cl_own_source s" "cl_next_source (clip_note ns s) = cl_next_source s" "cl_callback (clip_note ns s) = cl_callback s"
  "cl_own_data (clip_note ns s) = cl_own_data s"
  by (simp_all add: clip_note_def)

definition limit_of :: "string \<Rightarrow> nat" where
  "limit_of mime = (if has_prefix ''image/'' mime then MAX_IMAGE else MAX_TEXT)"

text \<open>Live offers list the types announced for them; an offer that was read had no password hint.\<close>

definition offers_ok :: "clip_state \<Rightarrow> bool" where
  "offers_ok s \<longleftrightarrow>
     (\<forall>x ms. cl_offers s x = Some ms \<longrightarrow> x < cl_next_offer s \<and> ms \<noteq> None \<and> (\<forall>m. m \<in> set (the ms) \<longleftrightarrow> Offered x m \<in> set (cl_log s)) \<and>
        (\<forall>m. Receive x m \<notin> set (cl_log s))) \<and>
     (\<forall>x m. Offered x m \<in> set (cl_log s) \<or> Receive x m \<in> set (cl_log s) \<longrightarrow> x < cl_next_offer s)"

definition reads_ok :: "clip_state \<Rightarrow> bool" where
  "reads_ok s \<longleftrightarrow>
     (\<forall>x m. Receive x m \<in> set (cl_log s) \<longrightarrow> Offered x m \<in> set (cl_log s) \<and> Offered x PASSWORD_HINT \<notin> set (cl_log s)) \<and>
     (\<forall>j job. cl_jobs s j = Some job \<longrightarrow> (\<exists>x. Receive x (rj_mime job) \<in> set (cl_log s)) \<and> rj_limit job = limit_of (rj_mime job) \<and>
        length (rj_buf job) \<le> limit_of (rj_mime job)) \<and>
     (\<forall>m d. Told m d \<in> set (cl_log s) \<longrightarrow> (\<exists>x. Receive x m \<in> set (cl_log s)) \<and> 0 < length d \<and> length d \<le> limit_of m)"

definition sources_ok :: "clip_state \<Rightarrow> bool" where
  "sources_ok s \<longleftrightarrow> (\<forall>src. cl_own_source s = Some src \<longrightarrow> src \<in> cl_sources s) \<and> (\<forall>src \<in> cl_sources s. src < cl_next_source s) \<and> \<not> cl_fault s"

definition clip_inv :: "clip_state \<Rightarrow> bool" where
  "clip_inv s \<longleftrightarrow> offers_ok s \<and> reads_ok s \<and> sources_ok s"

text \<open>Handlers that touch neither offers nor reads, and log only notes of other kinds.\<close>

fun plain_note :: "clip_note \<Rightarrow> bool" where
  "plain_note (Offered x m) = False"
| "plain_note (Receive x m) = False"
| "plain_note (Told m d) = False"
| "plain_note _ = True"

lemma plain_clip_notes:
  assumes "list_all plain_note ns"
  shows "Offered x m \<notin> set ns" "Receive x m \<notin> set ns" "Told m d \<notin> set ns"
  using assms by (auto simp: list_all_iff)

lemma quiet_ok:
  assumes "cl_offers t = cl_offers s" and "cl_next_offer t = cl_next_offer s" and "cl_jobs t = cl_jobs s"
    and "cl_log t = cl_log s @ ns" and "list_all plain_note ns"
  shows "offers_ok t = offers_ok s" "reads_ok t = reads_ok s"
  using assms(1-4) plain_clip_notes [OF assms(5)] by (simp_all add: offers_ok_def reads_ok_def)

lemma offersD:
  assumes "offers_ok s" and "cl_offers s x = Some (Some ms)"
  shows "x < cl_next_offer s" "(Offered x m \<in> set (cl_log s)) = (m \<in> set ms)" "Receive x m \<notin> set (cl_log s)"
  using assms unfolding offers_ok_def by (metis option.sel)+

lemma free_offer_inv:
  assumes "clip_inv s" and "cl_offers s x \<noteq> None"
  shows "clip_inv (free_offer x s)"
proof -
  have "offers_ok (free_offer x s)" using assms(1) by (simp add: clip_inv_def offers_ok_def free_offer_def)
  moreover have "reads_ok (free_offer x s)" using assms(1) by (simp add: clip_inv_def reads_ok_def free_offer_def)
  moreover have "sources_ok (free_offer x s)" using assms by (simp add: clip_inv_def sources_ok_def free_offer_def)
  ultimately show ?thesis by (simp add: clip_inv_def)
qed

lemma data_offer_inv: "clip_inv s \<Longrightarrow> clip_inv (device_data_offer s)"
proof -
  assume inv: "clip_inv s"
  then have "offers_ok s" by (simp add: clip_inv_def)
  then have "offers_ok (device_data_offer s)" unfolding offers_ok_def device_data_offer_def
    by (simp add: less_Suc_eq) (metis less_irrefl)
  then show ?thesis using inv by (simp add: clip_inv_def reads_ok_def sources_ok_def device_data_offer_def)
qed

lemma offer_mime_inv: "clip_inv s \<Longrightarrow> clip_inv (offer_mime x m s)"
proof (cases "\<exists>ms. cl_offers s x = Some (Some ms)")
  case True
  then obtain ms where ms: "cl_offers s x = Some (Some ms)" by blast
  assume inv: "clip_inv s"
  then have o: "offers_ok s" and r: "reads_ok s" by (simp_all add: clip_inv_def)
  have x: "x < cl_next_offer s" "\<forall>m. Receive x m \<notin> set (cl_log s)" "\<forall>m. (Offered x m \<in> set (cl_log s)) = (m \<in> set ms)"
    using offersD [OF o ms] by blast+
  have "offers_ok (offer_mime x m s)" using o ms x unfolding offers_ok_def offer_mime_def by auto
  moreover have "reads_ok (offer_mime x m s)" using r x ms unfolding reads_ok_def offer_mime_def by simp
  ultimately show ?thesis using inv ms by (simp add: clip_inv_def sources_ok_def offer_mime_def)
qed (auto simp: offer_mime_def split: option.splits)

lemma has_mime_iff: "has_mime ms m \<longleftrightarrow> m \<in> set ms"
  by (induction ms) auto

lemma find_has: "pick_image ms is = List.find (\<lambda>i. i \<in> set ms) is"
  by (induction "is") (simp_all add: has_mime_iff)

lemma pick_image_not_uri_find:
  "pick_image_not_uri ms is = (if ''text/uri-list'' \<in> set ms then None else List.find (\<lambda>i. i \<in> set ms) is)"
  by (induction "is") (simp_all add: has_mime_iff)

lemma pick_text_find:
  "pick_text ms ts = (case List.find (\<lambda>t. t \<in> set ms) ts of
     None \<Rightarrow> None
   | Some t \<Rightarrow> (case pick_image_not_uri ms image_types of Some i \<Rightarrow> Some i | None \<Rightarrow> Some t))"
  by (induction ts) (simp_all add: has_mime_iff)

lemma pick_mime_offered: "pick_mime ms = Some m \<Longrightarrow> m \<in> set ms"
  by (auto simp: pick_mime_def pick_text_find find_has pick_image_not_uri_find find_Some_iff split: option.splits if_splits)

lemma receive_inv:
  assumes "clip_inv s" and "cl_offers s x = Some (Some ms)" and "PASSWORD_HINT \<notin> set ms" and "m \<in> set ms"
  shows "clip_inv (free_offer x (clip_note [Receive x m]
    (s\<lparr>cl_jobs := (cl_jobs s)(cl_next_job s \<mapsto> \<lparr>rj_mime = m, rj_buf = [], rj_limit = limit_of m\<rparr>), cl_next_job := n\<rparr>)))"
    (is "clip_inv ?t")
proof -
  have ok: "offers_ok s" "reads_ok s" "sources_ok s" using assms(1) by (simp_all add: clip_inv_def)
  have x: "x < cl_next_offer s" "\<And>m. m \<in> set ms \<longleftrightarrow> Offered x m \<in> set (cl_log s)"
    using offersD [OF ok(1) assms(2)] by blast+
  have "offers_ok ?t" using ok(1) x(1) unfolding offers_ok_def free_offer_def by simp
  moreover have "reads_ok ?t" using ok(2) x(2) assms(3,4) unfolding reads_ok_def free_offer_def by simp blast
  moreover have "sources_ok ?t" using ok(3) assms(2) by (simp add: sources_ok_def free_offer_def)
  ultimately show ?thesis by (simp add: clip_inv_def)
qed

lemma selection_inv:
  assumes "clip_inv s" and "\<And>x. offer = Some x \<Longrightarrow> cl_offers s x \<noteq> None"
  shows "clip_inv (device_selection offer pipe s)"
proof (cases offer)
  case (Some x)
  then have "cl_offers s x \<noteq> None" using assms(2) by simp
  moreover have "offers_ok s" using assms(1) by (simp add: clip_inv_def)
  ultimately obtain ms where ms: "cl_offers s x = Some (Some ms)" unfolding offers_ok_def by (metis not_None_eq)
  have free: "clip_inv (free_offer x s)" using free_offer_inv [OF assms(1)] ms by simp
  have told: "clip_inv (clip_note [Told_hidden] s)"
    using assms(1) quiet_ok [of "clip_note [Told_hidden] s" s "[Told_hidden]"] by (simp add: clip_inv_def sources_ok_def)
  show ?thesis
  proof (cases "has_mime ms PASSWORD_HINT")
    case True
    then show ?thesis using Some ms free free_offer_inv [OF told, of x] by (simp add: device_selection_def)
  next
    case False
    then show ?thesis using Some ms free receive_inv [OF assms(1) ms, of _ "Suc (cl_next_job s)"] pick_mime_offered [of ms]
      by (auto simp: device_selection_def has_mime_iff limit_of_def [symmetric] split: option.split)
  qed
qed (simp add: device_selection_def assms(1))

lemma read_inv: "clip_inv s \<Longrightarrow> clip_inv (on_read j c s)"
proof (cases "cl_jobs s j")
  case (Some job)
  assume inv: "clip_inv s"
  then have r: "reads_ok s" by (simp add: clip_inv_def)
  then have job: "\<exists>x. Receive x (rj_mime job) \<in> set (cl_log s)" "rj_limit job = limit_of (rj_mime job)" "length (rj_buf job) \<le> limit_of (rj_mime job)"
    using Some by (simp_all add: reads_ok_def)
  let ?f = "s\<lparr>cl_jobs := (cl_jobs s)(j := None)\<rparr>"
  have freed: "clip_inv ?f" using inv by (simp add: clip_inv_def offers_ok_def reads_ok_def sources_ok_def)
  have told: "clip_inv (clip_note [Told (rj_mime job) (rj_buf job)] ?f)" if "length (rj_buf job) > 0"
    using freed job that by (auto simp: clip_inv_def offers_ok_def reads_ok_def sources_ok_def)
  have more: "clip_inv (s\<lparr>cl_jobs := (cl_jobs s)(j \<mapsto> job\<lparr>rj_buf := b\<rparr>)\<rparr>)" if "length b \<le> limit_of (rj_mime job)" for b
    using inv job that by (simp add: clip_inv_def offers_ok_def reads_ok_def sources_ok_def)
  show ?thesis using Some freed told more job(2) by (cases c) (simp_all add: on_read_def Let_def)
qed (simp add: on_read_def)

lemma quiet_inv:
  assumes "clip_inv s" and "cl_offers t = cl_offers s" and "cl_next_offer t = cl_next_offer s" and "cl_jobs t = cl_jobs s"
    and "cl_log t = cl_log s @ ns" and "list_all plain_note ns" and "sources_ok t"
  shows "clip_inv t"
  using assms(1,7) quiet_ok [OF assms(2-6)] by (simp add: clip_inv_def)

lemma ensure_fields [simp]:
  "cl_offers (snd (ensure_globals env s)) = cl_offers s" "cl_next_offer (snd (ensure_globals env s)) = cl_next_offer s"
  "cl_jobs (snd (ensure_globals env s)) = cl_jobs s" "cl_log (snd (ensure_globals env s)) = cl_log s"
  "cl_own_source (snd (ensure_globals env s)) = cl_own_source s" "cl_sources (snd (ensure_globals env s)) = cl_sources s"
  "cl_next_source (snd (ensure_globals env s)) = cl_next_source s" "cl_fault (snd (ensure_globals env s)) = cl_fault s"
  by (simp_all add: ensure_globals_def)

lemma clip_start_inv: "clip_inv s \<Longrightarrow> clip_inv (snd (clipboard_watch_start env func s))"
proof -
  assume inv: "clip_inv s"
  obtain ok s1 where e: "ensure_globals env (s\<lparr>cl_callback := func\<rparr>) = (ok, s1)" by (cases "ensure_globals env (s\<lparr>cl_callback := func\<rparr>)")
  have f: "s1 = snd (ensure_globals env (s\<lparr>cl_callback := func\<rparr>))" by (simp add: e)
  show ?thesis
    by (rule quiet_inv [OF inv, of _ "[]"]) (use inv in \<open>simp_all add: clipboard_watch_start_def e clip_inv_def sources_ok_def\<close>, simp_all add: f)
qed

lemma destroy_source_ok:
  "sources_ok s \<Longrightarrow> src \<in> cl_sources s \<Longrightarrow> sources_ok ((destroy_source src s)\<lparr>cl_own_source := None\<rparr>)"
  by (simp add: sources_ok_def destroy_source_def)

lemma cancelled_inv: "clip_inv s \<Longrightarrow> src \<in> cl_sources s \<Longrightarrow> clip_inv (source_cancelled src s)"
  by (rule quiet_inv [of s _ "[Destroy_source src]"])
    (auto simp: source_cancelled_def destroy_source_def clip_inv_def sources_ok_def)

lemma send_inv: "clip_inv s \<Longrightarrow> clip_inv (source_send src s)"
  by (rule quiet_inv [of s _ "[if cl_own_source s \<noteq> Some src then Closed_fd else case cl_own_data s of None \<Rightarrow> Closed_fd | Some d \<Rightarrow> Sent_bytes src d]"])
    (auto simp: source_send_def clip_inv_def sources_ok_def split: option.split)

lemma set_inv: "clip_inv s \<Longrightarrow> clip_inv (snd (clipboard_set env mime data s))"
proof -
  assume inv: "clip_inv s"
  obtain ok r where e: "ensure_globals env s = (ok, r)" by (cases "ensure_globals env s")
  have r: "r = snd (ensure_globals env s)" by (simp add: e)
  have ir: "clip_inv r" by (rule quiet_inv [OF inv, of _ "[]"]) (use inv in \<open>simp_all add: r clip_inv_def sources_ok_def\<close>)
  show ?thesis
  proof (cases "\<exists>m d. mime = Some m \<and> data = Some d \<and> ok \<and> cl_device r \<noteq> None")
    case True
    then obtain m d where md: "mime = Some m" "data = Some d" "ok" "cl_device r \<noteq> None" by blast
    let ?src = "cl_next_source r"
    let ?types = "if has_prefix ''image/'' m then [m] else [''text/plain;charset=utf-8'', ''text/plain'', ''UTF8_STRING'', ''STRING'', ''TEXT'']"
    let ?ns = "[Source_offers ?src ?types] @ (case cl_own_source r of None \<Rightarrow> [] | Some old \<Rightarrow> [Destroy_source old]) @ [Set_selection ?src]"
    have so: "sources_ok r" using ir by (simp add: clip_inv_def)
    then have "?src \<notin> cl_sources r" by (auto simp: sources_ok_def)
    then show ?thesis
      by (intro quiet_inv [OF ir, of _ ?ns])
        (use so e md in \<open>auto simp: clipboard_set_def destroy_source_def sources_ok_def Let_def less_Suc_eq split: option.split\<close>)
  qed (use e ir in \<open>auto simp: clipboard_set_def split: option.split\<close>)
qed

lemma paste_inv: "clip_inv s \<Longrightarrow> clip_inv (snd (clipboard_send_paste env s))"
proof -
  assume inv: "clip_inv s"
  define r where "r = snd (ensure_globals env s)"
  have ir: "clip_inv r" by (rule quiet_inv [OF inv, of _ "[]"]) (use inv in \<open>simp_all add: r_def clip_inv_def sources_ok_def\<close>)
  then have vk: "clip_inv (r\<lparr>cl_vkbd := True\<rparr>)"
    by (rule quiet_inv [of _ _ "[]"]) (use ir in \<open>simp_all add: clip_inv_def sources_ok_def\<close>)
  have "clip_inv (clip_note ns (r\<lparr>cl_vkbd := True, cl_vk_time := t\<rparr>))" if "list_all plain_note ns" for ns t
    by (rule quiet_inv [OF ir, of _ ns]) (use ir that in \<open>simp_all add: clip_inv_def sources_ok_def\<close>)
  then show ?thesis using ir vk by (simp add: clipboard_send_paste_def Let_def flip: r_def)
qed

lemma clip_step_inv: "clip_inv s \<Longrightarrow> clip_inv (clip_step e s)"
proof (cases e)
  case (K_primary x)
  assume "clip_inv s"
  then show ?thesis using K_primary free_offer_inv [of s] by (cases x) (auto simp: device_primary_def)
next
  case (K_finished d)
  assume inv: "clip_inv s"
  then show ?thesis unfolding K_finished clip_step.simps
    by (rule quiet_inv [of _ _ "[]"]) (use inv in \<open>simp_all add: device_finished_def clip_inv_def sources_ok_def\<close>)
next
  case (K_selection x pipe)
  assume "clip_inv s"
  then show ?thesis using K_selection selection_inv [of s x pipe] by (auto split: option.splits)
qed (simp_all add: data_offer_inv offer_mime_inv read_inv send_inv cancelled_inv clip_start_inv set_inv paste_inv)

interpretation clip: event_machine clip_step clip_inv
  by unfold_locales (rule clip_step_inv)

lemma clip_init_inv: "clip_inv clip_init"
  by (simp add: clip_init_def clip_inv_def offers_ok_def reads_ok_def sources_ok_def)

section \<open>Properties\<close>

text \<open>
  C19: nothing secret is read. Over every order of events: data is asked for only in a type that the
  offer announced, and never from an offer that announced the password manager's hint; whatever the
  callback gets was asked for, is not empty and is at most 24 MiB for images and 4 MiB for the rest;
  no offer or source is used after it was destroyed.
\<close>

theorem clipboard_private:
  "(Receive x m \<in> set (cl_log (fold clip_step es clip_init)) \<longrightarrow>
      Offered x m \<in> set (cl_log (fold clip_step es clip_init)) \<and> Offered x PASSWORD_HINT \<notin> set (cl_log (fold clip_step es clip_init))) \<and>
   (Told m d \<in> set (cl_log (fold clip_step es clip_init)) \<longrightarrow>
      (\<exists>y. Receive y m \<in> set (cl_log (fold clip_step es clip_init))) \<and>
      0 < length d \<and> length d \<le> (if has_prefix ''image/'' m then MAX_IMAGE else MAX_TEXT)) \<and>
   \<not> cl_fault (fold clip_step es clip_init)"
proof -
  have "clip_inv (fold clip_step es clip_init)" by (rule clip.run_inv [OF clip_init_inv])
  then have "reads_ok (fold clip_step es clip_init)" "\<not> cl_fault (fold clip_step es clip_init)"
    by (simp_all add: clip_inv_def sources_ok_def)
  then show ?thesis unfolding reads_ok_def limit_of_def [symmetric] by blast
qed

definition demo_clip_env :: clip_env where
  "demo_clip_env = \<lparr>ce_display = True, ce_manager = True, ce_vk_manager = True, ce_seat = True, ce_keymap = True\<rparr>"

definition demo_clip :: "clip_event list" where
  "demo_clip = [K_start demo_clip_env True, K_offer, K_mime 0 ''text/plain'', K_selection (Some 0) True, K_read 0 (Some [104, 105]), K_read 0 (Some [])]"

theorem clipboard_private_witness:
  "Told ''text/plain'' [104, 105] \<in> set (cl_log (fold clip_step demo_clip clip_init)) \<and>
   Offered 0 PASSWORD_HINT \<notin> set (cl_log (fold clip_step demo_clip clip_init)) \<and> \<not> cl_fault (fold clip_step demo_clip clip_init)"
proof -
  have l: "Told ''text/plain'' [104, 105] \<in> set (cl_log (fold clip_step demo_clip clip_init))"
    "Receive 0 ''text/plain'' \<in> set (cl_log (fold clip_step demo_clip clip_init))"
    by (simp_all add: demo_clip_def demo_clip_env_def clip_init_def clipboard_watch_start_def ensure_globals_def device_data_offer_def offer_mime_def
        device_selection_def PASSWORD_HINT_def pick_mime_def text_types_def image_types_def free_offer_def clip_note_def on_read_def MAX_TEXT_def
        has_prefix_def Let_def)
  then show ?thesis using clipboard_private [of 0 "''text/plain''" demo_clip "[104, 105]"] by blast
qed

text \<open>The reference: the best text, unless an image is offered that is not a list of files; the best image without a text.\<close>

definition best_of :: "string list \<Rightarrow> string list \<Rightarrow> string list" where
  "best_of order ms = filter (\<lambda>m. m \<in> set ms) order"

definition mime_reference :: "string list \<Rightarrow> string option" where
  "mime_reference ms =
     (let images = best_of image_types ms; texts = best_of text_types ms
      in if texts \<noteq> [] \<and> (images = [] \<or> ''text/uri-list'' \<in> set ms) then Some (hd texts)
         else if images \<noteq> [] then Some (hd images) else None)"

lemma find_filter: "List.find P xs = (if filter P xs = [] then None else Some (hd (filter P xs)))"
  by (induction xs) auto

text \<open>
  C23: the nested loops that choose the type to read agree with the reference on every list of types:
  an image wins over a text unless the offer is a list of files, and each kind is taken in the order of
  its table.
\<close>

theorem pick_mime_reference: "pick_mime ms = mime_reference ms"
  unfolding pick_mime_def mime_reference_def best_of_def pick_text_find pick_image_not_uri_find find_has find_filter Let_def
  by (simp split: option.split if_split)

text \<open>
  Reading is exact. A read whose chunks arrive and end is reported once with the concatenation of
  the chunks when that is not empty and within the limit, and is dropped without a report otherwise.
\<close>

theorem read_delivers:
  assumes "cl_jobs s j = Some \<lparr>rj_mime = m, rj_buf = [], rj_limit = n\<rparr>" and "cl_callback s" and "[] \<notin> set chunks"
  shows "cl_log (fold (on_read j) (map Some chunks @ [Some []]) s) =
      cl_log s @ (if 0 < length (concat chunks) \<and> length (concat chunks) \<le> n then [Told m (concat chunks)] else []) \<and>
    cl_jobs (fold (on_read j) (map Some chunks @ [Some []]) s) j = None"
proof -
  have gone: "fold (on_read j) cs s = s" if "cl_jobs s j = None" for cs s
    using that by (induction cs) (simp_all add: on_read_def Let_def)
  have "cl_log (fold (on_read j) (map Some chunks @ [Some []]) s) =
      cl_log s @ (if 0 < length (b @ concat chunks) \<and> length (b @ concat chunks) \<le> n then [Told m (b @ concat chunks)] else []) \<and>
    cl_jobs (fold (on_read j) (map Some chunks @ [Some []]) s) j = None"
    if "cl_jobs s j = Some \<lparr>rj_mime = m, rj_buf = b, rj_limit = n\<rparr>" "cl_callback s" "[] \<notin> set chunks" "length b \<le> n" for b
    using that
  proof (induction chunks arbitrary: b s)
    case Nil
    then show ?case by (simp add: on_read_def Let_def)
  next
    case (Cons c cs)
    show ?case
    proof (cases "length b + length c \<le> n")
      case True
      let ?s = "s\<lparr>cl_jobs := (cl_jobs s)(j \<mapsto> \<lparr>rj_mime = m, rj_buf = b @ c, rj_limit = n\<rparr>)\<rparr>"
      have "on_read j (Some c) s = ?s" using Cons.prems True by (auto simp: on_read_def Let_def)
      then show ?thesis using Cons.IH [of ?s "b @ c"] Cons.prems True by simp
    next
      case False
      let ?s = "s\<lparr>cl_jobs := (cl_jobs s)(j := None)\<rparr>"
      have "on_read j (Some c) s = ?s" using Cons.prems False by (auto simp: on_read_def Let_def)
      moreover have "fold (on_read j) cs' ?s = ?s" for cs' by (rule gone) simp
      moreover have "on_read j (Some []) ?s = ?s" by (simp add: on_read_def)
      ultimately show ?thesis using False by simp
    qed
  qed
  from this [of "[]"] show ?thesis using assms by simp
qed

theorem read_delivers_witness:
  "cl_log (fold (on_read 0) (map Some [[104], [105]] @ [Some []])
     (clip_init\<lparr>cl_callback := True, cl_jobs := [0 \<mapsto> \<lparr>rj_mime = ''TEXT'', rj_buf = [], rj_limit = 2\<rparr>]\<rparr>)) = [Told ''TEXT'' [104, 105]]"
  using read_delivers [of "clip_init\<lparr>cl_callback := True, cl_jobs := [0 \<mapsto> \<lparr>rj_mime = ''TEXT'', rj_buf = [], rj_limit = 2\<rparr>]\<rparr>" 0 "''TEXT''" 2 "[[104], [105]]"]
  by (simp add: clip_init_def)

end
