(* ===== verification/Idle_Notify.thy ===== *)
theory Idle_Notify
  imports C_Prelude
begin

text \<open>
  Idle watches and output power, \<^verbatim>\<open>src/wayland/idle_notify.c\<close>. Notification and power objects have numbers
  of their own; \<open>n_live\<close> and \<open>n_powers\<close> are what the compositor knows of them: the timeout and kind of a
  notification, the output and the last mode of a power object. The handlers do nothing after the
  client's callback, so the calls it makes are events of their own.
\<close>

section \<open>State\<close>

record idle_watch =
  iw_id :: int
  iw_notification :: nat
  iw_callback :: bool

record power_output =
  po_name :: nat
  po_output :: nat
  po_power :: "nat option"

record idle_state =
  n_registry :: bool
  n_display :: bool
  n_seat :: bool
  n_notifier :: bool
  n_version :: nat
  n_manager :: bool
  n_watches :: "idle_watch list"
  n_outputs :: "power_output list"
  n_want_on :: bool
  n_live :: "nat \<rightharpoonup> nat \<times> bool"
  n_next :: nat
  n_powers :: "nat \<rightharpoonup> nat \<times> bool option"
  n_next_power :: nat
  n_next_output :: nat
  n_told :: "(int \<times> bool) list"
  n_fault :: bool

definition idle_init_state :: idle_state where
  "idle_init_state = \<lparr>n_registry = False, n_display = False, n_seat = False, n_notifier = False, n_version = 0, n_manager = False,
     n_watches = [], n_outputs = [], n_want_on = False, n_live = Map.empty, n_next = 0, n_powers = Map.empty, n_next_power = 0,
     n_next_output = 0, n_told = [], n_fault = False\<rparr>"

section \<open>Watches\<close>

definition tell_watch :: "nat \<Rightarrow> bool \<Rightarrow> idle_state \<Rightarrow> idle_state" where
  "tell_watch n b s =
     (case List.find (\<lambda>w. iw_notification w = n) (n_watches s) of
        None \<Rightarrow> s\<lparr>n_fault := True\<rparr>
      | Some w \<Rightarrow> if iw_callback w then s\<lparr>n_told := n_told s @ [(iw_id w, b)]\<rparr> else s)"

definition notification_idled :: "nat \<Rightarrow> idle_state \<Rightarrow> idle_state" where
  "notification_idled n s = tell_watch n True s"

definition notification_resumed :: "nat \<Rightarrow> idle_state \<Rightarrow> idle_state" where
  "notification_resumed n s = tell_watch n False s"

definition idle_unwatch :: "int \<Rightarrow> idle_state \<Rightarrow> idle_state" where
  "idle_unwatch i s =
     (case List.find (\<lambda>w. iw_id w = i) (n_watches s) of
        None \<Rightarrow> s
      | Some w \<Rightarrow>
          s\<lparr>n_watches := remove1 w (n_watches s), n_fault := n_fault s \<or> n_live s (iw_notification w) = None,
            n_live := (n_live s)(iw_notification w := None)\<rparr>)"

text \<open>\<open>mem\<close>: the watch could be allocated.\<close>

definition idle_watch :: "int \<Rightarrow> nat \<Rightarrow> bool \<Rightarrow> bool \<Rightarrow> bool \<Rightarrow> idle_state \<Rightarrow> idle_state" where
  "idle_watch i timeout_ms input_only callback mem s0 =
     (let s = idle_unwatch i s0
      in if \<not> n_notifier s \<or> \<not> n_seat s then s
         else if \<not> mem then s
         else
           let n = n_next s
           in s\<lparr>n_next := Suc n, n_live := (n_live s)(n \<mapsto> (timeout_ms, input_only \<and> n_version s \<ge> 2)),
                n_watches := \<lparr>iw_id = i, iw_notification = n, iw_callback = callback\<rparr> # n_watches s\<rparr>)"

section \<open>Output power\<close>

definition put_power :: "nat \<Rightarrow> nat option \<Rightarrow> idle_state \<Rightarrow> idle_state" where
  "put_power x p s = s\<lparr>n_outputs := map (\<lambda>y. if po_output y = x then y\<lparr>po_power := p\<rparr> else y) (n_outputs s)\<rparr>"

definition power_failed :: "nat \<Rightarrow> power_output \<Rightarrow> idle_state \<Rightarrow> idle_state" where
  "power_failed p x s = (put_power (po_output x) None s)\<lparr>n_fault := n_fault s \<or> n_powers s p = None, n_powers := (n_powers s)(p := None)\<rparr>"

definition output_apply :: "power_output \<Rightarrow> idle_state \<Rightarrow> idle_state" where
  "output_apply x s =
     (if \<not> n_manager s then s
      else case po_power x of
             Some p \<Rightarrow> s\<lparr>n_fault := n_fault s \<or> n_powers s p = None, n_powers := (n_powers s)(p \<mapsto> (po_output x, Some (n_want_on s)))\<rparr>
           | None \<Rightarrow>
               let p = n_next_power s
               in (put_power (po_output x) (Some p) s)\<lparr>n_next_power := Suc p, n_powers := (n_powers s)(p \<mapsto> (po_output x, Some (n_want_on s)))\<rparr>)"

definition output_power_set :: "bool \<Rightarrow> idle_state \<Rightarrow> idle_state" where
  "output_power_set b s = fold output_apply (n_outputs s) (s\<lparr>n_want_on := b\<rparr>)"

section \<open>Registry\<close>

datatype idle_global = Gl_notifier nat | Gl_seat | Gl_power_manager | Gl_output nat bool | Gl_other

fun registry_global :: "idle_global \<Rightarrow> idle_state \<Rightarrow> idle_state" where
  "registry_global (Gl_notifier version) s = s\<lparr>n_version := (if version < 2 then version else 2), n_notifier := True\<rparr>"
| "registry_global Gl_seat s = (if n_seat s then s else s\<lparr>n_seat := True\<rparr>)"
| "registry_global Gl_power_manager s = s\<lparr>n_manager := True\<rparr>"
| "registry_global (Gl_output name mem) s =
     (if \<not> mem then s
      else s\<lparr>n_next_output := Suc (n_next_output s),
             n_outputs := \<lparr>po_name = name, po_output = n_next_output s, po_power = None\<rparr> # n_outputs s\<rparr>)"
| "registry_global Gl_other s = s"

definition registry_global_remove :: "nat \<Rightarrow> idle_state \<Rightarrow> idle_state" where
  "registry_global_remove name s =
     (case List.find (\<lambda>x. po_name x = name) (n_outputs s) of
        None \<Rightarrow> s
      | Some x \<Rightarrow>
          let s1 = s\<lparr>n_outputs := remove1 x (n_outputs s)\<rparr>
          in case po_power x of
               None \<Rightarrow> s1
             | Some p \<Rightarrow> s1\<lparr>n_fault := n_fault s1 \<or> n_powers s1 p = None, n_powers := (n_powers s1)(p := None)\<rparr>)"

definition idle_init :: "bool \<Rightarrow> idle_global list \<Rightarrow> idle_state \<Rightarrow> bool \<times> idle_state" where
  "idle_init wayland globals s =
     (if n_registry s then (n_notifier s \<and> n_seat s, s)
      else if \<not> wayland then (False, s)
      else
        let s1 = fold registry_global globals (s\<lparr>n_display := True, n_want_on := True, n_registry := True\<rparr>)
        in (n_notifier s1 \<and> n_seat s1, s1))"

datatype idle_event =
    N_init bool "idle_global list"
  | N_global idle_global
  | N_remove nat
  | N_idled nat
  | N_resumed nat
  | N_failed nat
  | N_watch int nat bool bool bool
  | N_unwatch int
  | N_power bool

text \<open>Events reach objects that exist; the registry reports changes once it exists.\<close>

fun idle_step :: "idle_event \<Rightarrow> idle_state \<Rightarrow> idle_state" where
  "idle_step (N_init wayland gs) s = snd (idle_init wayland gs s)"
| "idle_step (N_global g) s = (if n_registry s then registry_global g s else s)"
| "idle_step (N_remove name) s = (if n_registry s then registry_global_remove name s else s)"
| "idle_step (N_idled n) s = (if n_live s n = None then s else notification_idled n s)"
| "idle_step (N_resumed n) s = (if n_live s n = None then s else notification_resumed n s)"
| "idle_step (N_failed p) s =
     (case List.find (\<lambda>x. po_power x = Some p) (n_outputs s) of None \<Rightarrow> s | Some x \<Rightarrow> power_failed p x s)"
| "idle_step (N_watch i t input_only callback mem) s = idle_watch i t input_only callback mem s"
| "idle_step (N_unwatch i) s = idle_unwatch i s"
| "idle_step (N_power b) s = output_power_set b s"

section \<open>The invariant\<close>

definition watches_ok :: "idle_state \<Rightarrow> bool" where
  "watches_ok s \<longleftrightarrow> distinct (map iw_id (n_watches s)) \<and> distinct (map iw_notification (n_watches s)) \<and>
     dom (n_live s) = iw_notification ` set (n_watches s) \<and> (\<forall>w \<in> set (n_watches s). iw_notification w < n_next s)"

definition outputs_ok :: "idle_state \<Rightarrow> bool" where
  "outputs_ok s \<longleftrightarrow> distinct (map po_output (n_outputs s)) \<and> (\<forall>x \<in> set (n_outputs s). po_output x < n_next_output s) \<and>
     (\<forall>p \<in> dom (n_powers s). p < n_next_power s) \<and>
     (\<forall>x \<in> set (n_outputs s). \<forall>p. po_power x = Some p \<longrightarrow> (\<exists>m. n_powers s p = Some (po_output x, m)))"

definition idle_inv :: "idle_state \<Rightarrow> bool" where
  "idle_inv s \<longleftrightarrow> watches_ok s \<and> outputs_ok s \<and> \<not> n_fault s"

lemma find_unique_key:
  "distinct (map f xs) \<Longrightarrow> x \<in> set xs \<Longrightarrow> List.find (\<lambda>y. f y = f x) xs = Some x"
  by (induction xs) (auto simp: image_iff)

lemma find_key_None: "List.find (\<lambda>y. f y = k) xs = None \<longleftrightarrow> k \<notin> f ` set xs"
  by (auto simp: find_None_iff)

lemma find_key_Some: "List.find (\<lambda>y. f y = k) xs = Some x \<Longrightarrow> x \<in> set xs \<and> f x = k"
  by (auto simp: find_Some_iff)

lemma remove1_keys:
  assumes "distinct (map f xs)" and "x \<in> set xs"
  shows "set (remove1 x xs) = {y \<in> set xs. f y \<noteq> f x}" "distinct (map f (remove1 x xs))"
proof -
  have "distinct xs" using assms(1) by (simp add: distinct_map)
  then show "set (remove1 x xs) = {y \<in> set xs. f y \<noteq> f x}" using assms by (auto simp: distinct_map inj_on_def)
  show "distinct (map f (remove1 x xs))" using assms(1)
  proof (induction xs)
    case (Cons a xs)
    then show ?case using set_remove1_subset [of x xs] by auto
  qed simp
qed

lemma watch_find:
  assumes "watches_ok s" and "List.find (\<lambda>w. iw_id w = i) (n_watches s) = Some w"
  shows "w \<in> set (n_watches s)" "iw_id w = i" "set (remove1 w (n_watches s)) = {v \<in> set (n_watches s). iw_id v \<noteq> i}"
    "set (remove1 w (n_watches s)) = {v \<in> set (n_watches s). iw_notification v \<noteq> iw_notification w}"
    "distinct (map iw_id (remove1 w (n_watches s)))" "distinct (map iw_notification (remove1 w (n_watches s)))"
proof -
  have d: "distinct (map iw_id (n_watches s))" "distinct (map iw_notification (n_watches s))" using assms(1) by (simp_all add: watches_ok_def)
  show w: "w \<in> set (n_watches s)" "iw_id w = i" using find_key_Some [OF assms(2)] by simp_all
  show "set (remove1 w (n_watches s)) = {v \<in> set (n_watches s). iw_id v \<noteq> i}" "distinct (map iw_id (remove1 w (n_watches s)))"
    using remove1_keys [OF d(1) w(1)] w(2) by simp_all
  show "set (remove1 w (n_watches s)) = {v \<in> set (n_watches s). iw_notification v \<noteq> iw_notification w}"
    "distinct (map iw_notification (remove1 w (n_watches s)))"
    using remove1_keys [OF d(2) w(1)] by simp_all
qed

lemma live_watch: "watches_ok s \<Longrightarrow> w \<in> set (n_watches s) \<Longrightarrow> \<exists>p. n_live s (iw_notification w) = Some p"
  unfolding watches_ok_def by blast

lemma unwatch_inv: "idle_inv s \<Longrightarrow> idle_inv (idle_unwatch i s)"
proof (cases "List.find (\<lambda>w. iw_id w = i) (n_watches s)")
  case (Some w)
  assume inv: "idle_inv s"
  then have ok: "watches_ok s" by (simp add: idle_inv_def)
  note f = watch_find [OF ok Some]
  obtain p where "n_live s (iw_notification w) = Some p" using live_watch [OF ok f(1)] by blast
  then show ?thesis using Some inv f by (auto simp: idle_unwatch_def idle_inv_def watches_ok_def outputs_ok_def)
qed (simp add: idle_unwatch_def)

lemma watch_new_inv:
  assumes "idle_inv s" and "i \<notin> iw_id ` set (n_watches s)"
  shows "idle_inv (s\<lparr>n_next := Suc (n_next s), n_live := (n_live s)(n_next s \<mapsto> p),
    n_watches := \<lparr>iw_id = i, iw_notification = n_next s, iw_callback = c\<rparr> # n_watches s\<rparr>)"
proof -
  have ok: "watches_ok s" using assms(1) by (simp add: idle_inv_def)
  then have "n_next s \<notin> iw_notification ` set (n_watches s)" by (auto simp: watches_ok_def)
  then show ?thesis using assms ok by (auto simp: idle_inv_def watches_ok_def outputs_ok_def less_Suc_eq)
qed

lemma unwatch_ids: "watches_ok s \<Longrightarrow> i \<notin> iw_id ` set (n_watches (idle_unwatch i s))"
proof (cases "List.find (\<lambda>w. iw_id w = i) (n_watches s)")
  case None
  then have "idle_unwatch i s = s" by (simp add: idle_unwatch_def)
  then show ?thesis using None unfolding find_key_None by simp
next
  case (Some w)
  assume "watches_ok s"
  from watch_find(3) [OF this Some] show ?thesis using Some by (auto simp: idle_unwatch_def)
qed

lemma watch_inv: "idle_inv s \<Longrightarrow> idle_inv (idle_watch i t io c mem s)"
proof -
  assume inv: "idle_inv s"
  then have "i \<notin> iw_id ` set (n_watches (idle_unwatch i s))" using unwatch_ids by (simp add: idle_inv_def)
  then show ?thesis using watch_new_inv [OF unwatch_inv [OF inv]] unwatch_inv [OF inv] by (simp add: idle_watch_def Let_def)
qed

lemma tell_inv: "idle_inv s \<Longrightarrow> n_live s n \<noteq> None \<Longrightarrow> idle_inv (tell_watch n b s)"
proof -
  assume inv: "idle_inv s" "n_live s n \<noteq> None"
  then have "n \<in> iw_notification ` set (n_watches s)" unfolding idle_inv_def watches_ok_def by blast
  then have "List.find (\<lambda>w. iw_notification w = n) (n_watches s) \<noteq> None" by (simp only: find_key_None not_not)
  then obtain w where "List.find (\<lambda>w. iw_notification w = n) (n_watches s) = Some w" by blast
  moreover have "idle_inv (s\<lparr>n_told := l\<rparr>)" for l using inv(1) by (simp add: idle_inv_def watches_ok_def outputs_ok_def)
  ultimately show ?thesis using inv(1) by (simp add: tell_watch_def)
qed

text \<open>An output as it is in the list, whatever was done to the others.\<close>

lemma put_power_set:
  assumes "distinct (map po_output (n_outputs s))" and "x \<in> set (n_outputs s)"
  shows "set (n_outputs (put_power (po_output x) p s)) = insert (x\<lparr>po_power := p\<rparr>) {y \<in> set (n_outputs s). po_output y \<noteq> po_output x}"
    "map po_output (n_outputs (put_power (po_output x) p s)) = map po_output (n_outputs s)"
proof -
  have u: "y = x" if "y \<in> set (n_outputs s)" "po_output y = po_output x" for y using that assms by (auto simp: distinct_map inj_on_def)
  show "set (n_outputs (put_power (po_output x) p s)) = insert (x\<lparr>po_power := p\<rparr>) {y \<in> set (n_outputs s). po_output y \<noteq> po_output x}"
    using u assms(2) by (auto simp: put_power_def image_iff)
  show "map po_output (n_outputs (put_power (po_output x) p s)) = map po_output (n_outputs s)" by (simp add: put_power_def)
qed

text \<open>An output whose power object was last told \<open>b\<close>.\<close>

definition powered :: "bool \<Rightarrow> idle_state \<Rightarrow> nat \<Rightarrow> bool" where
  "powered b s x \<longleftrightarrow> (\<exists>y \<in> set (n_outputs s). po_output y = x \<and> (\<exists>p. po_power y = Some p \<and> n_powers s p = Some (x, Some b)))"

lemma poweredI: "y \<in> set (n_outputs s) \<Longrightarrow> po_output y = x \<Longrightarrow> po_power y = Some p \<Longrightarrow> n_powers s p = Some (x, Some b) \<Longrightarrow> powered b s x"
  unfolding powered_def by blast

lemma outputsD:
  assumes "outputs_ok s" and "x \<in> set (n_outputs s)" and "po_power x = Some p"
  obtains m where "n_powers s p = Some (po_output x, m)"
  using assms unfolding outputs_ok_def by blast

lemma apply_known:
  assumes "idle_inv s" and "x \<in> set (n_outputs s)" and "n_manager s" and "po_power x = Some p"
  shows "idle_inv (output_apply x s) \<and> powered (n_want_on s) (output_apply x s) (po_output x) \<and> n_outputs (output_apply x s) = n_outputs s \<and>
    (\<forall>z. powered b s z \<and> z \<noteq> po_output x \<longrightarrow> powered b (output_apply x s) z)"
proof -
  have ok: "outputs_ok s" using assms(1) by (simp add: idle_inv_def)
  obtain m where m: "n_powers s p = Some (po_output x, m)" by (rule outputsD [OF ok assms(2,4)])
  let ?t = "s\<lparr>n_powers := (n_powers s)(p \<mapsto> (po_output x, Some (n_want_on s)))\<rparr>"
  have t: "output_apply x s = ?t" using assms(1,3,4) m by (simp add: output_apply_def idle_inv_def)
  have "\<exists>m. n_powers ?t q = Some (po_output y, m)" if "y \<in> set (n_outputs s)" "po_power y = Some q" for y q
  proof (cases "q = p")
    case True
    then show ?thesis using outputsD [OF ok that] m by auto
  next
    case False
    then show ?thesis using outputsD [OF ok that] by auto
  qed
  then have "outputs_ok ?t" using ok m by (auto simp: outputs_ok_def)
  then have "idle_inv ?t" using assms(1) by (simp add: idle_inv_def watches_ok_def)
  moreover have "powered (n_want_on s) ?t (po_output x)" by (rule poweredI [of x _ _ p]) (use assms(2,4) in simp_all)
  moreover have "powered b ?t z" if "powered b s z" "z \<noteq> po_output x" for z
    using that m unfolding powered_def by fastforce
  ultimately show ?thesis unfolding t by simp
qed

lemma apply_new:
  assumes "idle_inv s" and "x \<in> set (n_outputs s)" and "n_manager s" and "po_power x = None"
  shows "idle_inv (output_apply x s) \<and> powered (n_want_on s) (output_apply x s) (po_output x) \<and>
    set (n_outputs (output_apply x s)) = insert (x\<lparr>po_power := Some (n_next_power s)\<rparr>) {y \<in> set (n_outputs s). po_output y \<noteq> po_output x} \<and>
    (\<forall>z. powered b s z \<and> z \<noteq> po_output x \<longrightarrow> powered b (output_apply x s) z)"
proof -
  have ok: "outputs_ok s" using assms(1) by (simp add: idle_inv_def)
  then have d: "distinct (map po_output (n_outputs s))" by (simp add: outputs_ok_def)
  let ?p = "n_next_power s"
  let ?t = "(put_power (po_output x) (Some ?p) s)\<lparr>n_next_power := Suc ?p, n_powers := (n_powers s)(?p \<mapsto> (po_output x, Some (n_want_on s)))\<rparr>"
  have t: "output_apply x s = ?t" using assms(3,4) by (simp add: output_apply_def Let_def)
  have outs: "set (n_outputs ?t) = insert (x\<lparr>po_power := Some ?p\<rparr>) {y \<in> set (n_outputs s). po_output y \<noteq> po_output x}"
    "map po_output (n_outputs ?t) = map po_output (n_outputs s)" using put_power_set [OF d assms(2)] by simp_all
  have fresh: "n_powers s ?p = None" using ok unfolding outputs_ok_def by (metis domIff less_irrefl)
  have same: "n_watches ?t = n_watches s" "n_live ?t = n_live s" "n_next ?t = n_next s" "n_fault ?t = n_fault s" "n_next_output ?t = n_next_output s"
    by (simp_all add: put_power_def)
  have pw: "\<exists>m. n_powers ?t q = Some (po_output y, m)" if y: "y \<in> set (n_outputs ?t)" "po_power y = Some q" for y q
  proof (cases "y = x\<lparr>po_power := Some ?p\<rparr>")
    case True
    then show ?thesis using y(2) by simp
  next
    case False
    then have "y \<in> set (n_outputs s)" using y(1) unfolding outs by simp
    then obtain m where "n_powers s q = Some (po_output y, m)" by (rule outputsD [OF ok _ y(2)])
    then show ?thesis using fresh by auto
  qed
  have dm: "\<forall>q \<in> dom (n_powers ?t). q < n_next_power ?t" using ok by (auto simp: outputs_ok_def less_Suc_eq)
  have lt: "\<forall>y \<in> set (n_outputs ?t). po_output y < n_next_output ?t" unfolding outs same using ok assms(2) by (auto simp: outputs_ok_def)
  have "distinct (map po_output (n_outputs ?t))" using outs(2) d by simp
  then have "outputs_ok ?t" unfolding outputs_ok_def using pw dm lt by blast
  moreover have "watches_ok ?t" "\<not> n_fault ?t" using assms(1) unfolding idle_inv_def watches_ok_def same by simp_all
  ultimately have "idle_inv ?t" by (simp add: idle_inv_def)
  moreover have "powered (n_want_on s) ?t (po_output x)"
    by (rule poweredI [of "x\<lparr>po_power := Some ?p\<rparr>" _ _ ?p]) (unfold outs, simp_all)
  moreover have "powered b ?t z" if z: "powered b s z" "z \<noteq> po_output x" for z
  proof -
    obtain y p where y: "y \<in> set (n_outputs s)" "po_output y = z" "po_power y = Some p" "n_powers s p = Some (z, Some b)"
      using z(1) unfolding powered_def by blast
    show ?thesis by (rule poweredI [of y _ _ p]) (unfold outs, use y z(2) fresh in auto)
  qed
  ultimately show ?thesis unfolding t using outs(1) by blast
qed

lemma apply_fields: "n_manager (output_apply x s) = n_manager s" "n_want_on (output_apply x s) = n_want_on s"
  "n_watches (output_apply x s) = n_watches s" "n_live (output_apply x s) = n_live s" "n_seat (output_apply x s) = n_seat s"
  "n_notifier (output_apply x s) = n_notifier s" "n_version (output_apply x s) = n_version s" "n_registry (output_apply x s) = n_registry s"
  by (simp_all add: output_apply_def put_power_def Let_def split: option.split)

lemma apply_all:
  "idle_inv s \<Longrightarrow> n_manager s \<Longrightarrow> distinct (map po_output xs) \<Longrightarrow> set xs \<subseteq> set (n_outputs s) \<Longrightarrow>
   idle_inv (fold output_apply xs s) \<and> (\<forall>x \<in> set xs. powered (n_want_on s) (fold output_apply xs s) (po_output x)) \<and>
   (\<forall>z. powered (n_want_on s) s z \<and> z \<notin> po_output ` set xs \<longrightarrow> powered (n_want_on s) (fold output_apply xs s) z)"
proof (induction xs arbitrary: s)
  case (Cons x xs)
  let ?t = "output_apply x s"
  have x: "x \<in> set (n_outputs s)" using Cons.prems(4) by simp
  have t: "idle_inv ?t" "powered (n_want_on s) ?t (po_output x)" "\<forall>z. powered (n_want_on s) s z \<and> z \<noteq> po_output x \<longrightarrow> powered (n_want_on s) ?t z"
    "\<forall>y \<in> set (n_outputs s). po_output y \<noteq> po_output x \<longrightarrow> y \<in> set (n_outputs ?t)"
    using apply_known [OF Cons.prems(1) x Cons.prems(2), of _ "n_want_on s"] apply_new [OF Cons.prems(1) x Cons.prems(2), of "n_want_on s"]
    by (cases "po_power x"; simp)+
  have sub: "set xs \<subseteq> set (n_outputs ?t)" using t(4) Cons.prems(3,4) by (force simp: image_iff)
  have d: "distinct (map po_output xs)" "po_output x \<notin> po_output ` set xs" using Cons.prems(3) by simp_all
  have m: "n_manager ?t" "n_want_on ?t = n_want_on s" using Cons.prems(2) by (simp_all add: apply_fields)
  from Cons.IH [OF t(1) m(1) d(1) sub] show ?case using t(2,3) d(2) m(2) by auto
qed simp

lemma power_set_effect:
  assumes "idle_inv s"
  shows "idle_inv (output_power_set b s)" "n_manager s \<Longrightarrow> x \<in> set (n_outputs s) \<Longrightarrow> powered b (output_power_set b s) (po_output x)"
proof -
  let ?s = "s\<lparr>n_want_on := b\<rparr>"
  have inv: "idle_inv ?s" using assms by (simp add: idle_inv_def watches_ok_def outputs_ok_def)
  have d: "distinct (map po_output (n_outputs s))" using assms by (simp add: idle_inv_def outputs_ok_def)
  have off: "fold output_apply xs t = t" if "\<not> n_manager t" for xs t using that by (induction xs) (simp_all add: output_apply_def)
  show "idle_inv (output_power_set b s)"
    using apply_all [OF inv _ d] inv off [of ?s] by (cases "n_manager s") (simp_all add: output_power_set_def)
  show "powered b (output_power_set b s) (po_output x)" if "n_manager s" "x \<in> set (n_outputs s)"
    using apply_all [OF inv _ d] that by (simp add: output_power_set_def)
qed

lemma drop_power_ok:
  assumes "idle_inv s" and "x \<in> set (n_outputs s)" and "po_power x = Some p" and "set xs \<subseteq> set (n_outputs s)"
    and "distinct (map po_output xs)" and "\<forall>y \<in> set xs. po_power y \<noteq> Some p"
  shows "idle_inv (s\<lparr>n_outputs := xs, n_fault := n_fault s \<or> n_powers s p = None, n_powers := (n_powers s)(p := None)\<rparr>)"
proof -
  have ok: "outputs_ok s" using assms(1) by (simp add: idle_inv_def)
  obtain m where "n_powers s p = Some (po_output x, m)" by (rule outputsD [OF ok assms(2,3)])
  then show ?thesis using assms(1,4-6) by (auto simp: idle_inv_def watches_ok_def outputs_ok_def)
qed

lemma powers_distinct:
  assumes "outputs_ok s" and "x \<in> set (n_outputs s)" and "y \<in> set (n_outputs s)" and "po_power x = Some p" and "po_power y = Some p"
  shows "y = x"
proof -
  obtain m where "n_powers s p = Some (po_output x, m)" by (rule outputsD [OF assms(1,2,4)])
  moreover obtain k where "n_powers s p = Some (po_output y, k)" by (rule outputsD [OF assms(1,3,5)])
  ultimately show ?thesis using assms(1-3) by (auto simp: outputs_ok_def distinct_map inj_on_def)
qed

lemma failed_inv:
  assumes "idle_inv s" and "x \<in> set (n_outputs s)" and "po_power x = Some p"
  shows "idle_inv (power_failed p x s)"
proof -
  have ok: "outputs_ok s" using assms(1) by (simp add: idle_inv_def)
  then have d: "distinct (map po_output (n_outputs s))" by (simp add: outputs_ok_def)
  let ?t = "put_power (po_output x) None s"
  have outs: "set (n_outputs ?t) = insert (x\<lparr>po_power := None\<rparr>) {y \<in> set (n_outputs s). po_output y \<noteq> po_output x}"
    "map po_output (n_outputs ?t) = map po_output (n_outputs s)" using put_power_set [OF d assms(2)] by simp_all
  obtain m where m: "n_powers s p = Some (po_output x, m)" by (rule outputsD [OF ok assms(2,3)])
  let ?u = "s\<lparr>n_outputs := n_outputs ?t, n_powers := (n_powers s)(p := None)\<rparr>"
  have "\<exists>k. n_powers ?u q = Some (po_output y, k)" if y: "y \<in> set (n_outputs ?t)" "po_power y = Some q" for y q
  proof -
    have in_s: "y \<in> set (n_outputs s)" "po_output y \<noteq> po_output x" using y unfolding outs by auto
    obtain k where "n_powers s q = Some (po_output y, k)" by (rule outputsD [OF ok in_s(1) y(2)])
    then show ?thesis using m in_s(2) by auto
  qed
  moreover have "\<forall>y \<in> set (n_outputs ?t). po_output y < n_next_output s" unfolding outs using ok assms(2) by (auto simp: outputs_ok_def)
  moreover have "distinct (map po_output (n_outputs ?t))" using outs(2) d by simp
  ultimately have "outputs_ok ?u" using ok by (simp add: outputs_ok_def)
  then have "idle_inv ?u" using assms(1) by (simp add: idle_inv_def watches_ok_def)
  moreover have "power_failed p x s = ?u" using m assms(1) by (simp add: power_failed_def put_power_def idle_inv_def)
  ultimately show ?thesis by simp
qed

lemma remove_inv: "idle_inv s \<Longrightarrow> idle_inv (registry_global_remove name s)"
proof (cases "List.find (\<lambda>x. po_name x = name) (n_outputs s)")
  case (Some x)
  assume inv: "idle_inv s"
  then have ok: "outputs_ok s" by (simp add: idle_inv_def)
  have x: "x \<in> set (n_outputs s)" using find_key_Some [OF Some] by simp
  have d: "distinct (map po_output (n_outputs s))" using ok by (simp add: outputs_ok_def)
  note r = remove1_keys [OF d x]
  have sub: "set (remove1 x (n_outputs s)) \<subseteq> set (n_outputs s)" by (rule set_remove1_subset)
  show ?thesis
  proof (cases "po_power x")
    case None
    have "idle_inv (s\<lparr>n_outputs := remove1 x (n_outputs s)\<rparr>)" using inv r(2) sub by (auto simp: idle_inv_def watches_ok_def outputs_ok_def)
    then show ?thesis using Some None by (simp add: registry_global_remove_def Let_def)
  next
    case (Some p)
    have "\<forall>y \<in> set (remove1 x (n_outputs s)). po_power y \<noteq> Some p"
    proof (intro ballI notI)
      fix y
      assume y: "y \<in> set (remove1 x (n_outputs s))" "po_power y = Some p"
      then have "y = x" using powers_distinct [OF ok x _ Some y(2)] sub by blast
      then show False using y(1) unfolding r(1) by simp
    qed
    from drop_power_ok [OF inv x Some sub r(2) this] show ?thesis
      using \<open>List.find (\<lambda>x. po_name x = name) (n_outputs s) = Some x\<close> Some by (simp add: registry_global_remove_def Let_def)
  qed
qed (simp add: registry_global_remove_def)

lemma global_inv: "idle_inv s \<Longrightarrow> idle_inv (registry_global g s)"
  by (cases g) (force simp: idle_inv_def watches_ok_def outputs_ok_def less_Suc_eq)+

lemma globals_inv: "idle_inv s \<Longrightarrow> idle_inv (fold registry_global gs s)"
  by (induction gs arbitrary: s) (simp_all add: global_inv)

lemma init_inv: "idle_inv s \<Longrightarrow> idle_inv (snd (idle_init w gs s))"
proof -
  assume inv: "idle_inv s"
  then have "idle_inv (s\<lparr>n_display := True, n_want_on := True, n_registry := True\<rparr>)" by (simp add: idle_inv_def watches_ok_def outputs_ok_def)
  then show ?thesis using inv globals_inv by (simp add: idle_init_def Let_def)
qed

lemma idle_step_inv: "idle_inv s \<Longrightarrow> idle_inv (idle_step e s)"
proof (cases e)
  case (N_failed p)
  assume "idle_inv s"
  then show ?thesis using N_failed failed_inv [of s _ p] find_key_Some [of po_power "Some p" "n_outputs s"]
    by (auto split: option.split)
qed (simp_all add: init_inv global_inv remove_inv tell_inv notification_idled_def notification_resumed_def watch_inv unwatch_inv power_set_effect(1))

section \<open>The specification\<close>

text \<open>What the client asked for: for each id the timeout, whether only input counts, and whether a callback is told.\<close>

record idle_view =
  iv_registry :: bool
  iv_seat :: bool
  iv_notifier :: bool
  iv_v2 :: bool
  iv_watched :: "int \<rightharpoonup> nat \<times> bool \<times> bool"

fun view_global :: "idle_global \<Rightarrow> idle_view \<Rightarrow> idle_view" where
  "view_global (Gl_notifier version) v = v\<lparr>iv_notifier := True, iv_v2 := (version \<ge> 2)\<rparr>"
| "view_global Gl_seat v = v\<lparr>iv_seat := True\<rparr>"
| "view_global _ v = v"

fun view_step :: "idle_event \<Rightarrow> idle_view \<Rightarrow> idle_view" where
  "view_step (N_init wayland gs) v = (if iv_registry v \<or> \<not> wayland then v else fold view_global gs (v\<lparr>iv_registry := True\<rparr>))"
| "view_step (N_global g) v = (if iv_registry v then view_global g v else v)"
| "view_step (N_watch i t input_only callback mem) v =
     v\<lparr>iv_watched := (iv_watched v)(i := (if iv_notifier v \<and> iv_seat v \<and> mem then Some (t, input_only \<and> iv_v2 v, callback) else None))\<rparr>"
| "view_step (N_unwatch i) v = v\<lparr>iv_watched := (iv_watched v)(i := None)\<rparr>"
| "view_step _ v = v"

definition watched_in :: "idle_watch list \<Rightarrow> (nat \<rightharpoonup> nat \<times> bool) \<Rightarrow> int \<Rightarrow> (nat \<times> bool \<times> bool) option" where
  "watched_in ws live i =
     (case List.find (\<lambda>w. iw_id w = i) ws of
        None \<Rightarrow> None
      | Some w \<Rightarrow> (case live (iw_notification w) of None \<Rightarrow> None | Some (t, k) \<Rightarrow> Some (t, k, iw_callback w)))"

definition watched :: "idle_state \<Rightarrow> int \<Rightarrow> (nat \<times> bool \<times> bool) option" where
  "watched s = watched_in (n_watches s) (n_live s)"

definition idle_abs :: "idle_state \<Rightarrow> idle_view" where
  "idle_abs s = \<lparr>iv_registry = n_registry s, iv_seat = n_seat s, iv_notifier = n_notifier s, iv_v2 = (n_version s \<ge> 2), iv_watched = watched s\<rparr>"

lemma watched_cong: "n_watches t = n_watches s \<Longrightarrow> n_live t = n_live s \<Longrightarrow> watched t = watched s"
  by (simp add: watched_def)

lemma find_other: "\<not> P x \<Longrightarrow> List.find P (remove1 x xs) = List.find P xs"
  by (induction xs) auto

lemma find_remove1:
  assumes "distinct (map f xs)" and "List.find (\<lambda>y. f y = k) xs = Some x"
  shows "List.find (\<lambda>y. f y = i) (remove1 x xs) = (if i = k then None else List.find (\<lambda>y. f y = i) xs)"
proof -
  have x: "x \<in> set xs" "f x = k" using find_key_Some [OF assms(2)] by simp_all
  show ?thesis
  proof (cases "i = k")
    case True
    have "k \<notin> f ` set (remove1 x xs)" unfolding remove1_keys(1) [OF assms(1) x(1)] x(2) by blast
    then have "i \<notin> f ` set (remove1 x xs)" unfolding True .
    then have "List.find (\<lambda>y. f y = i) (remove1 x xs) = None" unfolding find_key_None .
    then show ?thesis using True by simp
  next
    case False
    have "List.find (\<lambda>y. f y = i) (remove1 x xs) = List.find (\<lambda>y. f y = i) xs"
      by (rule find_other) (use x(2) False in blast)
    then show ?thesis using False by simp
  qed
qed

lemma unwatch_watched: "idle_inv s \<Longrightarrow> watched (idle_unwatch i s) = (watched s)(i := None)"
proof (cases "List.find (\<lambda>w. iw_id w = i) (n_watches s)")
  case None
  then show ?thesis by (auto simp: idle_unwatch_def watched_def watched_in_def)
next
  case (Some w)
  assume "idle_inv s"
  then have ok: "watches_ok s" by (simp add: idle_inv_def)
  then have d: "distinct (map iw_id (n_watches s))" by (simp add: watches_ok_def)
  note f = watch_find [OF ok Some]
  have "watched (idle_unwatch i s) k = ((watched s)(i := None)) k" for k
  proof (cases "k = i")
    case True
    then show ?thesis using Some find_remove1 [OF d Some, of k] by (simp add: idle_unwatch_def watched_def watched_in_def)
  next
    case False
    have "iw_notification v \<noteq> iw_notification w" if "List.find (\<lambda>w. iw_id w = k) (n_watches s) = Some v" for v
    proof -
      have "v \<in> set (remove1 w (n_watches s))" using find_key_Some [OF that] False unfolding f(3) by auto
      then show ?thesis unfolding f(4) by simp
    qed
    then show ?thesis using False Some find_remove1 [OF d Some, of k] by (simp add: idle_unwatch_def watched_def watched_in_def split: option.split)
  qed
  then show ?thesis by blast
qed

lemma unwatch_fields: "n_notifier (idle_unwatch i s) = n_notifier s" "n_seat (idle_unwatch i s) = n_seat s" "n_version (idle_unwatch i s) = n_version s"
    "n_registry (idle_unwatch i s) = n_registry s"
  by (simp_all add: idle_unwatch_def split: option.split)

lemma watch_watched:
  assumes "idle_inv s"
  shows "watched (idle_watch i t io c mem s) =
    (watched s)(i := (if n_notifier s \<and> n_seat s \<and> mem then Some (t, io \<and> n_version s \<ge> 2, c) else None))"
proof -
  let ?u = "idle_unwatch i s"
  have ok: "watches_ok ?u" using unwatch_inv [OF assms] by (simp add: idle_inv_def)
  have "iw_notification w \<noteq> n_next ?u" if "List.find (\<lambda>w. iw_id w = k) (n_watches ?u) = Some w" for k w
    using find_key_Some [OF that] ok by (auto simp: watches_ok_def)
  then have "watched (?u\<lparr>n_next := Suc (n_next ?u), n_live := (n_live ?u)(n_next ?u \<mapsto> (t, io \<and> n_version ?u \<ge> 2)),
      n_watches := \<lparr>iw_id = i, iw_notification = n_next ?u, iw_callback = c\<rparr> # n_watches ?u\<rparr>) = (watched ?u)(i \<mapsto> (t, io \<and> n_version ?u \<ge> 2, c))"
    by (auto simp: watched_def watched_in_def split: option.split)
  then show ?thesis using unwatch_watched [OF assms, of i] by (simp add: idle_watch_def Let_def unwatch_fields)
qed

lemma global_abs: "idle_abs (registry_global g s) = view_global g (idle_abs s)"
  by (cases g) (simp_all add: idle_abs_def watched_def)

lemma globals_abs: "idle_abs (fold registry_global gs s) = fold view_global gs (idle_abs s)"
  by (induction gs arbitrary: s) (simp_all add: global_abs)

lemma power_all_fields: "n_watches (fold output_apply xs s) = n_watches s \<and> n_live (fold output_apply xs s) = n_live s \<and> n_seat (fold output_apply xs s) = n_seat s \<and>
    n_notifier (fold output_apply xs s) = n_notifier s \<and> n_version (fold output_apply xs s) = n_version s \<and> n_registry (fold output_apply xs s) = n_registry s"
  by (induction xs arbitrary: s) (simp_all add: apply_fields)

lemma abs_cong: "n_watches t = n_watches s \<Longrightarrow> n_live t = n_live s \<Longrightarrow> n_seat t = n_seat s \<Longrightarrow> n_notifier t = n_notifier s \<Longrightarrow>
    n_version t = n_version s \<Longrightarrow> n_registry t = n_registry s \<Longrightarrow> idle_abs t = idle_abs s"
  using watched_cong [of t s] by (simp add: idle_abs_def)

lemma idle_step_abs: "idle_inv s \<Longrightarrow> idle_abs (idle_step e s) = view_step e (idle_abs s)"
proof (cases e)
  case (N_init w gs)
  have "idle_abs (s\<lparr>n_display := True, n_want_on := True, n_registry := True\<rparr>) = (idle_abs s)\<lparr>iv_registry := True\<rparr>"
    by (simp add: idle_abs_def watched_def)
  then show ?thesis using N_init by (simp add: idle_init_def globals_abs Let_def) (simp add: idle_abs_def)
next
  case (N_global g)
  then show ?thesis by (simp add: global_abs) (simp add: idle_abs_def)
next
  case (N_watch i t io c mem)
  assume "idle_inv s"
  then show ?thesis using N_watch watch_watched [of s i t io c mem]
    by (simp add: idle_abs_def) (simp add: idle_watch_def unwatch_fields Let_def)
next
  case (N_unwatch i)
  assume "idle_inv s"
  then show ?thesis using N_unwatch unwatch_watched by (simp add: idle_abs_def unwatch_fields)
next
  case (N_remove name)
  have "idle_abs (registry_global_remove name s) = idle_abs s"
    by (rule abs_cong) (simp_all add: registry_global_remove_def Let_def split: option.split)
  then show ?thesis using N_remove by simp
next
  case (N_power b)
  have "idle_abs (output_power_set b s) = idle_abs s"
    by (rule abs_cong) (simp_all add: output_power_set_def power_all_fields)
  then show ?thesis using N_power by simp
next
  case (N_idled n)
  have "idle_abs (tell_watch n b s) = idle_abs s" for b by (rule abs_cong) (simp_all add: tell_watch_def split: option.split)
  then show ?thesis using N_idled by (simp add: notification_idled_def)
next
  case (N_resumed n)
  have "idle_abs (tell_watch n b s) = idle_abs s" for b by (rule abs_cong) (simp_all add: tell_watch_def split: option.split)
  then show ?thesis using N_resumed by (simp add: notification_resumed_def)
next
  case (N_failed p)
  have "idle_abs (power_failed p x s) = idle_abs s" for x by (rule abs_cong) (simp_all add: power_failed_def put_power_def)
  then show ?thesis using N_failed by (simp split: option.split)
qed

interpretation idle: refinement idle_step idle_inv view_step idle_abs
  by unfold_locales (rule idle_step_inv idle_step_abs, assumption)+

lemma idle_start_inv: "idle_inv idle_init_state"
  by (simp add: idle_init_state_def idle_inv_def watches_ok_def outputs_ok_def)

section \<open>Properties\<close>

definition view_start :: idle_view where
  "view_start = \<lparr>iv_registry = False, iv_seat = False, iv_notifier = False, iv_v2 = False, iv_watched = Map.empty\<rparr>"

text \<open>
  C20: the watch list implements a map from ids to watches. For every order of calls and events the
  notifications that exist are exactly those of the current watches, each with the timeout and kind
  that was asked for last for its id, and no object is used after it was destroyed.
\<close>

theorem idle_refines_map:
  "idle_abs (fold idle_step es idle_init_state) = fold view_step es view_start \<and>
   dom (n_live (fold idle_step es idle_init_state)) = iw_notification ` set (n_watches (fold idle_step es idle_init_state)) \<and>
   distinct (map iw_id (n_watches (fold idle_step es idle_init_state))) \<and>
   \<not> n_fault (fold idle_step es idle_init_state)"
proof -
  have "idle_inv (fold idle_step es idle_init_state)" by (rule idle.run_inv [OF idle_start_inv])
  moreover have "idle_abs idle_init_state = view_start" by (simp add: idle_abs_def idle_init_state_def view_start_def watched_def watched_in_def fun_eq_iff)
  then have "idle_abs (fold idle_step es idle_init_state) = fold view_step es view_start"
    using idle.run_abs [OF idle_start_inv, of es] by simp
  ultimately show ?thesis by (simp add: idle_inv_def watches_ok_def)
qed

text \<open>
  Switching the displays reaches all of them: after any events, setting the power leaves every
  output the compositor announced, with power control, with a live power object whose last mode is
  the one asked for.
\<close>

theorem power_set_reaches_all:
  assumes "n_manager (fold idle_step es idle_init_state)" and "x \<in> set (n_outputs (fold idle_step es idle_init_state))"
  shows "powered b (fold idle_step (es @ [N_power b]) idle_init_state) (po_output x)"
  using power_set_effect(2) [OF idle.run_inv [OF idle_start_inv] assms] by simp

theorem power_set_reaches_all_witness:
  "powered False (fold idle_step ([N_init True [Gl_power_manager, Gl_output 7 True]] @ [N_power False]) idle_init_state) 0"
  using power_set_reaches_all [of "[N_init True [Gl_power_manager, Gl_output 7 True]]" "\<lparr>po_name = 7, po_output = 0, po_power = None\<rparr>" False]
  by (simp add: idle_init_def idle_init_state_def)

end
