(* ===== verification/Night_Light.thy ===== *)
theory Night_Light
  imports Complex_Main C_Prelude "HOL-Library.Word"
begin

text \<open>
  The night light of \<^verbatim>\<open>src/wayland/wayland_integration.c\<close>: colour temperatures, gamma ramps and the gamma
  controls of the outputs. Doubles are real numbers. \<open>g_tables\<close> is what the compositor knows of the
  controls that exist: the ramps set last, if any.
\<close>

section \<open>Ramps\<close>

text \<open>
  The weights of red, green and blue; \<open>None\<close> for a negative temperature, whose logarithm is not a number.
  At 0 the logarithm is minus infinity and the weight is cut to 0, as it is here.
\<close>

definition clamp01 :: "real \<Rightarrow> real" where
  "clamp01 x = (if x < 0 then 0 else if x > 1 then 1 else x)"

definition kelvin_to_rgb :: "int \<Rightarrow> (real \<times> real \<times> real) option" where
  "kelvin_to_rgb temp_k =
     (let t = real_of_int temp_k / 100;
          r = (if t \<le> 66 then 1 else (329.698727446 * (t - 60) powr (-0.1332047592)) / 255);
          g = (if t \<le> 66 then (99.4708025861 * ln t - 161.1195681661) / 255 else (288.1221695283 * (t - 60) powr (-0.0755148492)) / 255);
          b = (if t \<le> 66 then (if t \<le> 19 then 0 else (138.5177312231 * ln (t - 10) - 305.0447927307) / 255) else 1)
      in if temp_k < 0 then None else Some (clamp01 r, clamp01 g, clamp01 b))"

text \<open>
  A ramp; \<open>None\<close> for the size 1, where the fraction is 0 divided by 0, and for the colour that is not a
  number: converting either to an integer is undefined. Other conversions to 16 bits cut the fraction off.
\<close>

definition ramp :: "nat \<Rightarrow> real \<Rightarrow> 16 word list" where
  "ramp n w = map (\<lambda>i. word_of_int \<lfloor>65535 * (real i / real (n - 1)) * w\<rfloor>) [0..<n]"

definition fill_gamma_ramp :: "nat \<Rightarrow> (real \<times> real \<times> real) option \<Rightarrow> 16 word list option" where
  "fill_gamma_ramp n rgb =
     (if n = 1 then None
      else case rgb of None \<Rightarrow> None | Some (rw, gw, bw) \<Rightarrow> Some (ramp n rw @ ramp n gw @ ramp n bw))"

section \<open>Controls\<close>

datatype shm = No_file | No_map | Mapped

record gamma_output =
  go_output :: nat
  go_control :: "nat option"
  go_ramp_size :: nat

text \<open>What was set last: nothing, zeros (the file could not be mapped) or ramps.\<close>

datatype gamma_table = Unset | Zeros | Ramps "16 word list option"

record gamma_state =
  g_manager :: bool
  g_outputs :: "gamma_output list"
  g_pending :: int
  g_tables :: "nat \<rightharpoonup> gamma_table"
  g_next :: nat
  g_next_output :: nat
  g_fault :: bool

definition gamma_init :: gamma_state where
  "gamma_init = \<lparr>g_manager = False, g_outputs = [], g_pending = 0, g_tables = Map.empty, g_next = 0, g_next_output = 0, g_fault = False\<rparr>"

definition put_gamma :: "gamma_output \<Rightarrow> gamma_state \<Rightarrow> gamma_state" where
  "put_gamma x s = s\<lparr>g_outputs := map (\<lambda>y. if go_output y = go_output x then x else y) (g_outputs s)\<rparr>"

definition apply_temp_to_output :: "shm \<Rightarrow> gamma_output \<Rightarrow> int \<Rightarrow> gamma_state \<Rightarrow> gamma_state" where
  "apply_temp_to_output m x temp_k s =
     (case go_control x of
        None \<Rightarrow> s
      | Some c \<Rightarrow>
          if go_ramp_size x = 0 \<or> m = No_file then s
          else s\<lparr>g_fault := g_fault s \<or> g_tables s c = None,
                 g_tables := (g_tables s)(c \<mapsto> (if m = No_map then Zeros else Ramps (fill_gamma_ramp (go_ramp_size x) (kelvin_to_rgb temp_k))))\<rparr>)"

definition new_control :: "gamma_output \<Rightarrow> nat \<Rightarrow> gamma_state \<Rightarrow> gamma_state" where
  "new_control x n s =
     (put_gamma (x\<lparr>go_control := Some (g_next s), go_ramp_size := n\<rparr>) s)
       \<lparr>g_next := Suc (g_next s), g_tables := (g_tables s)(g_next s \<mapsto> Unset)\<rparr>"

definition gamma_output_attach :: "gamma_output \<Rightarrow> gamma_state \<Rightarrow> gamma_state" where
  "gamma_output_attach x s = (if \<not> g_manager s \<or> go_control x \<noteq> None then s else new_control x (go_ramp_size x) s)"

definition gamma_control_gamma_size :: "shm \<Rightarrow> gamma_output \<Rightarrow> nat \<Rightarrow> gamma_state \<Rightarrow> gamma_state" where
  "gamma_control_gamma_size m x n s =
     (let x1 = x\<lparr>go_ramp_size := n\<rparr>; s1 = put_gamma x1 s
      in if g_pending s1 > 0 then apply_temp_to_output m x1 (g_pending s1) s1 else s1)"

definition destroy_control :: "gamma_output \<Rightarrow> gamma_state \<Rightarrow> gamma_state" where
  "destroy_control x s =
     (case go_control x of
        None \<Rightarrow> s
      | Some c \<Rightarrow> (put_gamma (x\<lparr>go_control := None, go_ramp_size := 0\<rparr>) s)
                   \<lparr>g_fault := g_fault s \<or> g_tables s c = None, g_tables := (g_tables s)(c := None)\<rparr>)"

definition gamma_control_failed :: "gamma_output \<Rightarrow> gamma_state \<Rightarrow> gamma_state" where
  "gamma_control_failed x s = destroy_control x s"

definition night_light_output :: "(nat \<Rightarrow> shm) \<Rightarrow> int \<Rightarrow> gamma_output \<Rightarrow> gamma_state \<Rightarrow> gamma_state" where
  "night_light_output ms temperature x s =
     (if go_control x = None \<and> g_manager s then new_control x 0 s
      else if go_control x \<noteq> None \<and> go_ramp_size x > 0 then apply_temp_to_output (ms (go_output x)) x temperature s
      else s)"

definition set_night_light :: "(nat \<Rightarrow> shm) \<Rightarrow> int \<Rightarrow> gamma_state \<Rightarrow> gamma_state" where
  "set_night_light ms temperature s =
     fold (night_light_output ms temperature) (g_outputs s) (s\<lparr>g_pending := temperature\<rparr>)"

definition reset_night_light :: "gamma_state \<Rightarrow> gamma_state" where
  "reset_night_light s = fold destroy_control (g_outputs s) (s\<lparr>g_pending := 0\<rparr>)"

text \<open>The branches of the registry for the gamma manager and for outputs.\<close>

definition registry_gamma_manager :: "gamma_state \<Rightarrow> gamma_state" where
  "registry_gamma_manager s = fold gamma_output_attach (g_outputs s) (s\<lparr>g_manager := True\<rparr>)"

definition registry_output :: "gamma_state \<Rightarrow> gamma_state" where
  "registry_output s =
     (let x = \<lparr>go_output = g_next_output s, go_control = None, go_ramp_size = 0\<rparr>
      in gamma_output_attach x (s\<lparr>g_next_output := Suc (g_next_output s), g_outputs := x # g_outputs s\<rparr>))"

datatype gamma_event =
    G_manager
  | G_output
  | G_size shm nat nat
  | G_failed nat
  | G_set "nat \<Rightarrow> shm" int
  | G_reset

text \<open>Events reach controls that exist.\<close>

definition control_output :: "nat \<Rightarrow> gamma_state \<Rightarrow> gamma_output option" where
  "control_output c s = List.find (\<lambda>x. go_control x = Some c) (g_outputs s)"

fun gamma_step :: "gamma_event \<Rightarrow> gamma_state \<Rightarrow> gamma_state" where
  "gamma_step G_manager s = registry_gamma_manager s"
| "gamma_step G_output s = registry_output s"
| "gamma_step (G_size m c n) s = (case control_output c s of None \<Rightarrow> s | Some x \<Rightarrow> gamma_control_gamma_size m x n s)"
| "gamma_step (G_failed c) s = (case control_output c s of None \<Rightarrow> s | Some x \<Rightarrow> gamma_control_failed x s)"
| "gamma_step (G_set ms t) s = set_night_light ms t s"
| "gamma_step G_reset s = reset_night_light s"

section \<open>Ramps are right\<close>

lemma clamp01_range: "0 \<le> clamp01 x" "clamp01 x \<le> 1"
  by (simp_all add: clamp01_def)

lemma rgb_range:
  assumes "kelvin_to_rgb k = Some (r, g, b)"
  shows "0 \<le> r \<and> r \<le> 1 \<and> 0 \<le> g \<and> g \<le> 1 \<and> 0 \<le> b \<and> b \<le> 1"
  using assms clamp01_range by (auto simp: kelvin_to_rgb_def Let_def split: if_splits)

lemma ramp_value:
  assumes "0 \<le> w" and "w \<le> 1" and "i < n" and "n > 1"
  shows "uint (ramp n w ! i) = \<lfloor>65535 * (real i / real (n - 1)) * w\<rfloor>" "\<lfloor>65535 * (real i / real (n - 1)) * w\<rfloor> \<le> 65535"
proof -
  let ?x = "65535 * (real i / real (n - 1)) * w"
  have q: "0 \<le> real i / real (n - 1)" "real i / real (n - 1) \<le> 1" using assms(3,4) by simp_all
  then have "real i / real (n - 1) * w \<le> 1 * 1" using assms(1,2) by (intro mult_mono) simp_all
  then have x: "0 \<le> ?x" "?x \<le> 65535" using q(1) assms(1) by simp_all
  then have f: "0 \<le> \<lfloor>?x\<rfloor>" "\<lfloor>?x\<rfloor> \<le> 65535" by (simp_all add: floor_le_iff)
  then show "\<lfloor>?x\<rfloor> \<le> 65535" by simp
  show "uint (ramp n w ! i) = \<lfloor>?x\<rfloor>" using assms(3) f by (simp add: ramp_def uint_word_of_int take_bit_int_eq_self_iff mod_pos_pos_trivial)
qed

lemma floor_steps: "x \<le> y \<Longrightarrow> \<lfloor>x\<rfloor> \<le> \<lfloor>y :: real\<rfloor>"
  by (rule floor_mono)

lemma ramp_steps:
  assumes "0 \<le> w" and "w \<le> 1" and "i \<le> j" and "j < n" and "n > 1"
  shows "uint (ramp n w ! i) \<le> uint (ramp n w ! j)" "uint (ramp n w ! 0) = 0" "uint (ramp n w ! (n - 1)) = \<lfloor>65535 * w\<rfloor>"
proof -
  have "real i / real (n - 1) \<le> real j / real (n - 1)" using assms(3) by (simp add: divide_right_mono)
  then have "65535 * (real i / real (n - 1)) * w \<le> 65535 * (real j / real (n - 1)) * w"
    using assms(1) by (intro mult_right_mono mult_left_mono) simp_all
  then show "uint (ramp n w ! i) \<le> uint (ramp n w ! j)"
    using ramp_value(1) [OF assms(1,2) _ assms(5)] assms(3,4) floor_mono by simp
  show "uint (ramp n w ! 0) = 0" using ramp_value(1) [OF assms(1,2) _ assms(5), of 0] assms(5) by simp
  show "uint (ramp n w ! (n - 1)) = \<lfloor>65535 * w\<rfloor>"
    using ramp_value(1) [OF assms(1,2) _ assms(5), of "n - 1"] assms(5) by simp
qed

section \<open>The invariant\<close>

definition gamma_ok :: "gamma_state \<Rightarrow> bool" where
  "gamma_ok s \<longleftrightarrow> distinct (map go_output (g_outputs s)) \<and> (\<forall>x \<in> set (g_outputs s). go_output x < g_next_output s) \<and>
     (\<forall>x \<in> set (g_outputs s). \<forall>y \<in> set (g_outputs s). go_control x = go_control y \<and> go_control x \<noteq> None \<longrightarrow> x = y) \<and>
     (\<forall>c. g_tables s c \<noteq> None \<longleftrightarrow> Some c \<in> go_control ` set (g_outputs s)) \<and> (\<forall>c. g_tables s c \<noteq> None \<longrightarrow> c < g_next s) \<and> \<not> g_fault s"

text \<open>An output shows the temperature \<open>T\<close> when its control exists and its size is known.\<close>

definition fine :: "int \<Rightarrow> gamma_state \<Rightarrow> gamma_output \<Rightarrow> bool" where
  "fine T s x \<longleftrightarrow> (go_control x = None \<longrightarrow> go_ramp_size x = 0) \<and>
     (\<forall>c. go_control x = Some c \<and> T > 0 \<and> go_ramp_size x > 0 \<longrightarrow>
        g_tables s c = Some (Ramps (fill_gamma_ramp (go_ramp_size x) (kelvin_to_rgb T))))"

lemma fine_quiet [simp]:
  "fine T (s\<lparr>g_pending := t\<rparr>) = fine T s" "fine T (s\<lparr>g_manager := b\<rparr>) = fine T s" "fine T (s\<lparr>g_outputs := xs\<rparr>) = fine T s"
  "fine T (s\<lparr>g_next_output := n\<rparr>) = fine T s"
  by (simp_all add: fine_def fun_eq_iff)

lemma gamma_ok_quiet [simp]: "gamma_ok (s\<lparr>g_pending := t\<rparr>) = gamma_ok s" "gamma_ok (s\<lparr>g_manager := b\<rparr>) = gamma_ok s"
  by (simp_all add: gamma_ok_def)

lemma put_gamma_set:
  assumes "distinct (map go_output (g_outputs s))" and "x \<in> set (g_outputs s)" and "go_output x' = go_output x"
  shows "set (g_outputs (put_gamma x' s)) = insert x' {y \<in> set (g_outputs s). go_output y \<noteq> go_output x}"
    "map go_output (g_outputs (put_gamma x' s)) = map go_output (g_outputs s)"
proof -
  show "set (g_outputs (put_gamma x' s)) = insert x' {y \<in> set (g_outputs s). go_output y \<noteq> go_output x}"
    using assms(2,3) by (auto simp: put_gamma_def image_iff)
  show "map go_output (g_outputs (put_gamma x' s)) = map go_output (g_outputs s)" using assms(3) by (simp add: put_gamma_def)
qed

lemma gamma_unique: "gamma_ok s \<Longrightarrow> x \<in> set (g_outputs s) \<Longrightarrow> y \<in> set (g_outputs s) \<Longrightarrow> go_output x = go_output y \<Longrightarrow> x = y"
  by (auto simp: gamma_ok_def distinct_map inj_on_def)

text \<open>
  A change of one output \<open>x\<close> to \<open>x'\<close>: its control is kept, made new, or destroyed; other tables stay as
  they are.
\<close>

definition control_moves :: "gamma_output \<Rightarrow> gamma_output \<Rightarrow> gamma_state \<Rightarrow> gamma_state \<Rightarrow> bool" where
  "control_moves x x' s t \<longleftrightarrow>
     (go_control x' = go_control x \<and> g_next t = g_next s \<and> (\<forall>c. g_tables t c \<noteq> None \<longleftrightarrow> g_tables s c \<noteq> None) \<and>
        (\<forall>c. go_control x \<noteq> Some c \<longrightarrow> g_tables t c = g_tables s c)) \<or>
     (go_control x = None \<and> go_control x' = Some (g_next s) \<and> g_next t = Suc (g_next s) \<and> (\<exists>v. g_tables t = (g_tables s)(g_next s \<mapsto> v))) \<or>
     (\<exists>c. go_control x = Some c \<and> go_control x' = None \<and> g_next t = g_next s \<and> g_tables t = (g_tables s)(c := None))"

lemma change_one:
  assumes "gamma_ok s" and "x \<in> set (g_outputs s)" and "go_output x' = go_output x" and "control_moves x x' s t"
    and "g_outputs t = g_outputs (put_gamma x' s)" and "g_next_output t = g_next_output s" and "\<not> g_fault t"
  shows "gamma_ok t \<and> set (g_outputs t) = insert x' {y \<in> set (g_outputs s). go_output y \<noteq> go_output x} \<and>
    (\<forall>T. \<forall>y \<in> set (g_outputs s). go_output y \<noteq> go_output x \<and> fine T s y \<longrightarrow> fine T t y)"
proof -
  have d: "distinct (map go_output (g_outputs s))" using assms(1) by (simp add: gamma_ok_def)
  note outs = put_gamma_set [OF d assms(2,3), folded assms(5)]
  have inj: "\<And>y z. y \<in> set (g_outputs s) \<Longrightarrow> z \<in> set (g_outputs s) \<Longrightarrow> go_control y = go_control z \<Longrightarrow> go_control y \<noteq> None \<Longrightarrow> y = z"
    and tabs: "\<And>c. g_tables s c \<noteq> None \<longleftrightarrow> Some c \<in> go_control ` set (g_outputs s)" and lt: "\<And>c. g_tables s c \<noteq> None \<Longrightarrow> c < g_next s"
    using assms(1) unfolding gamma_ok_def by blast+
  have fresh: "Some (g_next s) \<notin> go_control ` set (g_outputs s)" using lt tabs by (metis less_irrefl)
  have other: "go_control y \<noteq> go_control x \<or> go_control y = None" if "y \<in> set (g_outputs s)" "go_output y \<noteq> go_output x" for y
    using inj [OF that(1) assms(2)] that(2) by blast
  have split: "go_control ` set (g_outputs s) = insert (go_control x) (go_control ` {y \<in> set (g_outputs s). go_output y \<noteq> go_output x})"
    using assms(2) gamma_unique [OF assms(1)] by (auto simp: image_iff)
  have gone: "Some c \<notin> go_control ` {y \<in> set (g_outputs s). go_output y \<noteq> go_output x}" if "go_control x = Some c" for c
    using other that by force
  have img: "Some c \<in> go_control ` set (g_outputs t) \<longleftrightarrow>
      Some c = go_control x' \<or> Some c \<in> go_control ` {y \<in> set (g_outputs s). go_output y \<noteq> go_output x}" for c
    unfolding outs by simp
  have old: "g_tables s c \<noteq> None \<longleftrightarrow>
      Some c = go_control x \<or> Some c \<in> go_control ` {y \<in> set (g_outputs s). go_output y \<noteq> go_output x}" for c
    unfolding tabs split by simp
  have new_tabs: "\<forall>c. g_tables t c \<noteq> None \<longleftrightarrow> Some c \<in> go_control ` set (g_outputs t)"
    unfolding img using assms(4) unfolding control_moves_def
  proof (elim disjE conjE exE)
    assume "go_control x' = go_control x" "\<forall>c. g_tables t c \<noteq> None \<longleftrightarrow> g_tables s c \<noteq> None"
    then show "\<forall>c. g_tables t c \<noteq> None \<longleftrightarrow>
      Some c = go_control x' \<or> Some c \<in> go_control ` {y \<in> set (g_outputs s). go_output y \<noteq> go_output x}" using old by presburger
  next
    fix v
    assume a: "go_control x = None" "go_control x' = Some (g_next s)" "g_tables t = (g_tables s)(g_next s \<mapsto> v)"
    show "\<forall>c. g_tables t c \<noteq> None \<longleftrightarrow>
      Some c = go_control x' \<or> Some c \<in> go_control ` {y \<in> set (g_outputs s). go_output y \<noteq> go_output x}"
      using old a(1) unfolding a(2,3) fun_upd_apply by simp
  next
    fix d
    assume a: "go_control x = Some d" "go_control x' = None" "g_tables t = (g_tables s)(d := None)"
    show "\<forall>c. g_tables t c \<noteq> None \<longleftrightarrow>
      Some c = go_control x' \<or> Some c \<in> go_control ` {y \<in> set (g_outputs s). go_output y \<noteq> go_output x}"
      using old gone [OF a(1)] a(1) unfolding a(2,3) fun_upd_apply by (metis option.distinct(1) option.inject)
  qed
  moreover have "\<forall>c. g_tables t c \<noteq> None \<longrightarrow> c < g_next t"
    using assms(4) unfolding control_moves_def
  proof (elim disjE conjE exE)
    assume "g_next t = g_next s" "\<forall>c. g_tables t c \<noteq> None \<longleftrightarrow> g_tables s c \<noteq> None"
    then show "\<forall>c. g_tables t c \<noteq> None \<longrightarrow> c < g_next t" using lt by simp
  next
    fix v
    assume "g_next t = Suc (g_next s)" "g_tables t = (g_tables s)(g_next s \<mapsto> v)"
    then show "\<forall>c. g_tables t c \<noteq> None \<longrightarrow> c < g_next t" using lt less_SucI by (metis fun_upd_other lessI)
  next
    fix d
    assume "g_next t = g_next s" "g_tables t = (g_tables s)(d := None)"
    then show "\<forall>c. g_tables t c \<noteq> None \<longrightarrow> c < g_next t" using lt by (metis fun_upd_other fun_upd_same)
  qed
  moreover have "\<forall>y \<in> set (g_outputs t). \<forall>z \<in> set (g_outputs t). go_control y = go_control z \<and> go_control y \<noteq> None \<longrightarrow> y = z"
  proof -
    have "go_control y \<noteq> go_control x'" if "y \<in> set (g_outputs s)" "go_output y \<noteq> go_output x" "go_control x' \<noteq> None" for y
      using assms(4) other [OF that(1,2)] fresh that unfolding control_moves_def by (metis image_eqI)
    then show ?thesis unfolding outs using inj by auto metis+
  qed
  moreover have "\<forall>y \<in> set (g_outputs t). go_output y < g_next_output t"
    using assms(1,2,3,6) unfolding outs gamma_ok_def by auto
  moreover have "distinct (map go_output (g_outputs t))" using outs(2) d by simp
  ultimately have "gamma_ok t" using assms(7) unfolding gamma_ok_def by blast
  moreover have "fine T t y" if y: "y \<in> set (g_outputs s)" "go_output y \<noteq> go_output x" "fine T s y" for T y
  proof -
    have "g_tables t c = g_tables s c" if "go_control y = Some c" for c
    proof -
      have "go_control x \<noteq> Some c" "c \<noteq> g_next s" using other [OF y(1,2)] fresh y(1) that by (auto simp: image_iff)
      then show ?thesis using assms(4) unfolding control_moves_def by auto
    qed
    then show ?thesis using y(3) by (auto simp: fine_def)
  qed
  ultimately show ?thesis using outs(1) by blast
qed

section \<open>Steps\<close>

text \<open>What a handler does to the state when it deals with the output \<open>x\<close>, which is right for \<open>T\<close> afterwards.\<close>

definition changes :: "int \<Rightarrow> gamma_output \<Rightarrow> gamma_state \<Rightarrow> gamma_state \<Rightarrow> bool" where
  "changes T x s t \<longleftrightarrow> (\<exists>x'. go_output x' = go_output x \<and> control_moves x x' s t \<and> g_outputs t = g_outputs (put_gamma x' s) \<and>
     g_next_output t = g_next_output s \<and> \<not> g_fault t \<and> fine T t x' \<and> g_pending t = g_pending s)"

lemma changes_ok:
  assumes "gamma_ok s" and "x \<in> set (g_outputs s)" and "changes T x s t"
  shows "gamma_ok t" "\<forall>y \<in> set (g_outputs s). go_output y \<noteq> go_output x \<longrightarrow> y \<in> set (g_outputs t)"
    "\<forall>y \<in> set (g_outputs t). fine T t y \<or> (y \<in> set (g_outputs s) \<and> go_output y \<noteq> go_output x \<and> \<not> fine T s y)"
    "g_pending t = g_pending s"
proof -
  obtain x' where x': "go_output x' = go_output x" "control_moves x x' s t" "g_outputs t = g_outputs (put_gamma x' s)"
    "g_next_output t = g_next_output s" "\<not> g_fault t" "fine T t x'" "g_pending t = g_pending s"
    using assms(3) unfolding changes_def by blast
  note c = change_one [OF assms(1,2) x'(1-5)]
  show "gamma_ok t" "g_pending t = g_pending s" using c x'(7) by simp_all
  show "\<forall>y \<in> set (g_outputs s). go_output y \<noteq> go_output x \<longrightarrow> y \<in> set (g_outputs t)" using c by blast
  show "\<forall>y \<in> set (g_outputs t). fine T t y \<or> (y \<in> set (g_outputs s) \<and> go_output y \<noteq> go_output x \<and> \<not> fine T s y)"
  proof
    fix y
    assume "y \<in> set (g_outputs t)"
    then consider "y = x'" | "y \<in> set (g_outputs s)" "go_output y \<noteq> go_output x" using c by blast
    then show "fine T t y \<or> (y \<in> set (g_outputs s) \<and> go_output y \<noteq> go_output x \<and> \<not> fine T s y)"
      using c x'(6) by cases blast+
  qed
qed

lemma put_same: "gamma_ok s \<Longrightarrow> x \<in> set (g_outputs s) \<Longrightarrow> put_gamma x s = s"
  using gamma_unique [of s x] by (simp add: put_gamma_def map_idI)

lemma control_table: "gamma_ok s \<Longrightarrow> x \<in> set (g_outputs s) \<Longrightarrow> go_control x = Some c \<Longrightarrow> g_tables s c \<noteq> None"
  unfolding gamma_ok_def by (metis image_eqI)

lemma no_fault: "gamma_ok s \<Longrightarrow> \<not> g_fault s"
  by (simp add: gamma_ok_def)

lemma stays: "gamma_ok s \<Longrightarrow> x \<in> set (g_outputs s) \<Longrightarrow> fine T s x \<Longrightarrow> changes T x s s"
  unfolding changes_def
  by (rule exI [of _ x]) (simp add: put_same control_moves_def no_fault)

lemma new_control_changes:
  assumes "gamma_ok s" and "x \<in> set (g_outputs s)" and "go_control x = None" and "n = 0 \<or> T \<le> 0"
  shows "changes T x s (new_control x n s)"
  unfolding changes_def
  by (rule exI [of _ "x\<lparr>go_control := Some (g_next s), go_ramp_size := n\<rparr>"])
    (use assms no_fault [OF assms(1)] in \<open>auto simp: new_control_def control_moves_def fine_def put_gamma_def\<close>)

lemma destroy_changes:
  assumes "gamma_ok s" and "x \<in> set (g_outputs s)" and "fine T s x"
  shows "changes T x s (destroy_control x s)"
proof (cases "go_control x")
  case None
  then show ?thesis using stays [OF assms] by (simp add: destroy_control_def)
next
  case (Some c)
  then show ?thesis using assms(3) control_table [OF assms(1,2) Some] no_fault [OF assms(1)] unfolding changes_def
    by (intro exI [of _ "x\<lparr>go_control := None, go_ramp_size := 0\<rparr>"]) (simp add: destroy_control_def control_moves_def fine_def put_gamma_def)
qed

lemma size_changes:
  assumes "gamma_ok s" and "x \<in> set (g_outputs s)" and "go_control x \<noteq> None" and "m = Mapped \<or> T \<le> 0" and "g_pending s = T \<or> T \<le> 0"
  shows "changes T x s (gamma_control_gamma_size m x n s)"
  unfolding changes_def
proof (intro exI [of _ "x\<lparr>go_ramp_size := n\<rparr>"])
  obtain c where c: "go_control x = Some c" using assms(3) by blast
  show "go_output (x\<lparr>go_ramp_size := n\<rparr>) = go_output x \<and> control_moves x (x\<lparr>go_ramp_size := n\<rparr>) s (gamma_control_gamma_size m x n s) \<and>
    g_outputs (gamma_control_gamma_size m x n s) = g_outputs (put_gamma (x\<lparr>go_ramp_size := n\<rparr>) s) \<and>
    g_next_output (gamma_control_gamma_size m x n s) = g_next_output s \<and> \<not> g_fault (gamma_control_gamma_size m x n s) \<and>
    fine T (gamma_control_gamma_size m x n s) (x\<lparr>go_ramp_size := n\<rparr>) \<and> g_pending (gamma_control_gamma_size m x n s) = g_pending s"
    using c assms(4,5) control_table [OF assms(1,2) c] no_fault [OF assms(1)]
    by (auto simp: gamma_control_gamma_size_def apply_temp_to_output_def Let_def control_moves_def fine_def put_gamma_def)
qed

lemma apply_changes:
  assumes "gamma_ok s" and "x \<in> set (g_outputs s)" and "go_control x \<noteq> None" and "m = Mapped \<or> T \<le> 0" and "t = T \<or> T \<le> 0"
  shows "changes T x s (apply_temp_to_output m x t s)"
proof -
  obtain c where c: "go_control x = Some c" using assms(3) by blast
  show ?thesis unfolding changes_def
    by (rule exI [of _ x])
      (use c assms(4,5) control_table [OF assms(1,2) c] no_fault [OF assms(1)] put_same [OF assms(1,2)] in
        \<open>auto simp: apply_temp_to_output_def control_moves_def fine_def put_gamma_def\<close>)
qed

definition all_fine :: "int \<Rightarrow> gamma_state \<Rightarrow> bool" where
  "all_fine T s \<longleftrightarrow> (\<forall>x \<in> set (g_outputs s). fine T s x)"

lemma changes_all_fine:
  assumes "gamma_ok s" and "x \<in> set (g_outputs s)" and "changes T x s t" and "all_fine T s"
  shows "gamma_ok t \<and> all_fine T t"
  using changes_ok [OF assms(1-3)] assms(4) unfolding all_fine_def by blast

text \<open>
  A loop over the outputs: when its body makes each output right for \<open>T\<close> and keeps them right for \<open>B\<close>,
  it makes all of them right for \<open>T\<close>.
\<close>

lemma fold_changes:
  assumes step: "\<And>s x. gamma_ok s \<Longrightarrow> x \<in> set (g_outputs s) \<Longrightarrow> fine B s x \<Longrightarrow> changes T x s (f x s) \<and> changes B x s (f x s)"
  shows "gamma_ok s \<Longrightarrow> distinct (map go_output xs) \<Longrightarrow> set xs \<subseteq> set (g_outputs s) \<Longrightarrow> all_fine B s \<Longrightarrow>
    \<forall>y \<in> set (g_outputs s). go_output y \<in> go_output ` set xs \<or> fine T s y \<Longrightarrow>
    gamma_ok (fold f xs s) \<and> all_fine T (fold f xs s) \<and> g_pending (fold f xs s) = g_pending s"
proof (induction xs arbitrary: s)
  case Nil
  then show ?case by (simp add: all_fine_def)
next
  case (Cons x xs)
  have x: "x \<in> set (g_outputs s)" "fine B s x" using Cons.prems(3,4) by (simp_all add: all_fine_def)
  note ch = step [OF Cons.prems(1) x]
  note c = changes_ok [OF Cons.prems(1) x(1) conjunct1 [OF ch]]
  have "all_fine B (f x s)" using changes_all_fine [OF Cons.prems(1) x(1) conjunct2 [OF ch] Cons.prems(4)] by blast
  moreover have "set xs \<subseteq> set (g_outputs (f x s))"
  proof
    fix y
    assume "y \<in> set xs"
    then have "y \<in> set (g_outputs s)" "go_output y \<noteq> go_output x" using Cons.prems(2,3) by (auto simp: image_iff)
    then show "y \<in> set (g_outputs (f x s))" using c(2) by blast
  qed
  moreover have "\<forall>y \<in> set (g_outputs (f x s)). go_output y \<in> go_output ` set xs \<or> fine T (f x s) y"
    using c(3) Cons.prems(5) by fastforce
  ultimately show ?case using Cons.IH [of "f x s"] Cons.prems(2) c(1,4) by simp
qed

lemma gamma_distinct: "gamma_ok s \<Longrightarrow> distinct (map go_output (g_outputs s))"
  by (simp add: gamma_ok_def)

lemma attach_changes:
  assumes "gamma_ok s" and "x \<in> set (g_outputs s)" and "fine T s x"
  shows "changes T x s (gamma_output_attach x s)"
  using stays [OF assms] new_control_changes [OF assms(1,2)] assms(3) by (simp add: gamma_output_attach_def fine_def)

lemma night_light_output_changes:
  assumes "gamma_ok s" and "x \<in> set (g_outputs s)" and "fine 0 s x" and "T = temperature \<and> (\<forall>i. ms i = Mapped) \<or> T \<le> 0"
  shows "changes T x s (night_light_output ms temperature x s)"
proof -
  have "fine T s x" if "go_control x = None \<or> go_ramp_size x = 0" using that assms(3) by (auto simp: fine_def)
  then show ?thesis
    using stays [OF assms(1,2)] new_control_changes [OF assms(1,2)] apply_changes [OF assms(1,2)] assms(4)
    by (auto simp: night_light_output_def)
qed

lemma set_fine:
  assumes "gamma_ok s" and "all_fine 0 s" and "T = temperature \<and> (\<forall>i. ms i = Mapped) \<or> T \<le> 0"
  shows "gamma_ok (set_night_light ms temperature s) \<and> all_fine T (set_night_light ms temperature s) \<and>
    g_pending (set_night_light ms temperature s) = temperature"
proof -
  have "changes T x s (night_light_output ms temperature x s) \<and> changes 0 x s (night_light_output ms temperature x s)"
    if "gamma_ok s" "x \<in> set (g_outputs s)" "fine 0 s x" for s x
    using night_light_output_changes [OF that assms(3)] night_light_output_changes [OF that, of 0] by simp
  from fold_changes [of 0 T "night_light_output ms temperature" "s\<lparr>g_pending := temperature\<rparr>" "g_outputs s", OF this]
  show ?thesis using assms(1,2) gamma_distinct [OF assms(1)] by (simp add: set_night_light_def all_fine_def)
qed

lemma reset_fine:
  assumes "gamma_ok s" and "all_fine 0 s"
  shows "gamma_ok (reset_night_light s) \<and> all_fine 0 (reset_night_light s) \<and> g_pending (reset_night_light s) = 0"
proof -
  have "changes 0 x s (destroy_control x s) \<and> changes 0 x s (destroy_control x s)"
    if "gamma_ok s" "x \<in> set (g_outputs s)" "fine 0 s x" for s x
    using destroy_changes [OF that] by simp
  from fold_changes [of 0 0 destroy_control "s\<lparr>g_pending := 0\<rparr>" "g_outputs s", OF this]
  show ?thesis using assms gamma_distinct [OF assms(1)] by (simp add: reset_night_light_def all_fine_def)
qed

lemma manager_fine:
  assumes "gamma_ok s" and "all_fine T s"
  shows "gamma_ok (registry_gamma_manager s) \<and> all_fine T (registry_gamma_manager s) \<and> g_pending (registry_gamma_manager s) = g_pending s"
proof -
  have "changes T x s (gamma_output_attach x s) \<and> changes T x s (gamma_output_attach x s)"
    if "gamma_ok s" "x \<in> set (g_outputs s)" "fine T s x" for s x
    using attach_changes [OF that] by simp
  from fold_changes [of T T gamma_output_attach "s\<lparr>g_manager := True\<rparr>" "g_outputs s", OF this]
  show ?thesis using assms gamma_distinct [OF assms(1)] by (simp add: registry_gamma_manager_def all_fine_def)
qed

lemma output_fine:
  assumes "gamma_ok s" and "all_fine T s"
  shows "gamma_ok (registry_output s) \<and> all_fine T (registry_output s) \<and> g_pending (registry_output s) = g_pending s"
proof -
  let ?x = "\<lparr>go_output = g_next_output s, go_control = None, go_ramp_size = 0\<rparr>"
  let ?s = "s\<lparr>g_next_output := Suc (g_next_output s), g_outputs := ?x # g_outputs s\<rparr>"
  have ok: "gamma_ok ?s" using assms(1) unfolding gamma_ok_def by (auto simp: less_Suc_eq image_iff)
  have f: "fine T ?s ?x" by (simp add: fine_def)
  then have "all_fine T ?s" using assms(2) by (simp add: all_fine_def)
  moreover have x: "?x \<in> set (g_outputs ?s)" by simp
  note ch = attach_changes [OF ok x f]
  show ?thesis using changes_all_fine [OF ok x ch] calculation changes_ok(4) [OF ok x ch] by (simp add: registry_output_def Let_def)
qed

section \<open>The machine\<close>

fun shm_works :: "gamma_event \<Rightarrow> bool" where
  "shm_works (G_size m c n) = (m = Mapped)"
| "shm_works (G_set ms t) = (\<forall>i. ms i = Mapped)"
| "shm_works _ = True"

definition gamma_inv :: "gamma_state \<Rightarrow> bool" where
  "gamma_inv s \<longleftrightarrow> gamma_ok s \<and> all_fine 0 s"

lemma control_output_Some: "control_output c s = Some x \<Longrightarrow> x \<in> set (g_outputs s) \<and> go_control x = Some c"
  by (auto simp: control_output_def find_Some_iff)

lemma gamma_step_fine:
  assumes "gamma_inv s" and "T = 0 \<or> all_fine (g_pending s) s \<and> shm_works e \<and> T = g_pending (gamma_step e s)"
  shows "gamma_ok (gamma_step e s) \<and> all_fine T (gamma_step e s)"
proof -
  have ok: "gamma_ok s" "all_fine 0 s" using assms(1) by (simp_all add: gamma_inv_def)
  show ?thesis
  proof (cases e)
    case G_manager
    then have "all_fine T s" using assms(2) ok manager_fine by auto
    then show ?thesis using G_manager manager_fine ok(1) by simp
  next
    case G_output
    then have "all_fine T s" using assms(2) ok output_fine by auto
    then show ?thesis using G_output output_fine ok(1) by simp
  next
    case (G_size m c n)
    show ?thesis
    proof (cases "control_output c s")
      case None
      then show ?thesis using G_size ok assms(2) by auto
    next
      case (Some x)
      note x = control_output_Some [OF Some]
      have p: "g_pending (gamma_control_gamma_size m x n s) = g_pending s"
        by (simp add: gamma_control_gamma_size_def apply_temp_to_output_def put_gamma_def Let_def split: option.split)
      then have T: "T = 0 \<or> m = Mapped \<and> T = g_pending s" "all_fine T s" using G_size Some assms(2) ok(2) by auto
      have "changes T x s (gamma_control_gamma_size m x n s)" using size_changes [OF ok(1), of x m T n] x T(1) by auto
      from changes_all_fine [OF ok(1) _ this T(2)] show ?thesis using G_size Some x by simp
    qed
  next
    case (G_failed c)
    show ?thesis
    proof (cases "control_output c s")
      case None
      then show ?thesis using G_failed ok assms(2) by auto
    next
      case (Some x)
      note x = control_output_Some [OF Some]
      have "g_pending (destroy_control x s) = g_pending s" by (simp add: destroy_control_def put_gamma_def split: option.split)
      then have T: "all_fine T s" using G_failed Some assms(2) ok(2) by (auto simp: gamma_control_failed_def)
      have "fine T s x" using T x by (simp add: all_fine_def)
      from changes_all_fine [OF ok(1) _ destroy_changes [OF ok(1) _ this] T] show ?thesis
        using G_failed Some x by (simp add: gamma_control_failed_def)
    qed
  next
    case (G_set ms t)
    have "T = t \<and> (\<forall>i. ms i = Mapped) \<or> T \<le> 0" using assms(2) set_fine [OF ok, of 0 t ms] G_set by auto
    then show ?thesis using G_set set_fine [OF ok] by simp
  next
    case G_reset
    then have "T = 0" using assms(2) reset_fine [OF ok] by auto
    then show ?thesis using G_reset reset_fine [OF ok] by simp
  qed
qed

lemma gamma_step_inv: "gamma_inv s \<Longrightarrow> gamma_inv (gamma_step e s)"
  using gamma_step_fine [of s 0 e] by (simp add: gamma_inv_def)

interpretation gamma: event_machine gamma_step gamma_inv
  by unfold_locales (rule gamma_step_inv)

lemma gamma_init_inv: "gamma_inv gamma_init"
  by (simp add: gamma_init_def gamma_inv_def gamma_ok_def all_fine_def)

lemma gamma_run_fine: "list_all shm_works es \<Longrightarrow> all_fine (g_pending (fold gamma_step es gamma_init)) (fold gamma_step es gamma_init)"
proof (induction es rule: rev_induct)
  case Nil
  then show ?case by (simp add: gamma_init_def all_fine_def)
next
  case (snoc e es)
  then show ?case using gamma_step_fine [OF gamma.run_inv [OF gamma_init_inv, of es], of _ e] by simp
qed

section \<open>Properties\<close>

text \<open>
  The ramps of a temperature are right. For more than one entry each of the three curves has one
  entry per step, starts at 0, never falls and ends at the full brightness of its colour, cut to an
  integer; nothing wraps around.
\<close>

theorem ramps_right:
  assumes "n > 1" and "kelvin_to_rgb k = Some (r, g, b)"
  shows "fill_gamma_ramp n (kelvin_to_rgb k) = Some (ramp n r @ ramp n g @ ramp n b) \<and>
    list_all (\<lambda>w. length (ramp n w) = n \<and> uint (ramp n w ! 0) = 0 \<and> uint (ramp n w ! (n - 1)) = \<lfloor>65535 * w\<rfloor> \<and>
      sorted (map uint (ramp n w))) [r, g, b]"
proof -
  have "length (ramp n w) = n \<and> uint (ramp n w ! 0) = 0 \<and> uint (ramp n w ! (n - 1)) = \<lfloor>65535 * w\<rfloor> \<and> sorted (map uint (ramp n w))"
    if "0 \<le> w" "w \<le> 1" for w
  proof -
    have "length (ramp n w) = n" by (simp add: ramp_def)
    moreover have "sorted (map uint (ramp n w))"
      unfolding sorted_iff_nth_mono using ramp_steps(1) [OF that _ _ assms(1)] by (simp add: ramp_def)
    ultimately show ?thesis using ramp_steps(2,3) [OF that _ _ assms(1), of 0 0] assms(1) by simp
  qed
  then show ?thesis using assms(1) rgb_range [OF assms(2)] by (simp add: assms(2) fill_gamma_ramp_def)
qed

theorem ramps_right_witness:
  "\<exists>r g b. kelvin_to_rgb 6500 = Some (r, g, b) \<and> sorted (map uint (ramp 256 g))"
proof -
  obtain r g b where k: "kelvin_to_rgb 6500 = Some (r, g, b)" by (simp add: kelvin_to_rgb_def Let_def)
  from ramps_right [of 256 6500, OF _ k] k show ?thesis by simp
qed


definition demo_gamma :: "gamma_event list" where
  "demo_gamma = [G_manager, G_output, G_set (\<lambda>_. Mapped) 3400, G_size Mapped 0 256]"


end
