(* ===== verification/Xwl_Icon.thy ===== *)
theory Xwl_Icon
  imports C_Prelude "HOL-Library.Word" "HOL-Library.Char_ord"
begin

text \<open>
  Icons of X11 windows, \<^verbatim>\<open>src/wayland/xwl_icon.c\<close>: matching a window by class or title, the walk over
  the icons of \<^verbatim>\<open>_NET_WM_ICON\<close>, and the search over the client list. The X server is a record of what
  its properties hold; strings are read byte by byte and a read past the end of a property's value is
  the outcome \<open>Fault\<close>, a walk that does not end is \<open>Hang\<close>.
\<close>

section \<open>The server and the outcomes\<close>

datatype 'a outcome = Done 'a | Fault | Hang

record x_server =
  xs_connect :: bool
  xs_error :: bool
  xs_clients :: "nat list option"
  xs_active :: "32 word list option"
  xs_class :: "nat \<Rightarrow> string option"
  xs_name :: "nat \<Rightarrow> string option"
  xs_icon :: "nat \<Rightarrow> 32 word list option"

text \<open>A property is delivered up to \<open>len\<close> words of 32 bits.\<close>

definition get_text :: "string option \<Rightarrow> nat \<Rightarrow> string option" where
  "get_text v len = map_option (take (4 * len)) v"

definition get_words :: "'a list option \<Rightarrow> nat \<Rightarrow> 'a list option" where
  "get_words v len = map_option (take len) v"

definition ensure_conn :: "x_server \<Rightarrow> bool \<Rightarrow> bool \<times> bool" where
  "ensure_conn env conn = (if conn then (\<not> xs_error env, True) else (xs_connect env, xs_connect env))"

section \<open>Matching windows\<close>

definition lower :: "char \<Rightarrow> char" where
  "lower c = (if CHR ''A'' \<le> c \<and> c \<le> CHR ''Z'' then char_of ((of_char c :: nat) + 32) else c)"

text \<open>\<open>strcasecmp\<close> of a C string with memory that ends with the value.\<close>

fun same_text :: "string \<Rightarrow> string \<Rightarrow> bool outcome" where
  "same_text a [] = Fault"
| "same_text [] (b # bs) = Done (b = NUL)"
| "same_text (c # cs) (b # bs) = (if lower c \<noteq> lower b then Done False else same_text cs bs)"

definition class_matches :: "string \<Rightarrow> string option \<Rightarrow> bool outcome" where
  "class_matches app_id v =
     (case v of
        None \<Rightarrow> Done False
      | Some val \<Rightarrow>
          if val = [] then Done False
          else
            let inst_len = length (takeWhile (\<lambda>c. c \<noteq> NUL) val);
                cls = (if inst_len + 1 < length val then drop (inst_len + 1) val else [NUL])
            in case same_text app_id val of
                 Done True \<Rightarrow> Done True
               | Done False \<Rightarrow> same_text app_id cls
               | Fault \<Rightarrow> Fault
               | Hang \<Rightarrow> Hang)"

definition name_matches :: "string \<Rightarrow> string option \<Rightarrow> bool" where
  "name_matches title v =
     (case v of None \<Rightarrow> False | Some val \<Rightarrow> val \<noteq> [] \<and> map lower (cstr val) = map lower title)"

definition window_matches :: "x_server \<Rightarrow> nat \<Rightarrow> string option \<Rightarrow> string option \<Rightarrow> bool outcome" where
  "window_matches env w app_id title =
     (let by_title = (case title of None \<Rightarrow> False | Some t \<Rightarrow> t \<noteq> [] \<and> name_matches t (get_text (xs_name env w) 256))
      in case app_id of
           None \<Rightarrow> Done by_title
         | Some a \<Rightarrow>
             if a = [] then Done by_title
             else (case class_matches a (get_text (xs_class env w) 256) of
                     Done m \<Rightarrow> Done (m \<or> by_title)
                   | Fault \<Rightarrow> Fault
                   | Hang \<Rightarrow> Hang))"

section \<open>The icons of a window\<close>

text \<open>The best icon so far: its width, height and offset in words.\<close>

type_synonym best = "int \<times> int \<times> int"

definition better :: "int \<Rightarrow> int \<Rightarrow> int \<Rightarrow> best \<Rightarrow> best" where
  "better iw ih off b =
     (case b of (best_w, best_h, best_off) \<Rightarrow>
        if iw > best_w \<and> (if best_w > 256 then iw < best_w else True) then (iw, ih, off) else b)"

text \<open>
  The walk. The area is the 32-bit product read as a signed number; a sum outside the range of \<open>int\<close> and a
  negative index are undefined. \<open>None\<close> is a walk that does not end.
\<close>

partial_function (option) scan :: "32 word list \<Rightarrow> int \<Rightarrow> best \<Rightarrow> best outcome option" where
  "scan ws i b =
     (if i + 2 \<le> int (length ws) then
        if i < 0 then Some Fault
        else
          let iw = ws ! nat i; ih = ws ! nat (i + 1); area = sint (iw * ih)
          in if iw = 0 \<or> ih = 0 then Some (Done b)
             else if i + 2 + area > 2147483647 \<or> i + 2 + area < - 2147483648 then Some Fault
             else if i + 2 + area > int (length ws) then Some (Done b)
             else scan ws (i + 2 + area) (better (sint iw) (sint ih) (i + 2) b)
      else Some (Done b))"

text \<open>A texture: its width, its height and its pixels.\<close>

type_synonym texture = "int \<times> int \<times> 32 word list"

definition icon_texture :: "32 word list option \<Rightarrow> texture option outcome" where
  "icon_texture prop =
     (case prop of
        None \<Rightarrow> Done None
      | Some ws \<Rightarrow>
          (case scan ws 0 (0, 0, -1) of
             None \<Rightarrow> Hang
           | Some Fault \<Rightarrow> Fault
           | Some Hang \<Rightarrow> Hang
           | Some (Done (best_w, best_h, best_off)) \<Rightarrow>
               if best_off \<ge> 0 then
                 let npx = unat (word_of_int best_w * word_of_int best_h :: 64 word)
                 in if nat best_off + npx > length ws then Fault
                    else Done (Some (best_w, best_h, take npx (drop (nat best_off) ws)))
               else Done None))"

section \<open>Entry points\<close>

definition active_window :: "x_server \<Rightarrow> bool \<Rightarrow> 32 word \<times> bool" where
  "active_window env conn =
     (case ensure_conn env conn of (ok, conn1) \<Rightarrow>
        (if \<not> ok then 0 else case get_words (xs_active env) 1 of Some (x # _) \<Rightarrow> x | _ \<Rightarrow> 0, conn1))"

fun icon_of_windows :: "x_server \<Rightarrow> string option \<Rightarrow> string option \<Rightarrow> nat list \<Rightarrow> texture option outcome" where
  "icon_of_windows env app_id title [] = Done None"
| "icon_of_windows env app_id title (w # ws) =
     (case window_matches env w app_id title of
        Done True \<Rightarrow>
          (case icon_texture (get_words (xs_icon env w) (256 * 1024)) of
             Done None \<Rightarrow> icon_of_windows env app_id title ws
           | r \<Rightarrow> r)
      | Done False \<Rightarrow> icon_of_windows env app_id title ws
      | Fault \<Rightarrow> Fault
      | Hang \<Rightarrow> Hang)"

definition xwayland_icon :: "x_server \<Rightarrow> bool \<Rightarrow> string option \<Rightarrow> string option \<Rightarrow> texture option outcome \<times> bool" where
  "xwayland_icon env conn app_id title =
     (case ensure_conn env conn of (ok, conn1) \<Rightarrow>
        (if \<not> ok then Done None
         else case get_words (xs_clients env) 1024 of
                None \<Rightarrow> Done None
              | Some wins \<Rightarrow> icon_of_windows env app_id title wins, conn1))"

section \<open>Well-formed icons\<close>

record icon =
  ic_w :: nat
  ic_h :: nat
  ic_px :: "32 word list"

definition icon_ok :: "icon \<Rightarrow> bool" where
  "icon_ok i \<longleftrightarrow> 0 < ic_w i \<and> 0 < ic_h i \<and> length (ic_px i) = ic_w i * ic_h i"

definition encode_icon :: "icon \<Rightarrow> 32 word list" where
  "encode_icon i = word_of_nat (ic_w i) # word_of_nat (ic_h i) # ic_px i"

definition encode :: "icon list \<Rightarrow> 32 word list" where
  "encode is = concat (map encode_icon is)"

text \<open>The choice: the first icon wider than 256 pixels; without one, the first of the widest.\<close>

fun widest :: "icon list \<Rightarrow> icon option" where
  "widest [] = None"
| "widest (i # is) = (case widest is of None \<Rightarrow> Some i | Some j \<Rightarrow> if ic_w j > ic_w i then Some j else Some i)"

definition pick_icon :: "icon list \<Rightarrow> icon option" where
  "pick_icon is = (case List.find (\<lambda>i. ic_w i > 256) is of Some i \<Rightarrow> Some i | None \<Rightarrow> widest is)"

lemma encode_simps [simp]: "encode [] = []" "encode (i # is) = encode_icon i @ encode is" "encode (xs @ ys) = encode xs @ encode ys"
  by (simp_all add: encode_def)

lemma widest_None [simp]: "widest is = None \<longleftrightarrow> is = []"
  by (cases "is") (auto split: option.splits if_splits)

lemma widest_snoc: "widest (is @ [i]) = (case widest is of None \<Rightarrow> Some i | Some j \<Rightarrow> if ic_w i > ic_w j then Some i else Some j)"
  by (induction "is") (auto split: option.split)

lemma widest_mem: "widest is = Some i \<Longrightarrow> i \<in> set is"
  by (induction "is" arbitrary: i) (auto split: option.splits if_splits)

lemma find_snoc: "List.find P (xs @ [x]) = (case List.find P xs of Some y \<Rightarrow> Some y | None \<Rightarrow> if P x then Some x else None)"
  by (induction xs) auto

lemma pick_snoc:
  "pick_icon (is @ [i]) = (case pick_icon is of None \<Rightarrow> Some i | Some j \<Rightarrow> if ic_w i > ic_w j \<and> \<not> ic_w j > 256 then Some i else Some j)"
proof (cases "List.find (\<lambda>i. ic_w i > 256) is")
  case None
  then have "ic_w j \<le> 256" if "widest is = Some j" for j
    using widest_mem [OF that] by (auto simp: find_None_iff)
  then show ?thesis using None by (auto simp: pick_icon_def find_snoc widest_snoc split: option.splits)
next
  case (Some j)
  then have "ic_w j > 256" by (auto simp: find_Some_iff)
  then show ?thesis using Some by (auto simp: pick_icon_def find_snoc)
qed

section \<open>The walk over well-formed icons\<close>

definition best_of_icons :: "icon list \<Rightarrow> best \<Rightarrow> bool" where
  "best_of_icons pre b \<longleftrightarrow>
     (pre = [] \<and> b = (0, 0, -1)) \<or>
     (\<exists>xs i ys. pre = xs @ i # ys \<and> pick_icon pre = Some i \<and> b = (int (ic_w i), int (ic_h i), int (length (encode xs) + 2)))"

lemma best_step:
  assumes "best_of_icons pre b" and "0 < ic_w i"
  shows "best_of_icons (pre @ [i]) (better (int (ic_w i)) (int (ic_h i)) (int (length (encode pre)) + 2) b)"
  using assms(1) unfolding best_of_icons_def
proof (elim disjE exE conjE)
  assume "pre = []" "b = (0, 0, -1)"
  then show "(pre @ [i] = [] \<and> better (int (ic_w i)) (int (ic_h i)) (int (length (encode pre)) + 2) b = (0, 0, -1)) \<or>
    (\<exists>xs j ys. pre @ [i] = xs @ j # ys \<and> pick_icon (pre @ [i]) = Some j \<and>
      better (int (ic_w i)) (int (ic_h i)) (int (length (encode pre)) + 2) b = (int (ic_w j), int (ic_h j), int (length (encode xs) + 2)))"
    using assms(2) by (intro disjI2 exI [of _ "[]"] exI [of _ i]) (simp add: better_def pick_icon_def)
next
  fix xs j ys
  assume a: "pre = xs @ j # ys" "pick_icon pre = Some j" "b = (int (ic_w j), int (ic_h j), int (length (encode xs) + 2))"
  show "(pre @ [i] = [] \<and> better (int (ic_w i)) (int (ic_h i)) (int (length (encode pre)) + 2) b = (0, 0, -1)) \<or>
    (\<exists>xs j ys. pre @ [i] = xs @ j # ys \<and> pick_icon (pre @ [i]) = Some j \<and>
      better (int (ic_w i)) (int (ic_h i)) (int (length (encode pre)) + 2) b = (int (ic_w j), int (ic_h j), int (length (encode xs) + 2)))"
  proof (cases "ic_w i > ic_w j \<and> \<not> ic_w j > 256")
    case True
    then have "pick_icon (pre @ [i]) = Some i"
      "better (int (ic_w i)) (int (ic_h i)) (int (length (encode pre)) + 2) b = (int (ic_w i), int (ic_h i), int (length (encode pre) + 2))"
      using a(2,3) by (simp_all add: better_def pick_snoc)
    then show ?thesis by blast
  next
    case False
    then have "pick_icon (pre @ [i]) = Some j" "better (int (ic_w i)) (int (ic_h i)) (int (length (encode pre)) + 2) b = b"
      using a(2,3) by (auto simp: better_def pick_snoc)
    moreover have "pre @ [i] = xs @ j # (ys @ [i])" using a(1) by simp
    ultimately show ?thesis using a(3) by metis
  qed
qed

lemma icon_bounds:
  assumes "icon_ok i" and "length (encode_icon i) \<le> 262144"
  shows "ic_w i \<le> 262144" "ic_h i \<le> 262144" "ic_w i * ic_h i \<le> 262144"
proof -
  show p: "ic_w i * ic_h i \<le> 262144" using assms by (simp add: icon_ok_def encode_icon_def)
  have "ic_w i * 1 \<le> ic_w i * ic_h i" "1 * ic_h i \<le> ic_w i * ic_h i" using assms(1) by (simp_all add: icon_ok_def Suc_leI)
  then show "ic_w i \<le> 262144" "ic_h i \<le> 262144" using p by linarith+
qed

lemma small_word:
  assumes "n \<le> 262144"
  shows "sint (word_of_nat n :: 32 word) = int n" "(word_of_nat n :: 32 word) = 0 \<longleftrightarrow> n = 0"
proof -
  show v: "sint (word_of_nat n :: 32 word) = int n"
    using sint_sbintrunc' [of "int n", where 'a = 32] assms by (simp add: signed_take_bit_int_eq_self)
  show "(word_of_nat n :: 32 word) = 0 \<longleftrightarrow> n = 0"
  proof
    assume "(word_of_nat n :: 32 word) = 0"
    then show "n = 0" using v by simp
  qed simp
qed

lemma scan_icons:
  assumes "list_all icon_ok is" and "length (encode pre) + length (encode is) \<le> 262144" and "best_of_icons pre b"
  shows "\<exists>b'. scan (encode pre @ encode is) (int (length (encode pre))) b = Some (Done b') \<and> best_of_icons (pre @ is) b'"
  using assms
proof (induction "is" arbitrary: pre b)
  case Nil
  then show ?case by (subst scan.simps) simp
next
  case (Cons i "is")
  have ok: "icon_ok i" "length (encode_icon i) \<le> 262144" using Cons.prems(1,2) by simp_all
  note bounds = icon_bounds [OF ok]
  let ?ws = "encode pre @ encode_icon i @ encode is"
  have at: "?ws ! length (encode pre) = word_of_nat (ic_w i)" "?ws ! Suc (length (encode pre)) = word_of_nat (ic_h i)"
    by (simp_all add: nth_append encode_icon_def)
  have area: "sint (word_of_nat (ic_w i) * word_of_nat (ic_h i) :: 32 word) = int (ic_w i) * int (ic_h i)"
    using small_word(1) [OF bounds(3)] by simp
  have len: "int (length (encode_icon i)) = 2 + int (ic_w i) * int (ic_h i)" using ok(1) by (simp add: encode_icon_def icon_ok_def)
  have pos: "0 < ic_w i" "0 < ic_h i" using ok(1) by (simp_all add: icon_ok_def)
  have next_i: "int (length (encode pre)) + 2 + int (ic_w i) * int (ic_h i) = int (length (encode (pre @ [i])))" using len by simp
  have small: "int (length (encode (pre @ [i]))) \<le> 262144" using Cons.prems(2) by simp
  have nats: "nat (int (length (encode pre)) + 1) = Suc (length (encode pre))" by simp
  let ?b = "better (int (ic_w i)) (int (ic_h i)) (int (length (encode pre)) + 2) b"
  have "scan ?ws (int (length (encode pre))) b = scan ?ws (int (length (encode (pre @ [i])))) ?b"
    using pos len small next_i
    by (subst scan.simps) (simp add: at nats area small_word [OF bounds(1)] small_word [OF bounds(2)] Let_def add.assoc)
  moreover have "best_of_icons (pre @ [i]) ?b" using best_step [OF Cons.prems(3) pos(1)] by simp
  ultimately show ?case using Cons.IH [of "pre @ [i]" ?b] Cons.prems(1,2) by simp
qed

definition texture_of :: "icon \<Rightarrow> texture" where
  "texture_of i = (int (ic_w i), int (ic_h i), ic_px i)"

lemma texture_icons:
  assumes "list_all icon_ok is" and "length (encode is) \<le> 262144"
  shows "icon_texture (Some (encode is)) = Done (map_option texture_of (pick_icon is))"
proof -
  have "best_of_icons [] (0, 0, -1)" by (simp add: best_of_icons_def)
  then have "\<exists>b. scan (encode is) 0 (0, 0, -1) = Some (Done b) \<and> best_of_icons is b"
    using scan_icons [of "is" "[]" "(0, 0, -1)"] assms by simp
  then obtain b where b: "scan (encode is) 0 (0, 0, -1) = Some (Done b)" "best_of_icons is b" by blast
  from b(2) show ?thesis unfolding best_of_icons_def
  proof (elim disjE exE conjE)
    assume "is = []" "b = (0, 0, -1)"
    then show ?thesis using b(1) by (simp add: icon_texture_def pick_icon_def)
  next
    fix xs i ys
    assume a: "is = xs @ i # ys" "pick_icon is = Some i" "b = (int (ic_w i), int (ic_h i), int (length (encode xs) + 2))"
    have ok: "icon_ok i" "length (encode_icon i) \<le> 262144" using assms a(1) by simp_all
    note bounds = icon_bounds [OF ok]
    have "unat (word_of_nat n :: 64 word) = n" if "n \<le> 262144" for n
      using that by (simp add: unat_of_nat take_bit_nat_eq_self)
    from this [OF bounds(3)] have npx: "unat (word_of_int (int (ic_w i)) * word_of_int (int (ic_h i)) :: 64 word) = length (ic_px i)"
      using ok(1) by (simp add: icon_ok_def)
    have ds: "drop (length (encode xs) + 2) (encode is) = ic_px i @ encode ys" "length (encode xs) + 2 + length (ic_px i) \<le> length (encode is)"
      using a(1) by (simp_all add: encode_icon_def)
    have "nat (int (length (encode xs) + 2)) = length (encode xs) + 2" by (rule nat_int)
    then show ?thesis using b(1) a(2) npx ds unfolding icon_texture_def a(3)
      by (simp add: texture_of_def Let_def del: of_nat_add)
  qed
qed

section \<open>The walk over any data\<close>

text \<open>No two neighbouring words have a product near the range of \<open>int\<close>.\<close>

definition tame :: "32 word list \<Rightarrow> bool" where
  "tame ws \<longleftrightarrow> length ws \<le> 262144 \<and> (\<forall>k. Suc k < length ws \<longrightarrow> uint (ws ! k) * uint (ws ! Suc k) < 2 ^ 30)"

definition best_inside :: "32 word list \<Rightarrow> best \<Rightarrow> bool" where
  "best_inside ws b \<longleftrightarrow> (case b of (w, h, off) \<Rightarrow>
     off = -1 \<or> (0 < w \<and> 0 < h \<and> 0 \<le> off \<and> w * h < 2 ^ 30 \<and> off + w * h \<le> int (length ws)))"

lemma tame_pair:
  assumes "tame ws" and "Suc k < length ws" and "ws ! k \<noteq> 0" and "ws ! Suc k \<noteq> 0"
  shows "sint (ws ! k) = uint (ws ! k)" "sint (ws ! Suc k) = uint (ws ! Suc k)"
    "sint (ws ! k * ws ! Suc k) = uint (ws ! k) * uint (ws ! Suc k)" "0 < uint (ws ! k)" "0 < uint (ws ! Suc k)"
    "uint (ws ! k) * uint (ws ! Suc k) < 2 ^ 30"
proof -
  let ?a = "uint (ws ! k)" and ?b = "uint (ws ! Suc k)"
  show p: "?a * ?b < 2 ^ 30" using assms(1,2) by (simp add: tame_def)
  show pos: "0 < ?a" "0 < ?b" using assms(3,4) uint_0_iff [of "ws ! k"] uint_0_iff [of "ws ! Suc k"] by (simp_all add: le_neq_trans)
  then have le: "?a * 1 \<le> ?a * ?b" "1 * ?b \<le> ?a * ?b" by (intro mult_left_mono mult_right_mono; simp)+
  have signed: "sint x = uint x" if "uint x < 2 ^ 30" for x :: "32 word"
  proof -
    have "- (2 ^ 31) \<le> uint x" "uint x < 2 ^ 31" using that order_trans [OF _ uint_ge_0 [of x]] by simp_all
    then have "signed_take_bit 31 (uint x) = uint x" by (rule signed_take_bit_int_eq_self)
    then show ?thesis by (simp add: sint_uint)
  qed
  show "sint (ws ! k) = ?a" "sint (ws ! Suc k) = ?b" using le p signed by simp_all
  have "uint (ws ! k * ws ! Suc k) = ?a * ?b" using p pos by (simp add: uint_word_ariths)
  then show "sint (ws ! k * ws ! Suc k) = ?a * ?b" using signed p by simp
qed

lemma scan_tame:
  assumes "tame ws" and "best_inside ws b" and "0 \<le> i"
  shows "\<exists>b'. scan ws i b = Some (Done b') \<and> best_inside ws b'"
  using assms(2,3)
proof (induction "nat (int (length ws) - i)" arbitrary: i b rule: less_induct)
  case less
  show ?case
  proof (cases "i + 2 \<le> int (length ws) \<and> ws ! nat i \<noteq> 0 \<and> ws ! Suc (nat i) \<noteq> 0")
    case False
    then show ?thesis using less.prems by (subst scan.simps) (cases b; auto simp: Let_def nat_add_distrib)
  next
    case True
    then have k: "Suc (nat i) < length ws" using less.prems(2) by linarith
    note p = tame_pair [OF assms(1) k conjunct1 [OF conjunct2 [OF True]] conjunct2 [OF conjunct2 [OF True]]]
    let ?a = "uint (ws ! nat i)" and ?b = "uint (ws ! Suc (nat i))"
    have n1: "nat (i + 1) = Suc (nat i)" using less.prems(2) by simp
    have len: "int (length ws) \<le> 262144" using assms(1) by (simp add: tame_def)
    define q where "q = ?a * ?b"
    have pos: "0 < q" "q < 2 ^ 30" using p(4-6) by (simp_all add: q_def)
    have area: "sint (ws ! nat i * ws ! Suc (nat i)) = q" using p(3) by (simp add: q_def)
    show ?thesis
    proof (cases "i + 2 + q > int (length ws)")
      case True
      then show ?thesis using less.prems \<open>i + 2 \<le> int (length ws) \<and> _\<close> len pos
        by (subst scan.simps) (simp add: n1 area Let_def)
    next
      case False
      let ?best = "better ?a ?b (i + 2) b"
      have "best_inside ws ?best"
        using less.prems False p(4-6) by (auto simp: best_inside_def better_def q_def split: prod.splits)
      moreover have "nat (int (length ws) - (i + 2 + q)) < nat (int (length ws) - i)" using False pos less.prems(2) by linarith
      moreover have "0 \<le> i + 2 + q" using less.prems(2) pos by linarith
      moreover have "scan ws i b = scan ws (i + 2 + q) ?best"
        using less.prems \<open>i + 2 \<le> int (length ws) \<and> _\<close> False len pos by (subst scan.simps) (simp add: n1 p(1,2) area Let_def)
      ultimately show ?thesis using less.hyps by presburger
    qed
  qed
qed

section \<open>Matching well-formed windows\<close>

lemma lower_NUL: "lower c = NUL \<longleftrightarrow> c = NUL"
proof (cases "CHR ''A'' \<le> c \<and> c \<le> CHR ''Z''")
  case True
  then have "(65::nat) \<le> of_char c" "of_char c \<le> (90::nat)" by (simp_all add: less_eq_char_def)
  moreover from this have "of_char (char_of ((of_char c :: nat) + 32) :: char) = (of_char c :: nat) + 32" by simp
  ultimately have "(of_char (lower c) :: nat) \<noteq> of_char NUL" "(of_char c :: nat) \<noteq> of_char NUL" using True by (simp_all add: lower_def)
  then show ?thesis by fastforce
next
  case False
  then have "lower c = c" by (auto simp: lower_def)
  then show ?thesis by simp
qed

lemma same_text_stop:
  assumes "NUL \<notin> set a" and "NUL \<notin> set i"
  shows "same_text a (i @ NUL # r) = Done (map lower a = map lower i)"
  using assms
proof (induction a arbitrary: i)
  case Nil
  then show ?case by (cases i) auto
next
  case (Cons c a)
  then show ?case
  proof (cases i)
    case Nil
    have "lower NUL = NUL" using lower_NUL by blast
    then show ?thesis using Nil Cons.prems lower_NUL [of c] by auto
  qed auto
qed

definition spec_match :: "(nat \<Rightarrow> (string \<times> string) option) \<Rightarrow> (nat \<Rightarrow> string option) \<Rightarrow> string option \<Rightarrow> string option \<Rightarrow> nat \<Rightarrow> bool" where
  "spec_match cl nm app_id title w \<longleftrightarrow>
     (case (app_id, cl w) of (Some a, Some (i, c)) \<Rightarrow> a \<noteq> [] \<and> (map lower a = map lower i \<or> map lower a = map lower c) | _ \<Rightarrow> False) \<or>
     (case (title, nm w) of (Some t, Some n) \<Rightarrow> t \<noteq> [] \<and> map lower (cstr n) = map lower t | _ \<Rightarrow> False)"

definition server_of :: "nat list \<Rightarrow> (nat \<Rightarrow> icon list option) \<Rightarrow> (nat \<Rightarrow> (string \<times> string) option) \<Rightarrow> (nat \<Rightarrow> string option) \<Rightarrow> x_server" where
  "server_of wins ic cl nm =
     \<lparr>xs_connect = True, xs_error = False, xs_clients = Some wins, xs_active = None,
       xs_class = (\<lambda>w. map_option (\<lambda>(i, c). i @ NUL # c @ [NUL]) (cl w)), xs_name = nm, xs_icon = (\<lambda>w. map_option encode (ic w))\<rparr>"

text \<open>A window whose class, name and icons are well-formed and are delivered whole.\<close>

definition window_fits :: "(nat \<Rightarrow> icon list option) \<Rightarrow> (nat \<Rightarrow> (string \<times> string) option) \<Rightarrow> (nat \<Rightarrow> string option) \<Rightarrow> nat \<Rightarrow> bool" where
  "window_fits ic cl nm w \<longleftrightarrow>
     (case ic w of None \<Rightarrow> True | Some is \<Rightarrow> list_all icon_ok is \<and> length (encode is) \<le> 262144) \<and>
     (case cl w of None \<Rightarrow> True | Some (i, c) \<Rightarrow> NUL \<notin> set i \<and> NUL \<notin> set c \<and> length i + length c + 2 \<le> 1024) \<and>
     (case nm w of None \<Rightarrow> True | Some n \<Rightarrow> length n \<le> 1024)"

lemma class_matches_whole:
  assumes "NUL \<notin> set a" and "NUL \<notin> set i" and "NUL \<notin> set c"
  shows "class_matches a (Some (i @ NUL # c @ [NUL])) = Done (map lower a = map lower i \<or> map lower a = map lower c)"
proof -
  have t: "takeWhile (\<lambda>x. x \<noteq> NUL) (i @ NUL # c @ [NUL]) = i" by (rule takeWhile_hit) (use assms(2) in auto)
  show ?thesis
    using same_text_stop [OF assms(1,2)] same_text_stop [OF assms(1,3), of "[]"]
      drop_append [of "length i + 1" i "NUL # c @ [NUL]"]
    by (simp add: class_matches_def t Let_def split: bool.split)
qed

lemma window_matches_whole:
  assumes "window_fits ic cl nm w" and "\<And>a. app_id = Some a \<Longrightarrow> NUL \<notin> set a"
  shows "window_matches (server_of wins ic cl nm) w app_id title = Done (spec_match cl nm app_id title w)"
proof -
  have name: "(case title of None \<Rightarrow> False | Some t \<Rightarrow> t \<noteq> [] \<and> name_matches t (get_text (nm w) 256)) =
      (case (title, nm w) of (Some t, Some n) \<Rightarrow> t \<noteq> [] \<and> map lower (cstr n) = map lower t | _ \<Rightarrow> False)"
    using assms(1) by (auto simp: name_matches_def get_text_def window_fits_def cstr_def split: option.splits)
  have cls: "class_matches a (get_text (map_option (\<lambda>(i, c). i @ NUL # c @ [NUL]) (cl w)) 256) =
      Done (case cl w of Some (i, c) \<Rightarrow> map lower a = map lower i \<or> map lower a = map lower c | _ \<Rightarrow> False)" if "app_id = Some a" for a
  proof (cases "cl w")
    case (Some p)
    obtain i c where p: "p = (i, c)" by (cases p)
    then have "NUL \<notin> set i" "NUL \<notin> set c" "length i + length c + 2 \<le> 1024" using assms(1) Some by (simp_all add: window_fits_def)
    then show ?thesis using Some p class_matches_whole [OF assms(2) [OF that]] by (simp add: get_text_def)
  qed (simp add: class_matches_def get_text_def)
  have fields: "xs_name (server_of wins ic cl nm) w = nm w"
    "xs_class (server_of wins ic cl nm) w = map_option (\<lambda>(i, c). i @ NUL # c @ [NUL]) (cl w)" by (simp_all add: server_of_def)
  show ?thesis
  proof (cases app_id)
    case None
    then show ?thesis unfolding window_matches_def Let_def spec_match_def fields name by simp
  next
    case (Some a)
    then show ?thesis unfolding window_matches_def Let_def spec_match_def fields name
      by (simp only: option.case cls [OF Some] outcome.case prod.case) (cases "cl w"; simp split: prod.split)
  qed
qed

fun first_icon :: "(nat \<Rightarrow> bool) \<Rightarrow> (nat \<Rightarrow> icon list option) \<Rightarrow> nat list \<Rightarrow> icon option" where
  "first_icon m ic [] = None"
| "first_icon m ic (w # ws) =
     (case if m w then (case ic w of None \<Rightarrow> None | Some is \<Rightarrow> pick_icon is) else None of
        Some i \<Rightarrow> Some i
      | None \<Rightarrow> first_icon m ic ws)"

lemma icon_of_windows_whole:
  assumes "list_all (window_fits ic cl nm) ws" and "\<And>a. app_id = Some a \<Longrightarrow> NUL \<notin> set a"
  shows "icon_of_windows (server_of wins ic cl nm) app_id title ws =
    Done (map_option texture_of (first_icon (spec_match cl nm app_id title) ic ws))"
  using assms(1)
proof (induction ws)
  case (Cons w ws)
  have m: "window_matches (server_of wins ic cl nm) w app_id title = Done (spec_match cl nm app_id title w)"
    using window_matches_whole [of ic cl nm w app_id] Cons.prems assms(2) by simp
  have "icon_texture (get_words (xs_icon (server_of wins ic cl nm) w) (256 * 1024)) =
      Done (map_option texture_of (case ic w of None \<Rightarrow> None | Some is \<Rightarrow> pick_icon is))"
  proof (cases "ic w")
    case None
    then show ?thesis by (simp add: server_of_def get_words_def icon_texture_def)
  next
    case (Some "is")
    then have "list_all icon_ok is" "length (encode is) \<le> 262144" using Cons.prems by (simp_all add: window_fits_def)
    from texture_icons [OF this] this(2) Some show ?thesis by (simp add: server_of_def get_words_def)
  qed
  then show ?case using m Cons by (auto split: option.splits)
qed simp

section \<open>Walks that do not end\<close>

lemma scan_stuck:
  assumes "scan ws i b = Some r"
  shows "\<not> (ws = [0xFFFFFFFE, 1] \<and> i = 0)"
proof (rule scan.raw_induct [where P = "\<lambda>ws i b r. \<not> (ws = [0xFFFFFFFE, 1 :: 32 word] \<and> i = (0 :: int))", OF _ assms])
  fix scan' ws i b r
  assume ih: "\<And>ws i b r. scan' ws i b = Some r \<Longrightarrow> \<not> (ws = [0xFFFFFFFE, 1 :: 32 word] \<and> i = 0)"
    and body: "(if i + 2 \<le> int (length ws) then
        if i < 0 then Some Fault
        else
          let iw = ws ! nat i; ih = ws ! nat (i + 1); area = sint (iw * ih)
          in if iw = 0 \<or> ih = 0 then Some (Done b)
             else if i + 2 + area > 2147483647 \<or> i + 2 + area < - 2147483648 then Some Fault
             else if i + 2 + area > int (length ws) then Some (Done b)
             else scan' ws (i + 2 + area) (better (sint iw) (sint ih) (i + 2) b)
      else Some (Done b)) = Some r"
  show "\<not> (ws = [0xFFFFFFFE, 1] \<and> i = 0)"
  proof
    assume a: "ws = [0xFFFFFFFE, 1] \<and> i = 0"
    then have "scan' ws 0 (better (-2) 1 2 b) = Some r" using body by (simp add: Let_def)
    then show False using ih a by blast
  qed
qed

section \<open>Properties\<close>


definition demo_icon :: "nat \<Rightarrow> icon" where
  "demo_icon n = \<lparr>ic_w = n, ic_h = 1, ic_px = replicate n 7\<rparr>"

lemma demo_lower: "map lower ''GAME'' = ''game'' \<and> map lower ''Game'' = ''game'' \<and> map lower ''wine'' = ''wine''"
  by code_simp


text \<open>
  The walk over the icons ends, and stays in the property, for every property value in which no two
  neighbouring words have a product of 2 to the 30 or more: the texture, if there is one, is a part of the
  value with as many pixels as its size says.
\<close>

theorem icon_walk_ends:
  assumes "tame ws"
  shows "\<exists>t. icon_texture (Some ws) = Done t \<and>
    (case t of None \<Rightarrow> True | Some (w, h, px) \<Rightarrow> 0 < w \<and> 0 < h \<and> int (length px) = w * h \<and> (\<exists>xs ys. ws = xs @ px @ ys))"
proof -
  obtain w h off where b: "scan ws 0 (0, 0, -1) = Some (Done (w, h, off))" "best_inside ws (w, h, off)"
    using scan_tame [OF assms, of "(0, 0, -1)" 0] by (auto simp: best_inside_def)
  show ?thesis
  proof (cases "off \<ge> 0")
    case False
    then show ?thesis using b(1) by (simp add: icon_texture_def)
  next
    case True
    then have i: "0 < w" "0 < h" "w * h < 2 ^ 30" "off + w * h \<le> int (length ws)" using b(2) by (simp_all add: best_inside_def)
    define n where "n = nat (w * h)"
    have n: "int n = w * h" using i(1,2) by (simp add: n_def)
    have "unat (word_of_nat n :: 64 word) = n" using i(3) n by (simp add: unat_of_nat take_bit_nat_eq_self)
    moreover have "word_of_int w * word_of_int h = (word_of_nat n :: 64 word)" using n by (metis of_int_mult of_int_of_nat_eq)
    ultimately have npx: "unat (word_of_int w * word_of_int h :: 64 word) = n" by simp
    have len: "nat off + n \<le> length ws" using True i(4) n by linarith
    then have "icon_texture (Some ws) = Done (Some (w, h, take n (drop (nat off) ws)))"
      using b(1) True npx by (simp add: icon_texture_def Let_def)
    moreover have "ws = take (nat off) ws @ take n (drop (nat off) ws) @ drop n (drop (nat off) ws)"
      by (simp only: append_take_drop_id)
    moreover have "int (length (take n (drop (nat off) ws))) = w * h" using len n by simp
    ultimately show ?thesis using i(1,2) by (intro exI [of _ "Some (w, h, take n (drop (nat off) ws))"]) (simp only: option.case prod.case, blast)
  qed
qed

theorem icon_walk_ends_witness:
  "\<exists>t. icon_texture (Some [2, 1, 5, 6]) = Done t"
proof -
  have "tame [2, 1, 5, 6]" by (auto simp: tame_def nth_Cons split: nat.splits)
  from icon_walk_ends [OF this] show ?thesis by blast
qed

text \<open>
  Without that condition neither holds. A window whose icon property is the words \<open>0xFFFFFFFE\<close> and 1
  keeps the shell in the walk for ever; the words \<open>0x10000\<close> and \<open>0x10000\<close>, whose product wraps to 0, make
  it read 16 GiB past the property; and a class without its closing zero is read past its end.
\<close>

theorem hostile_window:
  "icon_texture (Some [0xFFFFFFFE, 1]) = Hang \<and> icon_texture (Some [0x10000, 0x10000]) = Fault \<and>
   class_matches ''ab'' (Some ''ab'') = Fault"
proof (intro conjI)
  have "scan [0xFFFFFFFE, 1] 0 (0, 0, -1) = None" using scan_stuck by (metis not_Some_eq)
  then show "icon_texture (Some [0xFFFFFFFE, 1]) = Hang" by (simp add: icon_texture_def)
  have "scan [0x10000, 0x10000] 2 (65536, 65536, 2) = Some (Done (65536, 65536, 2))" by (subst scan.simps) simp
  then have "scan [0x10000, 0x10000] 0 (0, 0, -1) = Some (Done (65536, 65536, 2))" by (subst scan.simps) (simp add: better_def)
  then show "icon_texture (Some [0x10000, 0x10000]) = Fault" by (simp add: icon_texture_def Let_def)
  show "class_matches ''ab'' (Some ''ab'') = Fault" by (simp add: class_matches_def)
qed

end
