(* ===== verification/Workspaces.thy ===== *)
theory Workspaces
  imports C_Prelude
begin

text \<open>
  Workspaces and workspace groups, \<^verbatim>\<open>src/wayland/wayland_integration.c\<close>: the tables from workspaces to groups,
  from groups to outputs and from outputs to connector names, and the requests of the client. Objects are
  addresses, which the compositor's events may reuse after their destruction. A table that was not made
  yet is an empty table. \<open>compositor\<close> is what the other side knows; its events keep the protocol
  \<^verbatim>\<open>protocols/ext-workspace-v1.xml\<close>.
\<close>

section \<open>State\<close>

datatype ws_note =
    Told_created nat string
  | Told_state nat nat
  | Told_destroyed nat
  | Activate_ws nat
  | Create_ws nat string
  | Remove_ws nat
  | Commit

record ws_state =
  ws_created_cb :: bool
  ws_state_cb :: bool
  ws_destroyed_cb :: bool
  ws_manager :: bool
  ws_group :: "nat option"
  ws_group_map :: "nat \<rightharpoonup> nat"
  ws_outputs_map :: "nat \<rightharpoonup> nat list"
  ws_connectors :: "nat \<rightharpoonup> string"
  ws_groups :: "nat set"
  ws_spaces :: "nat set"
  ws_log :: "ws_note list"
  ws_fault :: bool

definition ws_init :: "bool \<Rightarrow> bool \<Rightarrow> bool \<Rightarrow> ws_state" where
  "ws_init created state destroyed =
     \<lparr>ws_created_cb = created, ws_state_cb = state, ws_destroyed_cb = destroyed, ws_manager = False, ws_group = None,
       ws_group_map = Map.empty, ws_outputs_map = Map.empty, ws_connectors = Map.empty, ws_groups = {}, ws_spaces = {},
       ws_log = [], ws_fault = False\<rparr>"

definition ws_note :: "ws_note list \<Rightarrow> ws_state \<Rightarrow> ws_state" where
  "ws_note ns s = s\<lparr>ws_log := ws_log s @ ns\<rparr>"

section \<open>Queries and requests\<close>

definition get_workspace_group :: "nat \<Rightarrow> ws_state \<Rightarrow> nat option" where
  "get_workspace_group handle s = ws_group_map s handle"

definition get_workspace_connector :: "nat \<Rightarrow> ws_state \<Rightarrow> string option" where
  "get_workspace_connector handle s =
     (case ws_group_map s handle of
        None \<Rightarrow> None
      | Some g \<Rightarrow>
          (case ws_outputs_map s g of
             None \<Rightarrow> None
           | Some outputs \<Rightarrow> if length outputs \<noteq> 1 then None else ws_connectors s (outputs ! 0)))"

definition commit :: "ws_state \<Rightarrow> ws_state" where
  "commit s = (if ws_manager s then ws_note [Commit] s else s)"

definition use_space :: "nat \<Rightarrow> ws_state \<Rightarrow> ws_state" where
  "use_space w s = s\<lparr>ws_fault := ws_fault s \<or> w \<notin> ws_spaces s\<rparr>"

definition activate_workspace :: "nat option \<Rightarrow> ws_state \<Rightarrow> ws_state" where
  "activate_workspace handle s =
     (case handle of None \<Rightarrow> s | Some w \<Rightarrow> commit (ws_note [Activate_ws w] (use_space w s)))"

definition create_workspace :: "string \<Rightarrow> ws_state \<Rightarrow> ws_state" where
  "create_workspace name s =
     (case ws_group s of
        None \<Rightarrow> s
      | Some g \<Rightarrow> commit (ws_note [Create_ws g name] (s\<lparr>ws_fault := ws_fault s \<or> g \<notin> ws_groups s\<rparr>)))"

definition remove_workspace :: "nat option \<Rightarrow> ws_state \<Rightarrow> ws_state" where
  "remove_workspace handle s =
     (case handle of None \<Rightarrow> s | Some w \<Rightarrow> commit (ws_note [Remove_ws w] (use_space w s)))"

definition assign_toplevel :: "nat option \<Rightarrow> nat option \<Rightarrow> ws_state \<Rightarrow> ws_state" where
  "assign_toplevel workspace toplevel s = s"

datatype ws_call =
    Activate "nat option"
  | Create string
  | Remove "nat option"
  | Assign "nat option" "nat option"

fun ws_do :: "ws_call \<Rightarrow> ws_state \<Rightarrow> ws_state" where
  "ws_do (Activate h) s = activate_workspace h s"
| "ws_do (Create name) s = create_workspace name s"
| "ws_do (Remove h) s = remove_workspace h s"
| "ws_do (Assign w t) s = assign_toplevel w t s"

section \<open>Handlers\<close>

text \<open>\<open>calls\<close>: what the client asks for inside a callback.\<close>

definition workspace_handle_name :: "nat \<Rightarrow> string \<Rightarrow> ws_call list \<Rightarrow> ws_state \<Rightarrow> ws_state" where
  "workspace_handle_name w name calls s =
     (if ws_created_cb s then fold ws_do calls (ws_note [Told_created w name] s) else s)"

definition workspace_handle_state :: "nat \<Rightarrow> nat \<Rightarrow> ws_call list \<Rightarrow> ws_state \<Rightarrow> ws_state" where
  "workspace_handle_state w n calls s =
     (if ws_state_cb s then fold ws_do calls (ws_note [Told_state w n] s) else s)"

definition workspace_handle_removed :: "nat \<Rightarrow> ws_call list \<Rightarrow> ws_state \<Rightarrow> ws_state" where
  "workspace_handle_removed w calls s =
     (let s1 = (if ws_destroyed_cb s then fold ws_do calls (ws_note [Told_destroyed w] s) else s);
          s2 = s1\<lparr>ws_group_map := (ws_group_map s1)(w := None)\<rparr>
      in (use_space w s2)\<lparr>ws_spaces := ws_spaces s2 - {w}\<rparr>)"

definition group_outputs :: "nat \<Rightarrow> ws_state \<Rightarrow> nat list \<times> ws_state" where
  "group_outputs g s =
     (case ws_outputs_map s g of
        Some outputs \<Rightarrow> (outputs, s)
      | None \<Rightarrow> ([], s\<lparr>ws_outputs_map := (ws_outputs_map s)(g \<mapsto> [])\<rparr>))"

definition workspace_group_output_enter :: "nat \<Rightarrow> nat \<Rightarrow> ws_state \<Rightarrow> ws_state" where
  "workspace_group_output_enter g out s =
     (case group_outputs g s of (outputs, s1) \<Rightarrow>
        if out \<notin> set outputs then s1\<lparr>ws_outputs_map := (ws_outputs_map s1)(g \<mapsto> outputs @ [out])\<rparr> else s1)"

definition workspace_group_output_leave :: "nat \<Rightarrow> nat \<Rightarrow> ws_state \<Rightarrow> ws_state" where
  "workspace_group_output_leave g out s =
     (case group_outputs g s of (outputs, s1) \<Rightarrow> s1\<lparr>ws_outputs_map := (ws_outputs_map s1)(g \<mapsto> remove1 out outputs)\<rparr>)"

definition workspace_group_workspace_enter :: "nat \<Rightarrow> nat \<Rightarrow> ws_state \<Rightarrow> ws_state" where
  "workspace_group_workspace_enter g w s = s\<lparr>ws_group_map := (ws_group_map s)(w \<mapsto> g)\<rparr>"

definition workspace_group_workspace_leave :: "nat \<Rightarrow> nat \<Rightarrow> ws_state \<Rightarrow> ws_state" where
  "workspace_group_workspace_leave g w s =
     (if ws_group_map s w = Some g then s\<lparr>ws_group_map := (ws_group_map s)(w := None)\<rparr> else s)"

definition workspace_group_removed :: "nat \<Rightarrow> ws_state \<Rightarrow> ws_state" where
  "workspace_group_removed g s =
     (let s1 = (if ws_group s = Some g then s\<lparr>ws_group := None\<rparr> else s)
      in s1\<lparr>ws_outputs_map := (ws_outputs_map s1)(g := None), ws_fault := ws_fault s1 \<or> g \<notin> ws_groups s1,
            ws_groups := ws_groups s1 - {g}\<rparr>)"

definition workspace_manager_workspace_group :: "nat \<Rightarrow> ws_state \<Rightarrow> ws_state" where
  "workspace_manager_workspace_group g s =
     (if ws_group s = None then s\<lparr>ws_group := Some g\<rparr> else s)\<lparr>ws_groups := insert g (ws_groups s)\<rparr>"

definition workspace_manager_workspace :: "nat \<Rightarrow> ws_state \<Rightarrow> ws_state" where
  "workspace_manager_workspace w s = s\<lparr>ws_spaces := insert w (ws_spaces s)\<rparr>"

definition workspace_manager_finished :: "ws_state \<Rightarrow> ws_state" where
  "workspace_manager_finished s = s\<lparr>ws_manager := False\<rparr>"

definition wl_output_handle_name :: "nat \<Rightarrow> string \<Rightarrow> ws_state \<Rightarrow> ws_state" where
  "wl_output_handle_name out name s = s\<lparr>ws_connectors := (ws_connectors s)(out \<mapsto> name)\<rparr>"

section \<open>The compositor and its events\<close>

record compositor =
  c_groups :: "nat set"
  c_spaces :: "nat set"
  c_members :: "(nat \<times> nat) set"
  c_shown :: "(nat \<times> nat) set"
  c_names :: "nat \<rightharpoonup> string"

definition comp_init :: compositor where
  "comp_init = \<lparr>c_groups = {}, c_spaces = {}, c_members = {}, c_shown = {}, c_names = Map.empty\<rparr>"

datatype ws_event =
    W_manager
  | W_finished
  | W_group nat
  | W_workspace nat
  | W_name nat string "ws_call list"
  | W_state nat nat "ws_call list"
  | W_removed nat "ws_call list"
  | W_output_enter nat nat
  | W_output_leave nat nat
  | W_enter nat nat
  | W_leave nat nat
  | W_group_removed nat
  | W_connector nat string
  | W_call ws_call

text \<open>The client uses workspaces it was told of and not told to be destroyed.\<close>

fun legal_call :: "nat set \<Rightarrow> ws_call \<Rightarrow> bool" where
  "legal_call live (Activate (Some w)) = (w \<in> live)"
| "legal_call live (Remove (Some w)) = (w \<in> live)"
| "legal_call live _ = True"

fun legal :: "ws_event \<Rightarrow> compositor \<Rightarrow> bool" where
  "legal (W_group g) c = (g \<notin> c_groups c)"
| "legal (W_workspace w) c = (w \<notin> c_spaces c)"
| "legal (W_name w name calls) c = (w \<in> c_spaces c \<and> list_all (legal_call (c_spaces c)) calls)"
| "legal (W_state w n calls) c = (w \<in> c_spaces c \<and> list_all (legal_call (c_spaces c)) calls)"
| "legal (W_removed w calls) c = (w \<in> c_spaces c \<and> w \<notin> snd ` c_members c \<and> list_all (legal_call (c_spaces c)) calls)"
| "legal (W_output_enter g out) c = (g \<in> c_groups c)"
| "legal (W_output_leave g out) c = (g \<in> c_groups c)"
| "legal (W_enter g w) c = (g \<in> c_groups c \<and> w \<in> c_spaces c \<and> w \<notin> snd ` c_members c)"
| "legal (W_leave g w) c = (g \<in> c_groups c \<and> w \<in> c_spaces c)"
| "legal (W_group_removed g) c = (g \<in> c_groups c \<and> g \<notin> fst ` c_members c)"
| "legal (W_call k) c = legal_call (c_spaces c) k"
| "legal _ c = True"

fun world :: "ws_event \<Rightarrow> compositor \<Rightarrow> compositor" where
  "world (W_group g) c = c\<lparr>c_groups := insert g (c_groups c)\<rparr>"
| "world (W_workspace w) c = c\<lparr>c_spaces := insert w (c_spaces c)\<rparr>"
| "world (W_removed w calls) c = c\<lparr>c_spaces := c_spaces c - {w}\<rparr>"
| "world (W_output_enter g out) c = c\<lparr>c_shown := insert (g, out) (c_shown c)\<rparr>"
| "world (W_output_leave g out) c = c\<lparr>c_shown := c_shown c - {(g, out)}\<rparr>"
| "world (W_enter g w) c = c\<lparr>c_members := insert (g, w) (c_members c)\<rparr>"
| "world (W_leave g w) c = c\<lparr>c_members := c_members c - {(g, w)}\<rparr>"
| "world (W_group_removed g) c = c\<lparr>c_groups := c_groups c - {g}, c_shown := {p \<in> c_shown c. fst p \<noteq> g}\<rparr>"
| "world (W_connector out name) c = c\<lparr>c_names := (c_names c)(out \<mapsto> name)\<rparr>"
| "world _ c = c"

fun ws_handle :: "ws_event \<Rightarrow> ws_state \<Rightarrow> ws_state" where
  "ws_handle W_manager s = s\<lparr>ws_manager := True\<rparr>"
| "ws_handle W_finished s = workspace_manager_finished s"
| "ws_handle (W_group g) s = workspace_manager_workspace_group g s"
| "ws_handle (W_workspace w) s = workspace_manager_workspace w s"
| "ws_handle (W_name w name calls) s = workspace_handle_name w name calls s"
| "ws_handle (W_state w n calls) s = workspace_handle_state w n calls s"
| "ws_handle (W_removed w calls) s = workspace_handle_removed w calls s"
| "ws_handle (W_output_enter g out) s = workspace_group_output_enter g out s"
| "ws_handle (W_output_leave g out) s = workspace_group_output_leave g out s"
| "ws_handle (W_enter g w) s = workspace_group_workspace_enter g w s"
| "ws_handle (W_leave g w) s = workspace_group_workspace_leave g w s"
| "ws_handle (W_group_removed g) s = workspace_group_removed g s"
| "ws_handle (W_connector out name) s = wl_output_handle_name out name s"
| "ws_handle (W_call k) s = ws_do k s"

definition ws_step :: "ws_event \<Rightarrow> ws_state \<times> compositor \<Rightarrow> ws_state \<times> compositor" where
  "ws_step e = (\<lambda>(s, c). if legal e c then (ws_handle e s, world e c) else (s, c))"

section \<open>The invariant\<close>

definition outputs_of :: "nat \<Rightarrow> ws_state \<Rightarrow> nat list" where
  "outputs_of g s = (case ws_outputs_map s g of None \<Rightarrow> [] | Some outs \<Rightarrow> outs)"

definition objects_agree :: "ws_state \<Rightarrow> compositor \<Rightarrow> bool" where
  "objects_agree s c \<longleftrightarrow> ws_groups s = c_groups c \<and> ws_spaces s = c_spaces c \<and> ws_connectors s = c_names c \<and>
     (\<forall>g. ws_group s = Some g \<longrightarrow> g \<in> c_groups c) \<and> \<not> ws_fault s"

definition members_agree :: "ws_state \<Rightarrow> compositor \<Rightarrow> bool" where
  "members_agree s c \<longleftrightarrow> (\<forall>w g. ws_group_map s w = Some g \<longleftrightarrow> (g, w) \<in> c_members c) \<and> c_members c \<subseteq> c_groups c \<times> c_spaces c"

definition outputs_agree :: "ws_state \<Rightarrow> compositor \<Rightarrow> bool" where
  "outputs_agree s c \<longleftrightarrow> (\<forall>g. distinct (outputs_of g s) \<and> (\<forall>out. out \<in> set (outputs_of g s) \<longleftrightarrow> (g, out) \<in> c_shown c))"

fun ws_inv :: "ws_state \<times> compositor \<Rightarrow> bool" where
  "ws_inv (s, c) \<longleftrightarrow> objects_agree s c \<and> members_agree s c \<and> outputs_agree s c"

text \<open>What the client's requests leave alone.\<close>

lemma note_quiet [simp]:
  "ws_group_map (ws_note ns s) = ws_group_map s" "ws_outputs_map (ws_note ns s) = ws_outputs_map s" "ws_groups (ws_note ns s) = ws_groups s"
  "ws_spaces (ws_note ns s) = ws_spaces s" "ws_connectors (ws_note ns s) = ws_connectors s" "ws_group (ws_note ns s) = ws_group s"
  "ws_fault (ws_note ns s) = ws_fault s" "ws_manager (ws_note ns s) = ws_manager s"
  by (simp_all add: ws_note_def)

definition same_tables :: "ws_state \<Rightarrow> ws_state \<Rightarrow> bool" where
  "same_tables s t \<longleftrightarrow> ws_group_map t = ws_group_map s \<and> ws_outputs_map t = ws_outputs_map s \<and> ws_groups t = ws_groups s \<and>
     ws_spaces t = ws_spaces s \<and> ws_connectors t = ws_connectors s \<and> ws_group t = ws_group s \<and> ws_fault t = ws_fault s"

lemma same_inv: "same_tables s t \<Longrightarrow> ws_inv (s, c) \<Longrightarrow> ws_inv (t, c)"
  by (simp add: same_tables_def objects_agree_def members_agree_def outputs_agree_def outputs_of_def)

lemma call_same:
  assumes "objects_agree s c" and "legal_call (c_spaces c) k"
  shows "same_tables s (ws_do k s)"
proof (cases k)
  case (Activate h)
  then show ?thesis using assms
    by (cases h) (auto simp: same_tables_def activate_workspace_def commit_def use_space_def objects_agree_def)
next
  case (Create name)
  then show ?thesis using assms
    by (cases "ws_group s") (auto simp: same_tables_def create_workspace_def commit_def objects_agree_def)
next
  case (Remove h)
  then show ?thesis using assms
    by (cases h) (auto simp: same_tables_def remove_workspace_def commit_def use_space_def objects_agree_def)
next
  case (Assign w t)
  then show ?thesis by (simp add: same_tables_def assign_toplevel_def)
qed

lemma ws_calls_inv: "ws_inv (s, c) \<Longrightarrow> list_all (legal_call (c_spaces c)) ks \<Longrightarrow> ws_inv (fold ws_do ks s, c)"
proof (induction ks arbitrary: s)
  case (Cons k ks)
  then have "same_tables s (ws_do k s)" by (intro call_same [of s c]) simp_all
  then have "ws_inv (ws_do k s, c)" using Cons.prems(1) by (rule same_inv)
  then show ?case using Cons by simp
qed simp

lemma note_inv: "ws_inv (s, c) \<Longrightarrow> ws_inv (ws_note ns s, c)"
  by (rule same_inv) (simp_all add: same_tables_def)

lemma ws_callback_inv: "ws_inv (s, c) \<Longrightarrow> list_all (legal_call (c_spaces c)) ks \<Longrightarrow> ws_inv (if b then fold ws_do ks (ws_note ns s) else s, c)"
  using ws_calls_inv [OF note_inv] by simp

lemma removed_inv:
  assumes "ws_inv (s, c)" and "legal (W_removed w ks) c"
  shows "ws_inv (workspace_handle_removed w ks s, c\<lparr>c_spaces := c_spaces c - {w}\<rparr>)"
proof -
  let ?s = "if ws_destroyed_cb s then fold ws_do ks (ws_note [Told_destroyed w] s) else s"
  have inv: "ws_inv (?s, c)" using ws_callback_inv [OF assms(1)] assms(2) by simp
  have m: "\<And>g. (g, w) \<notin> c_members c" using assms(2) by (auto simp: image_iff)
  have "members_agree ?s c" using inv by simp
  then have "members_agree (workspace_handle_removed w ks s) (c\<lparr>c_spaces := c_spaces c - {w}\<rparr>)"
    using m unfolding members_agree_def by (auto simp: workspace_handle_removed_def use_space_def Let_def)
  moreover have "objects_agree (workspace_handle_removed w ks s) (c\<lparr>c_spaces := c_spaces c - {w}\<rparr>)"
    using inv assms(2) by (auto simp: objects_agree_def workspace_handle_removed_def use_space_def Let_def)
  moreover have "outputs_agree (workspace_handle_removed w ks s) (c\<lparr>c_spaces := c_spaces c - {w}\<rparr>)"
    using inv by (simp add: outputs_agree_def outputs_of_def workspace_handle_removed_def use_space_def Let_def)
  ultimately show ?thesis by simp
qed

lemma group_outputs_result:
  "fst (group_outputs g s) = outputs_of g s" "outputs_of h (snd (group_outputs g s)) = outputs_of h s"
  "ws_groups (snd (group_outputs g s)) = ws_groups s" "ws_spaces (snd (group_outputs g s)) = ws_spaces s"
  "ws_connectors (snd (group_outputs g s)) = ws_connectors s" "ws_group (snd (group_outputs g s)) = ws_group s"
  "ws_fault (snd (group_outputs g s)) = ws_fault s" "ws_group_map (snd (group_outputs g s)) = ws_group_map s"
  by (simp_all add: group_outputs_def outputs_of_def split: option.split)

lemma outputs_changed:
  assumes "ws_inv (s, c)" and "distinct outs" and "\<And>out. out \<in> set outs \<longleftrightarrow> (g, out) \<in> S" and "\<And>h out. h \<noteq> g \<Longrightarrow> (h, out) \<in> S \<longleftrightarrow> (h, out) \<in> c_shown c"
    and "\<And>h. outputs_of h t = (if h = g then outs else outputs_of h s)" and "ws_groups t = ws_groups s" and "ws_spaces t = ws_spaces s"
    and "ws_connectors t = ws_connectors s" and "ws_group t = ws_group s" and "ws_fault t = ws_fault s" and "ws_group_map t = ws_group_map s"
  shows "ws_inv (t, c\<lparr>c_shown := S\<rparr>)"
  using assms by (simp add: objects_agree_def members_agree_def outputs_agree_def)

lemma output_enter_inv:
  assumes "ws_inv (s, c)"
  shows "ws_inv (workspace_group_output_enter g out s, c\<lparr>c_shown := insert (g, out) (c_shown c)\<rparr>)"
proof -
  have "distinct (outputs_of g s)" "\<And>out. out \<in> set (outputs_of g s) \<longleftrightarrow> (g, out) \<in> c_shown c" using assms by (simp_all add: outputs_agree_def)
  then show ?thesis using group_outputs_result [where g = g and s = s]
    by (intro outputs_changed [OF assms, where outs = "if out \<in> set (outputs_of g s) then outputs_of g s else outputs_of g s @ [out]" and g = g])
      (auto simp: workspace_group_output_enter_def outputs_of_def split: prod.splits)
qed

lemma output_leave_inv:
  assumes "ws_inv (s, c)"
  shows "ws_inv (workspace_group_output_leave g out s, c\<lparr>c_shown := c_shown c - {(g, out)}\<rparr>)"
proof -
  have "distinct (outputs_of g s)" "\<And>out. out \<in> set (outputs_of g s) \<longleftrightarrow> (g, out) \<in> c_shown c" using assms by (simp_all add: outputs_agree_def)
  then show ?thesis using group_outputs_result [where g = g and s = s]
    by (intro outputs_changed [OF assms, where outs = "remove1 out (outputs_of g s)" and g = g])
      (auto simp: workspace_group_output_leave_def outputs_of_def split: prod.splits)
qed

lemma enter_inv:
  assumes "ws_inv (s, c)" and "legal (W_enter g w) c"
  shows "ws_inv (workspace_group_workspace_enter g w s, c\<lparr>c_members := insert (g, w) (c_members c)\<rparr>)"
proof -
  have m: "\<And>w g. ws_group_map s w = Some g \<longleftrightarrow> (g, w) \<in> c_members c" "c_members c \<subseteq> c_groups c \<times> c_spaces c"
    using assms(1) by (simp_all add: members_agree_def)
  have "\<And>h. (h, w) \<notin> c_members c" using assms(2) by (auto simp: image_iff)
  then have "members_agree (workspace_group_workspace_enter g w s) (c\<lparr>c_members := insert (g, w) (c_members c)\<rparr>)"
    using m assms(2) unfolding members_agree_def by (auto simp: workspace_group_workspace_enter_def)
  then show ?thesis using assms(1)
    by (simp add: objects_agree_def outputs_agree_def outputs_of_def workspace_group_workspace_enter_def)
qed

lemma leave_inv:
  assumes "ws_inv (s, c)"
  shows "ws_inv (workspace_group_workspace_leave g w s, c\<lparr>c_members := c_members c - {(g, w)}\<rparr>)"
proof -
  have m: "\<And>w g. ws_group_map s w = Some g \<longleftrightarrow> (g, w) \<in> c_members c" "c_members c \<subseteq> c_groups c \<times> c_spaces c"
    using assms by (simp_all add: members_agree_def)
  have "ws_group_map (workspace_group_workspace_leave g w s) v = Some h \<longleftrightarrow> (h, v) \<in> c_members c - {(g, w)}" for v h
    using m(1) [of v h] m(1) [of w g] by (auto simp: workspace_group_workspace_leave_def)
  then have "members_agree (workspace_group_workspace_leave g w s) (c\<lparr>c_members := c_members c - {(g, w)}\<rparr>)"
    using m(2) unfolding members_agree_def by auto
  then show ?thesis using assms
    by (simp add: objects_agree_def outputs_agree_def outputs_of_def workspace_group_workspace_leave_def)
qed

lemma group_removed_inv:
  assumes "ws_inv (s, c)" and "legal (W_group_removed g) c"
  shows "ws_inv (workspace_group_removed g s, c\<lparr>c_groups := c_groups c - {g}, c_shown := {p \<in> c_shown c. fst p \<noteq> g}\<rparr>)"
proof -
  have "objects_agree (workspace_group_removed g s) (c\<lparr>c_groups := c_groups c - {g}, c_shown := {p \<in> c_shown c. fst p \<noteq> g}\<rparr>)"
    using assms by (auto simp: objects_agree_def workspace_group_removed_def Let_def)
  moreover have "members_agree (workspace_group_removed g s) (c\<lparr>c_groups := c_groups c - {g}, c_shown := {p \<in> c_shown c. fst p \<noteq> g}\<rparr>)"
    using assms by (force simp: members_agree_def workspace_group_removed_def Let_def)
  moreover have "outputs_agree (workspace_group_removed g s) (c\<lparr>c_groups := c_groups c - {g}, c_shown := {p \<in> c_shown c. fst p \<noteq> g}\<rparr>)"
    using assms(1) by (auto simp: outputs_agree_def outputs_of_def workspace_group_removed_def Let_def)
  ultimately show ?thesis by simp
qed

lemma ws_handle_inv:
  assumes "ws_inv (s, c)" and "legal e c"
  shows "ws_inv (ws_handle e s, world e c)"
proof (cases e)
  case (W_group g)
  then show ?thesis using assms
    by (auto simp: objects_agree_def members_agree_def outputs_agree_def outputs_of_def workspace_manager_workspace_group_def)
next
  case (W_workspace w)
  then show ?thesis using assms
    by (auto simp: objects_agree_def members_agree_def outputs_agree_def outputs_of_def workspace_manager_workspace_def)
next
  case (W_name w name ks)
  then show ?thesis using ws_callback_inv [OF assms(1)] assms(2) by (simp only: workspace_handle_name_def ws_handle.simps world.simps legal.simps)
next
  case (W_state w n ks)
  then show ?thesis using ws_callback_inv [OF assms(1)] assms(2) by (simp only: workspace_handle_state_def ws_handle.simps world.simps legal.simps)
next
  case (W_removed w ks)
  then show ?thesis using removed_inv [OF assms(1)] assms(2) by (simp only: ws_handle.simps world.simps)
next
  case (W_output_enter g out)
  then show ?thesis using output_enter_inv [OF assms(1)] by (simp only: ws_handle.simps world.simps)
next
  case (W_output_leave g out)
  then show ?thesis using output_leave_inv [OF assms(1)] by (simp only: ws_handle.simps world.simps)
next
  case (W_enter g w)
  then show ?thesis using enter_inv [OF assms(1)] assms(2) by (simp only: ws_handle.simps world.simps)
next
  case (W_leave g w)
  then show ?thesis using leave_inv [OF assms(1)] by (simp only: ws_handle.simps world.simps)
next
  case (W_group_removed g)
  then show ?thesis using group_removed_inv [OF assms(1)] assms(2) by (simp only: ws_handle.simps world.simps)
next
  case (W_call k)
  then show ?thesis using ws_calls_inv [OF assms(1), of "[k]"] assms(2) by simp
qed (use assms in \<open>auto simp: objects_agree_def members_agree_def outputs_agree_def outputs_of_def workspace_manager_finished_def wl_output_handle_name_def\<close>)

lemma ws_step_inv: "ws_inv p \<Longrightarrow> ws_inv (ws_step e p)"
  using ws_handle_inv by (cases p) (simp add: ws_step_def del: ws_inv.simps)

interpretation spaces: event_machine ws_step ws_inv
  by unfold_locales (rule ws_step_inv)

lemma ws_init_inv: "ws_inv (ws_init a b d, comp_init)"
  by (simp add: ws_init_def comp_init_def objects_agree_def members_agree_def outputs_agree_def outputs_of_def)

section \<open>Properties\<close>


definition demo_spaces :: "ws_event list" where
  "demo_spaces = [W_manager, W_group 1, W_workspace 2, W_connector 5 ''DP-1'', W_output_enter 1 5, W_enter 1 2,
     W_name 2 ''web'' [Activate (Some 2)], W_leave 1 2, W_enter 1 2]"


text \<open>
  A workspace can be created only while the first group lives: when it is removed, the shell asks for
  nothing although other groups are left.
\<close>

lemma create_after_first_group:
  "ws_log (fst (fold ws_step [W_manager, W_group 1, W_group 2, W_group_removed 1, W_call (Create ''new'')] (ws_init True True True, comp_init))) = []"
  by (simp add: ws_step_def comp_init_def ws_init_def workspace_manager_workspace_group_def workspace_group_removed_def create_workspace_def)

end
