(* ===== verification/Lock_Media.thy ===== *)
theory Lock_Media
  imports C_Prelude "HOL-Library.Word"
begin

text \<open>
  What the lock screen shows of the music that plays, \<^verbatim>\<open>src/lockscreen/lock_media.c\<close>: the choice of an MPRIS
  player on the session bus, the state taken from its properties, the cover and the controls. Every event
  carries what the bus and the disk hold at its time (\<open>media_env\<close>). A property of another type than the
  code asks for counts as absent.
\<close>

unbundle bit_operations_syntax

section \<open>The cover\<close>

record pixbuf =
  pb_w :: nat
  pb_h :: nat
  pb_channels :: nat
  pb_rowstride :: nat
  pb_pixels :: "8 word list"

type_synonym surface = "32 word list list"

definition rgb_word :: "8 word \<Rightarrow> 8 word \<Rightarrow> 8 word \<Rightarrow> 32 word" where
  "rgb_word r g b = (push_bit 16 (ucast r)) OR (push_bit 8 (ucast g)) OR ucast b"

text \<open>\<open>None\<close>: a pixel lies outside the pixels of the buffer.\<close>

definition surface_pixel :: "pixbuf \<Rightarrow> nat \<Rightarrow> nat \<Rightarrow> 32 word option" where
  "surface_pixel pb y x =
     (let i = y * pb_rowstride pb + x * pb_channels pb
      in if i + 2 < length (pb_pixels pb)
         then Some (rgb_word (pb_pixels pb ! i) (pb_pixels pb ! (i + 1)) (pb_pixels pb ! (i + 2))) else None)"

definition pixbuf_to_surface :: "pixbuf \<Rightarrow> surface option" where
  "pixbuf_to_surface pb = those (map (\<lambda>y. those (map (surface_pixel pb y) [0..<pb_w pb])) [0..<pb_h pb])"

section \<open>State\<close>

datatype artist_value = Artists "string list" | Artist string

record metadata =
  mp_title :: "string option"
  mp_artist :: "artist_value option"
  mp_art :: "string option"

record player_props =
  pp_status :: "string option"
  pp_next :: "bool option"
  pp_prev :: "bool option"
  pp_meta :: "metadata option"

record media_env =
  me_names :: "string list option"
  me_connect :: "string \<Rightarrow> bool"
  me_props :: "string \<Rightarrow> player_props"
  me_cover :: "pixbuf option"

datatype media_note = Changed | Call_player string string

record shown =
  sh_has_player :: bool
  sh_playing :: bool
  sh_next :: bool
  sh_prev :: bool
  sh_title :: string
  sh_artist :: string

record media_state =
  lm_player :: "string option"
  lm_player_name :: string
  lm_shown :: shown
  lm_cover :: "surface option"
  lm_cover_path :: string
  lm_last_art :: string
  lm_cb :: bool
  lm_log :: "media_note list"
  lm_fault :: bool

definition blank :: shown where
  "blank = \<lparr>sh_has_player = False, sh_playing = False, sh_next = False, sh_prev = False, sh_title = [], sh_artist = []\<rparr>"

definition media_note :: "media_note list \<Rightarrow> media_state \<Rightarrow> media_state" where
  "media_note ns s = s\<lparr>lm_log := lm_log s @ ns\<rparr>"

definition tell_change :: "media_state \<Rightarrow> media_state" where
  "tell_change s = (if lm_cb s then media_note [Changed] s else s)"

section \<open>Operations\<close>

text \<open>\<open>me_cover\<close> is what gdk-pixbuf makes of the file at the cover path.\<close>

definition load_cover :: "media_env \<Rightarrow> media_state \<Rightarrow> media_state" where
  "load_cover env s =
     (let s1 = s\<lparr>lm_cover := None\<rparr>
      in if lm_cover_path s1 = [] then s1
         else case me_cover env of
                None \<Rightarrow> s1
              | Some pb \<Rightarrow>
                  (case pixbuf_to_surface pb of
                     None \<Rightarrow> s1\<lparr>lm_fault := True\<rparr>
                   | Some x \<Rightarrow> s1\<lparr>lm_cover := Some x\<rparr>))"

definition get_bool_prop :: "bool option \<Rightarrow> bool \<Rightarrow> bool" where
  "get_bool_prop v fallback = (case v of None \<Rightarrow> fallback | Some b \<Rightarrow> b)"

text \<open>\<open>g_strlcpy\<close> into a buffer of \<open>n\<close> bytes.\<close>

definition g_strlcpy :: "nat \<Rightarrow> string \<Rightarrow> string" where
  "g_strlcpy n s = take (n - 1) s"

definition artist_text :: "artist_value option \<Rightarrow> string" where
  "artist_text v =
     (case v of
        None \<Rightarrow> []
      | Some (Artists (a # _)) \<Rightarrow> g_strlcpy 256 a
      | Some (Artists []) \<Rightarrow> []
      | Some (Artist a) \<Rightarrow> g_strlcpy 256 a)"

definition update_art :: "media_env \<Rightarrow> metadata \<Rightarrow> media_state \<Rightarrow> media_state" where
  "update_art env md s =
     (let art_url = (case mp_art md of None \<Rightarrow> [] | Some u \<Rightarrow> u)
      in if art_url \<noteq> lm_last_art s then load_cover env (s\<lparr>lm_last_art := g_strlcpy 1024 art_url\<rparr>) else s)"

definition update_from_proxy :: "media_env \<Rightarrow> media_state \<Rightarrow> media_state" where
  "update_from_proxy env s0 =
     (let s = s0\<lparr>lm_shown := blank\<rparr>
      in case lm_player s of
           None \<Rightarrow> tell_change s
         | Some n \<Rightarrow>
             let p = me_props env n; st = pp_status p;
                 is_shown = (st = Some ''Playing'' \<or> st = Some ''Paused'');
                 s1 = s\<lparr>lm_shown := blank\<lparr>sh_playing := (st = Some ''Playing'')\<rparr>\<rparr>
             in tell_change
                 (if is_shown then
                    let s2 = s1\<lparr>lm_shown := (lm_shown s1)\<lparr>sh_has_player := True, sh_next := get_bool_prop (pp_next p) True,
                                 sh_prev := get_bool_prop (pp_prev p) True\<rparr>\<rparr>
                    in case pp_meta p of
                         None \<Rightarrow> s2
                       | Some md \<Rightarrow>
                           update_art env md
                             (s2\<lparr>lm_shown := (lm_shown s2)\<lparr>sh_title := (case mp_title md of None \<Rightarrow> [] | Some t \<Rightarrow> g_strlcpy 256 t),
                                   sh_artist := artist_text (mp_artist md)\<rparr>\<rparr>)
                  else s1\<lparr>lm_last_art := [], lm_cover := None\<rparr>))"

definition on_props_changed :: "media_env \<Rightarrow> media_state \<Rightarrow> media_state" where
  "on_props_changed env s = update_from_proxy env s"

definition connect_player :: "media_env \<Rightarrow> string \<Rightarrow> media_state \<Rightarrow> media_state" where
  "connect_player env name s =
     (let s1 = s\<lparr>lm_player := None\<rparr>
      in if \<not> me_connect env name then s1
         else update_from_proxy env (s1\<lparr>lm_player := Some name, lm_player_name := g_strlcpy 256 name, lm_last_art := []\<rparr>))"

definition MPRIS :: string where "MPRIS = ''org.mpris.MediaPlayer2.''"

fun find_best :: "media_env \<Rightarrow> string option \<Rightarrow> string list \<Rightarrow> string option" where
  "find_best env best [] = best"
| "find_best env best (name # names) =
     (if \<not> has_prefix MPRIS name then find_best env best names
      else
        let best1 = (if best = None then Some name else best)
        in if me_connect env name \<and> pp_status (me_props env name) = Some ''Playing'' then Some name
           else find_best env best1 names)"

definition find_player :: "media_env \<Rightarrow> media_state \<Rightarrow> media_state" where
  "find_player env s =
     (case me_names env of
        None \<Rightarrow> s
      | Some names \<Rightarrow> (case find_best env None names of None \<Rightarrow> s | Some best \<Rightarrow> connect_player env best s))"

definition on_name_owner_changed :: "media_env \<Rightarrow> string \<Rightarrow> string \<Rightarrow> media_state \<Rightarrow> media_state" where
  "on_name_owner_changed env name new_owner s =
     (if \<not> has_prefix MPRIS name then s
      else if new_owner \<noteq> [] then (if lm_player s = None then connect_player env name s else s)
      else if name = lm_player_name s then
        let s1 = find_player env (s\<lparr>lm_player := None, lm_player_name := []\<rparr>)
        in if lm_player s1 = None then update_from_proxy env s1 else s1
      else s)"

definition on_cover_changed :: "media_env \<Rightarrow> media_state \<Rightarrow> media_state" where
  "on_cover_changed env s = tell_change (load_cover env s)"

text \<open>\<open>cache\<close>: the cache directory of the user; \<open>bus\<close>: the session bus can be reached.\<close>

definition lock_media_init :: "media_env \<Rightarrow> bool \<Rightarrow> string \<Rightarrow> bool \<Rightarrow> media_state" where
  "lock_media_init env bus cache on_change =
     (let s = \<lparr>lm_player = None, lm_player_name = [], lm_shown = blank, lm_cover = None,
                lm_cover_path = g_strlcpy 1024 (cache @ ''/singularity/now-playing-cover''), lm_last_art = [], lm_cb = on_change,
                lm_log = [], lm_fault = False\<rparr>
      in if \<not> bus then s else find_player env s)"

definition call_player :: "string \<Rightarrow> media_state \<Rightarrow> media_state" where
  "call_player method s = (case lm_player s of None \<Rightarrow> s | Some n \<Rightarrow> media_note [Call_player n method] s)"

definition lock_media_play_pause :: "media_state \<Rightarrow> media_state" where
  "lock_media_play_pause s = call_player ''PlayPause'' s"

definition lock_media_next :: "media_state \<Rightarrow> media_state" where
  "lock_media_next s = (if sh_next (lm_shown s) then call_player ''Next'' s else s)"

definition lock_media_prev :: "media_state \<Rightarrow> media_state" where
  "lock_media_prev s = (if sh_prev (lm_shown s) then call_player ''Previous'' s else s)"

section \<open>The machine\<close>

datatype media_event =
    M_props media_env
  | M_owner media_env string string
  | M_cover media_env
  | M_play
  | M_next
  | M_prev

text \<open>Names on the bus have at most 255 bytes.\<close>

definition names_ok :: "media_env \<Rightarrow> bool" where
  "names_ok env \<longleftrightarrow> (case me_names env of None \<Rightarrow> True | Some ns \<Rightarrow> list_all (\<lambda>n. length n \<le> 255) ns)"

text \<open>gdk-pixbuf's buffers hold all of their rows, with three channels or more.\<close>

definition pixbuf_ok :: "pixbuf \<Rightarrow> bool" where
  "pixbuf_ok pb \<longleftrightarrow> pb_channels pb \<ge> 3 \<and> pb_w pb * pb_channels pb \<le> pb_rowstride pb \<and>
     (pb_h pb = 0 \<or> (pb_h pb - 1) * pb_rowstride pb + pb_w pb * pb_channels pb \<le> length (pb_pixels pb))"

definition cover_ok :: "media_env \<Rightarrow> bool" where
  "cover_ok env \<longleftrightarrow> (case me_cover env of None \<Rightarrow> True | Some pb \<Rightarrow> pixbuf_ok pb)"

fun media_event_ok :: "media_event \<Rightarrow> bool" where
  "media_event_ok (M_owner env name new_owner) = (names_ok env \<and> cover_ok env \<and> length name \<le> 255)"
| "media_event_ok (M_props env) = cover_ok env"
| "media_event_ok (M_cover env) = cover_ok env"
| "media_event_ok _ = True"

fun media_handle :: "media_event \<Rightarrow> media_state \<Rightarrow> media_state" where
  "media_handle (M_props env) s = on_props_changed env s"
| "media_handle (M_owner env name new_owner) s = on_name_owner_changed env name new_owner s"
| "media_handle (M_cover env) s = on_cover_changed env s"
| "media_handle M_play s = lock_media_play_pause s"
| "media_handle M_next s = lock_media_next s"
| "media_handle M_prev s = lock_media_prev s"

definition media_step :: "media_event \<Rightarrow> media_state \<Rightarrow> media_state" where
  "media_step e s = (if media_event_ok e then media_handle e s else s)"

section \<open>The abstract view\<close>

text \<open>What a player's properties show.\<close>

definition props_shown :: "player_props \<Rightarrow> shown" where
  "props_shown p =
     (if pp_status p = Some ''Playing'' \<or> pp_status p = Some ''Paused'' then
        \<lparr>sh_has_player = True, sh_playing = (pp_status p = Some ''Playing''), sh_next = pp_next p \<noteq> Some False, sh_prev = pp_prev p \<noteq> Some False,
          sh_title = (case pp_meta p of None \<Rightarrow> [] | Some md \<Rightarrow> (case mp_title md of None \<Rightarrow> [] | Some t \<Rightarrow> take 255 t)),
          sh_artist = (case pp_meta p of None \<Rightarrow> [] | Some md \<Rightarrow> artist_text (mp_artist md))\<rparr>
      else blank)"

text \<open>The choice: the first player that plays, or else the first player.\<close>

definition plays :: "media_env \<Rightarrow> string \<Rightarrow> bool" where
  "plays env n \<longleftrightarrow> me_connect env n \<and> pp_status (me_props env n) = Some ''Playing''"

definition best_player :: "media_env \<Rightarrow> string option" where
  "best_player env =
     (case me_names env of
        None \<Rightarrow> None
      | Some ns \<Rightarrow>
          (case filter (plays env) (filter (has_prefix MPRIS) ns) of
             n # _ \<Rightarrow> Some n
           | [] \<Rightarrow> (case filter (has_prefix MPRIS) ns of n # _ \<Rightarrow> Some n | [] \<Rightarrow> None)))"

type_synonym media_view = "string option \<times> shown"

definition view_of :: "media_env \<Rightarrow> string option \<Rightarrow> media_view" where
  "view_of env p = (case p of Some n \<Rightarrow> if me_connect env n then (Some n, props_shown (me_props env n)) else (None, blank) | None \<Rightarrow> (None, blank))"

fun media_spec :: "media_event \<Rightarrow> media_view \<Rightarrow> media_view" where
  "media_spec (M_props env) (p, sh) =
     (if cover_ok env then (p, case p of None \<Rightarrow> blank | Some n \<Rightarrow> props_shown (me_props env n)) else (p, sh))"
| "media_spec (M_owner env name new_owner) (p, sh) =
     (if \<not> has_prefix MPRIS name \<or> \<not> media_event_ok (M_owner env name new_owner) then (p, sh)
      else if new_owner \<noteq> [] then (if p = None then view_of env (Some name) else (p, sh))
      else if p = Some name then view_of env (best_player env)
      else (p, sh))"
| "media_spec _ v = v"

definition media_abs :: "media_state \<Rightarrow> media_view" where
  "media_abs s = (lm_player s, lm_shown s)"

definition media_inv :: "media_state \<Rightarrow> bool" where
  "media_inv s \<longleftrightarrow> \<not> lm_fault s \<and>
     (case lm_player s of
        None \<Rightarrow> lm_player_name s = [] \<and> lm_shown s = blank
      | Some n \<Rightarrow> lm_player_name s = n \<and> has_prefix MPRIS n \<and> length n \<le> 255)"

section \<open>The cover is converted right\<close>

lemma those_all: "list_all (\<lambda>v. v \<noteq> None) vs \<Longrightarrow> those vs = Some (map the vs)"
  by (induction vs) auto

lemma pixel_inside:
  assumes "pixbuf_ok pb" and "y < pb_h pb" and "x < pb_w pb"
  shows "surface_pixel pb y x \<noteq> None"
proof -
  have "Suc x * pb_channels pb \<le> pb_w pb * pb_channels pb" using assms(3) by (intro mult_right_mono) simp_all
  moreover have "y * pb_rowstride pb \<le> (pb_h pb - 1) * pb_rowstride pb" using assms(2) by (intro mult_right_mono) simp_all
  moreover have "(pb_h pb - 1) * pb_rowstride pb + pb_w pb * pb_channels pb \<le> length (pb_pixels pb)" "3 \<le> pb_channels pb"
    using assms(1,2) by (simp_all add: pixbuf_ok_def)
  moreover have "Suc x * pb_channels pb = x * pb_channels pb + pb_channels pb" by simp
  ultimately have "y * pb_rowstride pb + x * pb_channels pb + 2 < length (pb_pixels pb)" by linarith
  then show ?thesis by (simp add: surface_pixel_def Let_def)
qed

lemma surface_whole:
  assumes "pixbuf_ok pb"
  shows "pixbuf_to_surface pb = Some (map (\<lambda>y. map (\<lambda>x. the (surface_pixel pb y x)) [0..<pb_w pb]) [0..<pb_h pb])"
proof -
  have row: "those (map (surface_pixel pb y) [0..<pb_w pb]) = Some (map (\<lambda>x. the (surface_pixel pb y x)) [0..<pb_w pb])" if "y < pb_h pb" for y
    using pixel_inside [OF assms that] by (subst those_all) (auto simp: list_all_iff)
  have rows: "map (\<lambda>y. those (map (surface_pixel pb y) [0..<pb_w pb])) [0..<pb_h pb] =
      map (\<lambda>y. Some (map (\<lambda>x. the (surface_pixel pb y x)) [0..<pb_w pb])) [0..<pb_h pb]"
    by (rule map_cong) (simp_all add: row)
  show ?thesis unfolding pixbuf_to_surface_def rows by (subst those_all) (simp_all add: list_all_iff comp_def)
qed

section \<open>Steps\<close>

lemma media_note_quiet [simp]:
  "lm_player (media_note ns s) = lm_player s" "lm_player_name (media_note ns s) = lm_player_name s" "lm_shown (media_note ns s) = lm_shown s"
  "lm_fault (media_note ns s) = lm_fault s" "lm_cover (media_note ns s) = lm_cover s"
  by (simp_all add: media_note_def)

lemma tell_quiet [simp]:
  "lm_player (tell_change s) = lm_player s" "lm_player_name (tell_change s) = lm_player_name s" "lm_shown (tell_change s) = lm_shown s"
  "lm_fault (tell_change s) = lm_fault s" "lm_cover (tell_change s) = lm_cover s"
  by (simp_all add: tell_change_def)

lemma cover_quiet [simp]:
  "lm_player (load_cover env s) = lm_player s" "lm_player_name (load_cover env s) = lm_player_name s" "lm_shown (load_cover env s) = lm_shown s"
  by (simp_all add: load_cover_def Let_def split: option.split)

lemma cover_fault: "cover_ok env \<Longrightarrow> lm_fault (load_cover env s) = lm_fault s"
  using surface_whole by (auto simp: load_cover_def cover_ok_def Let_def split: option.splits)

lemma art_quiet [simp]:
  "lm_player (update_art env md s) = lm_player s" "lm_player_name (update_art env md s) = lm_player_name s" "lm_shown (update_art env md s) = lm_shown s"
  by (simp_all add: update_art_def Let_def)

lemma art_fault: "cover_ok env \<Longrightarrow> lm_fault (update_art env md s) = lm_fault s"
  by (simp add: update_art_def Let_def cover_fault)

lemma update_result:
  "lm_player (update_from_proxy env s) = lm_player s" "lm_player_name (update_from_proxy env s) = lm_player_name s"
  "lm_shown (update_from_proxy env s) = (case lm_player s of None \<Rightarrow> blank | Some n \<Rightarrow> props_shown (me_props env n))"
  "cover_ok env \<Longrightarrow> lm_fault (update_from_proxy env s) = lm_fault s"
  by (auto simp: update_from_proxy_def props_shown_def blank_def get_bool_prop_def g_strlcpy_def artist_text_def art_fault Let_def split: option.split)

lemma connect_result:
  assumes "cover_ok env" and "length name \<le> 255" and "has_prefix MPRIS name" and "\<not> lm_fault s" and "lm_player_name s = []" and "lm_shown s = blank"
  shows "media_inv (connect_player env name s)" "media_abs (connect_player env name s) = view_of env (Some name)"
  using assms update_result(4) [OF assms(1)]
  by (auto simp: connect_player_def media_inv_def media_abs_def view_of_def g_strlcpy_def update_result Let_def)

lemma find_best_choice:
  "find_best env best names =
     (case filter (plays env) (filter (has_prefix MPRIS) names) of
        n # _ \<Rightarrow> Some n
      | [] \<Rightarrow> if best = None then (case filter (has_prefix MPRIS) names of n # _ \<Rightarrow> Some n | [] \<Rightarrow> None) else best)"
  by (induction names arbitrary: best) (auto simp: plays_def Let_def split: list.split)

lemma find_best_player: "find_player env s = (case best_player env of None \<Rightarrow> s | Some n \<Rightarrow> connect_player env n s)"
  by (simp add: find_player_def best_player_def find_best_choice split: option.split list.split)

lemma best_player_ok: "names_ok env \<Longrightarrow> best_player env = Some n \<Longrightarrow> has_prefix MPRIS n \<and> length n \<le> 255"
proof -
  assume a: "names_ok env" "best_player env = Some n"
  then obtain ns where ns: "me_names env = Some ns" by (auto simp: best_player_def split: option.splits)
  have head: "m \<in> set xs" if "xs = m # ys" for m :: string and xs ys using that by simp
  have "n \<in> set (filter (has_prefix MPRIS) ns)"
  proof (cases "filter (plays env) (filter (has_prefix MPRIS) ns)")
    case Nil
    then have "hd (filter (has_prefix MPRIS) ns) = n \<and> filter (has_prefix MPRIS) ns \<noteq> []" using a(2) ns
      by (simp add: best_player_def split: list.splits)
    then show ?thesis by (metis hd_in_set)
  next
    case (Cons m ms)
    then have "n \<in> set (filter (plays env) (filter (has_prefix MPRIS) ns))" using a(2) ns head [OF Cons] by (simp add: best_player_def)
    then show ?thesis by simp
  qed
  then show ?thesis using a(1) ns by (auto simp: names_ok_def list_all_iff)
qed

lemma find_result:
  assumes "cover_ok env" and "names_ok env" and "\<not> lm_fault s" and "lm_player s = None" and "lm_player_name s = []" and "lm_shown s = blank"
  shows "media_inv (find_player env s)" "media_abs (find_player env s) = view_of env (best_player env)"
proof -
  have "media_inv (find_player env s) \<and> media_abs (find_player env s) = view_of env (best_player env)"
  proof (cases "best_player env")
    case None
    then show ?thesis using assms by (simp add: find_best_player media_inv_def media_abs_def view_of_def)
  next
    case (Some n)
    note b = best_player_ok [OF assms(2) Some]
    show ?thesis using connect_result [OF assms(1) conjunct2 [OF b] conjunct1 [OF b] assms(3,5,6)] Some by (simp add: find_best_player)
  qed
  then show "media_inv (find_player env s)" "media_abs (find_player env s) = view_of env (best_player env)" by simp_all
qed

definition find_again :: "media_env \<Rightarrow> media_state \<Rightarrow> media_state" where
  "find_again env s = (let s1 = find_player env s in if lm_player s1 = None then update_from_proxy env s1 else s1)"

lemma find_again_result:
  assumes "cover_ok env" and "names_ok env" and "\<not> lm_fault s" and "lm_player s = None" and "lm_player_name s = []"
  shows "media_inv (find_again env s)" "media_abs (find_again env s) = view_of env (best_player env)"
proof -
  have "media_inv (find_again env s) \<and> media_abs (find_again env s) = view_of env (best_player env)"
  proof (cases "best_player env")
    case None
    then show ?thesis using assms update_result [of env s]
      by (simp add: find_again_def find_best_player media_inv_def media_abs_def view_of_def Let_def)
  next
    case (Some n)
    note b = best_player_ok [OF assms(2) Some]
    let ?s = "s\<lparr>lm_player := Some n, lm_player_name := g_strlcpy 256 n, lm_last_art := []\<rparr>"
    show ?thesis
    proof (cases "me_connect env n")
      case True
      then show ?thesis using assms Some b update_result [of env ?s]
        by (simp add: find_again_def find_best_player connect_player_def media_inv_def media_abs_def view_of_def g_strlcpy_def Let_def)
    next
      case False
      then show ?thesis using assms Some update_result [of env "s\<lparr>lm_player := None\<rparr>"]
        by (simp add: find_again_def find_best_player connect_player_def media_inv_def media_abs_def view_of_def Let_def)
    qed
  qed
  then show "media_inv (find_again env s)" "media_abs (find_again env s) = view_of env (best_player env)" by simp_all
qed

lemma owner_result:
  assumes "media_inv s" and "media_event_ok (M_owner env name new_owner)"
  shows "media_inv (on_name_owner_changed env name new_owner s)"
    "media_abs (on_name_owner_changed env name new_owner s) = media_spec (M_owner env name new_owner) (media_abs s)"
proof -
  have ok: "cover_ok env" "names_ok env" "length name \<le> 255" "\<not> lm_fault s" using assms by (simp_all add: media_inv_def)
  have again: "(let s1 = find_player env (s\<lparr>lm_player := None, lm_player_name := []\<rparr>) in if lm_player s1 = None then update_from_proxy env s1 else s1) =
      find_again env (s\<lparr>lm_player := None, lm_player_name := []\<rparr>)" by (simp add: find_again_def)
  have "media_inv (on_name_owner_changed env name new_owner s) \<and>
    media_abs (on_name_owner_changed env name new_owner s) = media_spec (M_owner env name new_owner) (media_abs s)"
  proof (cases "lm_player s")
    case None
    then have n: "lm_player_name s = []" "lm_shown s = blank" using assms(1) by (simp_all add: media_inv_def)
    moreover have "name \<noteq> []" if "has_prefix MPRIS name" using that by (auto simp: has_prefix_def MPRIS_def)
    ultimately show ?thesis using None assms connect_result [OF ok(1,3) _ ok(4) n]
      by (auto simp: on_name_owner_changed_def media_abs_def)
  next
    case (Some n)
    then have n: "lm_player_name s = n" using assms(1) by (simp add: media_inv_def)
    then show ?thesis using Some assms find_again_result [OF ok(1,2), of "s\<lparr>lm_player := None, lm_player_name := []\<rparr>"] ok(4)
      unfolding on_name_owner_changed_def again by (auto simp: media_abs_def)
  qed
  then show "media_inv (on_name_owner_changed env name new_owner s)"
    "media_abs (on_name_owner_changed env name new_owner s) = media_spec (M_owner env name new_owner) (media_abs s)" by simp_all
qed

lemma call_player_same: "media_inv s \<Longrightarrow> media_inv (call_player m s) \<and> media_abs (call_player m s) = media_abs s"
  by (auto simp: call_player_def media_inv_def media_abs_def split: option.split)

lemma media_step_result:
  assumes "media_inv s"
  shows "media_inv (media_step e s) \<and> media_abs (media_step e s) = media_spec e (media_abs s)"
proof (cases e)
  case (M_props env)
  then show ?thesis using assms update_result [of env s]
    by (auto simp: media_step_def on_props_changed_def media_inv_def media_abs_def split: option.splits)
next
  case (M_owner env name new_owner)
  then show ?thesis using assms owner_result [OF assms, of env name new_owner]
    by (cases "media_event_ok (M_owner env name new_owner)") (simp, auto simp: media_step_def media_abs_def)
next
  case (M_cover env)
  then show ?thesis using assms cover_fault
    by (auto simp: media_step_def on_cover_changed_def media_inv_def media_abs_def split: option.splits)
qed (use assms call_player_same in \<open>simp_all add: media_step_def lock_media_play_pause_def lock_media_next_def lock_media_prev_def\<close>)

interpretation media: refinement media_step media_inv media_spec media_abs
  by unfold_locales (simp_all add: media_step_result)

lemma init_result:
  assumes "cover_ok env" and "names_ok env"
  shows "media_inv (lock_media_init env bus cache cb)"
    "media_abs (lock_media_init env bus cache cb) = (if bus then view_of env (best_player env) else (None, blank))"
proof -
  have "media_inv (lock_media_init env bus cache cb) \<and>
    media_abs (lock_media_init env bus cache cb) = (if bus then view_of env (best_player env) else (None, blank))"
    using find_result [OF assms] by (auto simp: lock_media_init_def Let_def) (simp_all add: media_inv_def media_abs_def)
  then show "media_inv (lock_media_init env bus cache cb)"
    "media_abs (lock_media_init env bus cache cb) = (if bus then view_of env (best_player env) else (None, blank))" by simp_all
qed

section \<open>Properties\<close>


definition demo_props :: "string \<Rightarrow> player_props" where
  "demo_props n = \<lparr>pp_status = Some (if n = ''org.mpris.MediaPlayer2.b'' then ''Playing'' else ''Stopped''), pp_next = Some False, pp_prev = None,
     pp_meta = Some \<lparr>mp_title = Some ''Song'', mp_artist = Some (Artists [''A'', ''B'']), mp_art = None\<rparr>\<rparr>"

definition demo_media :: media_env where
  "demo_media = \<lparr>me_names = Some [''org.foo'', ''org.mpris.MediaPlayer2.a'', ''org.mpris.MediaPlayer2.b''], me_connect = (\<lambda>_. True), me_props = demo_props, me_cover = None\<rparr>"


text \<open>
  A player that announces no cover keeps that of the player before it: the address of the cover is forgotten
  when a player is connected and compared with the empty address of the new one, so nothing is loaded or
  dropped.
\<close>

definition silent_art :: "media_env \<Rightarrow> bool" where
  "silent_art env \<longleftrightarrow> me_connect env ''org.mpris.MediaPlayer2.b'' \<and>
     me_props env ''org.mpris.MediaPlayer2.b'' = \<lparr>pp_status = Some ''Playing'', pp_next = None, pp_prev = None,
       pp_meta = Some \<lparr>mp_title = Some ''Song'', mp_artist = None, mp_art = None\<rparr>\<rparr>"

lemma stale_cover:
  assumes "silent_art env" and "lm_player s = None"
  shows "lm_cover (connect_player env ''org.mpris.MediaPlayer2.b'' s) = lm_cover s \<and>
    sh_has_player (lm_shown (connect_player env ''org.mpris.MediaPlayer2.b'' s))"
  using assms by (simp add: silent_art_def connect_player_def update_from_proxy_def update_art_def Let_def)

end
