(* ===== verification/Window_Extensions.thy ===== *)
theory Window_Extensions
  imports Windows
begin

text \<open>
  The shell's own protocols for windows: process ids (\<^verbatim>\<open>src/wayland/process_info.c\<close>), the stage
  (\<^verbatim>\<open>src/wayland/stage.c\<close>), snap layouts (\<^verbatim>\<open>src/wayland/snap_layouts.c\<close>) and motion hints
  (\<^verbatim>\<open>src/wayland/motion_hints.c\<close>). All of them ask \<open>handle_is_valid\<close> of the window table before they
  name a window. Queries wait on a queue of their own, so the window table does not change while they wait.
\<close>

section \<open>Managers that are looked up once\<close>

text \<open>
  What a look-up finds: the display of the shell, whether a queue could be made, and the version of the
  manager the compositor announces.
\<close>

record bind_env =
  be_display :: "nat option"
  be_queue :: bool
  be_manager :: "nat option"

record cache =
  ch_display :: "nat option"
  ch_manager :: "nat option"
  ch_queue :: bool

definition no_cache :: cache where
  "no_cache = \<lparr>ch_display = None, ch_manager = None, ch_queue = False\<rparr>"

definition get_manager :: "bind_env \<Rightarrow> cache \<Rightarrow> nat option \<times> cache" where
  "get_manager env c =
     (case be_display env of
        None \<Rightarrow> (None, c)
      | Some d \<Rightarrow>
          if ch_display c = Some d then (ch_manager c, c)
          else if \<not> be_queue env then (None, c)
          else
            let found = map_option (\<lambda>_. 1) (be_manager env)
            in (found, \<lparr>ch_display = Some d, ch_manager = found, ch_queue = (ch_queue c \<or> found \<noteq> None)\<rparr>))"

definition stage_get_manager :: "bind_env \<Rightarrow> cache \<Rightarrow> nat option \<times> cache" where
  "stage_get_manager env c =
     (case be_display env of
        None \<Rightarrow> (None, c)
      | Some d \<Rightarrow>
          if ch_display c = Some d then (ch_manager c, c)
          else if \<not> be_queue env then (None, c)
          else
            let found = map_option (\<lambda>v. if v < 2 then v else 2) (be_manager env)
            in (found, \<lparr>ch_display = Some d, ch_manager = found, ch_queue = (ch_queue c \<or> found \<noteq> None)\<rparr>))"

definition motion_get_manager :: "bind_env \<Rightarrow> cache \<Rightarrow> nat option \<times> cache" where
  "motion_get_manager env c =
     (case be_display env of
        None \<Rightarrow> (None, c)
      | Some d \<Rightarrow>
          if ch_display c = Some d then (ch_manager c, c)
          else if \<not> be_queue env then (None, c)
          else
            let found = map_option (\<lambda>_. 1) (be_manager env)
            in (found, c\<lparr>ch_display := Some d, ch_manager := found\<rparr>))"

section \<open>Replies\<close>

text \<open>
  A query notes which window it asks for; replies for other windows are ignored. The locale holds for
  process ids and for stage groups.
\<close>

definition last_for :: "nat \<Rightarrow> (nat \<times> 'v) list \<Rightarrow> 'v option" where
  "last_for h evs = (case rev (filter (\<lambda>e. fst e = h) evs) of [] \<Rightarrow> None | e # _ \<Rightarrow> Some (snd e))"

lemma last_for_snoc: "last_for h (evs @ [(k, v)]) = (if k = h then Some v else last_for h evs)"
  by (auto simp: last_for_def split: list.split)

locale reply_slot =
  fixes ask :: "nat \<Rightarrow> 's"
    and deliver :: "nat \<times> 'v \<Rightarrow> 's \<Rightarrow> 's"
    and got :: "'s \<Rightarrow> 'v option"
    and about :: "'s \<Rightarrow> nat"
  assumes about_ask: "about (ask h) = h"
    and got_ask: "got (ask h) = None"
    and about_deliver: "about (deliver e s) = about s"
    and got_deliver: "got (deliver (k, v) s) = (if k = about s then Some v else got s)"
begin

lemma about_run: "about (fold deliver evs s) = about s"
  by (induction evs arbitrary: s) (simp_all add: about_deliver)

lemma got_run: "got (fold deliver evs (ask h)) = last_for h evs"
proof (induction evs rule: rev_induct)
  case Nil
  then show ?case by (simp add: got_ask last_for_def)
next
  case (snoc e evs)
  then show ?case by (cases e) (simp add: got_deliver about_run about_ask last_for_snoc)
qed

end

record pid_reply =
  pr_toplevel :: nat
  pr_pid :: int
  pr_source :: nat
  pr_received :: bool

definition ask_pid :: "nat \<Rightarrow> pid_reply" where
  "ask_pid h = \<lparr>pr_toplevel = h, pr_pid = 0, pr_source = 0, pr_received = False\<rparr>"

definition handle_pid :: "nat \<times> int \<times> nat \<Rightarrow> pid_reply \<Rightarrow> pid_reply" where
  "handle_pid e r =
     (case e of (toplevel, pid, source) \<Rightarrow>
        if toplevel \<noteq> pr_toplevel r then r else r\<lparr>pr_pid := pid, pr_source := source, pr_received := True\<rparr>)"

record group_reply =
  gr_toplevel :: nat
  gr_group :: nat
  gr_hidden :: nat
  gr_received :: bool

definition ask_group :: "nat \<Rightarrow> group_reply" where
  "ask_group h = \<lparr>gr_toplevel = h, gr_group = 0, gr_hidden = 0, gr_received = False\<rparr>"

definition handle_group :: "nat \<times> nat \<times> nat \<Rightarrow> group_reply \<Rightarrow> group_reply" where
  "handle_group e r =
     (case e of (toplevel, grp, hidden) \<Rightarrow>
        if toplevel \<noteq> gr_toplevel r then r else r\<lparr>gr_group := grp, gr_hidden := hidden, gr_received := True\<rparr>)"

interpretation pids: reply_slot ask_pid handle_pid "\<lambda>r. if pr_received r then Some (pr_pid r, pr_source r) else None" pr_toplevel
  by unfold_locales (simp_all add: ask_pid_def handle_pid_def split: prod.split)

interpretation groups: reply_slot ask_group handle_group "\<lambda>r. if gr_received r then Some (gr_group r, gr_hidden r) else None" gr_toplevel
  by unfold_locales (simp_all add: ask_group_def handle_group_def split: prod.split)

section \<open>State\<close>

datatype rect = Rect int int int int

datatype ext_request =
    Get_pid nat
  | Set_hidden nat bool rect
  | Set_group nat nat
  | Get_group nat
  | Set_enabled bool
  | Set_picker_area rect
  | Set_zone_preview rect bool
  | Snap_to_zone nat int int rect
  | Set_icon_rect string rect
  | Clear_icon_rects
  | Launch string

fun named_window :: "ext_request \<Rightarrow> nat option" where
  "named_window (Get_pid h) = Some h"
| "named_window (Set_hidden h b r) = Some h"
| "named_window (Set_group h g) = Some h"
| "named_window (Get_group h) = Some h"
| "named_window (Snap_to_zone h x y r) = Some h"
| "named_window _ = None"

datatype snap_event =
    Snap_show nat nat rect rect
  | Snap_motion int int
  | Snap_hide nat
  | Snap_drop nat int int

text \<open>The kind of a snap event, the window, the source and eight numbers.\<close>

datatype snap_kind = Show | Motion | Hide | Drop

fun snap_args :: "snap_event \<Rightarrow> snap_kind \<times> nat \<times> nat \<times> int list" where
  "snap_args (Snap_show toplevel source (Rect x y w h) (Rect ax ay aw ah)) = (Show, toplevel, source, [x, y, w, h, ax, ay, aw, ah])"
| "snap_args (Snap_motion x y) = (Motion, 0, 0, [x, y, 0, 0, 0, 0, 0, 0])"
| "snap_args (Snap_hide source) = (Hide, 0, source, [0, 0, 0, 0, 0, 0, 0, 0])"
| "snap_args (Snap_drop toplevel x y) = (Drop, toplevel, 1, [x, y, 0, 0, 0, 0, 0, 0])"

datatype ext_note = Told_resume nat | Told_snap "snap_kind \<times> nat \<times> nat \<times> int list"

record ext_state =
  x_win :: win_state
  x_pids :: cache
  x_resume_manager :: bool
  x_resume_func :: bool
  x_stage :: cache
  x_snap :: bool
  x_snap_cb :: bool
  x_motion :: cache
  x_sent :: "ext_request list"
  x_notes :: "ext_note list"
  x_fault :: bool

definition ext_init :: "win_state \<Rightarrow> ext_state" where
  "ext_init w = \<lparr>x_win = w, x_pids = no_cache, x_resume_manager = False, x_resume_func = False, x_stage = no_cache, x_snap = False,
     x_snap_cb = False, x_motion = no_cache, x_sent = [], x_notes = [], x_fault = False\<rparr>"

definition xsend :: "ext_request \<Rightarrow> ext_state \<Rightarrow> ext_state" where
  "xsend r s = s\<lparr>x_sent := x_sent s @ [r],
     x_fault := x_fault s \<or> (case named_window r of None \<Rightarrow> False | Some h \<Rightarrow> h \<notin> w_live (x_win s))\<rparr>"

definition xnote :: "ext_note \<Rightarrow> ext_state \<Rightarrow> ext_state" where
  "xnote n s = s\<lparr>x_notes := x_notes s @ [n]\<rparr>"

section \<open>Process ids\<close>

definition process_info_available :: "bind_env \<Rightarrow> ext_state \<Rightarrow> bool \<times> ext_state" where
  "process_info_available env s = (case get_manager env (x_pids s) of (m, c) \<Rightarrow> (m \<noteq> None, s\<lparr>x_pids := c\<rparr>))"

text \<open>\<open>evs\<close>: the replies the round trip delivers; \<open>ok\<close>: it succeeds.\<close>

definition process_info_get_pid :: "bind_env \<Rightarrow> nat \<Rightarrow> (nat \<times> int \<times> nat) list \<Rightarrow> bool \<Rightarrow> ext_state \<Rightarrow> (int \<times> nat) option \<times> ext_state" where
  "process_info_get_pid env h evs ok s0 =
     (case get_manager env (x_pids s0) of (m, c) \<Rightarrow>
        let s = s0\<lparr>x_pids := c\<rparr>
        in if m = None \<or> \<not> ch_queue c \<or> \<not> handle_is_valid h (x_win s) then (None, s)
           else
             let s1 = xsend (Get_pid h) s; r = fold handle_pid evs (ask_pid h)
             in if \<not> ok \<or> \<not> pr_received r \<or> pr_pid r \<le> 0 then (None, s1) else (Some (pr_pid r, pr_source r), s1))"

definition resume_registry_global :: "nat \<Rightarrow> ext_state \<Rightarrow> ext_state" where
  "resume_registry_global version s = (if x_resume_manager s \<or> version < 2 then s else s\<lparr>x_resume_manager := True\<rparr>)"

text \<open>The round trip runs on the main queue: \<open>evs\<close> are the window events it delivers.\<close>

definition process_info_watch_resume :: "bind_env \<Rightarrow> bool \<Rightarrow> win_event list \<Rightarrow> ext_state \<Rightarrow> bool \<times> ext_state" where
  "process_info_watch_resume env func evs s =
     (if be_display env = None then (False, s)
      else
        let s1 = s\<lparr>x_resume_func := func\<rparr>
        in if x_resume_manager s1 then (True, s1)
           else
             let s2 = (case be_manager env of None \<Rightarrow> s1 | Some v \<Rightarrow> resume_registry_global v s1);
                 s3 = s2\<lparr>x_win := fold on_event evs (x_win s2)\<rparr>
             in (x_resume_manager s3, s3))"

definition handle_resume_event :: "nat \<Rightarrow> ext_state \<Rightarrow> ext_state" where
  "handle_resume_event toplevel s = (if x_resume_func s \<and> toplevel \<noteq> 0 then xnote (Told_resume toplevel) s else s)"

section \<open>The stage\<close>

definition stage_available :: "bind_env \<Rightarrow> ext_state \<Rightarrow> bool \<times> ext_state" where
  "stage_available env s = (case stage_get_manager env (x_stage s) of (m, c) \<Rightarrow> (m \<noteq> None, s\<lparr>x_stage := c\<rparr>))"

definition stage_set_hidden :: "bind_env \<Rightarrow> nat \<Rightarrow> bool \<Rightarrow> rect \<Rightarrow> ext_state \<Rightarrow> ext_state" where
  "stage_set_hidden env h hidden r s0 =
     (case stage_get_manager env (x_stage s0) of (m, c) \<Rightarrow>
        let s = s0\<lparr>x_stage := c\<rparr>
        in if \<not> handle_is_valid h (x_win s) then s
           else if m = None then s\<lparr>x_win := send (if hidden then R_minimize h else R_unset_minimize h) (x_win s)\<rparr>
           else xsend (Set_hidden h hidden r) s)"

text \<open>Groups came with version 2; a manager that was not found has version 0 here.\<close>

definition stage_version :: "nat option \<Rightarrow> nat" where
  "stage_version m = (case m of None \<Rightarrow> 0 | Some v \<Rightarrow> v)"

definition stage_groups_supported :: "bind_env \<Rightarrow> ext_state \<Rightarrow> bool \<times> ext_state" where
  "stage_groups_supported env s =
     (case stage_get_manager env (x_stage s) of (m, c) \<Rightarrow> (m \<noteq> None \<and> stage_version m \<ge> 2, s\<lparr>x_stage := c\<rparr>))"

definition stage_set_group :: "bind_env \<Rightarrow> nat \<Rightarrow> nat \<Rightarrow> ext_state \<Rightarrow> ext_state" where
  "stage_set_group env h grp s0 =
     (case stage_get_manager env (x_stage s0) of (m, c) \<Rightarrow>
        let s = s0\<lparr>x_stage := c\<rparr>
        in if m = None \<or> stage_version m < 2 \<or> \<not> handle_is_valid h (x_win s) then s else xsend (Set_group h grp) s)"

definition stage_get_group :: "bind_env \<Rightarrow> nat \<Rightarrow> (nat \<times> nat \<times> nat) list \<Rightarrow> bool \<Rightarrow> ext_state \<Rightarrow> (nat \<times> bool) option \<times> ext_state" where
  "stage_get_group env h evs ok s0 =
     (case stage_get_manager env (x_stage s0) of (m, c) \<Rightarrow>
        let s = s0\<lparr>x_stage := c\<rparr>
        in if m = None \<or> stage_version m < 2 \<or> \<not> ch_queue c \<or> \<not> handle_is_valid h (x_win s) then (None, s)
           else
             let s1 = xsend (Get_group h) s; r = fold handle_group evs (ask_group h)
             in if \<not> ok \<or> \<not> gr_received r then (None, s1) else (Some (gr_group r, gr_hidden r \<noteq> 0), s1))"

section \<open>Snap layouts\<close>

definition snap_emit :: "snap_event \<Rightarrow> ext_state \<Rightarrow> ext_state" where
  "snap_emit e s = (if x_snap_cb s then xnote (Told_snap (snap_args e)) s else s)"

definition snap_bridge_start :: "bind_env \<Rightarrow> bool \<Rightarrow> ext_state \<Rightarrow> bool \<times> ext_state" where
  "snap_bridge_start env func s0 =
     (let s = s0\<lparr>x_snap_cb := func\<rparr>
      in if x_snap s then (True, s)
         else if be_display env = None \<or> \<not> be_queue env then (False, s)
         else (be_manager env \<noteq> None, s\<lparr>x_snap := (be_manager env \<noteq> None)\<rparr>))"

definition snap_bridge_available :: "ext_state \<Rightarrow> bool" where
  "snap_bridge_available s = x_snap s"

definition snap_bridge_set_enabled :: "bool \<Rightarrow> ext_state \<Rightarrow> ext_state" where
  "snap_bridge_set_enabled b s = (if \<not> x_snap s then s else xsend (Set_enabled b) s)"

definition snap_bridge_set_picker_area :: "rect \<Rightarrow> ext_state \<Rightarrow> ext_state" where
  "snap_bridge_set_picker_area r s = (if \<not> x_snap s then s else xsend (Set_picker_area r) s)"

definition snap_bridge_set_zone_preview :: "rect \<Rightarrow> bool \<Rightarrow> ext_state \<Rightarrow> ext_state" where
  "snap_bridge_set_zone_preview r visible s = (if \<not> x_snap s then s else xsend (Set_zone_preview r visible) s)"

definition snap_bridge_snap_to_zone :: "nat \<Rightarrow> int \<Rightarrow> int \<Rightarrow> rect \<Rightarrow> ext_state \<Rightarrow> ext_state" where
  "snap_bridge_snap_to_zone h ref_x ref_y r s =
     (if \<not> x_snap s \<or> \<not> handle_is_valid h (x_win s) then s else xsend (Snap_to_zone h ref_x ref_y r) s)"

section \<open>Motion hints\<close>

text \<open>The display of the widget, if it is a Wayland one, and whether its window has a Wayland surface.\<close>

definition motion_resolve :: "bind_env \<Rightarrow> bool \<Rightarrow> bool \<Rightarrow> ext_state \<Rightarrow> bool \<times> ext_state" where
  "motion_resolve env wants_surface has_surface s =
     (case motion_get_manager env (x_motion s) of (m, c) \<Rightarrow>
        (m \<noteq> None \<and> (wants_surface \<longrightarrow> has_surface), s\<lparr>x_motion := c\<rparr>))"

definition motion_hints_set_icon_rect :: "bind_env \<Rightarrow> bool \<Rightarrow> string option \<Rightarrow> rect \<Rightarrow> ext_state \<Rightarrow> ext_state" where
  "motion_hints_set_icon_rect env has_surface app_id r s =
     (case app_id of
        None \<Rightarrow> s
      | Some a \<Rightarrow> (case motion_resolve env True has_surface s of (ok, s1) \<Rightarrow> if \<not> ok then s1 else xsend (Set_icon_rect a r) s1))"

definition motion_hints_clear :: "bind_env \<Rightarrow> bool \<Rightarrow> ext_state \<Rightarrow> ext_state" where
  "motion_hints_clear env has_surface s =
     (case motion_resolve env True has_surface s of (ok, s1) \<Rightarrow> if \<not> ok then s1 else xsend Clear_icon_rects s1)"

definition motion_hints_launch :: "bind_env \<Rightarrow> string option \<Rightarrow> ext_state \<Rightarrow> ext_state" where
  "motion_hints_launch env app_id s =
     (case app_id of
        None \<Rightarrow> s
      | Some a \<Rightarrow> (case motion_resolve env False False s of (ok, s1) \<Rightarrow> if \<not> ok then s1 else xsend (Launch a) s1))"

definition motion_hints_available :: "bind_env \<Rightarrow> ext_state \<Rightarrow> bool \<times> ext_state" where
  "motion_hints_available env s = motion_resolve env False False s"

section \<open>The machine\<close>

datatype ext_step =
    X_window win_step
  | X_pid bind_env nat "(nat \<times> int \<times> nat) list" bool
  | X_pid_available bind_env
  | X_watch_resume bind_env bool "win_event list"
  | X_resume nat
  | X_stage_available bind_env
  | X_hidden bind_env nat bool rect
  | X_groups_supported bind_env
  | X_set_group bind_env nat nat
  | X_get_group bind_env nat "(nat \<times> nat \<times> nat) list" bool
  | X_snap_start bind_env bool
  | X_snap_event snap_event
  | X_snap_enabled bool
  | X_snap_area rect
  | X_snap_preview rect bool
  | X_snap_zone nat int int rect
  | X_icon_rect bind_env bool "string option" rect
  | X_clear bind_env bool
  | X_launch bind_env "string option"
  | X_motion_available bind_env

fun on_ext :: "ext_step \<Rightarrow> ext_state \<Rightarrow> ext_state" where
  "on_ext (X_window e) s = s\<lparr>x_win := on_step e (x_win s)\<rparr>"
| "on_ext (X_pid env h evs ok) s = snd (process_info_get_pid env h evs ok s)"
| "on_ext (X_pid_available env) s = snd (process_info_available env s)"
| "on_ext (X_watch_resume env func evs) s = snd (process_info_watch_resume env func evs s)"
| "on_ext (X_resume h) s = (if x_resume_manager s then handle_resume_event h s else s)"
| "on_ext (X_stage_available env) s = snd (stage_available env s)"
| "on_ext (X_hidden env h b r) s = stage_set_hidden env h b r s"
| "on_ext (X_groups_supported env) s = snd (stage_groups_supported env s)"
| "on_ext (X_set_group env h g) s = stage_set_group env h g s"
| "on_ext (X_get_group env h evs ok) s = snd (stage_get_group env h evs ok s)"
| "on_ext (X_snap_start env func) s = snd (snap_bridge_start env func s)"
| "on_ext (X_snap_event e) s = (if x_snap s then snap_emit e s else s)"
| "on_ext (X_snap_enabled b) s = snap_bridge_set_enabled b s"
| "on_ext (X_snap_area r) s = snap_bridge_set_picker_area r s"
| "on_ext (X_snap_preview r b) s = snap_bridge_set_zone_preview r b s"
| "on_ext (X_snap_zone h x y r) s = snap_bridge_snap_to_zone h x y r s"
| "on_ext (X_icon_rect env b a r) s = motion_hints_set_icon_rect env b a r s"
| "on_ext (X_clear env b) s = motion_hints_clear env b s"
| "on_ext (X_launch env a) s = motion_hints_launch env a s"
| "on_ext (X_motion_available env) s = snd (motion_hints_available env s)"

definition ext_inv :: "ext_state \<Rightarrow> bool" where
  "ext_inv s \<longleftrightarrow> win_inv (x_win s) \<and> \<not> x_fault s"

text \<open>Steps that change neither the window table nor the fault flag.\<close>

lemma ext_inv_cong: "x_win t = x_win s \<Longrightarrow> x_fault t = x_fault s \<Longrightarrow> ext_inv t = ext_inv s"
  by (simp add: ext_inv_def)

lemma xsend_inv: "ext_inv s \<Longrightarrow> (\<And>h. named_window r = Some h \<Longrightarrow> handle_is_valid h (x_win s)) \<Longrightarrow> ext_inv (xsend r s)"
proof -
  assume a: "ext_inv s" "\<And>h. named_window r = Some h \<Longrightarrow> handle_is_valid h (x_win s)"
  then have "w_valid (x_win s) = w_live (x_win s)" by (simp add: ext_inv_def win_inv_def)
  then show ?thesis using a by (auto simp: ext_inv_def xsend_def handle_is_valid_def split: option.split)
qed

lemma hidden_fallback:
  assumes "ext_inv s" and "handle_is_valid h (x_win s)"
  shows "ext_inv (s\<lparr>x_win := send (if b then R_minimize h else R_unset_minimize h) (x_win s)\<rparr>)"
proof -
  have w: "win_inv (x_win s)" using assms(1) by (simp add: ext_inv_def)
  have "win_inv (if b then minimize_window h (x_win s) else unminimize_window h (x_win s))"
    using do_call_inv [OF w, of "Minimize h"] do_call_inv [OF w, of "Unminimize h"] by simp
  then show ?thesis using assms by (cases b) (simp_all add: ext_inv_def minimize_window_def unminimize_window_def handle_is_valid_def)
qed

lemma pids_inv: "ext_inv s \<Longrightarrow> ext_inv (snd (process_info_get_pid env h evs ok s))"
  using xsend_inv [of "s\<lparr>x_pids := snd (get_manager env (x_pids s))\<rparr>" "Get_pid h"]
  by (auto simp: process_info_get_pid_def ext_inv_def Let_def split: prod.split)

lemma resume_inv: "ext_inv s \<Longrightarrow> ext_inv (snd (process_info_watch_resume env func evs s))"
  using events.run_inv [of "x_win s" evs]
  by (auto simp: process_info_watch_resume_def resume_registry_global_def ext_inv_def Let_def split: option.split)

lemma hidden_inv: "ext_inv s \<Longrightarrow> ext_inv (stage_set_hidden env h b r s)"
  using xsend_inv [of "s\<lparr>x_stage := snd (stage_get_manager env (x_stage s))\<rparr>" "Set_hidden h b r"]
    hidden_fallback [of "s\<lparr>x_stage := snd (stage_get_manager env (x_stage s))\<rparr>" h b]
  by (auto simp: stage_set_hidden_def ext_inv_def Let_def split: prod.split)

lemma set_group_inv: "ext_inv s \<Longrightarrow> ext_inv (stage_set_group env h g s)"
  using xsend_inv [of "s\<lparr>x_stage := snd (stage_get_manager env (x_stage s))\<rparr>" "Set_group h g"]
  by (auto simp: stage_set_group_def ext_inv_def Let_def split: prod.split)

lemma get_group_inv: "ext_inv s \<Longrightarrow> ext_inv (snd (stage_get_group env h evs ok s))"
  using xsend_inv [of "s\<lparr>x_stage := snd (stage_get_manager env (x_stage s))\<rparr>" "Get_group h"]
  by (auto simp: stage_get_group_def ext_inv_def Let_def split: prod.split)

lemma snap_inv:
  assumes "ext_inv s"
  shows "ext_inv (snap_bridge_snap_to_zone h x y r s)" "ext_inv (snap_bridge_set_enabled b s)" "ext_inv (snap_bridge_set_picker_area r s)"
    "ext_inv (snap_bridge_set_zone_preview r b s)" "ext_inv (snap_emit e s)" "ext_inv (snd (snap_bridge_start env b s))"
proof -
  show "ext_inv (snd (snap_bridge_start env b s))"
    by (rule subst [OF sym [OF ext_inv_cong [of _ s]]]) (use assms in \<open>simp_all add: snap_bridge_start_def Let_def\<close>)
  show "ext_inv (snap_emit e s)"
    by (rule subst [OF sym [OF ext_inv_cong [of _ s]]]) (use assms in \<open>simp_all add: snap_emit_def xnote_def\<close>)
qed (use assms in \<open>auto simp: snap_bridge_snap_to_zone_def snap_bridge_set_enabled_def snap_bridge_set_picker_area_def
      snap_bridge_set_zone_preview_def intro!: xsend_inv\<close>)

lemma resolve_inv: "ext_inv s \<Longrightarrow> ext_inv (snd (motion_resolve env a b s))"
  by (simp add: motion_resolve_def ext_inv_def split: prod.split)

lemma motion_inv:
  assumes "ext_inv s"
  shows "ext_inv (motion_hints_set_icon_rect env b a r s)" "ext_inv (motion_hints_clear env b s)" "ext_inv (motion_hints_launch env a s)"
    "ext_inv (snd (motion_hints_available env s))"
proof -
  have r: "ext_inv t" if "motion_resolve env wants has s = (ok, t)" for wants has ok t
    using resolve_inv [OF assms, of env wants has] that by simp
  show "ext_inv (motion_hints_set_icon_rect env b a r s)" "ext_inv (motion_hints_clear env b s)" "ext_inv (motion_hints_launch env a s)"
    "ext_inv (snd (motion_hints_available env s))"
    using assms by (auto simp: motion_hints_set_icon_rect_def motion_hints_clear_def motion_hints_launch_def motion_hints_available_def resolve_inv
        intro!: xsend_inv intro: r split: option.split prod.split)
qed

lemma lookup_inv:
  assumes "ext_inv s"
  shows "ext_inv (snd (process_info_available env s))" "ext_inv (snd (stage_available env s))" "ext_inv (snd (stage_groups_supported env s))"
    "ext_inv (handle_resume_event h s)"
  using assms by (simp_all add: process_info_available_def stage_available_def stage_groups_supported_def handle_resume_event_def xnote_def
      ext_inv_def split: prod.split)

lemma on_ext_inv: "ext_inv s \<Longrightarrow> ext_inv (on_ext e s)"
proof (cases e)
  case (X_window w)
  assume "ext_inv s"
  then show ?thesis using X_window on_step_inv by (simp add: ext_inv_def)
qed (simp_all add: pids_inv resume_inv hidden_inv set_group_inv get_group_inv snap_inv motion_inv lookup_inv)

interpretation extensions: event_machine on_ext ext_inv
  by unfold_locales (rule on_ext_inv)

section \<open>Properties\<close>

text \<open>
  C33: the extensions respect the window table. Over every interleaving of window events, window calls and
  calls of the four extensions, no request of an extension and no request of the window table names a window
  whose object was destroyed.
\<close>

theorem extension_requests_live:
  assumes "tiling \<noteq> Some 0"
  shows "\<not> x_fault (fold on_ext es (ext_init (win_init seat pip tiling))) \<and>
    \<not> w_fault (x_win (fold on_ext es (ext_init (win_init seat pip tiling))))"
proof -
  have "ext_inv (ext_init (win_init seat pip tiling))"
    using assms by (auto simp: ext_inv_def ext_init_def win_inv_def win_init_def split: option.splits)
  then have "ext_inv (fold on_ext es (ext_init (win_init seat pip tiling)))" by (rule extensions.run_inv)
  then show ?thesis by (simp add: ext_inv_def win_inv_def)
qed

definition demo_ext_env :: bind_env where
  "demo_ext_env = \<lparr>be_display = Some 1, be_queue = True, be_manager = Some 2\<rparr>"

definition demo_ext :: "ext_step list" where
  "demo_ext = [X_window (Event (W_toplevel 7)), X_set_group demo_ext_env 7 3, X_window (Event (W_closed 7 [])), X_set_group demo_ext_env 7 4]"

theorem extension_requests_live_witness:
  "x_sent (fold on_ext demo_ext (ext_init (win_init True True (Some 11)))) = [Set_group 7 3] \<and>
   \<not> x_fault (fold on_ext demo_ext (ext_init (win_init True True (Some 11))))"
proof -
  have "x_sent (fold on_ext demo_ext (ext_init (win_init True True (Some 11)))) = [Set_group 7 3]"
    by (simp add: demo_ext_def demo_ext_env_def ext_init_def win_init_def toplevel_manager_toplevel_def stage_set_group_def stage_get_manager_def
        no_cache_def stage_version_def handle_is_valid_def xsend_def toplevel_handle_closed_def to_window_def notify_def Let_def)
  then show ?thesis using extension_requests_live [of "Some 11" demo_ext True True] by simp
qed

text \<open>
  Answers are fresh. A process id and a stage group are those of the last reply for that very window
  among the replies of this round trip; without one, after a failed round trip, for an invalid window or
  without the manager the query says so. A process id is positive.
\<close>

theorem extension_answers_fresh:
  "fst (process_info_get_pid env h evs ok s) =
     (if fst (get_manager env (x_pids s)) \<noteq> None \<and> ch_queue (snd (get_manager env (x_pids s))) \<and> handle_is_valid h (x_win s) \<and> ok
      then (case last_for h evs of Some (pid, source) \<Rightarrow> if pid > 0 then Some (pid, source) else None | None \<Rightarrow> None) else None) \<and>
   fst (stage_get_group env h grs ok s) =
     (if stage_version (fst (stage_get_manager env (x_stage s))) \<ge> 2 \<and> ch_queue (snd (stage_get_manager env (x_stage s))) \<and>
         handle_is_valid h (x_win s) \<and> ok
      then map_option (\<lambda>(grp, hidden). (grp, hidden \<noteq> 0)) (last_for h grs) else None)"
proof
  let ?r = "fold handle_pid evs (ask_pid h)"
  have "(if pr_received ?r then Some (pr_pid ?r, pr_source ?r) else None) = last_for h evs" by (rule pids.got_run)
  then show "fst (process_info_get_pid env h evs ok s) =
     (if fst (get_manager env (x_pids s)) \<noteq> None \<and> ch_queue (snd (get_manager env (x_pids s))) \<and> handle_is_valid h (x_win s) \<and> ok
      then (case last_for h evs of Some (pid, source) \<Rightarrow> if pid > 0 then Some (pid, source) else None | None \<Rightarrow> None) else None)"
    by (auto simp: process_info_get_pid_def Let_def split: prod.splits option.splits if_splits)
next
  let ?r = "fold handle_group grs (ask_group h)"
  have "(if gr_received ?r then Some (gr_group ?r, gr_hidden ?r) else None) = last_for h grs" by (rule groups.got_run)
  note l = this [symmetric]
  show "fst (stage_get_group env h grs ok s) =
     (if stage_version (fst (stage_get_manager env (x_stage s))) \<ge> 2 \<and> ch_queue (snd (stage_get_manager env (x_stage s))) \<and>
         handle_is_valid h (x_win s) \<and> ok
      then map_option (\<lambda>(grp, hidden). (grp, hidden \<noteq> 0)) (last_for h grs) else None)"
    unfolding l by (auto simp: stage_get_group_def stage_version_def Let_def split: prod.splits option.splits if_splits)
qed

end
