(* ===== verification/On_Screen_Keyboard.thy ===== *)
theory On_Screen_Keyboard
  imports C_Prelude "HOL-Library.Word"
begin

text \<open>
  The on-screen keyboard, \<^verbatim>\<open>src/wayland/osk.c\<close>: setting a layout, pressing keys and keysyms, labels. Keymaps are
  those of xkbcommon: their range of key codes, the keysyms of a code on the levels of the first group, the
  indices of modifiers and the code point a key gives.
\<close>

unbundle bit_operations_syntax

section \<open>State\<close>

record keymap =
  km_min :: nat
  km_max :: nat
  km_syms :: "nat \<Rightarrow> nat \<Rightarrow> nat list"
  km_mod :: "string \<Rightarrow> nat option"
  km_codepoint :: "nat \<Rightarrow> 32 word \<Rightarrow> nat"

text \<open>What the calls find: a Wayland display, the manager, a seat; the keymap of a layout; memory to upload it.\<close>

record osk_env =
  oe_display :: bool
  oe_manager :: bool
  oe_seat :: bool
  oe_keymap :: "string \<Rightarrow> string option \<Rightarrow> keymap option"
  oe_upload :: bool

datatype osk_request =
    Upload string "string option"
  | Modifiers "32 word"
  | Press "32 word" nat
  | Release "32 word" nat

record osk_state =
  ok_manager :: bool
  ok_keyboard :: bool
  ok_keymap :: "keymap option"
  ok_time :: "32 word"
  ok_log :: "osk_request list"

definition osk_init :: osk_state where
  "osk_init = \<lparr>ok_manager = False, ok_keyboard = False, ok_keymap = None, ok_time = 0, ok_log = []\<rparr>"

definition osk_send :: "osk_request list \<Rightarrow> osk_state \<Rightarrow> osk_state" where
  "osk_send rs s = s\<lparr>ok_log := ok_log s @ rs\<rparr>"

section \<open>Operations\<close>

definition ensure_keyboard :: "osk_env \<Rightarrow> osk_state \<Rightarrow> bool \<times> osk_state" where
  "ensure_keyboard env s =
     (if ok_keyboard s then (True, s)
      else if \<not> oe_display env then (False, s)
      else
        let s1 = s\<lparr>ok_manager := ok_manager s \<or> oe_manager env\<rparr>
        in if \<not> ok_manager s1 \<or> \<not> oe_seat env then (False, s1) else (True, s1\<lparr>ok_keyboard := True\<rparr>))"

definition osk_set_layout :: "osk_env \<Rightarrow> string option \<Rightarrow> string option \<Rightarrow> osk_state \<Rightarrow> bool \<times> osk_state" where
  "osk_set_layout env layout variant s =
     (case ensure_keyboard env s of (ok, s1) \<Rightarrow>
        if \<not> ok then (False, s1)
        else
          let l = (case layout of Some x \<Rightarrow> if x \<noteq> [] then x else ''us'' | None \<Rightarrow> ''us'');
              v = (case variant of Some x \<Rightarrow> if x \<noteq> [] then Some x else None | None \<Rightarrow> None)
          in case oe_keymap env l v of
               None \<Rightarrow> (False, s1)
             | Some km \<Rightarrow>
                 if \<not> oe_upload env then (False, s1)
                 else (True, (osk_send [Upload l v] s1)\<lparr>ok_keymap := Some km\<rparr>))"

definition modifier_bit :: "keymap option \<Rightarrow> string \<Rightarrow> 32 word" where
  "modifier_bit km name =
     (case km of
        None \<Rightarrow> 0
      | Some k \<Rightarrow> (case km_mod k name of None \<Rightarrow> 0 | Some i \<Rightarrow> push_bit i 1))"

definition OSK_SHIFT :: "32 word" where "OSK_SHIFT = 1"
definition OSK_CTRL :: "32 word" where "OSK_CTRL = 2"
definition OSK_ALT :: "32 word" where "OSK_ALT = 4"
definition OSK_SUPER :: "32 word" where "OSK_SUPER = 8"

definition modifier_mask :: "keymap option \<Rightarrow> 32 word \<Rightarrow> 32 word" where
  "modifier_mask km modifiers =
     (let m0 = 0;
          m1 = (if modifiers AND OSK_SHIFT \<noteq> 0 then m0 OR modifier_bit km ''Shift'' else m0);
          m2 = (if modifiers AND OSK_CTRL \<noteq> 0 then m1 OR modifier_bit km ''Control'' else m1);
          m3 = (if modifiers AND OSK_ALT \<noteq> 0 then m2 OR modifier_bit km ''Mod1'' else m2)
      in if modifiers AND OSK_SUPER \<noteq> 0 then m3 OR modifier_bit km ''Mod4'' else m3)"

definition osk_press :: "nat \<Rightarrow> 32 word \<Rightarrow> osk_state \<Rightarrow> osk_state" where
  "osk_press evdev_code modifiers s =
     (if \<not> ok_keyboard s \<or> ok_keymap s = None then s
      else
        let t = ok_time s
        in osk_send [Modifiers (modifier_mask (ok_keymap s) modifiers), Press t evdev_code, Release (t + 1) evdev_code, Modifiers 0]
             (s\<lparr>ok_time := t + 2\<rparr>))"

text \<open>The inner loop over the keysyms of a code, the loop over the codes, the loop over the two levels.\<close>

fun code_gives :: "nat \<Rightarrow> nat \<Rightarrow> nat list \<Rightarrow> bool" where
  "code_gives code keysym [] = False"
| "code_gives code keysym (x # xs) = (if x = keysym \<and> code \<ge> 8 then True else code_gives code keysym xs)"

function find_code :: "keymap \<Rightarrow> nat \<Rightarrow> nat \<Rightarrow> nat \<Rightarrow> nat option" where
  "find_code km keysym level code =
     (if code \<le> km_max km then
        if code_gives code keysym (km_syms km code level) then Some code else find_code km keysym level (code + 1)
      else None)"
  by pat_completeness auto
termination by (relation "measure (\<lambda>(km, keysym, level, code). Suc (km_max km) - code)") auto

declare find_code.simps [simp del]

fun find_key :: "keymap \<Rightarrow> nat \<Rightarrow> nat list \<Rightarrow> (nat \<times> nat) option" where
  "find_key km keysym [] = None"
| "find_key km keysym (level # levels) =
     (case find_code km keysym level (km_min km) of Some code \<Rightarrow> Some (level, code) | None \<Rightarrow> find_key km keysym levels)"

definition osk_press_keysym :: "nat \<Rightarrow> 32 word \<Rightarrow> osk_state \<Rightarrow> bool \<times> osk_state" where
  "osk_press_keysym keysym modifiers s =
     (if \<not> ok_keyboard s then (False, s)
      else case ok_keymap s of
             None \<Rightarrow> (False, s)
           | Some km \<Rightarrow>
               (case find_key km keysym [0, 1] of
                  None \<Rightarrow> (False, s)
                | Some (level, code) \<Rightarrow> (True, osk_press (code - 8) (modifiers OR (if level = 1 then OSK_SHIFT else 0)) s)))"

text \<open>The label of a key is the text of one code point; control characters have none.\<close>

definition osk_label :: "nat \<Rightarrow> bool \<Rightarrow> osk_state \<Rightarrow> nat option" where
  "osk_label evdev_code shifted s =
     (case ok_keymap s of
        None \<Rightarrow> None
      | Some km \<Rightarrow>
          let cp = km_codepoint km (evdev_code + 8) (if shifted then modifier_bit (ok_keymap s) ''Shift'' else 0)
          in if cp = 0 \<or> cp < 0x20 then None else Some cp)"

section \<open>The machine\<close>

datatype osk_call =
    K_layout osk_env "string option" "string option"
  | K_press nat "32 word"
  | K_keysym nat "32 word"

fun osk_step :: "osk_call \<Rightarrow> osk_state \<Rightarrow> osk_state" where
  "osk_step (K_layout env l v) s = snd (osk_set_layout env l v s)"
| "osk_step (K_press code m) s = osk_press code m s"
| "osk_step (K_keysym k m) s = snd (osk_press_keysym k m s)"

text \<open>
  What a compositor makes of the requests: keys before the first keymap are a protocol error (\<open>None\<close>);
  otherwise the keys that are down and the modifiers.
\<close>

fun heard :: "osk_request \<Rightarrow> (bool \<times> nat list \<times> 32 word) option \<Rightarrow> (bool \<times> nat list \<times> 32 word) option" where
  "heard r None = None"
| "heard (Upload l v) (Some (up, keys, m)) = Some (True, keys, m)"
| "heard (Modifiers n) (Some (up, keys, m)) = (if up then Some (up, keys, n) else None)"
| "heard (Press t k) (Some (up, keys, m)) = (if up then Some (up, k # keys, m) else None)"
| "heard (Release t k) (Some (up, keys, m)) = (if up \<and> k \<in> set keys then Some (up, remove1 k keys, m) else None)"

definition osk_inv :: "osk_state \<Rightarrow> bool" where
  "osk_inv s \<longleftrightarrow> fold heard (ok_log s) (Some (False, [], 0)) = Some (ok_keymap s \<noteq> None, [], 0)"

lemma press_inv: "osk_inv s \<Longrightarrow> osk_inv (osk_press k m s)"
  by (simp add: osk_inv_def osk_press_def osk_send_def Let_def)

lemma layout_inv: "osk_inv s \<Longrightarrow> osk_inv (snd (osk_set_layout env l v s))"
proof -
  have k: "osk_inv (snd (ensure_keyboard env s))" "ok_keymap (snd (ensure_keyboard env s)) = ok_keymap s" if "osk_inv s"
    using that by (simp_all add: ensure_keyboard_def osk_inv_def Let_def)
  assume "osk_inv s"
  from k [OF this] show ?thesis
    by (auto simp: osk_set_layout_def osk_inv_def osk_send_def Let_def split: prod.splits option.splits)
qed

lemma osk_step_inv: "osk_inv s \<Longrightarrow> osk_inv (osk_step e s)"
  by (cases e) (auto simp: layout_inv press_inv osk_press_keysym_def split: option.split)

interpretation osk: event_machine osk_step osk_inv
  by unfold_locales (rule osk_step_inv)

lemma osk_init_inv: "osk_inv osk_init"
  by (simp add: osk_init_def osk_inv_def)

section \<open>Finding a keysym\<close>

lemma code_gives_mem: "code_gives code keysym xs \<longleftrightarrow> keysym \<in> set xs \<and> code \<ge> 8"
  by (induction xs) auto

text \<open>A key fits when it gives the keysym on the level.\<close>

definition fits :: "keymap \<Rightarrow> nat \<Rightarrow> nat \<Rightarrow> nat \<Rightarrow> bool" where
  "fits km keysym level code \<longleftrightarrow> code \<ge> 8 \<and> keysym \<in> set (km_syms km code level)"

lemma code_gives_fits: "code_gives code keysym (km_syms km code level) = fits km keysym level code"
  by (auto simp: code_gives_mem fits_def)

lemma find_code_least:
  "find_code km keysym level code = List.find (fits km keysym level) [code..<Suc (km_max km)]"
proof (induction km keysym level code rule: find_code.induct)
  case (1 km keysym level code)
  show ?case
  proof (cases "code \<le> km_max km")
    case True
    then have "[code..<Suc (km_max km)] = code # [code + 1..<Suc (km_max km)]" by (simp add: upt_rec)
    then show ?thesis using 1 True by (subst find_code.simps) (simp add: code_gives_fits del: upt_Suc)
  next
    case False
    then show ?thesis by (subst find_code.simps) simp
  qed
qed

section \<open>Properties\<close>

text \<open>
  C16: the on-screen keyboard is a well-behaved keyboard. Over every order of calls, whatever fails, no key or
  modifier is sent before the first keymap, every key that is pressed is released, and no modifier stays set.
\<close>

theorem osk_leaves_nothing_pressed:
  "fold heard (ok_log (fold osk_step es osk_init)) (Some (False, [], 0)) =
    Some (ok_keymap (fold osk_step es osk_init) \<noteq> None, [], 0)"
  using osk.run_inv [OF osk_init_inv, of es] by (simp add: osk_inv_def)

text \<open>
  The nested loops that look for a keysym agree with the reference: the first key of the unshifted level
  that gives it, or else the first one of the shifted level, which is pressed with Shift.
\<close>

theorem keysym_reference:
  assumes "ok_keyboard s" and "ok_keymap s = Some km"
  shows "osk_press_keysym keysym modifiers s =
    (case (List.find (fits km keysym 0) [km_min km..<Suc (km_max km)], List.find (fits km keysym 1) [km_min km..<Suc (km_max km)]) of
       (Some code, _) \<Rightarrow> (True, osk_press (code - 8) modifiers s)
     | (None, Some code) \<Rightarrow> (True, osk_press (code - 8) (modifiers OR OSK_SHIFT) s)
     | (None, None) \<Rightarrow> (False, s))"
  using assms by (auto simp: osk_press_keysym_def find_code_least split: option.splits)

definition demo_keymap :: keymap where
  "demo_keymap = \<lparr>km_min = 8, km_max = 10, km_syms = (\<lambda>code level. if code = 9 then [97 - 32 * level] else []), km_mod = (\<lambda>n. if n = ''Shift'' then Some 0 else None),
     km_codepoint = (\<lambda>_ _. 97)\<rparr>"

theorem keysym_reference_witness:
  "osk_press_keysym 65 0 (osk_init\<lparr>ok_keyboard := True, ok_keymap := Some demo_keymap\<rparr>) =
    (True, osk_press 1 OSK_SHIFT (osk_init\<lparr>ok_keyboard := True, ok_keymap := Some demo_keymap\<rparr>))"
  using keysym_reference [of "osk_init\<lparr>ok_keyboard := True, ok_keymap := Some demo_keymap\<rparr>" demo_keymap 65 0]
  by (simp add: demo_keymap_def fits_def upt_rec)

end
