(* ===== verification/Key_Hold.thy ===== *)
theory Key_Hold
  imports C_Prelude
begin

text \<open>
  Holding a key, \<^verbatim>\<open>src/wayland/key_hold.c\<close>: the manager, its delay and the callbacks. \<open>kh_delay_sent\<close> is the
  delay the compositor was told last.
\<close>

record hold_state =
  kh_registry :: bool
  kh_manager :: bool
  kh_callback :: bool
  kh_delay :: nat
  kh_delay_sent :: "nat option"
  kh_finishes :: nat
  kh_told :: "(bool \<times> bool) list"

definition hold_init_state :: hold_state where
  "hold_init_state = \<lparr>kh_registry = False, kh_manager = False, kh_callback = False, kh_delay = 0, kh_delay_sent = None, kh_finishes = 0, kh_told = []\<rparr>"

definition handle_hold_start :: "hold_state \<Rightarrow> hold_state" where
  "handle_hold_start s = (if kh_callback s then s\<lparr>kh_told := kh_told s @ [(True, False)]\<rparr> else s)"

definition handle_hold_end :: "bool \<Rightarrow> hold_state \<Rightarrow> hold_state" where
  "handle_hold_end cancelled s = (if kh_callback s then s\<lparr>kh_told := kh_told s @ [(False, cancelled)]\<rparr> else s)"

text \<open>The compositor announces its manager.\<close>

definition hold_registry_global :: "hold_state \<Rightarrow> hold_state" where
  "hold_registry_global s =
     (if kh_manager s then s
      else
        let s1 = s\<lparr>kh_manager := True\<rparr>
        in if kh_delay s1 > 0 then s1\<lparr>kh_delay_sent := Some (kh_delay s1)\<rparr> else s1)"

text \<open>\<open>wayland\<close>: the display is a Wayland one; \<open>has_manager\<close>: the round trip announces the manager.\<close>

definition key_hold_init :: "bool \<Rightarrow> bool \<Rightarrow> bool \<Rightarrow> hold_state \<Rightarrow> bool \<times> hold_state" where
  "key_hold_init wayland has_manager callback s0 =
     (let s = s0\<lparr>kh_callback := callback\<rparr>
      in if kh_registry s then (kh_manager s, s)
         else if \<not> wayland then (False, s)
         else
           let s1 = s\<lparr>kh_registry := True\<rparr>; s2 = (if has_manager then hold_registry_global s1 else s1)
           in (kh_manager s2, s2))"

definition key_hold_supported :: "hold_state \<Rightarrow> bool" where
  "key_hold_supported s = kh_manager s"

definition key_hold_set_delay :: "nat \<Rightarrow> hold_state \<Rightarrow> hold_state" where
  "key_hold_set_delay delay_ms s0 =
     (let s = s0\<lparr>kh_delay := delay_ms\<rparr> in if kh_manager s then s\<lparr>kh_delay_sent := Some delay_ms\<rparr> else s)"

definition key_hold_finish :: "hold_state \<Rightarrow> hold_state" where
  "key_hold_finish s = (if kh_manager s then s\<lparr>kh_finishes := Suc (kh_finishes s)\<rparr> else s)"

datatype hold_event =
    H_init bool bool bool
  | H_global
  | H_delay nat
  | H_finish
  | H_start
  | H_end bool

fun hold_step :: "hold_event \<Rightarrow> hold_state \<Rightarrow> hold_state" where
  "hold_step (H_init w m c) s = snd (key_hold_init w m c s)"
| "hold_step H_global s = (if kh_registry s then hold_registry_global s else s)"
| "hold_step (H_delay d) s = key_hold_set_delay d s"
| "hold_step H_finish s = key_hold_finish s"
| "hold_step H_start s = (if kh_manager s then handle_hold_start s else s)"
| "hold_step (H_end b) s = (if kh_manager s then handle_hold_end b s else s)"

text \<open>The compositor knows the delay that was set last; a delay of 0 is not told to a new manager, whose default holds.\<close>

definition hold_inv :: "hold_state \<Rightarrow> bool" where
  "hold_inv s \<longleftrightarrow> (if kh_manager s then kh_registry s \<and> (kh_delay_sent s = Some (kh_delay s) \<or> kh_delay s = 0 \<and> kh_delay_sent s = None)
     else kh_delay_sent s = None \<and> kh_finishes s = 0 \<and> kh_told s = [])"

lemmas hold_defs = key_hold_init_def hold_registry_global_def key_hold_set_delay_def key_hold_finish_def handle_hold_start_def
  handle_hold_end_def

lemma hold_step_inv: "hold_inv s \<Longrightarrow> hold_inv (hold_step e s)"
  by (cases e) (auto simp: hold_inv_def hold_defs Let_def)

interpretation hold: event_machine hold_step hold_inv
  by unfold_locales (rule hold_step_inv)

text \<open>
  Whatever the order of setting the delay and finding the manager, the compositor is told the delay that was
  set last; before there is a manager nothing is sent and nobody is called.
\<close>

theorem hold_delay_reaches_compositor:
  "kh_manager (fold hold_step es hold_init_state) \<Longrightarrow> kh_delay (fold hold_step es hold_init_state) > 0 \<Longrightarrow>
    kh_delay_sent (fold hold_step es hold_init_state) = Some (kh_delay (fold hold_step es hold_init_state))"
proof -
  have "hold_inv hold_init_state" by (simp add: hold_inv_def hold_init_state_def)
  then have "hold_inv (fold hold_step es hold_init_state)" by (rule hold.run_inv)
  then show "kh_manager (fold hold_step es hold_init_state) \<Longrightarrow> kh_delay (fold hold_step es hold_init_state) > 0 \<Longrightarrow>
    kh_delay_sent (fold hold_step es hold_init_state) = Some (kh_delay (fold hold_step es hold_init_state))"
    by (simp add: hold_inv_def split: if_splits)
qed

end
