(* ===== verification/Lock_Notifs.thy ===== *)
theory Lock_Notifs
  imports C_Prelude
begin

text \<open>
  The notifications on the lock screen, \<^verbatim>\<open>src/lockscreen/lock_notifs.c\<close>: the request, its reply and the array
  of what is shown. The array is a list of four entries; writing past it is a fault.
\<close>

definition LOCK_NOTIFS_MAX :: nat where "LOCK_NOTIFS_MAX = 4"

record lock_notification =
  ln_app_name :: string
  ln_summary :: string
  ln_body :: string
  ln_timestamp :: int

text \<open>An entry of the reply: the application, the icon, the summary, the body and the time.\<close>

type_synonym raw_notification = "string \<times> string \<times> string \<times> string \<times> int"

record notifs_state =
  lf_bus :: bool
  lf_cb :: bool
  lf_count :: nat
  lf_items :: "lock_notification list"
  lf_requests :: nat
  lf_changes :: nat
  lf_fault :: bool

definition no_item :: lock_notification where
  "no_item = \<lparr>ln_app_name = [], ln_summary = [], ln_body = [], ln_timestamp = 0\<rparr>"

definition notifs_init_state :: notifs_state where
  "notifs_init_state = \<lparr>lf_bus = False, lf_cb = False, lf_count = 0, lf_items = replicate LOCK_NOTIFS_MAX no_item, lf_requests = 0, lf_changes = 0, lf_fault = False\<rparr>"

definition spaced :: "string \<Rightarrow> string" where
  "spaced b = map (\<lambda>c. if c = NL then SPC else c) b"

definition shown_item :: "raw_notification \<Rightarrow> lock_notification" where
  "shown_item r =
     (case r of (app, icon, summary, body, ts) \<Rightarrow>
        \<lparr>ln_app_name = snprintf_s 128 app, ln_summary = snprintf_s 256 summary, ln_body = spaced (snprintf_s 512 body), ln_timestamp = ts\<rparr>)"

definition add_item :: "raw_notification \<Rightarrow> notifs_state \<Rightarrow> notifs_state" where
  "add_item r s =
     s\<lparr>lf_fault := lf_fault s \<or> lf_count s \<ge> length (lf_items s), lf_items := (lf_items s)[lf_count s := shown_item r],
       lf_count := lf_count s + 1\<rparr>"

fun take_items :: "raw_notification list \<Rightarrow> notifs_state \<Rightarrow> notifs_state" where
  "take_items [] s = s"
| "take_items (r # rs) s = (if lf_count s < LOCK_NOTIFS_MAX then take_items rs (add_item r s) else s)"

definition tell_notifs :: "notifs_state \<Rightarrow> notifs_state" where
  "tell_notifs s = (if lf_cb s then s\<lparr>lf_changes := Suc (lf_changes s)\<rparr> else s)"

text \<open>\<open>None\<close>: the call failed.\<close>

definition on_reply :: "raw_notification list option \<Rightarrow> notifs_state \<Rightarrow> notifs_state" where
  "on_reply ret s0 =
     (let s = s0\<lparr>lf_count := 0, lf_items := replicate LOCK_NOTIFS_MAX no_item\<rparr>
      in case ret of None \<Rightarrow> tell_notifs s | Some rs \<Rightarrow> tell_notifs (take_items rs s))"

definition refresh :: "notifs_state \<Rightarrow> notifs_state" where
  "refresh s = (if \<not> lf_bus s then s else s\<lparr>lf_requests := Suc (lf_requests s)\<rparr>)"

definition on_signal :: "notifs_state \<Rightarrow> notifs_state" where
  "on_signal s = refresh s"

definition lock_notifs_init :: "bool \<Rightarrow> bool \<Rightarrow> notifs_state \<Rightarrow> notifs_state" where
  "lock_notifs_init bus on_change s = (let s1 = s\<lparr>lf_cb := on_change, lf_bus := bus\<rparr> in if \<not> bus then s1 else refresh s1)"

datatype notifs_event = N_init bool bool | N_reply "raw_notification list option" | N_signal

fun notifs_step :: "notifs_event \<Rightarrow> notifs_state \<Rightarrow> notifs_state" where
  "notifs_step (N_init bus cb) s = lock_notifs_init bus cb s"
| "notifs_step (N_reply r) s = on_reply r s"
| "notifs_step N_signal s = on_signal s"

section \<open>The abstract view: the list that is shown\<close>

definition notifs_abs :: "notifs_state \<Rightarrow> lock_notification list" where
  "notifs_abs s = take (lf_count s) (lf_items s)"

fun notifs_spec :: "notifs_event \<Rightarrow> lock_notification list \<Rightarrow> lock_notification list" where
  "notifs_spec (N_reply r) v = (case r of None \<Rightarrow> [] | Some rs \<Rightarrow> map shown_item (take LOCK_NOTIFS_MAX rs))"
| "notifs_spec _ v = v"

definition notifs_inv :: "notifs_state \<Rightarrow> bool" where
  "notifs_inv s \<longleftrightarrow> lf_count s \<le> LOCK_NOTIFS_MAX \<and> length (lf_items s) = LOCK_NOTIFS_MAX \<and> \<not> lf_fault s"

lemma take_items_result:
  assumes "notifs_inv s"
  shows "notifs_inv (take_items rs s) \<and>
    notifs_abs (take_items rs s) = notifs_abs s @ map shown_item (take (LOCK_NOTIFS_MAX - lf_count s) rs)"
  using assms
proof (induction rs arbitrary: s)
  case (Cons r rs)
  show ?case
  proof (cases "lf_count s < LOCK_NOTIFS_MAX")
    case True
    then have inv: "notifs_inv (add_item r s)" using Cons.prems by (simp add: notifs_inv_def add_item_def)
    have "notifs_abs (add_item r s) = notifs_abs s @ [shown_item r]" using True Cons.prems
      by (simp add: notifs_abs_def add_item_def notifs_inv_def take_Suc_conv_app_nth)
    moreover have "LOCK_NOTIFS_MAX - lf_count s = Suc (LOCK_NOTIFS_MAX - lf_count (add_item r s))" using True by (simp add: add_item_def)
    ultimately show ?thesis using Cons.IH [OF inv] True by simp
  next
    case False
    then show ?thesis using Cons.prems by (simp add: notifs_inv_def)
  qed
qed simp

lemma notifs_step_result: "notifs_inv s \<Longrightarrow> notifs_inv (notifs_step e s) \<and> notifs_abs (notifs_step e s) = notifs_spec e (notifs_abs s)"
proof (cases e)
  case (N_reply r)
  assume inv: "notifs_inv s"
  let ?s = "s\<lparr>lf_count := 0, lf_items := replicate LOCK_NOTIFS_MAX no_item\<rparr>"
  have start: "notifs_inv ?s" "notifs_abs ?s = []" using inv by (simp_all add: notifs_inv_def notifs_abs_def)
  have tell: "notifs_inv (tell_notifs t) = notifs_inv t" "notifs_abs (tell_notifs t) = notifs_abs t" for t
    by (simp_all add: tell_notifs_def notifs_inv_def notifs_abs_def)
  show ?thesis using take_items_result [OF start(1)] start N_reply by (simp add: on_reply_def tell Let_def split: option.split)
qed (auto simp: lock_notifs_init_def on_signal_def refresh_def notifs_inv_def notifs_abs_def Let_def)

interpretation notifs: refinement notifs_step notifs_inv notifs_spec notifs_abs
  by unfold_locales (simp_all add: notifs_step_result)

lemma notifs_init_inv: "notifs_inv notifs_init_state" "notifs_abs notifs_init_state = []"
  by (simp_all add: notifs_init_state_def notifs_inv_def notifs_abs_def)

text \<open>
  The lock screen shows the first four notifications of the last reply, each cut to its buffers and on one
  line, and none after a failed call; the array is never overrun.
\<close>

theorem notifs_show_last_reply:
  "take (lf_count (fold notifs_step es notifs_init_state)) (lf_items (fold notifs_step es notifs_init_state)) = fold notifs_spec es [] \<and>
   lf_count (fold notifs_step es notifs_init_state) \<le> 4 \<and> \<not> lf_fault (fold notifs_step es notifs_init_state)"
  using notifs.run_inv [OF notifs_init_inv(1), of es] notifs.run_abs [OF notifs_init_inv(1), of es, unfolded notifs_init_inv(2)]
  by (simp add: notifs_abs_def notifs_inv_def LOCK_NOTIFS_MAX_def)

lemma shown_item_fits:
  "length (ln_app_name (shown_item r)) < 128 \<and> length (ln_summary (shown_item r)) < 256 \<and> length (ln_body (shown_item r)) < 512 \<and>
   NL \<notin> set (ln_body (shown_item r))"
  by (auto simp: shown_item_def snprintf_s_def spaced_def split: prod.split)

end
