(* ===== verification/Lock_Surface.thy ===== *)
theory Lock_Surface
  imports C_Prelude
begin

text \<open>
  The session lock for GTK windows, \<^verbatim>\<open>src/lockscreen/lock_surface.c\<close>. Locks have numbers of their own; \<open>lv_live\<close>
  are those whose object exists and \<open>lv_locked\<close> those the compositor reported as locked.
\<close>

datatype lock_note =
    Lock_requested nat
  | Told_locked
  | Told_finished
  | Surface_made nat
  | Ack_configure nat
  | Unlocked nat

record lock_view =
  lv_cached :: "nat option"
  lv_manager :: bool
  lv_active :: "nat option"
  lv_locked_cb :: bool
  lv_finished_cb :: bool
  lv_live :: "nat set"
  lv_locked :: "nat set"
  lv_next :: nat
  lv_log :: "lock_note list"
  lv_fault :: bool

definition lock_view_init :: lock_view where
  "lock_view_init = \<lparr>lv_cached = None, lv_manager = False, lv_active = None, lv_locked_cb = False, lv_finished_cb = False, lv_live = {},
     lv_locked = {}, lv_next = 0, lv_log = [], lv_fault = False\<rparr>"

definition lnote :: "lock_note list \<Rightarrow> lock_view \<Rightarrow> lock_view" where
  "lnote ns s = s\<lparr>lv_log := lv_log s @ ns\<rparr>"

definition lock_locked :: "nat \<Rightarrow> lock_view \<Rightarrow> lock_view" where
  "lock_locked k s = (let s1 = s\<lparr>lv_locked := insert k (lv_locked s)\<rparr> in if lv_locked_cb s1 then lnote [Told_locked] s1 else s1)"

definition lock_finished :: "nat \<Rightarrow> lock_view \<Rightarrow> lock_view" where
  "lock_finished k s = (let s1 = s\<lparr>lv_active := None\<rparr> in if lv_finished_cb s1 then lnote [Told_finished] s1 else s1)"

definition lock_surface_configure :: "nat \<Rightarrow> lock_view \<Rightarrow> lock_view" where
  "lock_surface_configure serial s = lnote [Ack_configure serial] s"

text \<open>\<open>found\<close>: the round trip announces the lock manager.\<close>

definition get_lock_manager :: "nat \<Rightarrow> bool \<Rightarrow> lock_view \<Rightarrow> bool \<times> lock_view" where
  "get_lock_manager display found s =
     (if lv_cached s = Some display then (lv_manager s, s) else (found, s\<lparr>lv_cached := Some display, lv_manager := found\<rparr>))"

datatype view_event = L_locked nat | L_finished nat | L_configure nat

fun on_lock :: "view_event \<Rightarrow> lock_view \<Rightarrow> lock_view" where
  "on_lock (L_locked k) s = (if k \<in> lv_live s then lock_locked k s else s)"
| "on_lock (L_finished k) s = (if k \<in> lv_live s then lock_finished k s else s)"
| "on_lock (L_configure serial) s = lock_surface_configure serial s"

text \<open>\<open>evs\<close>: what the round trip after the request delivers.\<close>

definition lock_screen :: "nat option \<Rightarrow> bool \<Rightarrow> bool \<Rightarrow> bool \<Rightarrow> view_event list \<Rightarrow> lock_view \<Rightarrow> int \<times> lock_view" where
  "lock_screen display found on_locked on_finished evs s =
     (case display of
        None \<Rightarrow> (- 1, s)
      | Some d \<Rightarrow>
          (case get_lock_manager d found s of (m, s1) \<Rightarrow>
             if \<not> m then (- 1, s1)
             else
               let k = lv_next s1;
                   s2 = lnote [Lock_requested k] (s1\<lparr>lv_locked_cb := on_locked, lv_finished_cb := on_finished, lv_active := Some k,
                          lv_next := Suc k, lv_live := insert k (lv_live s1)\<rparr>)
               in (0, fold on_lock evs s2)))"

text \<open>\<open>has_surface\<close>: the window has a Wayland surface and a monitor.\<close>

definition lock_get_lock_surface :: "bool \<Rightarrow> lock_view \<Rightarrow> bool \<times> lock_view" where
  "lock_get_lock_surface has_surface s =
     (case lv_active s of
        None \<Rightarrow> (False, s)
      | Some k \<Rightarrow> if \<not> has_surface then (False, s) else (True, lnote [Surface_made k] (s\<lparr>lv_fault := lv_fault s \<or> k \<notin> lv_live s\<rparr>)))"

definition unlock_and_destroy :: "lock_view \<Rightarrow> lock_view" where
  "unlock_and_destroy s =
     (case lv_active s of
        None \<Rightarrow> s
      | Some k \<Rightarrow> lnote [Unlocked k] (s\<lparr>lv_fault := lv_fault s \<or> k \<notin> lv_live s, lv_live := lv_live s - {k}, lv_active := None\<rparr>))"

datatype view_call =
    S_event view_event
  | S_lock "nat option" bool bool bool "view_event list"
  | S_surface bool
  | S_unlock

fun lock_do :: "view_call \<Rightarrow> lock_view \<Rightarrow> lock_view" where
  "lock_do (S_event e) s = on_lock e s"
| "lock_do (S_lock d f a b evs) s = snd (lock_screen d f a b evs s)"
| "lock_do (S_surface b) s = snd (lock_get_lock_surface b s)"
| "lock_do S_unlock s = unlock_and_destroy s"

definition lock_inv :: "lock_view \<Rightarrow> bool" where
  "lock_inv s \<longleftrightarrow> (\<forall>k. lv_active s = Some k \<longrightarrow> k \<in> lv_live s) \<and> (\<forall>k \<in> lv_live s. k < lv_next s) \<and> \<not> lv_fault s"

lemma on_lock_inv: "lock_inv s \<Longrightarrow> lock_inv (on_lock e s)"
  by (cases e) (auto simp: lock_inv_def lock_locked_def lock_finished_def lock_surface_configure_def lnote_def Let_def)

interpretation locks: event_machine on_lock lock_inv
  by unfold_locales (rule on_lock_inv)

lemma lock_screen_inv: "lock_inv s \<Longrightarrow> lock_inv (snd (lock_screen d f a b evs s))"
  unfolding lock_screen_def get_lock_manager_def Let_def
  by (auto simp: lnote_def less_Suc_eq lock_inv_def [of s] split: option.split intro!: locks.run_inv) (auto simp: lock_inv_def less_Suc_eq)

lemma view_surface_inv: "lock_inv s \<Longrightarrow> lock_inv (snd (lock_get_lock_surface b s))"
  by (auto simp: lock_get_lock_surface_def lnote_def lock_inv_def split: option.split)

lemma view_unlock_inv: "lock_inv s \<Longrightarrow> lock_inv (unlock_and_destroy s)"
  by (auto simp: unlock_and_destroy_def lnote_def lock_inv_def split: option.split)

lemma lock_do_inv: "lock_inv s \<Longrightarrow> lock_inv (lock_do e s)"
  by (cases e) (simp_all add: on_lock_inv lock_screen_inv view_surface_inv view_unlock_inv)

interpretation lock_calls: event_machine lock_do lock_inv
  by unfold_locales (rule lock_do_inv)

text \<open>No surface is asked of a lock that was destroyed, and none is unlocked twice.\<close>

theorem lock_objects_safe: "\<not> lv_fault (fold lock_do es lock_view_init)"
proof -
  have "lock_inv lock_view_init" by (simp add: lock_inv_def lock_view_init_def)
  then have "lock_inv (fold lock_do es lock_view_init)" by (rule lock_calls.run_inv)
  then show ?thesis by (simp add: lock_inv_def)
qed

text \<open>
  Locking twice strands the first lock: the compositor refuses the second one, the handler forgets the active
  lock whichever lock was meant, and unlocking afterwards asks for nothing.
\<close>

lemma second_lock_strands_first:
  "lv_locked (fold lock_do [S_lock (Some 1) True True True [L_locked 0], S_lock (Some 1) True True True [L_finished 1], S_unlock] lock_view_init) = {0} \<and>
   (\<forall>k. Unlocked k \<notin> set (lv_log (fold lock_do [S_lock (Some 1) True True True [L_locked 0], S_lock (Some 1) True True True [L_finished 1], S_unlock]
      lock_view_init)))"
  by (simp add: lock_screen_def get_lock_manager_def lock_view_init_def lnote_def lock_locked_def lock_finished_def unlock_and_destroy_def Let_def)

text \<open>Unlocking before the compositor reported the lock is asked for all the same, which the protocol forbids.\<close>

lemma unlock_before_locked:
  "Unlocked 0 \<in> set (lv_log (fold lock_do [S_lock (Some 1) True True True [], S_unlock] lock_view_init)) \<and>
   0 \<notin> lv_locked (fold lock_do [S_lock (Some 1) True True True [], S_unlock] lock_view_init)"
  by (simp add: lock_screen_def get_lock_manager_def lock_view_init_def lnote_def unlock_and_destroy_def Let_def)

end
