(* ===== verification/Shell_Connection.thy ===== *)
theory Shell_Connection
  imports Windows Workspaces Night_Light
begin

text \<open>
  The shell's connection to the compositor, \<open>src/wayland/wayland_integration.c\<close>: the registry that
  binds the globals, start-up and its exits, the event source of the main loop, the events that are
  only passed on (desktop gestures, interactive tiling, pointer position, picture in picture), the
  monitor of a window, and the list of globals. The globals that are announced, what the round trips
  return and GDK's monitors are inputs.
\<close>

section \<open>The registry\<close>

record global =
  gl_name :: nat
  gl_iface :: string
  gl_version :: nat

record binding =
  bd_name :: nat
  bd_iface :: string
  bd_version :: nat

definition TOPLEVEL_MANAGER :: string where "TOPLEVEL_MANAGER = ''zwlr_foreign_toplevel_manager_v1''"
definition WORKSPACE_MANAGER :: string where "WORKSPACE_MANAGER = ''ext_workspace_manager_v1''"
definition SEAT :: string where "SEAT = ''wl_seat''"
definition SHM :: string where "SHM = ''wl_shm''"
definition PREVIEW_MANAGER :: string where "PREVIEW_MANAGER = ''zsingularity_preview_manager_v1''"
definition PIP_MANAGER :: string where "PIP_MANAGER = ''zsingularity_pip_manager_v1''"
definition OUTPUT_MANAGER :: string where "OUTPUT_MANAGER = ''zwlr_output_manager_v1''"
definition TILING_MANAGER :: string where "TILING_MANAGER = ''zsingularity_tiling_manager_v1''"
definition GESTURE_MANAGER :: string where "GESTURE_MANAGER = ''zsingularity_gesture_manager_v1''"
definition GAMMA_MANAGER :: string where "GAMMA_MANAGER = ''zwlr_gamma_control_manager_v1''"
definition OUTPUT :: string where "OUTPUT = ''wl_output''"

lemmas iface_defs = TOPLEVEL_MANAGER_def WORKSPACE_MANAGER_def SEAT_def SHM_def PREVIEW_MANAGER_def PIP_MANAGER_def
  OUTPUT_MANAGER_def TILING_MANAGER_def GESTURE_MANAGER_def GAMMA_MANAGER_def OUTPUT_def

record shell_ctx =
  sc_toplevel_manager :: "binding option"
  sc_workspace_manager :: "binding option"
  sc_seat :: "binding option"
  sc_shm :: "binding option"
  sc_preview_manager :: "binding option"
  sc_pip_manager :: "binding option"
  sc_output_manager :: "binding option"
  sc_tiling_manager :: "binding option"
  sc_gesture_manager :: "binding option"
  sc_gamma_manager :: "binding option"
  sc_gamma :: gamma_state
  sc_bound :: "binding list"
  sc_listening :: "binding list"

definition ctx_init :: shell_ctx where
  "ctx_init = \<lparr>sc_toplevel_manager = None, sc_workspace_manager = None, sc_seat = None, sc_shm = None, sc_preview_manager = None,
     sc_pip_manager = None, sc_output_manager = None, sc_tiling_manager = None, sc_gesture_manager = None, sc_gamma_manager = None,
     sc_gamma = gamma_init, sc_bound = [], sc_listening = []\<rparr>"

definition registry_bind :: "global \<Rightarrow> nat \<Rightarrow> shell_ctx \<Rightarrow> binding \<times> shell_ctx" where
  "registry_bind g v c =
     (let b = \<lparr>bd_name = gl_name g, bd_iface = gl_iface g, bd_version = v\<rparr> in (b, c\<lparr>sc_bound := sc_bound c @ [b]\<rparr>))"

definition add_listener :: "binding \<Rightarrow> shell_ctx \<Rightarrow> shell_ctx" where
  "add_listener b c = c\<lparr>sc_listening := sc_listening c @ [b]\<rparr>"

text \<open>The window, workspace, output and gamma theories model the listeners that are added here.\<close>

definition registry_handle_global :: "global \<Rightarrow> shell_ctx \<Rightarrow> shell_ctx" where
  "registry_handle_global g c =
     (let interface = gl_iface g; version = gl_version g
      in if interface = TOPLEVEL_MANAGER then
           (case registry_bind g 3 c of (b, c1) \<Rightarrow> add_listener b (c1\<lparr>sc_toplevel_manager := Some b\<rparr>))
         else if interface = WORKSPACE_MANAGER then
           (case registry_bind g 1 c of (b, c1) \<Rightarrow> add_listener b (c1\<lparr>sc_workspace_manager := Some b\<rparr>))
         else if interface = SEAT then (case registry_bind g 7 c of (b, c1) \<Rightarrow> c1\<lparr>sc_seat := Some b\<rparr>)
         else if interface = SHM then (case registry_bind g 1 c of (b, c1) \<Rightarrow> c1\<lparr>sc_shm := Some b\<rparr>)
         else if interface = PREVIEW_MANAGER then (case registry_bind g 1 c of (b, c1) \<Rightarrow> c1\<lparr>sc_preview_manager := Some b\<rparr>)
         else if interface = PIP_MANAGER then
           (case registry_bind g 1 c of (b, c1) \<Rightarrow> add_listener b (c1\<lparr>sc_pip_manager := Some b\<rparr>))
         else if interface = OUTPUT_MANAGER then
           (case registry_bind g 4 c of (b, c1) \<Rightarrow> add_listener b (c1\<lparr>sc_output_manager := Some b\<rparr>))
         else if interface = TILING_MANAGER then
           (let v = (if version < 11 then version else 11)
            in case registry_bind g v c of (b, c1) \<Rightarrow>
                 let c2 = c1\<lparr>sc_tiling_manager := Some b\<rparr> in if v \<ge> 2 then add_listener b c2 else c2)
         else if interface = GESTURE_MANAGER then
           (let v = (if version < 2 then version else 2)
            in case registry_bind g v c of (b, c1) \<Rightarrow> add_listener b (c1\<lparr>sc_gesture_manager := Some b\<rparr>))
         else if interface = GAMMA_MANAGER then
           (case registry_bind g 1 c of (b, c1) \<Rightarrow> c1\<lparr>sc_gamma_manager := Some b, sc_gamma := registry_gamma_manager (sc_gamma c1)\<rparr>)
         else if interface = OUTPUT then
           (let v = (if version \<ge> 4 then 4 else version)
            in case registry_bind g v c of (b, c1) \<Rightarrow> add_listener b (c1\<lparr>sc_gamma := registry_output (sc_gamma c1)\<rparr>))
         else c)"

section \<open>Start-up and the event source\<close>

text \<open>
  What the environment answers: whether there is a display and a registry, the globals that the first
  round trip delivers, and what the round trips return; the second one sees the bind requests.
\<close>

record conn_env =
  ce_display :: bool
  ce_registry :: bool
  ce_globals :: "global list"
  ce_roundtrip1 :: int
  ce_roundtrip2 :: "binding list \<Rightarrow> int"

datatype start = No_display | No_registry | Exit_1 | Started shell_ctx

definition wayland_init :: "conn_env \<Rightarrow> start" where
  "wayland_init env =
     (if \<not> ce_display env then No_display
      else if \<not> ce_registry env then No_registry
      else if ce_roundtrip1 env < 0 then Exit_1
      else let c = fold registry_handle_global (ce_globals env) ctx_init
           in if ce_roundtrip2 env (sc_bound c) < 0 then Exit_1 else Started c)"

text \<open>\<open>G_IO_IN\<close>, \<open>G_IO_HUP\<close> and \<open>G_IO_ERR\<close>, what \<open>wl_display_dispatch\<close> returns, and the error of the display.\<close>

record wakeup =
  wk_hup :: bool
  wk_err :: bool
  wk_dispatch :: int

datatype display_error = Protocol_error nat "string option" nat | Errno string | Closed

definition log_wayland_dispatch_error :: "display_error \<Rightarrow> string \<Rightarrow> string" where
  "log_wayland_dispatch_error e context =
     (case e of
        Protocol_error code interface object_id \<Rightarrow>
          context @ '': protocol error '' @ show_nat code @ '' on '' @
            (case interface of Some i \<Rightarrow> i | None \<Rightarrow> ''unknown'') @ ''@'' @ show_nat object_id
      | Errno m \<Rightarrow> context @ '': '' @ m
      | Closed \<Rightarrow> context @ '': Wayland socket closed'')"

text \<open>\<open>Inr ()\<close> keeps the source; \<open>Inl\<close> ends the process with exit code 1 and the message.\<close>

definition wayland_event_source_cb :: "wakeup \<Rightarrow> display_error \<Rightarrow> string + unit" where
  "wayland_event_source_cb w e =
     (if wk_hup w \<or> wk_err w then Inl (log_wayland_dispatch_error e ''Wayland connection lost'')
      else if wk_dispatch w < 0 then Inl (log_wayland_dispatch_error e ''Wayland dispatch failed'')
      else Inr ())"

section \<open>What is only passed on\<close>

text \<open>
  Gestures, interactive tiling and the pointer position go to callbacks; a gesture's fingers and
  direction are remembered from its begin. \<open>fd_pip\<close> collects the warnings of the picture in picture.
\<close>

datatype feed_call =
    Gesture nat nat nat real real bool bool
  | Interaction nat nat nat "int list" nat bool
  | Cursor int int

record feed_state =
  fd_fingers :: nat
  fd_direction :: nat
  fd_gesture_cb :: bool
  fd_interaction_cb :: bool
  fd_cursor_cb :: bool
  fd_calls :: "feed_call list"
  fd_pip :: "string list"

definition feed_init :: feed_state where
  "feed_init = \<lparr>fd_fingers = 0, fd_direction = 0, fd_gesture_cb = False, fd_interaction_cb = False, fd_cursor_cb = False,
     fd_calls = [], fd_pip = []\<rparr>"

definition pass_on :: "bool \<Rightarrow> feed_call \<Rightarrow> feed_state \<Rightarrow> feed_state" where
  "pass_on cb x s = (if cb then s\<lparr>fd_calls := fd_calls s @ [x]\<rparr> else s)"

text \<open>\<open>wl_fixed_t\<close> is a signed 24.8 fixed point number.\<close>

definition wl_fixed_to_double :: "int \<Rightarrow> real" where
  "wl_fixed_to_double f = real_of_int f / 256"

definition gesture_handle_begin :: "nat \<Rightarrow> nat \<Rightarrow> feed_state \<Rightarrow> feed_state" where
  "gesture_handle_begin fingers direction s =
     pass_on (fd_gesture_cb s) (Gesture 0 fingers direction 0 0 False False) (s\<lparr>fd_fingers := fingers, fd_direction := direction\<rparr>)"

definition gesture_handle_update :: "int \<Rightarrow> int \<Rightarrow> feed_state \<Rightarrow> feed_state" where
  "gesture_handle_update dx dy s =
     pass_on (fd_gesture_cb s) (Gesture 1 (fd_fingers s) (fd_direction s) (wl_fixed_to_double dx) (wl_fixed_to_double dy) False False) s"

definition gesture_handle_end :: "nat \<Rightarrow> nat \<Rightarrow> feed_state \<Rightarrow> feed_state" where
  "gesture_handle_end cancelled committed s =
     (pass_on (fd_gesture_cb s) (Gesture 2 (fd_fingers s) (fd_direction s) 0 0 (cancelled \<noteq> 0) (committed \<noteq> 0)) s)
       \<lparr>fd_fingers := 0, fd_direction := 0\<rparr>"

definition tiling_handle_cursor_position :: "int \<Rightarrow> int \<Rightarrow> feed_state \<Rightarrow> feed_state" where
  "tiling_handle_cursor_position x y s = pass_on (fd_cursor_cb s) (Cursor x y) s"

text \<open>The rectangle and the pointer position are one list of six numbers.\<close>

definition tiling_handle_interaction :: "nat \<Rightarrow> nat \<Rightarrow> nat \<Rightarrow> int list \<Rightarrow> nat \<Rightarrow> nat \<Rightarrow> feed_state \<Rightarrow> feed_state" where
  "tiling_handle_interaction toplevel phase kind rectangle edges float_candidate s =
     pass_on (fd_interaction_cb s) (Interaction toplevel phase kind rectangle edges (float_candidate \<noteq> 0)) s"

definition pip_handle_failed :: "nat \<Rightarrow> feed_state \<Rightarrow> feed_state" where
  "pip_handle_failed reason s =
     (let message = (if reason = 0 then ''invalid toplevel'' else if reason = 1 then ''invalid region''
                     else if reason = 2 then ''no window in the selected region'' else ''render failed'')
      in s\<lparr>fd_pip := fd_pip s @ [''[PiP] '' @ message]\<rparr>)"

definition set_desktop_gesture_callback :: "bool \<Rightarrow> feed_state \<Rightarrow> feed_state" where
  "set_desktop_gesture_callback cb s = s\<lparr>fd_gesture_cb := cb\<rparr>"

definition set_tiling_interaction_callback :: "bool \<Rightarrow> feed_state \<Rightarrow> feed_state" where
  "set_tiling_interaction_callback cb s = s\<lparr>fd_interaction_cb := cb\<rparr>"

definition set_cursor_position_callback :: "bool \<Rightarrow> feed_state \<Rightarrow> feed_state" where
  "set_cursor_position_callback cb s = s\<lparr>fd_cursor_cb := cb\<rparr>"

datatype feed_event =
    F_begin nat nat
  | F_update int int
  | F_end nat nat
  | F_cursor int int
  | F_interaction nat nat nat "int list" nat nat
  | F_pip_failed nat
  | F_gesture_cb bool
  | F_interaction_cb bool
  | F_cursor_cb bool

fun feed_step :: "feed_event \<Rightarrow> feed_state \<Rightarrow> feed_state" where
  "feed_step (F_begin f d) s = gesture_handle_begin f d s"
| "feed_step (F_update dx dy) s = gesture_handle_update dx dy s"
| "feed_step (F_end c m) s = gesture_handle_end c m s"
| "feed_step (F_cursor x y) s = tiling_handle_cursor_position x y s"
| "feed_step (F_interaction t p k r e f) s = tiling_handle_interaction t p k r e f s"
| "feed_step (F_pip_failed r) s = pip_handle_failed r s"
| "feed_step (F_gesture_cb cb) s = set_desktop_gesture_callback cb s"
| "feed_step (F_interaction_cb cb) s = set_tiling_interaction_callback cb s"
| "feed_step (F_cursor_cb cb) s = set_cursor_position_callback cb s"

text \<open>The request is sent when the gesture manager is bound at version 2 or above.\<close>

definition toggle_desktop_reveal :: "shell_ctx \<Rightarrow> bool" where
  "toggle_desktop_reveal c = (case sc_gesture_manager c of None \<Rightarrow> False | Some b \<Rightarrow> bd_version b \<ge> 2)"

section \<open>The monitor of a window\<close>

record gdk_monitor =
  mo_connector :: "string option"
  mo_output :: "nat option"

text \<open>
  \<open>g_list_model_get_item\<close> takes a reference on the item, \<open>g_object_unref\<close> gives it back; \<open>refs\<close>
  counts the references that the caller holds on each item.
\<close>

fun match_monitor :: "(gdk_monitor \<Rightarrow> bool) \<Rightarrow> nat \<Rightarrow> gdk_monitor list \<Rightarrow> (nat \<Rightarrow> int) \<Rightarrow> nat option \<times> (nat \<Rightarrow> int)" where
  "match_monitor p i [] refs = (None, refs)"
| "match_monitor p i (m # ms) refs =
     (let taken = refs(i := refs i + 1)
      in if p m then (Some i, taken) else match_monitor p (Suc i) ms (taken(i := taken i - 1)))"

text \<open>\<open>proxy_id\<close> gives the object id of an output proxy on the connection of the shell.\<close>

definition get_window_monitor ::
  "nat \<Rightarrow> bool \<Rightarrow> gdk_monitor list \<Rightarrow> (nat \<Rightarrow> nat) \<Rightarrow> win_state \<Rightarrow> ws_state \<Rightarrow> (nat \<Rightarrow> int) \<Rightarrow> nat option \<times> (nat \<Rightarrow> int)" where
  "get_window_monitor handle gdk monitors proxy_id w s refs =
     (case w_output w handle of
        None \<Rightarrow> (None, refs)
      | Some wl_out \<Rightarrow>
          if wl_out = 0 \<or> \<not> gdk then (None, refs)
          else
            let by_id = match_monitor (\<lambda>m. mo_output m = Some (proxy_id wl_out)) 0 monitors
            in case ws_connectors s wl_out of
                 None \<Rightarrow> by_id refs
               | Some connector \<Rightarrow>
                   (case match_monitor (\<lambda>m. mo_connector m = Some connector) 0 monitors refs of
                      (Some i, refs') \<Rightarrow> (Some i, refs')
                    | (None, refs') \<Rightarrow> by_id refs'))"

section \<open>The list of globals\<close>

definition probe_handle_global :: "global \<Rightarrow> string \<Rightarrow> string" where
  "probe_handle_global g s = s @ gl_iface g @ [NL]"

definition list_globals :: "bool \<Rightarrow> bool \<Rightarrow> global list \<Rightarrow> string" where
  "list_globals display registry gs = (if \<not> display \<or> \<not> registry then [] else fold probe_handle_global gs [])"

section \<open>Binding\<close>

text \<open>The version that is asked for; \<open>None\<close> for an interface the shell does not use.\<close>

definition asked :: "global \<Rightarrow> nat option" where
  "asked g =
     (if gl_iface g = TOPLEVEL_MANAGER then Some 3
      else if gl_iface g = SEAT then Some 7
      else if gl_iface g = OUTPUT_MANAGER then Some 4
      else if gl_iface g = TILING_MANAGER then Some (min (gl_version g) 11)
      else if gl_iface g = GESTURE_MANAGER then Some (min (gl_version g) 2)
      else if gl_iface g = OUTPUT then Some (min (gl_version g) 4)
      else if gl_iface g \<in> {WORKSPACE_MANAGER, SHM, PREVIEW_MANAGER, PIP_MANAGER, GAMMA_MANAGER} then Some 1
      else None)"

definition bind_of :: "global \<Rightarrow> binding option" where
  "bind_of g = map_option (\<lambda>v. \<lparr>bd_name = gl_name g, bd_iface = gl_iface g, bd_version = v\<rparr>) (asked g)"

lemma registry_bound:
  "sc_bound (registry_handle_global g c) = sc_bound c @ (case bind_of g of None \<Rightarrow> [] | Some b \<Rightarrow> [b])"
  by (simp add: registry_handle_global_def registry_bind_def add_listener_def bind_of_def asked_def Let_def iface_defs)

lemma registry_bound_all: "sc_bound (fold registry_handle_global gs c) = sc_bound c @ List.map_filter bind_of gs"
  by (induction gs arbitrary: c) (simp_all add: registry_bound List.map_filter_simps split: option.split)

text \<open>What a compositor accepts: a binding of a global that was announced, at a version it has.\<close>

definition acceptable :: "global list \<Rightarrow> binding \<Rightarrow> bool" where
  "acceptable gs b \<longleftrightarrow>
     list_ex (\<lambda>g. gl_name g = bd_name b \<and> gl_iface g = bd_iface b \<and> 0 < bd_version b \<and> bd_version b \<le> gl_version g) gs"

definition least_version :: "string \<Rightarrow> nat" where
  "least_version i = (if i = TOPLEVEL_MANAGER then 3 else if i = SEAT then 7 else if i = OUTPUT_MANAGER then 4 else 1)"

lemma least_asked: "gl_version g > 0 \<Longrightarrow> (case asked g of None \<Rightarrow> least_version (gl_iface g) = 1
    | Some v \<Rightarrow> 0 < v \<and> (v \<le> gl_version g \<longleftrightarrow> least_version (gl_iface g) \<le> gl_version g))"
  by (auto simp: asked_def least_version_def iface_defs)

lemma distinct_name: "distinct (map gl_name gs) \<Longrightarrow> g \<in> set gs \<Longrightarrow> g' \<in> set gs \<Longrightarrow> gl_name g = gl_name g' \<Longrightarrow> g = g'"
  by (auto simp: distinct_map dest: inj_onD)

lemma acceptable_bind:
  assumes "distinct (map gl_name gs)" and "g \<in> set gs" and "gl_version g > 0" and "bind_of g = Some b"
  shows "acceptable gs b \<longleftrightarrow> least_version (gl_iface g) \<le> gl_version g"
proof -
  obtain v where v: "asked g = Some v" and b: "b = \<lparr>bd_name = gl_name g, bd_iface = gl_iface g, bd_version = v\<rparr>"
    using assms(4) by (auto simp: bind_of_def)
  have "acceptable gs b \<longleftrightarrow> v \<le> gl_version g"
    using least_asked [OF assms(3)] assms(2) distinct_name [OF assms(1) assms(2)] unfolding b acceptable_def
    by (fastforce simp: v list_ex_iff)
  then show ?thesis using least_asked [OF assms(3)] by (simp add: v)
qed

lemma all_acceptable:
  assumes "distinct (map gl_name gs)" and "list_all (\<lambda>g. gl_version g > 0) gs"
  shows "list_all (acceptable gs) (List.map_filter bind_of gs) \<longleftrightarrow> list_all (\<lambda>g. least_version (gl_iface g) \<le> gl_version g) gs"
proof -
  have "(case bind_of g of None \<Rightarrow> True | Some b \<Rightarrow> acceptable gs b) \<longleftrightarrow> least_version (gl_iface g) \<le> gl_version g" if "g \<in> set gs" for g
  proof (cases "bind_of g")
    case None
    then show ?thesis using least_asked [of g] that assms(2) by (auto simp: bind_of_def list_all_iff split: option.splits)
  next
    case (Some b)
    then show ?thesis using acceptable_bind [OF assms(1) that _ Some] that assms(2) by (simp add: list_all_iff)
  qed
  then show ?thesis by (fastforce simp: list_all_iff List.map_filter_def split: option.splits)
qed

section \<open>What the shell has after start-up\<close>

definition announced :: "string \<Rightarrow> global list \<Rightarrow> binding option" where
  "announced i gs = (case rev (filter (\<lambda>g. gl_iface g = i) gs) of [] \<Rightarrow> None | g # _ \<Rightarrow> bind_of g)"

lemma announced_snoc: "announced i (gs @ [g]) = (if gl_iface g = i then bind_of g else announced i gs)"
  by (simp add: announced_def)

lemma announced_Nil: "announced i [] = None"
  by (simp add: announced_def)

definition holds :: "global list \<Rightarrow> shell_ctx \<Rightarrow> bool" where
  "holds gs c \<longleftrightarrow>
     [sc_toplevel_manager c, sc_workspace_manager c, sc_seat c, sc_shm c, sc_preview_manager c, sc_pip_manager c,
      sc_output_manager c, sc_tiling_manager c, sc_gesture_manager c, sc_gamma_manager c] =
     map (\<lambda>i. announced i gs)
      [TOPLEVEL_MANAGER, WORKSPACE_MANAGER, SEAT, SHM, PREVIEW_MANAGER, PIP_MANAGER, OUTPUT_MANAGER, TILING_MANAGER,
       GESTURE_MANAGER, GAMMA_MANAGER]"

lemma registry_holds: "holds gs (fold registry_handle_global gs ctx_init)"
proof (induction gs rule: rev_induct)
  case Nil
  show ?case by (simp add: holds_def announced_Nil ctx_init_def)
next
  case (snoc g gs)
  then show ?case
    unfolding holds_def announced_snoc
    by (simp add: registry_handle_global_def registry_bind_def add_listener_def bind_of_def asked_def Let_def iface_defs min_def)
qed

text \<open>Every output has a gamma control as soon as both were announced, in either order.\<close>

definition attached :: "gamma_state \<Rightarrow> bool" where
  "attached s \<longleftrightarrow> distinct (map go_output (g_outputs s)) \<and> list_all (\<lambda>x. go_output x < g_next_output s) (g_outputs s) \<and>
     list_all (\<lambda>x. (go_control x \<noteq> None) = g_manager s) (g_outputs s)"

lemma attach_outputs [simp]: "map go_output (g_outputs (gamma_output_attach x s)) = map go_output (g_outputs s)"
  "g_next_output (gamma_output_attach x s) = g_next_output s" "g_manager (gamma_output_attach x s) = g_manager s"
  by (simp_all add: gamma_output_attach_def new_control_def put_gamma_def comp_def if_distrib cong: if_cong)

lemma attach_controls:
  assumes "g_manager s"
  shows "y \<in> set (g_outputs (gamma_output_attach x s)) \<Longrightarrow>
    y \<in> set (g_outputs s) \<and> (go_output y = go_output x \<longrightarrow> go_control x \<noteq> None) \<or> go_control y \<noteq> None"
  using assms by (auto simp: gamma_output_attach_def new_control_def put_gamma_def split: if_splits)

lemma attach_all:
  assumes "g_manager s" and "distinct (map go_output xs)"
    and "\<And>y. y \<in> set (g_outputs s) \<Longrightarrow> go_control y = None \<Longrightarrow> y \<in> set xs"
    and "y \<in> set (g_outputs (fold gamma_output_attach xs s))"
  shows "go_control y \<noteq> None"
  using assms
proof (induction xs arbitrary: s)
  case Nil
  then show ?case by fastforce
next
  case (Cons x xs)
  show ?case
  proof (rule Cons.IH)
    show "g_manager (gamma_output_attach x s)" using Cons.prems(1) by simp
    show "distinct (map go_output xs)" using Cons.prems(2) by simp
    show "y \<in> set (g_outputs (fold gamma_output_attach xs (gamma_output_attach x s)))" using Cons.prems(4) by simp
    fix z
    assume z: "z \<in> set (g_outputs (gamma_output_attach x s))" "go_control z = None"
    then have "z \<in> set (g_outputs s)" and n: "go_output z = go_output x \<longrightarrow> go_control x \<noteq> None"
      using attach_controls [OF Cons.prems(1)] by blast+
    then have "z \<in> set (x # xs)" using Cons.prems(3) z(2) by blast
    then show "z \<in> set xs" using n z(2) by auto
  qed
qed

lemma fold_attach [simp]: "map go_output (g_outputs (fold gamma_output_attach xs s)) = map go_output (g_outputs s)"
  "g_next_output (fold gamma_output_attach xs s) = g_next_output s" "g_manager (fold gamma_output_attach xs s) = g_manager s"
  by (induction xs arbitrary: s) simp_all

lemma list_all_outputs: "map go_output xs = map go_output ys \<Longrightarrow> list_all (\<lambda>x. go_output x < n) xs = list_all (\<lambda>x. go_output x < n) ys"
  using list.pred_map [of "\<lambda>k. k < n" go_output xs] list.pred_map [of "\<lambda>k. k < n" go_output ys] by (simp add: comp_def)

lemma manager_attached: "attached s \<Longrightarrow> attached (registry_gamma_manager s)"
proof -
  assume a: "attached s"
  let ?s = "s\<lparr>g_manager := True\<rparr>"
  have "go_control y \<noteq> None" if "y \<in> set (g_outputs (fold gamma_output_attach (g_outputs s) ?s))" for y
    using a attach_all [of ?s "g_outputs s" y] that by (simp add: attached_def)
  then have "list_all (\<lambda>x. go_control x \<noteq> None) (g_outputs (fold gamma_output_attach (g_outputs s) ?s))"
    by (auto simp: list_all_iff)
  then show ?thesis using a list_all_outputs [of "g_outputs (fold gamma_output_attach (g_outputs s) ?s)" "g_outputs s"]
    by (simp add: attached_def registry_gamma_manager_def)
qed

lemma output_attached: "attached s \<Longrightarrow> attached (registry_output s)"
proof -
  assume a: "attached s"
  let ?n = "g_next_output s"
  have lt: "go_output y < ?n" if "y \<in> set (g_outputs s)" for y using a that by (simp add: attached_def list_all_iff)
  then have old: "map (\<lambda>y. if go_output y = ?n then x else y) (g_outputs s) = g_outputs s" for x
    by (intro map_idI) (use lt in fastforce)
  have "?n \<notin> go_output ` set (g_outputs s)" using lt by fastforce
  moreover have "list_all (\<lambda>x. go_output x < Suc ?n) (g_outputs s)" using lt by (fastforce simp: list_all_iff)
  ultimately show ?thesis using a
    by (cases "g_manager s") (simp_all add: attached_def registry_output_def gamma_output_attach_def new_control_def put_gamma_def Let_def old)
qed

lemma registry_attached: "attached (sc_gamma c) \<Longrightarrow> attached (sc_gamma (registry_handle_global g c))"
  by (simp add: registry_handle_global_def registry_bind_def add_listener_def Let_def manager_attached output_attached)

interpretation registry: event_machine registry_handle_global "\<lambda>c. attached (sc_gamma c)"
  by unfold_locales (rule registry_attached)

lemma gamma_manager_flag: "g_manager (sc_gamma (fold registry_handle_global gs ctx_init)) = (announced GAMMA_MANAGER gs \<noteq> None)"
proof (induction gs rule: rev_induct)
  case Nil
  show ?case by (simp add: ctx_init_def gamma_init_def announced_Nil)
next
  case (snoc g gs)
  then show ?case
    by (simp add: announced_snoc registry_handle_global_def registry_bind_def add_listener_def Let_def registry_output_def
        registry_gamma_manager_def bind_of_def asked_def iface_defs)
qed

text \<open>The state of the windows that a started shell begins with.\<close>

definition start_windows :: "shell_ctx \<Rightarrow> win_state" where
  "start_windows c = win_init (sc_seat c \<noteq> None) (sc_pip_manager c \<noteq> None) (map_option bd_version (sc_tiling_manager c))"

section \<open>What the callbacks are told\<close>

text \<open>
  A reference for the feed: what a callback is told of an event depends on the events before it, newest
  first, through the last gesture that began and has not ended, and the last setting of the callback.
\<close>

fun ongoing :: "feed_event list \<Rightarrow> nat \<times> nat" where
  "ongoing [] = (0, 0)"
| "ongoing (F_begin f d # es) = (f, d)"
| "ongoing (F_end c m # es) = (0, 0)"
| "ongoing (_ # es) = ongoing es"

fun gesture_set :: "feed_event list \<Rightarrow> bool" where
  "gesture_set [] = False"
| "gesture_set (F_gesture_cb cb # es) = cb"
| "gesture_set (_ # es) = gesture_set es"

fun interaction_set :: "feed_event list \<Rightarrow> bool" where
  "interaction_set [] = False"
| "interaction_set (F_interaction_cb cb # es) = cb"
| "interaction_set (_ # es) = interaction_set es"

fun cursor_set :: "feed_event list \<Rightarrow> bool" where
  "cursor_set [] = False"
| "cursor_set (F_cursor_cb cb # es) = cb"
| "cursor_set (_ # es) = cursor_set es"

fun told :: "feed_event list \<Rightarrow> feed_event \<Rightarrow> feed_call list" where
  "told h (F_begin f d) = (if gesture_set h then [Gesture 0 f d 0 0 False False] else [])"
| "told h (F_update dx dy) = (if gesture_set h then [Gesture 1 (fst (ongoing h)) (snd (ongoing h)) (real_of_int dx / 256) (real_of_int dy / 256) False False] else [])"
| "told h (F_end c m) = (if gesture_set h then [Gesture 2 (fst (ongoing h)) (snd (ongoing h)) 0 0 (c \<noteq> 0) (m \<noteq> 0)] else [])"
| "told h (F_cursor x y) = (if cursor_set h then [Cursor x y] else [])"
| "told h (F_interaction t p k r e f) = (if interaction_set h then [Interaction t p k r e (f \<noteq> 0)] else [])"
| "told h _ = []"

fun all_told :: "feed_event list \<Rightarrow> feed_call list" where
  "all_told [] = []"
| "all_told (e # h) = all_told h @ told h e"

definition feed_agrees :: "feed_event list \<Rightarrow> feed_state \<Rightarrow> bool" where
  "feed_agrees h s \<longleftrightarrow> (fd_fingers s, fd_direction s) = ongoing h \<and> fd_gesture_cb s = gesture_set h \<and>
     fd_interaction_cb s = interaction_set h \<and> fd_cursor_cb s = cursor_set h \<and> fd_calls s = all_told h"

lemma feed_step_agrees: "feed_agrees h s \<Longrightarrow> feed_agrees (e # h) (feed_step e s)"
  by (cases e) (auto simp: feed_agrees_def pass_on_def gesture_handle_begin_def gesture_handle_update_def gesture_handle_end_def
      tiling_handle_cursor_position_def tiling_handle_interaction_def pip_handle_failed_def Let_def wl_fixed_to_double_def
      set_desktop_gesture_callback_def set_tiling_interaction_callback_def set_cursor_position_callback_def
      dest: sym [of "(_, _)"])

lemma feed_run_agrees: "feed_agrees (rev es) (fold feed_step es feed_init)"
proof (induction es rule: rev_induct)
  case Nil
  show ?case by (simp add: feed_agrees_def feed_init_def)
next
  case (snoc e es)
  then show ?case using feed_step_agrees by simp
qed

section \<open>Searching the monitors\<close>

fun first_index :: "('a \<Rightarrow> bool) \<Rightarrow> 'a list \<Rightarrow> nat option" where
  "first_index p [] = None"
| "first_index p (x # xs) = (if p x then Some 0 else map_option Suc (first_index p xs))"

lemma first_index_Some: "first_index p xs = Some i \<longleftrightarrow> i < length xs \<and> p (xs ! i) \<and> (\<forall>j < i. \<not> p (xs ! j))"
  by (induction xs arbitrary: i) (auto simp: less_Suc_eq_0_disj nth_Cons split: nat.splits)

lemma match_monitor_first:
  "match_monitor p k ms refs =
     (case first_index p ms of None \<Rightarrow> (None, refs) | Some i \<Rightarrow> (Some (k + i), refs(k + i := refs (k + i) + 1)))"
  by (induction p k ms refs rule: match_monitor.induct) (auto split: option.split)

lemma get_window_monitor_first:
  assumes "w_output w handle = Some out" and "out \<noteq> 0"
  shows "get_window_monitor handle True ms pid w s refs =
    (let by_name = (case ws_connectors s out of None \<Rightarrow> None | Some c \<Rightarrow> first_index (\<lambda>m. mo_connector m = Some c) ms);
         found = (case by_name of None \<Rightarrow> first_index (\<lambda>m. mo_output m = Some (pid out)) ms | Some i \<Rightarrow> Some i)
     in (found, case found of None \<Rightarrow> refs | Some i \<Rightarrow> refs(i := refs i + 1)))"
  using assms by (simp add: get_window_monitor_def match_monitor_first Let_def split: option.split)

section \<open>Lines\<close>

lemma dropWhile_line: "l \<noteq> [] \<Longrightarrow> NL \<notin> set l \<Longrightarrow> dropWhile (\<lambda>c. c = NL) (l @ NL # r) = l @ NL # r"
  by (cases l) auto

lemma strtok_line:
  assumes "l \<noteq> []" and "NL \<notin> set l"
  shows "strtok_r NL (l @ NL # r) = (Some l, r)"
proof -
  have "takeWhile (\<lambda>c. c \<noteq> NL) (l @ NL # r) = l" "dropWhile (\<lambda>c. c \<noteq> NL) (l @ NL # r) = NL # r"
    using assms(2) by (auto intro!: takeWhile_hit dropWhile_hit)
  then show ?thesis by (simp add: strtok_r_def Let_def dropWhile_line [OF assms])
qed

lemma probe_append: "fold probe_handle_global gs s = s @ concat (map (\<lambda>g. gl_iface g @ [NL]) gs)"
  by (induction gs arbitrary: s) (simp_all add: probe_handle_global_def)

lemma interface_lines:
  "list_all (\<lambda>l. l \<noteq> [] \<and> NL \<notin> set l) ls \<Longrightarrow> strtok_all NL (concat (map (\<lambda>l. l @ [NL]) ls)) = ls"
proof (induction ls)
  case Nil
  show ?case by (simp add: strtok_all.simps strtok_r_def)
next
  case (Cons l ls)
  then show ?case by (subst strtok_all.simps) (simp add: strtok_line)
qed

section \<open>Properties\<close>

text \<open>
  The shell starts on exactly those compositors that have version 3 of the toplevel manager,
  version 7 of the seat and version 4 of the output manager, where they have them at all; on an older
  one the process exits with 1. A compositor answers a binding above its version, or one of version
  0, with a protocol error.
\<close>

lemma shell_starts_iff:
  assumes "ce_display env" and "ce_registry env" and "ce_roundtrip1 env \<ge> 0"
    and "distinct (map gl_name (ce_globals env))" and "list_all (\<lambda>g. gl_version g > 0) (ce_globals env)"
    and "\<And>bs. ce_roundtrip2 env bs \<ge> 0 \<longleftrightarrow> list_all (acceptable (ce_globals env)) bs"
  shows "wayland_init env =
    (if list_all (\<lambda>g. least_version (gl_iface g) \<le> gl_version g) (ce_globals env)
     then Started (fold registry_handle_global (ce_globals env) ctx_init) else Exit_1)"
proof -
  have "sc_bound (fold registry_handle_global (ce_globals env) ctx_init) = List.map_filter bind_of (ce_globals env)"
    by (simp add: registry_bound_all ctx_init_def)
  then have "ce_roundtrip2 env (sc_bound (fold registry_handle_global (ce_globals env) ctx_init)) \<ge> 0 \<longleftrightarrow>
      list_all (\<lambda>g. least_version (gl_iface g) \<le> gl_version g) (ce_globals env)"
    using assms(6) all_acceptable [OF assms(4,5)] by simp
  then show ?thesis using assms(1-3) by (auto simp: wayland_init_def Let_def)
qed

definition old_seat :: "global list" where
  "old_seat = [\<lparr>gl_name = 1, gl_iface = SEAT, gl_version = 5\<rparr>, \<lparr>gl_name = 2, gl_iface = OUTPUT, gl_version = 3\<rparr>]"

text \<open>
  A started shell has exactly what was announced. Each manager is the last global announced with its
  interface, bound at the version the code asks for, the windows begin with that seat, that picture in
  picture and that tiling version, and every output has a gamma control if and only if there is a gamma
  manager, whichever was announced first.
\<close>

lemma shell_has_announced:
  assumes "wayland_init env = Started c"
  shows "holds (ce_globals env) c \<and> sc_bound c = List.map_filter bind_of (ce_globals env) \<and>
    w_tiling (start_windows c) = map_option bd_version (announced TILING_MANAGER (ce_globals env)) \<and>
    w_seat (start_windows c) = (announced SEAT (ce_globals env) \<noteq> None) \<and>
    list_all (\<lambda>x. (go_control x \<noteq> None) = (announced GAMMA_MANAGER (ce_globals env) \<noteq> None)) (g_outputs (sc_gamma c))"
proof -
  have c: "c = fold registry_handle_global (ce_globals env) ctx_init"
    using assms by (auto simp: wayland_init_def Let_def split: if_splits)
  have h: "holds (ce_globals env) c" unfolding c by (rule registry_holds)
  have "attached (sc_gamma c)"
    unfolding c by (rule registry.run_inv) (simp add: ctx_init_def gamma_init_def attached_def)
  then have "list_all (\<lambda>x. (go_control x \<noteq> None) = (announced GAMMA_MANAGER (ce_globals env) \<noteq> None)) (g_outputs (sc_gamma c))"
    using gamma_manager_flag [of "ce_globals env"] unfolding c [symmetric] by (simp add: attached_def)
  moreover have "sc_bound c = List.map_filter bind_of (ce_globals env)" by (simp add: c registry_bound_all ctx_init_def)
  moreover have "v \<le> 11" if "announced TILING_MANAGER (ce_globals env) = Some b" "v = bd_version b" for b v
    using that by (auto simp: announced_def bind_of_def asked_def iface_defs split: list.splits if_splits
        dest!: arg_cong [of "rev _" _ set])
  then have "w_tiling (start_windows c) = map_option bd_version (announced TILING_MANAGER (ce_globals env))"
    using h by (cases "announced TILING_MANAGER (ce_globals env)") (fastforce simp: start_windows_def win_init_def holds_def)+
  ultimately show ?thesis using h by (simp add: start_windows_def win_init_def holds_def)
qed



definition new_globals :: "global list" where
  "new_globals = [\<lparr>gl_name = 1, gl_iface = OUTPUT, gl_version = 3\<rparr>, \<lparr>gl_name = 4, gl_iface = TILING_MANAGER, gl_version = 13\<rparr>]"

definition compositor_env :: "global list \<Rightarrow> conn_env" where
  "compositor_env gs = \<lparr>ce_display = True, ce_registry = True, ce_globals = gs, ce_roundtrip1 = 0,
     ce_roundtrip2 = (\<lambda>bs. if list_all (acceptable gs) bs then 0 else -1)\<rparr>"


text \<open>
  The feed agrees with its reference. Over every order of events and of callback settings the callbacks
  are told, in order, exactly the events that arrive while they are set; an update or the end of a
  gesture comes with the fingers and the direction of the last gesture that began and has not ended.
\<close>

theorem feed_reference: "fd_calls (fold feed_step es feed_init) = all_told (rev es)"
  using feed_run_agrees [of es] by (simp add: feed_agrees_def)

text \<open>
  The monitor of a window. For a window whose last output's connector is known and belongs to a
  monitor, the result is the first such monitor. The caller holds one new reference on the result and
  none on the monitors that were passed over.
\<close>

theorem window_monitor_right:
  assumes "w_output w handle = Some out" and "out \<noteq> 0" and "ws_connectors s out = Some c"
    and "i < length ms" and "mo_connector (ms ! i) = Some c"
    and "list_all (\<lambda>m. mo_connector m \<noteq> Some c) (take i ms)"
  shows "get_window_monitor handle True ms pid w s refs = (Some i, refs(i := refs i + 1))"
proof -
  have "mo_connector (ms ! j) \<noteq> Some c" if "j < i" for j
    using assms(4,6) that by (auto simp: list_all_length)
  then have "first_index (\<lambda>m. mo_connector m = Some c) ms = Some i" using assms(4,5) by (simp add: first_index_Some)
  then show ?thesis using get_window_monitor_first [OF assms(1,2)] assms(3) by simp
qed

text \<open>
  The fallback: when no monitor has the connector of the window's output the first monitor whose output
  has the same number is taken, although the numbers belong to two connections.
\<close>

definition one_toplevel :: win_state where
  "one_toplevel = fold on_step [Event (win_event.W_toplevel 7), Event (win_event.W_output_enter 7 30)] (win_init True False None)"

definition one_connector :: ws_state where
  "one_connector = wl_output_handle_name 30 ''DP-1'' (ws_init True True True)"

theorem wrong_monitor:
  "get_window_monitor 7 True [\<lparr>mo_connector = Some ''HDMI-A-1'', mo_output = Some 12\<rparr>] (\<lambda>_. 12) one_toplevel one_connector refs =
    (Some 0, refs(0 := refs 0 + 1))"
  by (simp add: get_window_monitor_def one_toplevel_def one_connector_def toplevel_manager_toplevel_def to_window_def
      toplevel_handle_output_enter_def notify_def win_init_def wl_output_handle_name_def ws_init_def Let_def)

theorem window_monitor_right_witness:
  "get_window_monitor 7 True [\<lparr>mo_connector = Some ''HDMI-A-1'', mo_output = Some 12\<rparr>, \<lparr>mo_connector = Some ''DP-1'', mo_output = None\<rparr>]
     (\<lambda>_. 12) one_toplevel one_connector (\<lambda>_. 0) = (Some 1, (\<lambda>_. 0)(1 := 1))"
proof -
  have "w_output one_toplevel 7 = Some 30" "ws_connectors one_connector 30 = Some ''DP-1''"
    by (simp_all add: one_toplevel_def one_connector_def toplevel_manager_toplevel_def to_window_def toplevel_handle_output_enter_def
        notify_def win_init_def wl_output_handle_name_def ws_init_def Let_def)
  from window_monitor_right [OF this(1) _ this(2), of 1] show ?thesis by simp
qed

text \<open>Splitting the list of globals at its line ends gives back the announced interfaces, in order.\<close>

theorem list_globals_lines:
  assumes "list_all (\<lambda>g. gl_iface g \<noteq> [] \<and> NL \<notin> set (gl_iface g)) gs"
  shows "strtok_all NL (list_globals True True gs) = map gl_iface gs"
  using interface_lines [of "map gl_iface gs"] assms by (simp add: list_globals_def probe_append comp_def list.pred_map)

theorem list_globals_lines_witness: "strtok_all NL (list_globals True True old_seat) = [''wl_seat'', ''wl_output'']"
  using list_globals_lines [of old_seat] by (simp add: old_seat_def iface_defs)

end
