(* ===== verification/Lock_Motion.thy ===== *)
theory Lock_Motion
  imports Lock_Screen
begin

text \<open>
  What the session lock's animations show, \<^verbatim>\<open>src/lockscreen/lock_main.c\<close>: the settings they read, the easing
  curve, and the sharpness, fade and offsets of a frame. C's \<open>double\<close> is read as \<open>real\<close>; the state of the
  phases and of the shake is that of the theory Lock_Screen.
\<close>

section \<open>Settings\<close>

text \<open>\<open>None\<close> stands for a schema or a key that is not installed.\<close>

record motion_env =
  mv_source :: bool
  mv_reduce :: "bool option"
  mv_scale :: "real option"
  mv_animations :: "bool option"

definition load_motion :: "motion_env \<Rightarrow> bool \<times> real" where
  "load_motion env =
     (if \<not> mv_source env then (False, 1)
      else ((case mv_reduce env of None \<Rightarrow> False | Some b \<Rightarrow> b) \<or> mv_animations env = Some False,
            case mv_scale env of None \<Rightarrow> 1 | Some x \<Rightarrow> if x > 0 then x else 1))"

section \<open>The easing curve\<close>

definition bezier_axis :: "real \<Rightarrow> real \<Rightarrow> real \<Rightarrow> real" where
  "bezier_axis a b t = (let u = 1 - t in 3 * u * u * t * a + 3 * u * t * t * b + t * t * t)"

text \<open>The loop of \<open>bezier_ease\<close>; the first argument counts the rounds that are left.\<close>

fun ease_loop :: "nat \<Rightarrow> real \<Rightarrow> real \<Rightarrow> real \<Rightarrow> real \<Rightarrow> real \<Rightarrow> real \<Rightarrow> real" where
  "ease_loop 0 x1 x2 x lo hi t = t"
| "ease_loop (Suc n) x1 x2 x lo hi t =
     (let val = bezier_axis x1 x2 t
      in if \<bar>val - x\<bar> < 1 / 10 ^ 6 then t
         else if val < x then ease_loop n x1 x2 x t hi ((t + hi) / 2)
         else ease_loop n x1 x2 x lo t ((lo + t) / 2))"

definition bezier_ease :: "real \<Rightarrow> real \<Rightarrow> real \<Rightarrow> real \<Rightarrow> real \<Rightarrow> real" where
  "bezier_ease x1 y1 x2 y2 x = (if x \<le> 0 then 0 else if x \<ge> 1 then 1 else bezier_axis y1 y2 (ease_loop 32 x1 x2 x 0 1 x))"

definition ease_standard :: "real \<Rightarrow> real" where
  "ease_standard t = bezier_ease (2 / 10) 0 0 1 t"

section \<open>A frame\<close>

record ui_motion =
  ui_sharpness :: real
  ui_content_fade :: real
  ui_clock_dy :: real
  ui_card_dx :: real

definition phase_time :: "int \<Rightarrow> lock_state \<Rightarrow> real" where
  "phase_time now s =
     (let start = (if k_anim_start s < 0 then now else k_anim_start s);
          t = (if k_anim_ms s > 0 then real_of_int (now - start) / 1000 / k_anim_ms s else 1)
      in if t > 1 then 1 else t)"

definition shake_dx :: "int \<Rightarrow> lock_state \<Rightarrow> real" where
  "shake_dx now s =
     (if k_shake s < 0 then 0
      else
        let t = real_of_int (now - k_shake s) / 1000000 / k_scale s;
            omega = sqrt 300; zeta = 14 / (2 * omega); omega_d = omega * sqrt (1 - zeta * zeta)
        in if shake_envelope t < 4 / 10 then 0 else - shake_envelope t * sin (omega_d * t))"

definition motion_values :: "int \<Rightarrow> lock_state \<Rightarrow> ui_motion \<Rightarrow> ui_motion" where
  "motion_values now s ui =
     (let t = phase_time now s;
          p = (if k_reduced s then t else ease_standard t);
          ui1 = (if k_phase s = Phase_idle then ui
                 else if k_phase s = Phase_enter then
                   ui\<lparr>ui_sharpness := 1 - p, ui_content_fade := 1 - p, ui_clock_dy := (if k_reduced s then 0 else - 8 * (1 - p))\<rparr>
                 else ui\<lparr>ui_sharpness := p, ui_content_fade := (if t \<ge> 1 then 1 else p)\<rparr>)
      in ui1\<lparr>ui_card_dx := shake_dx now s\<rparr>)"

section \<open>Bisection\<close>

text \<open>
  What the loop needs of the first axis of a curve: it ends in the corners, grows at least at rate \<open>m\<close> and
  at most at rate \<open>M\<close>. Then the loop finds the parameter of a point, from any first guess.
\<close>

locale ease_curve =
  fixes x1 x2 m M :: real
  assumes slope: "0 \<le> s \<Longrightarrow> s \<le> t \<Longrightarrow> t \<le> 1 \<Longrightarrow> m * (t - s) \<le> bezier_axis x1 x2 t - bezier_axis x1 x2 s"
    and steep: "0 \<le> s \<Longrightarrow> s \<le> t \<Longrightarrow> t \<le> 1 \<Longrightarrow> bezier_axis x1 x2 t - bezier_axis x1 x2 s \<le> M * (t - s)"
    and m_pos: "0 < m"
begin

lemma M_pos: "0 < M"
  using slope [of 0 1] steep [of 0 1] m_pos by simp

lemma axis_mono: "0 \<le> s \<Longrightarrow> s \<le> t \<Longrightarrow> t \<le> 1 \<Longrightarrow> bezier_axis x1 x2 s \<le> bezier_axis x1 x2 t"
  using slope [of s t] mult_nonneg_nonneg [of m "t - s"] m_pos by linarith

lemma loop_finds:
  assumes "0 \<le> lo" and "lo \<le> hi" and "hi \<le> 1" and "t = (lo + hi) / 2"
    and "bezier_axis x1 x2 lo \<le> x" and "x \<le> bezier_axis x1 x2 hi"
  shows "lo \<le> ease_loop n x1 x2 x lo hi t \<and> ease_loop n x1 x2 x lo hi t \<le> hi \<and>
    (\<bar>bezier_axis x1 x2 (ease_loop n x1 x2 x lo hi t) - x\<bar> < 1 / 10 ^ 6 \<or>
     \<bar>bezier_axis x1 x2 (ease_loop n x1 x2 x lo hi t) - x\<bar> \<le> M * (hi - lo) / 2 ^ n)"
  using assms
proof (induction n arbitrary: lo hi t)
  case 0
  let ?f = "bezier_axis x1 x2"
  have t: "lo \<le> t" "t \<le> hi" using 0 by auto
  have "?f hi - ?f lo \<le> M * (hi - lo)" using 0 by (intro steep) auto
  moreover have "?f lo \<le> ?f t" using 0 t by (intro axis_mono) auto
  moreover have "?f t \<le> ?f hi" using 0 t by (intro axis_mono) auto
  ultimately have "\<bar>?f t - x\<bar> \<le> M * (hi - lo)" using 0(5,6) by linarith
  then show ?case using t by simp
next
  case (Suc n)
  let ?f = "bezier_axis x1 x2"
  have t: "lo \<le> t" "t \<le> hi" and w: "hi - t = (hi - lo) / 2" "t - lo = (hi - lo) / 2" using Suc.prems by (auto simp: field_simps)
  have half: "M * ((hi - lo) / 2) / 2 ^ n = M * (hi - lo) / 2 ^ Suc n" by simp
  consider "\<bar>?f t - x\<bar> < 1 / 10 ^ 6" | "\<not> \<bar>?f t - x\<bar> < 1 / 10 ^ 6" "?f t < x" | "\<not> \<bar>?f t - x\<bar> < 1 / 10 ^ 6" "x \<le> ?f t"
    by linarith
  then show ?case
  proof cases
    case 1
    then show ?thesis using t by simp
  next
    case 2
    have IH: "t \<le> ease_loop n x1 x2 x t hi ((t + hi) / 2) \<and> ease_loop n x1 x2 x t hi ((t + hi) / 2) \<le> hi \<and>
        (\<bar>?f (ease_loop n x1 x2 x t hi ((t + hi) / 2)) - x\<bar> < 1 / 10 ^ 6 \<or>
         \<bar>?f (ease_loop n x1 x2 x t hi ((t + hi) / 2)) - x\<bar> \<le> M * (hi - t) / 2 ^ n)"
      by (rule Suc.IH) (use Suc.prems 2 t in linarith)+
    have "ease_loop (Suc n) x1 x2 x lo hi t = ease_loop n x1 x2 x t hi ((t + hi) / 2)" using 2 by (simp add: Let_def)
    then show ?thesis using IH order_trans [OF t(1), of "ease_loop n x1 x2 x t hi ((t + hi) / 2)"] unfolding w half by auto
  next
    case 3
    have IH: "lo \<le> ease_loop n x1 x2 x lo t ((lo + t) / 2) \<and> ease_loop n x1 x2 x lo t ((lo + t) / 2) \<le> t \<and>
        (\<bar>?f (ease_loop n x1 x2 x lo t ((lo + t) / 2)) - x\<bar> < 1 / 10 ^ 6 \<or>
         \<bar>?f (ease_loop n x1 x2 x lo t ((lo + t) / 2)) - x\<bar> \<le> M * (t - lo) / 2 ^ n)"
      by (rule Suc.IH) (use Suc.prems 3 t in linarith)+
    have "ease_loop (Suc n) x1 x2 x lo hi t = ease_loop n x1 x2 x lo t ((lo + t) / 2)" using 3 by (simp add: Let_def)
    then show ?thesis using IH order_trans [OF _ t(2), of "ease_loop n x1 x2 x lo t ((lo + t) / 2)"] unfolding w half by auto
  qed
qed

text \<open>The first guess is the point itself; it costs one halving.\<close>

lemma ease_loop_finds:
  assumes "0 < x" and "x < 1" and "r = ease_loop (Suc n) x1 x2 x 0 1 x"
  shows "0 \<le> r \<and> r \<le> 1 \<and> (\<bar>bezier_axis x1 x2 r - x\<bar> < 1 / 10 ^ 6 \<or> \<bar>bezier_axis x1 x2 r - x\<bar> \<le> M / 2 ^ n)"
proof -
  let ?f = "bezier_axis x1 x2"
  have e: "?f 0 = 0" "?f 1 = 1" by (simp_all add: bezier_axis_def)
  have le: "M * w / 2 ^ n \<le> M / 2 ^ n" if "w \<le> 1" for w
    using that M_pos by (simp add: divide_right_mono mult_left_le)
  consider "\<bar>?f x - x\<bar> < 1 / 10 ^ 6" | "\<not> \<bar>?f x - x\<bar> < 1 / 10 ^ 6" "?f x < x" | "\<not> \<bar>?f x - x\<bar> < 1 / 10 ^ 6" "x \<le> ?f x"
    by linarith
  then show ?thesis
  proof cases
    case 1
    then show ?thesis using assms by simp
  next
    case 2
    then show ?thesis using loop_finds [of x 1 "(x + 1) / 2" x n] le [of "1 - x"] e assms by (auto simp: Let_def)
  next
    case 3
    then show ?thesis using loop_finds [of 0 x "(0 + x) / 2" x n] le [of x] e assms by (auto simp: Let_def)
  qed
qed

end

text \<open>The standard curve.\<close>

lemma standard_slope: "bezier_axis (2 / 10) 0 t - bezier_axis (2 / 10) 0 s =
    (t - s) * (12 / 10 * ((t + s) - 1 / 2) ^ 2 + 4 / 10 * (t - s) ^ 2 + 3 / 10)"
  by (simp add: bezier_axis_def Let_def field_simps power2_eq_square)


lemma standard_rate:
  fixes s t :: real
  assumes "0 \<le> s" and "s \<le> t" and "t \<le> 1"
  shows "3 / 10 \<le> 12 / 10 * ((t + s) - 1 / 2) ^ 2 + 4 / 10 * (t - s) ^ 2 + 3 / 10"
    and "12 / 10 * ((t + s) - 1 / 2) ^ 2 + 4 / 10 * (t - s) ^ 2 + 3 / 10 \<le> 4"
proof -
  have "\<bar>(t + s) - 1 / 2\<bar> \<le> 3 / 2" "\<bar>t - s\<bar> \<le> 1" using assms by linarith+
  then have "((t + s) - 1 / 2) ^ 2 \<le> (3 / 2) ^ 2" "(t - s) ^ 2 \<le> 1 ^ 2" by (simp_all only: abs_le_square_iff [symmetric] abs_numeral abs_one abs_divide)
  then show "12 / 10 * ((t + s) - 1 / 2) ^ 2 + 4 / 10 * (t - s) ^ 2 + 3 / 10 \<le> 4" by (simp add: power2_eq_square)
qed simp

interpretation standard: ease_curve "2 / 10" 0 "3 / 10" 4
proof
  fix s t :: real
  assume st: "0 \<le> s" "s \<le> t" "t \<le> 1"
  note r = standard_rate [OF st]
  show "3 / 10 * (t - s) \<le> bezier_axis (2 / 10) 0 t - bezier_axis (2 / 10) 0 s"
    using mult_right_mono [OF r(1), of "t - s"] st unfolding standard_slope by (simp add: mult.commute)
  show "bezier_axis (2 / 10) 0 t - bezier_axis (2 / 10) 0 s \<le> 4 * (t - s)"
    using mult_right_mono [OF r(2), of "t - s"] st unfolding standard_slope by (simp add: mult.commute)
qed simp

text \<open>The second axis of the standard curve is the smooth step.\<close>

lemma second_axis: "bezier_axis 0 1 t = t * t * (3 - 2 * t)"
  by (simp add: bezier_axis_def Let_def field_simps)

lemma second_axis_slope: "bezier_axis 0 1 t - bezier_axis 0 1 s = (t - s) * (3 * (t + s) - 2 * (t * t + t * s + s * s))"
  by (simp add: second_axis field_simps)

lemma second_axis_rate:
  fixes s t :: real
  assumes "0 \<le> s" and "s \<le> t" and "t \<le> 1"
  shows "0 \<le> 3 * (t + s) - 2 * (t * t + t * s + s * s)" and "3 * (t + s) - 2 * (t * t + t * s + s * s) \<le> 3 / 2"
proof -
  have "t * t \<le> t" "t * s \<le> s" "s * s \<le> s" using assms by (simp_all add: mult_left_le mult_left_le_one_le)
  moreover have "t * s \<le> t" using assms by (simp add: mult_left_le)
  ultimately show "0 \<le> 3 * (t + s) - 2 * (t * t + t * s + s * s)" by (simp add: distrib_left)
  have "3 * (t + s) - 2 * (t * t + t * s + s * s) = 3 / 2 - 3 / 2 * (t + s - 1) ^ 2 - 1 / 2 * (t - s) ^ 2"
    by (simp add: power2_eq_square field_simps)
  then show "3 * (t + s) - 2 * (t * t + t * s + s * s) \<le> 3 / 2" using zero_le_power2 [of "t + s - 1"] zero_le_power2 [of "t - s"] by linarith
qed

lemma second_axis_mono: "0 \<le> s \<Longrightarrow> s \<le> t \<Longrightarrow> t \<le> 1 \<Longrightarrow> bezier_axis 0 1 s \<le> bezier_axis 0 1 t"
  using second_axis_slope [of t s] mult_nonneg_nonneg [of "t - s", OF _ second_axis_rate(1) [of s t]] by simp

lemma second_axis_near:
  assumes "0 \<le> s" "s \<le> 1" "0 \<le> t" "t \<le> 1"
  shows "\<bar>bezier_axis 0 1 t - bezier_axis 0 1 s\<bar> \<le> 3 / 2 * \<bar>t - s\<bar>"
proof -
  have *: "\<bar>bezier_axis 0 1 b - bezier_axis 0 1 a\<bar> \<le> 3 / 2 * (b - a)" if "0 \<le> a" "a \<le> b" "b \<le> 1" for a b
    using second_axis_mono [OF that] mult_left_mono [OF second_axis_rate(2) [OF that], of "b - a"] that second_axis_slope [of b a]
    by simp
  show ?thesis using * [of s t] * [of t s] assms by (cases "s \<le> t") (auto simp: abs_minus_commute)
qed

lemma standard_near:
  assumes "0 \<le> s" "s \<le> 1" "0 \<le> t" "t \<le> 1"
  shows "3 / 10 * \<bar>t - s\<bar> \<le> \<bar>bezier_axis (2 / 10) 0 t - bezier_axis (2 / 10) 0 s\<bar>"
  using standard.slope [of s t] standard.slope [of t s] assms by (cases "s \<le> t") (auto simp: abs_if)

text \<open>The loop's result on the standard curve; 32 rounds are enough for the tolerance.\<close>

lemma standard_loop:
  assumes "0 < x" and "x < 1"
  shows "0 \<le> ease_loop 32 (2 / 10) 0 x 0 1 x \<and> ease_loop 32 (2 / 10) 0 x 0 1 x \<le> 1 \<and>
    \<bar>bezier_axis (2 / 10) 0 (ease_loop 32 (2 / 10) 0 x 0 1 x) - x\<bar> < 1 / 10 ^ 6"
  using standard.ease_loop_finds [OF assms, of _ 31] by (auto simp del: ease_loop.simps simp: eval_nat_numeral(3) [of "num.Bit0 _"])

section \<open>Properties\<close>

lemma ease_range: "0 \<le> ease_standard x" "ease_standard x \<le> 1"
proof -
  have "0 \<le> bezier_axis 0 1 r \<and> bezier_axis 0 1 r \<le> 1" if "0 \<le> r" "r \<le> 1" for r
    using second_axis_mono [of 0 r] second_axis_mono [of r 1] that by (simp add: second_axis)
  then show "0 \<le> ease_standard x" "ease_standard x \<le> 1"
    using standard_loop [of x] by (auto simp: ease_standard_def bezier_ease_def simp del: ease_loop.simps)
qed

text \<open>
  C35: the easing is the standard curve. For every point of the curve with the control points (0.2, 0) and
  (0, 1) the value at its abscissa is its ordinate, up to 5 millionths: the 32 halvings suffice for
  the tolerance everywhere, so the loop always ends by its break. The value stays between 0 and 1.
\<close>

theorem ease_accurate:
  assumes "0 \<le> u" and "u \<le> 1"
  shows "\<bar>ease_standard (bezier_axis (2 / 10) 0 u) - bezier_axis 0 1 u\<bar> \<le> 5 / 10 ^ 6 \<and> 0 \<le> ease_standard x \<and> ease_standard x \<le> 1"
proof -
  let ?x = "bezier_axis (2 / 10) 0 u"
  have ends: "bezier_axis (2 / 10) 0 0 = 0" "bezier_axis (2 / 10) 0 1 = 1" by (simp_all add: bezier_axis_def)
  have lo: "3 / 10 * u \<le> ?x" using standard.slope [of 0 u] assms ends by simp
  have hi: "3 / 10 * (1 - u) \<le> 1 - ?x" using standard.slope [of u 1] assms ends by simp
  consider "?x \<le> 0" | "?x \<ge> 1" | "0 < ?x" "?x < 1" by linarith
  then have "\<bar>ease_standard ?x - bezier_axis 0 1 u\<bar> \<le> 5 / 10 ^ 6"
  proof cases
    case 1
    then have "u \<le> 0" using lo by simp
    then have "u = 0" using assms by simp
    then show ?thesis using 1 by (simp add: ease_standard_def bezier_ease_def second_axis)
  next
    case 2
    then have "u \<ge> 1" using hi by simp
    then have "u = 1" using assms by simp
    then show ?thesis using 2 by (simp add: ease_standard_def bezier_ease_def second_axis)
  next
    case 3
    let ?r = "ease_loop 32 (2 / 10) 0 ?x 0 1 ?x"
    note r = standard_loop [OF 3]
    have "3 / 10 * \<bar>?r - u\<bar> < 1 / 10 ^ 6" using standard_near [of u ?r] assms r by linarith
    moreover have "\<bar>bezier_axis 0 1 ?r - bezier_axis 0 1 u\<bar> \<le> 3 / 2 * \<bar>?r - u\<bar>" using second_axis_near [of u ?r] assms r by blast
    moreover have "ease_standard ?x = bezier_axis 0 1 ?r" using 3 by (simp only: ease_standard_def bezier_ease_def not_le [symmetric] if_False)
    ultimately show ?thesis by (simp del: ease_loop.simps)
  qed
  then show ?thesis using ease_range by blast
qed

theorem ease_accurate_witness: "\<bar>ease_standard (bezier_axis (2 / 10) 0 (1 / 2)) - 1 / 2\<bar> \<le> 5 / 10 ^ 6"
  using ease_accurate [of "1 / 2" 0] by (simp only: second_axis) simp

lemma phase_time_range:
  assumes "k_anim_start s \<le> now" and "k_anim_ms s \<ge> 0"
  shows "0 \<le> phase_time now s" and "phase_time now s \<le> 1"
  using assms by (auto simp: phase_time_def Let_def)

lemma omega_d: "sqrt 300 * sqrt (1 - 14 / (2 * sqrt 300) * (14 / (2 * sqrt 300))) = sqrt 251"
  by (simp add: real_sqrt_mult [symmetric])

lemma envelope_range:
  assumes "0 \<le> t"
  shows "0 \<le> shake_envelope t" and "shake_envelope t \<le> 520 / sqrt 251"
proof -
  have "- (14 / (2 * sqrt 300)) * sqrt 300 * t = - 7 * t" by simp
  then have e: "shake_envelope t = 520 / sqrt 251 * exp (- 7 * t)" unfolding shake_envelope_def Let_def omega_d by (simp only:)
  have "exp (- 7 * t) \<le> 1" using assms by simp
  from mult_left_mono [OF this, of "520 / sqrt 251"] show "shake_envelope t \<le> 520 / sqrt 251" by (simp add: e)
  show "0 \<le> shake_envelope t" by (simp add: e)
qed

lemma shake_small:
  assumes "k_shake s \<le> now" and "k_scale s > 0"
  shows "\<bar>shake_dx now s\<bar> \<le> 520 / sqrt 251"
proof -
  let ?t = "real_of_int (now - k_shake s) / 1000000 / k_scale s"
  have "0 \<le> ?t" using assms by simp
  note e = envelope_range [OF this]
  have "\<bar>shake_envelope ?t * sin y\<bar> \<le> 520 / sqrt 251" for y
    using e abs_sin_le_one [of y] by (simp add: abs_mult) (meson abs_sin_le_one mult_left_le order_trans)
  then show ?thesis by (simp add: shake_dx_def Let_def)
qed

text \<open>
  What is drawn stays in its range and ends where it should. While a phase runs, on a clock that does not go
  back, sharpness and fade are between 0 and 1, the clock is at most 8 pixels above its place, and the shake
  moves the card by at most 33 pixels. On the frame that ends the phase, the one for which \<open>advance_phase\<close> says
  that nothing moves any more, they are exactly 0 after entering and exactly 1 after leaving.
\<close>

theorem motion_in_range:
  assumes "k_phase s \<noteq> Phase_idle" and "k_anim_start s \<le> now" and "k_anim_ms s \<ge> 0" and "k_shake s \<le> now" and "k_scale s > 0"
    and "- 8 \<le> ui_clock_dy ui" and "ui_clock_dy ui \<le> 0" and "v = motion_values now s ui"
  shows "0 \<le> ui_sharpness v \<and> ui_sharpness v \<le> 1 \<and> 0 \<le> ui_content_fade v \<and> ui_content_fade v \<le> 1 \<and>
    - 8 \<le> ui_clock_dy v \<and> ui_clock_dy v \<le> 0 \<and> \<bar>ui_card_dx v\<bar> \<le> 33 \<and>
    (\<not> fst (advance_phase now s) \<longrightarrow>
      ui_sharpness v = (if k_phase s = Phase_enter then 0 else 1) \<and> ui_content_fade v = (if k_phase s = Phase_enter then 0 else 1))"
proof -
  let ?t = "phase_time now s"
  let ?p = "if k_reduced s then ?t else ease_standard ?t"
  note t = phase_time_range [OF assms(2,3)]
  have p: "0 \<le> ?p" "?p \<le> 1" using t ease_range by auto
  have "(33 * sqrt 251) ^ 2 \<ge> 520 ^ 2" by (simp add: power_mult_distrib)
  then have "520 \<le> 33 * sqrt 251" by (rule power2_le_imp_le) simp
  then have "520 / sqrt 251 \<le> 33" by (simp add: divide_le_eq)
  then have dx: "\<bar>ui_card_dx v\<bar> \<le> 33" using shake_small [OF assms(4,5)] by (simp add: assms(8) motion_values_def Let_def)
  have "ease_standard 1 = 1" by (simp add: ease_standard_def bezier_ease_def)
  then have one: "?t \<ge> 1 \<Longrightarrow> ?p = 1" using t by simp
  have still: "\<not> fst (advance_phase now s) \<Longrightarrow> ?t \<ge> 1" using assms(1) by (auto simp: advance_phase_def phase_time_def Let_def split: if_splits)
  have v: "ui_sharpness v = (if k_phase s = Phase_enter then 1 - ?p else ?p)"
    "ui_content_fade v = (if k_phase s = Phase_enter then 1 - ?p else if ?t \<ge> 1 then 1 else ?p)"
    "ui_clock_dy v = (if k_phase s = Phase_enter then if k_reduced s then 0 else - 8 * (1 - ?p) else ui_clock_dy ui)"
    using assms(1) by (simp_all add: assms(8) motion_values_def Let_def)
  show ?thesis using p dx one still assms(6,7) unfolding v by (auto split: if_splits)
qed

definition demo_motion :: lock_state where
  "demo_motion = (lock_boot ''ann'' False 1)\<lparr>k_anim_start := 0\<rparr>"

theorem motion_in_range_witness:
  "\<bar>ui_card_dx (motion_values 190000 demo_motion \<lparr>ui_sharpness = 0, ui_content_fade = 0, ui_clock_dy = 0, ui_card_dx = 0\<rparr>)\<bar> \<le> 33"
  using motion_in_range [of demo_motion 190000 "\<lparr>ui_sharpness = 0, ui_content_fade = 0, ui_clock_dy = 0, ui_card_dx = 0\<rparr>"]
  by (simp add: demo_motion_def lock_boot_def start_phase_def)

end
