(* ===== verification/Lock_Startup.thy ===== *)
theory Lock_Startup
  imports Lock_Motion "HOL-Library.Word"
begin

unbundle bit_operations_syntax

text \<open>
  The start and the main loop of the session lock, \<^verbatim>\<open>src/lockscreen/lock_main.c\<close>: the user's names, the
  globals it binds and the exit without them, the seat's keyboard and pointer, and the loop that waits for
  the compositor and for GLib at once. The environment's answers and the events that each wait delivers are
  inputs; the handlers are the steps of the theory Lock_Screen.
\<close>

section \<open>Names\<close>

text \<open>The entry of the password database: a name and a GECOS field, either of which may be missing.\<close>

type_synonym passwd = "(string option \<times> string option) option"

definition user_name :: "passwd \<Rightarrow> string option \<Rightarrow> string" where
  "user_name pw user_env =
     (case pw of
        Some (Some n, _) \<Rightarrow> snprintf_s 256 n
      | _ \<Rightarrow> (case user_env of Some u \<Rightarrow> snprintf_s 256 u | None \<Rightarrow> []))"

definition display_name :: "passwd \<Rightarrow> string" where
  "display_name pw =
     (case pw of
        Some (_, Some g) \<Rightarrow> if g \<noteq> [] \<and> hd g \<noteq> CHR '','' then snprintf_s 256 (takeWhile (\<lambda>c. c \<noteq> CHR '','') g) else []
      | _ \<Rightarrow> [])"

section \<open>Globals\<close>

record lock_global =
  kg_name :: nat
  kg_iface :: string
  kg_version :: nat

text \<open>The bound version of each global, and the versions of the outputs.\<close>

record lock_globals =
  lg_compositor :: "nat option"
  lg_shm :: "nat option"
  lg_manager :: "nat option"
  lg_seat :: "nat option"
  lg_outputs :: "(nat \<times> nat) list"

definition no_globals :: lock_globals where
  "no_globals = \<lparr>lg_compositor = None, lg_shm = None, lg_manager = None, lg_seat = None, lg_outputs = []\<rparr>"

definition lock_reg_global :: "lock_global \<Rightarrow> lock_globals \<times> lock_state \<Rightarrow> lock_globals \<times> lock_state" where
  "lock_reg_global x gs =
     (case gs of (g, s) \<Rightarrow>
        if kg_iface x = ''wl_compositor'' then (g\<lparr>lg_compositor := Some 4\<rparr>, s)
        else if kg_iface x = ''wl_shm'' then (g\<lparr>lg_shm := Some 1\<rparr>, s)
        else if kg_iface x = ''ext_session_lock_manager_v1'' then (g\<lparr>lg_manager := Some 1\<rparr>, s)
        else if kg_iface x = ''wl_seat'' then (g\<lparr>lg_seat := Some (if kg_version x < 5 then kg_version x else 5)\<rparr>, s)
        else if kg_iface x = ''wl_output'' then
          (g\<lparr>lg_outputs := (kg_name x, if kg_version x < 3 then kg_version x else 3) # lg_outputs g\<rparr>, reg_global_output (kg_name x) s)
        else (g, s))"

definition required :: "lock_globals \<Rightarrow> bool" where
  "required g \<longleftrightarrow> lg_compositor g \<noteq> None \<and> lg_shm g \<noteq> None \<and> lg_manager g \<noteq> None \<and> lg_seat g \<noteq> None"

section \<open>Seat\<close>

datatype seat_request = Get_keyboard | Release_keyboard | Get_pointer | Release_pointer

record seat_state =
  st_keyboard :: bool
  st_pointer :: bool
  st_requests :: "seat_request list"

definition seat_init :: seat_state where
  "seat_init = \<lparr>st_keyboard = False, st_pointer = False, st_requests = []\<rparr>"

text \<open>\<open>WL_SEAT_CAPABILITY_POINTER\<close> is 1 and \<open>WL_SEAT_CAPABILITY_KEYBOARD\<close> is 2.\<close>

definition lock_seat_capabilities :: "32 word \<Rightarrow> seat_state \<Rightarrow> seat_state" where
  "lock_seat_capabilities caps s =
     (let s1 = (if caps AND 2 \<noteq> 0 \<and> \<not> st_keyboard s then s\<lparr>st_keyboard := True, st_requests := st_requests s @ [Get_keyboard]\<rparr>
                else if caps AND 2 = 0 \<and> st_keyboard s then s\<lparr>st_keyboard := False, st_requests := st_requests s @ [Release_keyboard]\<rparr>
                else s)
      in if caps AND 1 \<noteq> 0 \<and> \<not> st_pointer s1 then s1\<lparr>st_pointer := True, st_requests := st_requests s1 @ [Get_pointer]\<rparr>
         else if caps AND 1 = 0 \<and> st_pointer s1 then s1\<lparr>st_pointer := False, st_requests := st_requests s1 @ [Release_pointer]\<rparr>
         else s1)"

section \<open>The main loop\<close>

text \<open>
  One round: the events that were queued before it, whether GLib's context was acquired, the number of
  descriptors GLib wants to watch, its timeout, whether the compositor's socket can be read, the events that
  reading it queued, those of GLib's sources, and the minute of the clock. A lost connection is a socket
  that delivers nothing: none of the return values of \<open>wl_display_dispatch_pending\<close>,
  \<open>wl_display_flush\<close> and \<open>wl_display_read_events\<close> is used.
\<close>

record round =
  rd_queued :: "lock_event list"
  rd_acquired :: bool
  rd_fds :: nat
  rd_timeout :: int
  rd_readable :: bool
  rd_read :: "lock_event list"
  rd_glib :: "lock_event list"
  rd_minute :: int
  rd_view :: view

record loop_state =
  lp_lock :: lock_state
  lp_last_min :: int
  lp_overflow :: bool

definition GFDS :: nat where "GFDS = 64"
definition PFDS :: nat where "PFDS = 65"

definition descriptors :: "round \<Rightarrow> nat" where
  "descriptors r = (if rd_acquired r then rd_fds r else 0)"

definition poll_timeout :: "round \<Rightarrow> int" where
  "poll_timeout r = (let gl = (if rd_acquired r then rd_timeout r else -1) in if gl \<ge> 0 \<and> gl < 1000 then gl else 1000)"

text \<open>
  The events a round handles, in order. \<open>on_media_change\<close> repaints like the clock, it is a \<open>L_repaint\<close> among
  GLib's events.
\<close>

definition round_events :: "round \<Rightarrow> int \<Rightarrow> lock_event list" where
  "round_events r last_min =
     rd_queued r @ (if rd_readable r then rd_read r else []) @ (if rd_acquired r then rd_glib r else []) @
     (if rd_minute r \<noteq> last_min then [L_repaint (rd_view r)] else [])"

text \<open>The copy loops write \<open>pfds[i + 1]\<close> and read \<open>gfds[i]\<close> for every descriptor GLib asks for.\<close>

definition main_round :: "round \<Rightarrow> loop_state \<Rightarrow> loop_state" where
  "main_round r s =
     \<lparr>lp_lock = fold lock_step (round_events r (lp_last_min s)) (lp_lock s),
      lp_last_min = rd_minute r,
      lp_overflow = (lp_overflow s \<or> descriptors r > GFDS \<or> descriptors r + 1 > PFDS)\<rparr>"

fun main_loop :: "round list \<Rightarrow> loop_state \<Rightarrow> loop_state" where
  "main_loop [] s = s"
| "main_loop (r # rs) s = (if k_running (lp_lock s) then main_loop rs (main_round r s) else s)"

section \<open>Main\<close>

record main_env =
  me_pw :: passwd
  me_user_env :: "string option"
  me_motion :: motion_env
  me_display :: bool
  me_globals :: "lock_global list"
  me_seat_events :: "lock_event list"
  me_lock_events :: "lock_event list"

datatype main_result = Main_exit nat string | Main_loop loop_state

definition main_boot :: "main_env \<Rightarrow> lock_state" where
  "main_boot env = (case load_motion (me_motion env) of (reduced, scale) \<Rightarrow> lock_boot (user_name (me_pw env) (me_user_env env)) reduced scale)"

definition main_locks :: "main_env \<Rightarrow> lock_state \<Rightarrow> lock_state" where
  "main_locks env s =
     (let s1 = fold lock_step (me_lock_events env) (request_lock (fold lock_step (me_seat_events env) s))
      in s1\<lparr>k_fp := lock_fprint_start (k_user s1) (k_fp s1)\<rparr>)"

definition locker_main :: "main_env \<Rightarrow> round list \<Rightarrow> main_result" where
  "locker_main env rs =
     (if \<not> me_display env then Main_exit 1 ''lock: cannot connect to Wayland display''
      else case fold lock_reg_global (me_globals env) (no_globals, main_boot env) of (g, s) \<Rightarrow>
        if \<not> required g then Main_exit 1 ''lock: compositor missing required globals (session-lock unsupported)''
        else Main_loop (main_loop rs \<lparr>lp_lock = main_locks env s, lp_last_min = -1, lp_overflow = False\<rparr>))"

section \<open>The loop is a run of the machine\<close>

fun loop_events :: "round list \<Rightarrow> loop_state \<Rightarrow> lock_event list" where
  "loop_events [] s = []"
| "loop_events (r # rs) s =
     (if k_running (lp_lock s) then round_events r (lp_last_min s) @ loop_events rs (main_round r s) else [])"

lemma main_loop_run: "lp_lock (main_loop rs s) = fold lock_step (loop_events rs s) (lp_lock s)"
  by (induction rs s rule: main_loop.induct) (simp_all add: main_round_def)

lemma main_loop_overflow: "lp_overflow (main_loop rs s) \<Longrightarrow> lp_overflow s \<or> list_ex (\<lambda>r. descriptors r > 64) rs"
  by (induction rs s rule: main_loop.induct) (auto simp: main_round_def GFDS_def PFDS_def split: if_splits)

definition output_events :: "lock_global list \<Rightarrow> lock_event list" where
  "output_events gs = map (\<lambda>x. L_output (kg_name x)) (filter (\<lambda>x. kg_iface x = ''wl_output'') gs)"

definition announces :: "string \<Rightarrow> lock_global list \<Rightarrow> bool" where
  "announces i gs = list_ex (\<lambda>x. kg_iface x = i) gs"

lemma reg_global_fields:
  "snd (lock_reg_global x gs) = (if kg_iface x = ''wl_output'' then lock_step (L_output (kg_name x)) (snd gs) else snd gs)"
  "lg_compositor (fst (lock_reg_global x gs)) \<noteq> None \<longleftrightarrow> lg_compositor (fst gs) \<noteq> None \<or> kg_iface x = ''wl_compositor''"
  "lg_shm (fst (lock_reg_global x gs)) \<noteq> None \<longleftrightarrow> lg_shm (fst gs) \<noteq> None \<or> kg_iface x = ''wl_shm''"
  "lg_manager (fst (lock_reg_global x gs)) \<noteq> None \<longleftrightarrow> lg_manager (fst gs) \<noteq> None \<or> kg_iface x = ''ext_session_lock_manager_v1''"
  "lg_seat (fst (lock_reg_global x gs)) \<noteq> None \<longleftrightarrow> lg_seat (fst gs) \<noteq> None \<or> kg_iface x = ''wl_seat''"
  by (cases gs; simp add: lock_reg_global_def)+

lemma registry_outputs: "snd (fold lock_reg_global gs x) = fold lock_step (output_events gs) (snd x)"
  by (induction gs arbitrary: x) (simp_all add: output_events_def reg_global_fields(1))

lemma registry_has:
  "lg_compositor (fst (fold lock_reg_global gs x)) \<noteq> None \<longleftrightarrow> lg_compositor (fst x) \<noteq> None \<or> announces ''wl_compositor'' gs"
  "lg_shm (fst (fold lock_reg_global gs x)) \<noteq> None \<longleftrightarrow> lg_shm (fst x) \<noteq> None \<or> announces ''wl_shm'' gs"
  "lg_manager (fst (fold lock_reg_global gs x)) \<noteq> None \<longleftrightarrow> lg_manager (fst x) \<noteq> None \<or> announces ''ext_session_lock_manager_v1'' gs"
  "lg_seat (fst (fold lock_reg_global gs x)) \<noteq> None \<longleftrightarrow> lg_seat (fst x) \<noteq> None \<or> announces ''wl_seat'' gs"
  by ((induction gs arbitrary: x; simp only: fold_simps reg_global_fields announces_def list_ex_iff list.set; blast)+)

definition supported :: "lock_global list \<Rightarrow> bool" where
  "supported gs \<longleftrightarrow> announces ''wl_compositor'' gs \<and> announces ''wl_shm'' gs \<and> announces ''ext_session_lock_manager_v1'' gs \<and> announces ''wl_seat'' gs"

lemma registry_required: "required (fst (fold lock_reg_global gs (no_globals, s))) = supported gs"
  by (simp only: required_def registry_has supported_def fst_conv) (simp add: no_globals_def)

text \<open>Requests for an object and its releases alternate; the result says whether the object exists.\<close>

fun alternate :: "'a \<Rightarrow> 'a \<Rightarrow> 'a list \<Rightarrow> bool \<Rightarrow> bool option" where
  "alternate g r [] b = Some b"
| "alternate g r (x # xs) b =
     (if x = g then if b then None else alternate g r xs True
      else if x = r then if b then alternate g r xs False else None
      else alternate g r xs b)"

lemma alternate_append:
  "alternate g r (xs @ ys) b = (case alternate g r xs b of None \<Rightarrow> None | Some b' \<Rightarrow> alternate g r ys b')"
  by (induction xs arbitrary: b) auto

definition balanced :: "'a \<Rightarrow> 'a \<Rightarrow> 'a list \<Rightarrow> bool" where
  "balanced g r xs \<longleftrightarrow> alternate g r xs False \<noteq> None"

definition seat_inv :: "seat_state \<Rightarrow> bool" where
  "seat_inv s \<longleftrightarrow> alternate Get_keyboard Release_keyboard (st_requests s) False = Some (st_keyboard s) \<and>
     alternate Get_pointer Release_pointer (st_requests s) False = Some (st_pointer s)"

interpretation seat: event_machine lock_seat_capabilities seat_inv
  by unfold_locales (auto simp: seat_inv_def lock_seat_capabilities_def Let_def alternate_append)

section \<open>Properties\<close>


text \<open>A lost connection is not noticed: with nothing to handle the loop goes on for ever, whatever it was told to wait for.\<close>

theorem dead_connection_loops:
  assumes "k_running (lp_lock s)" and "\<And>r. r \<in> set rs \<Longrightarrow> rd_queued r = [] \<and> rd_read r = [] \<and> rd_glib r = [] \<and> rd_minute r = lp_last_min s"
  shows "lp_lock (main_loop rs s) = lp_lock s"
  using assms by (induction rs arbitrary: s) (simp_all add: main_round_def round_events_def)

text \<open>
  The wait is bounded and the descriptor arrays are not. A round waits at most a second, so the minute is
  looked at every second; the arrays on the stack are overrun exactly when GLib asks for more than 64 descriptors
  while the loop still runs.
\<close>

theorem descriptors_overrun:
  "0 \<le> poll_timeout r \<and> poll_timeout r \<le> 1000 \<and>
   (lp_overflow (main_round r s) \<longleftrightarrow> lp_overflow s \<or> (rd_acquired r \<and> rd_fds r > 64))"
  by (auto simp: poll_timeout_def Let_def main_round_def descriptors_def GFDS_def PFDS_def)

text \<open>
  The seat. After any sequence of capabilities the locker has a keyboard and a pointer exactly when the last
  ones name them, and every object was released before the next one was asked for.
\<close>

theorem seat_follows_capabilities:
  "st_keyboard (fold lock_seat_capabilities (cs @ [caps]) seat_init) = (caps AND 2 \<noteq> 0) \<and>
   st_pointer (fold lock_seat_capabilities (cs @ [caps]) seat_init) = (caps AND 1 \<noteq> 0) \<and>
   balanced Get_keyboard Release_keyboard (st_requests (fold lock_seat_capabilities cs seat_init)) \<and>
   balanced Get_pointer Release_pointer (st_requests (fold lock_seat_capabilities cs seat_init))"
  using seat.run_inv [of seat_init cs] by (simp add: lock_seat_capabilities_def Let_def seat_inv_def balanced_def seat_init_def)

end
