(* ===== verification/Lock_Layout.thy ===== *)
theory Lock_Layout
  imports Lock_Screen "HOL-Library.Word"
begin

text \<open>
  Where the session lock puts its media buttons and notification cards, and which button a click hits,
  \<^verbatim>\<open>src/lockscreen/lock_main.c\<close>. The strokes and texts themselves are Cairo's and Pango's. C's \<open>double\<close>
  is read as \<open>real\<close>; the card of the login form, at \<open>x\<close>, \<open>y\<close> with width \<open>w\<close> and height \<open>h\<close>, is an input.
\<close>

section \<open>Media buttons\<close>

record media_buttons =
  mb_cx :: "real list"
  mb_r :: "real list"
  mb_cy :: real
  mb_valid :: bool

definition no_buttons :: media_buttons where
  "no_buttons = \<lparr>mb_cx = [0, 0, 0], mb_r = [0, 0, 0], mb_cy = 0, mb_valid = False\<rparr>"

definition render_media :: "bool \<Rightarrow> real \<Rightarrow> real \<Rightarrow> real \<Rightarrow> real \<Rightarrow> media_buttons \<Rightarrow> media_buttons" where
  "render_media has_player x y w h b =
     (if \<not> has_player then b\<lparr>mb_valid := False\<rparr>
      else
        let pad = 12; cover = 64; ph = pad * 2 + cover; py = y + h + 14; big = 17; small = 15;
            cx2 = x + w - pad - small; cx1 = cx2 - small - 6 - big; cx0 = cx1 - big - 6 - small
        in \<lparr>mb_cx = [cx0, cx1, cx2], mb_r = [small, big, small], mb_cy = py + ph / 2, mb_valid = True\<rparr>)"

definition hits :: "media_buttons \<Rightarrow> real \<Rightarrow> real \<Rightarrow> nat \<Rightarrow> bool" where
  "hits b px py i =
     (let r = mb_r b ! i + 6; dx = px - mb_cx b ! i; dy = py - mb_cy b in dx * dx + dy * dy \<le> r * r)"

text \<open>The button of a click at \<open>px\<close>, \<open>py\<close>: the input of \<open>pt_button\<close>.\<close>

definition media_hit :: "nat \<Rightarrow> bool \<Rightarrow> media_buttons \<Rightarrow> real \<Rightarrow> real \<Rightarrow> media_call option" where
  "media_hit button pressed b px py =
     (if button \<noteq> 0x110 \<or> \<not> pressed \<or> \<not> mb_valid b then None
      else if hits b px py 0 then Some Media_prev
      else if hits b px py 1 then Some Media_play_pause
      else if hits b px py 2 then Some Media_next
      else None)"

definition click :: "nat \<Rightarrow> bool \<Rightarrow> media_buttons \<Rightarrow> real \<Rightarrow> real \<Rightarrow> lock_state \<Rightarrow> lock_state" where
  "click button pressed b px py s = pt_button (media_hit button pressed b px py) s"

text \<open>The circle that is drawn.\<close>

definition on_button :: "media_buttons \<Rightarrow> real \<Rightarrow> real \<Rightarrow> nat \<Rightarrow> bool" where
  "on_button b px py i \<longleftrightarrow> (px - mb_cx b ! i) ^ 2 + (py - mb_cy b) ^ 2 < (mb_r b ! i) ^ 2"

section \<open>Notification cards\<close>

text \<open>
  The loop of \<open>render_notifs\<close>: the tops of the cards that are drawn. The height is unsigned, so is
  \<open>height - 16\<close>.
\<close>

fun render_notifs :: "nat \<Rightarrow> 32 word \<Rightarrow> real \<Rightarrow> real list" where
  "render_notifs 0 height y = []"
| "render_notifs (Suc n) height y =
     (let row_h = 58; gap = 8
      in if y + row_h > real (unat (height - 16)) then [] else y # render_notifs n height (y + (row_h + gap)))"

definition notifs_top :: "media_buttons \<Rightarrow> real \<Rightarrow> real \<Rightarrow> real" where
  "notifs_top b y h = y + h + 14 + (if mb_valid b then 102 else 0)"

section \<open>Pictures and names\<close>

definition avatar_path :: "(path \<Rightarrow> bool) \<Rightarrow> string \<Rightarrow> path option" where
  "avatar_path readable user =
     (let icon = snprintf_s 512 (''/var/lib/AccountsService/icons/'' @ user);
          face = snprintf_s 512 (''/home/'' @ user @ ''/.face'')
      in if readable icon then Some icon else if readable face then Some face else None)"

definition sharp_wallpaper :: "string option \<Rightarrow> path option" where
  "sharp_wallpaper uri =
     (case uri of
        None \<Rightarrow> None
      | Some u \<Rightarrow> if u = [] then None else Some (if has_prefix ''file://'' u then drop 7 u else u))"

definition shown_name :: "string \<Rightarrow> string \<Rightarrow> string option" where
  "shown_name display user = (if display \<noteq> [] then Some display else if user \<noteq> [] then Some user else None)"

section \<open>Properties\<close>

lemma apart:
  fixes d dy D r R :: real
  assumes "d ^ 2 + dy ^ 2 < r ^ 2" and "0 \<le> r" and "0 \<le> R" and "r + R \<le> D"
  shows "R * R < (d + D) * (d + D) + dy * dy" and "R * R < (d - D) * (d - D) + dy * dy"
proof -
  have "sqrt (d ^ 2 + dy ^ 2) < r" "\<bar>d\<bar> \<le> sqrt (d ^ 2 + dy ^ 2)" "d ^ 2 + dy ^ 2 = sqrt (d ^ 2 + dy ^ 2) * sqrt (d ^ 2 + dy ^ 2)"
    using real_sqrt_less_mono [OF assms(1)] real_sqrt_le_mono [of "d ^ 2" "d ^ 2 + dy ^ 2"] assms(2) by simp_all
  then obtain n where n: "n < r" "\<bar>d\<bar> \<le> n" and nn: "d ^ 2 + dy ^ 2 = n * n" by blast
  have *: "R * R < (e + D) * (e + D) + dy * dy" if "\<bar>e\<bar> = \<bar>d\<bar>" for e
  proof -
    have e2: "e ^ 2 = d ^ 2" using that power2_abs [of e] power2_abs [of d] by simp
    have "R < D - n" using n(1) assms(4) by linarith
    then have "R * R < (D - n) * (D - n)" using assms(3) mult_strict_mono [of R "D - n" R "D - n"] by linarith
    also have "\<dots> = D * D + 2 * (D * (- n)) + n * n" by (simp add: algebra_simps)
    also have "\<dots> \<le> D * D + 2 * (D * e) + n * n"
    proof -
      have "- n \<le> e" using n(2) that by linarith
      then have "D * (- n) \<le> D * e" using assms(2-4) by (intro mult_left_mono) auto
      then show ?thesis by linarith
    qed
    also have "\<dots> = (e + D) * (e + D) + dy * dy" unfolding nn [symmetric] e2 [symmetric] by (simp add: power2_eq_square algebra_simps)
    finally show ?thesis .
  qed
  show "R * R < (d + D) * (d + D) + dy * dy" using * [of d] by simp
  have "R * R < (- d + D) * (- d + D) + dy * dy" using * [of "- d"] by simp
  moreover have "(- d + D) * (- d + D) = (d - D) * (d - D)" by (simp add: algebra_simps)
  ultimately show "R * R < (d - D) * (d - D) + dy * dy" by simp
qed

lemma on_hits: "on_button b px py i \<Longrightarrow> 0 \<le> mb_r b ! i \<Longrightarrow> hits b px py i"
proof -
  assume a: "on_button b px py i" "0 \<le> mb_r b ! i"
  have "(mb_r b ! i) ^ 2 \<le> (mb_r b ! i + 6) ^ 2" using a(2) by (intro power_mono) auto
  then show ?thesis using a(1) by (simp add: hits_def on_button_def Let_def power2_eq_square)
qed

text \<open>
  A click does what it is on. Although the areas that react are wider than the drawn circles and overlap,
  a press of the left button inside the drawn circle of a media button calls exactly that button's
  function, wherever the card is.
\<close>

theorem click_hits_drawn:
  assumes "b = render_media True x y w h b0" and "i < 3" and "on_button b px py i"
  shows "media_hit 0x110 True b px py = Some ([Media_prev, Media_play_pause, Media_next] ! i)"
proof -
  let ?c = "x + w - 27"
  have b: "mb_cx b = [?c - 76, ?c - 38, ?c]" "mb_r b = [15, 17, 15]" "mb_valid b"
    by (simp_all add: assms(1) render_media_def Let_def)
  have self: "hits b px py i" using on_hits [OF assms(3)] assms(2) by (auto simp: b less_Suc_eq numeral_3_eq_3)
  let ?dy = "py - mb_cy b"
  consider "i = 0" | "i = 1" | "i = 2" using assms(2) by linarith
  then show ?thesis
  proof cases
    case 1
    then show ?thesis using self b(3) by (simp add: media_hit_def)
  next
    case 2
    then have "(px - (?c - 38)) ^ 2 + ?dy ^ 2 < 17 ^ 2" using assms(3) by (simp add: on_button_def b)
    from apart(1) [OF this, of 21 38] have "\<not> hits b px py 0" by (simp add: hits_def b Let_def algebra_simps)
    then show ?thesis using self 2 b(3) by (simp add: media_hit_def)
  next
    case 3
    then have d: "(px - ?c) ^ 2 + ?dy ^ 2 < 15 ^ 2" using assms(3) by (simp add: on_button_def b)
    from apart(1) [OF d, of 21 76] have "\<not> hits b px py 0" by (simp add: hits_def b Let_def algebra_simps)
    moreover from apart(1) [OF d, of 23 38] have "\<not> hits b px py 1" by (simp add: hits_def b Let_def algebra_simps)
    ultimately show ?thesis using self 3 b(3) by (simp add: media_hit_def numeral_2_eq_2)
  qed
qed


theorem click_hits_drawn_witness:
  "media_hit 0x110 True (render_media True 0 0 400 200 no_buttons) 335 260 = Some Media_play_pause"
  using click_hits_drawn [of "render_media True 0 0 400 200 no_buttons" 0 0 400 200 no_buttons 1 335 260]
  by (simp add: render_media_def on_button_def Let_def)

lemma card_rows:
  assumes "real (unat (height - 16)) = L"
  shows "length (render_notifs n height y) \<le> n \<and>
    (\<forall>i < length (render_notifs n height y). render_notifs n height y ! i = y + 66 * real i \<and> render_notifs n height y ! i + 58 \<le> L) \<and>
    (length (render_notifs n height y) < n \<longrightarrow> y + 66 * real (length (render_notifs n height y)) + 58 > L)"
proof (induction n arbitrary: y)
  case (Suc n)
  have r: "render_notifs (Suc n) height y = (if y + 58 > L then [] else y # render_notifs n height (y + 66))"
    by (simp only: render_notifs.simps Let_def assms) simp
  show ?case using Suc.IH [of "y + 66"] unfolding r by (auto simp: nth_Cons algebra_simps split: nat.splits)
qed simp

text \<open>
  The cards lie one below the other with a gap of 8, end at least 16 pixels above the lower edge of the
  output, and as many are drawn as fit; the first one begins 14 pixels below the media card.
\<close>

theorem cards_fit:
  assumes "ys = render_notifs n height y" and "unat height \<ge> 16"
  shows "length ys \<le> n \<and> (\<forall>i < length ys. ys ! i = y + 66 * real i \<and> ys ! i + 58 \<le> real (unat height) - 16) \<and>
    (length ys < n \<longrightarrow> y + 66 * real (length ys) + 58 > real (unat height) - 16)"
proof -
  have "unat (height - 16) = unat height - 16" using assms(2) by (simp add: unat_sub word_le_nat_alt)
  then have h: "real (unat (height - 16)) = real (unat height) - 16" using assms(2) by (simp add: of_nat_diff)
  from card_rows [OF h, of n y] show ?thesis unfolding assms(1) .
qed

theorem cards_fit_witness: "render_notifs 4 600 400 = [400, 466] \<and> (466::real) + 58 \<le> 600 - 16"
proof -
  have r: "render_notifs 4 600 400 = [400, 466]"
    by (simp only: render_notifs.simps Let_def eval_nat_numeral(2,3) BitM.simps) simp
  show ?thesis using cards_fit [OF r [symmetric]] by (auto simp: r less_Suc_eq)
qed

theorem cards_below_media:
  "mb_valid b \<Longrightarrow> b = render_media p x y w h b0 \<Longrightarrow> notifs_top b y h - (mb_cy b + 44) = 14"
  by (auto simp: notifs_top_def render_media_def Let_def split: if_splits)

text \<open>An output of less than 16 pixels: the subtraction wraps and the card is drawn below the edge.\<close>

theorem tiny_output_overdrawn: "render_notifs 1 8 200 = [200]"
  by (simp add: Let_def)

text \<open>A name that fits its buffer gives paths that fit theirs.\<close>

theorem avatar_path_whole:
  "length user \<le> 255 \<Longrightarrow> avatar_path readable user = Some p \<Longrightarrow>
    p = ''/var/lib/AccountsService/icons/'' @ user \<or> p = ''/home/'' @ user @ ''/.face''"
  by (auto simp: avatar_path_def snprintf_s_def Let_def split: if_splits)

end
