(* ===== verification/Shm_File.thy ===== *)
theory Shm_File
  imports Main
begin

text \<open>
  Files in shared memory for the previews and the gamma ramps, \<open>src/wayland/wayland_integration.c\<close>: names from
  the clock, at most a hundred attempts, and the size. What the system calls answer is an input.
\<close>

section \<open>Names\<close>

text \<open>\<open>r\<close> are the nanoseconds of the clock; every turn takes five bits.\<close>

definition shm_char :: "nat \<Rightarrow> char" where
  "shm_char r = char_of (65 + r mod 16 + (r div 16 mod 2) * 16 * 2)"

fun randname :: "nat \<Rightarrow> nat \<Rightarrow> string" where
  "randname 0 r = []"
| "randname (Suc n) r = shm_char r # randname n (r div 32)"

definition shm_name :: "nat \<Rightarrow> string" where
  "shm_name r = ''/wl_shm-'' @ randname 6 r"

section \<open>Files\<close>

datatype attempt = Opened nat | Exists | Refused

text \<open>The loop with its counter of attempts; \<open>ftruncate\<close> in it is repeated by the caller.\<close>

fun create_shm_file :: "nat \<Rightarrow> (nat \<Rightarrow> attempt) \<Rightarrow> nat \<Rightarrow> nat option" where
  "create_shm_file 0 answer i = None"
| "create_shm_file (Suc retries) answer i =
     (case answer i of
        Opened fd \<Rightarrow> Some fd
      | Exists \<Rightarrow> if retries > 0 then create_shm_file retries answer (Suc i) else None
      | Refused \<Rightarrow> None)"

datatype truncated = Sized | Interrupted | Failed_size

text \<open>\<open>None\<close>: every call was interrupted so far.\<close>

fun set_size :: "truncated list \<Rightarrow> bool option" where
  "set_size [] = None"
| "set_size (Sized # ts) = Some True"
| "set_size (Failed_size # ts) = Some False"
| "set_size (Interrupted # ts) = set_size ts"

record files =
  f_open :: "nat list"
  f_sized :: "nat list"

definition allocate_shm_file :: "(nat \<Rightarrow> attempt) \<Rightarrow> truncated list \<Rightarrow> files \<Rightarrow> (nat option \<times> files) option" where
  "allocate_shm_file answer ts s =
     (case create_shm_file 100 answer 0 of
        None \<Rightarrow> Some (None, s)
      | Some fd \<Rightarrow>
          let s1 = s\<lparr>f_open := fd # f_open s\<rparr>
          in case set_size ts of
               None \<Rightarrow> None
             | Some True \<Rightarrow> Some (Some fd, s1\<lparr>f_sized := fd # f_sized s1\<rparr>)
             | Some False \<Rightarrow> Some (None, s1\<lparr>f_open := remove1 fd (f_open s1)\<rparr>))"

section \<open>Properties\<close>

lemma name_code: "of_char (shm_char r) = 65 + r mod 16 + r div 16 mod 2 * 16 * 2"
proof -
  have "65 + r mod 16 + r div 16 mod 2 * 16 * 2 < 256"
    using mod_less_divisor [of 16 r] mod_less_divisor [of 2 "r div 16"] by linarith
  then show ?thesis by (simp only: shm_char_def of_char_of mod_less)
qed

lemma code_parts: "a < 16 \<Longrightarrow> a' < 16 \<Longrightarrow> 65 + a + b * 16 * 2 = 65 + a' + b' * 16 * 2 \<Longrightarrow> a + 16 * b = a' + 16 * b'" for a b :: nat
proof -
  assume a: "a < 16" "a' < 16" and "65 + a + b * 16 * 2 = 65 + a' + b' * 16 * 2"
  then have e: "a + 32 * b = a' + 32 * b'" by simp
  have "a = a'" using arg_cong [OF e, of "\<lambda>k. k mod 32"] a by simp
  then show ?thesis using e by simp
qed

lemma shm_char_inj: "shm_char r = shm_char r' \<Longrightarrow> r mod 32 = r' mod 32"
proof -
  assume a: "shm_char r = shm_char r'"
  have s: "k mod 32 = k mod 16 + 16 * (k div 16 mod 2)" for k :: nat using mod_mult2_eq [of k 16 2] by simp
  have "65 + r mod 16 + r div 16 mod 2 * 16 * 2 = 65 + r' mod 16 + r' div 16 mod 2 * 16 * 2"
    using name_code [of r] name_code [of r'] by (simp only: a)
  then show ?thesis unfolding s by (rule code_parts [rotated 2]) simp_all
qed

text \<open>Different nanoseconds give different names: the six letters hold all the bits of a second's clock.\<close>

theorem names_differ:
  assumes "r < 10 ^ 9" and "r' < 10 ^ 9" and "shm_name r = shm_name r'"
  shows "r = r'"
proof -
  have "k = k'" if "randname n k = randname n k'" "k < 32 ^ n" "k' < 32 ^ n" for n k k'
    using that
  proof (induction n arbitrary: k k')
    case (Suc n)
    then have "k div 32 = k' div 32" by (intro Suc.IH) (auto simp: less_mult_imp_div_less mult.commute)
    then show ?case using Suc.prems(1) shm_char_inj [of k k'] by (metis list.inject mult_div_mod_eq randname.simps(2))
  qed simp
  from this [of 6 r r'] show ?thesis using assms by (simp add: shm_name_def)
qed

lemma create_attempts: "create_shm_file n answer i = Some fd \<Longrightarrow> \<exists>k < n. answer (i + k) = Opened fd \<and> (\<forall>j < k. answer (i + j) = Exists)"
proof (induction n arbitrary: i)
  case (Suc n)
  show ?case
  proof (cases "answer i")
    case Exists
    then have "create_shm_file n answer (Suc i) = Some fd" using Suc.prems by (auto split: if_splits)
    then obtain k where k: "k < n" "answer (Suc i + k) = Opened fd" "\<forall>j < k. answer (Suc i + j) = Exists" using Suc.IH by blast
    then show ?thesis using Exists by (intro exI [of _ "Suc k"]) (auto simp: less_Suc_eq_0_disj)
  qed (use Suc.prems in auto)
qed simp

text \<open>
  A file is returned only with its size set; on failure no descriptor stays open. Only collisions are tried
  again, at most a hundred times, and the call ends unless signals interrupt it for ever.
\<close>

theorem shm_file_or_nothing:
  assumes "allocate_shm_file answer ts s = Some (r, s')"
  shows "case r of
      Some fd \<Rightarrow> f_open s' = fd # f_open s \<and> fd \<in> set (f_sized s') \<and> (\<exists>k < 100. answer k = Opened fd \<and> (\<forall>j < k. answer j = Exists))
    | None \<Rightarrow> s' = s"
  using assms create_attempts [of 100 answer 0]
  by (auto simp: allocate_shm_file_def Let_def simp del: create_shm_file.simps split: option.splits bool.splits)

theorem shm_file_or_nothing_witness:
  "\<exists>s'. allocate_shm_file (\<lambda>i. if i < 2 then Exists else Opened 9) [Interrupted, Sized] \<lparr>f_open = [], f_sized = []\<rparr> = Some (Some 9, s') \<and>
    f_open s' = [9]"
proof -
  have "create_shm_file 100 (\<lambda>i. if i < 2 then Exists else Opened 9) 0 = Some 9" by (simp add: eval_nat_numeral)
  then obtain s' where s': "allocate_shm_file (\<lambda>i. if i < 2 then Exists else Opened 9) [Interrupted, Sized] \<lparr>f_open = [], f_sized = []\<rparr> = Some (Some 9, s')"
    by (simp add: allocate_shm_file_def Let_def)
  then show ?thesis using shm_file_or_nothing [OF s'] by simp
qed

end
