(* ===== verification/Shell_Loop.thy ===== *)
theory Shell_Loop
  imports Shell_Connection Preview_Pool Outputs
begin

text \<open>
  The shell's main loop over the parts of \<open>src/wayland/wayland_integration.c\<close>. The theories of windows, workspaces,
  outputs, night light and previews each model some of its static variables; here they stand side by side over the one
  \<open>ctx\<close>, as in the file, and every event, call or late global may come at any time. What connects the parts is
  \<open>ctx\<close>: the managers that a global sets, the table of valid handles that captures look into, and the tables of outputs
  and connectors that \<open>get_window_monitor\<close> joins.
\<close>

section \<open>State and events\<close>

record shell =
  sh_ctx :: shell_ctx
  sh_win :: win_state
  sh_spaces :: "ws_state \<times> compositor"
  sh_out :: out_state
  sh_preview :: preview_state
  sh_feed :: feed_state
  sh_captured :: "nat list"
  sh_fault :: bool

definition sync_windows :: "shell_ctx \<Rightarrow> win_state \<Rightarrow> win_state" where
  "sync_windows c w =
     w\<lparr>w_seat := sc_seat c \<noteq> None, w_pip := sc_pip_manager c \<noteq> None, w_tiling := map_option bd_version (sc_tiling_manager c)\<rparr>"

definition shell_start :: "shell_ctx \<Rightarrow> shell" where
  "shell_start c =
     \<lparr>sh_ctx = c, sh_win = start_windows c,
      sh_spaces = (if sc_workspace_manager c \<noteq> None then ws_step W_manager (ws_init True True True, comp_init)
                   else (ws_init True True True, comp_init)),
      sh_out = out_init (sc_output_manager c \<noteq> None), sh_preview = preview_init, sh_feed = feed_init, sh_captured = [], sh_fault = False\<rparr>"

text \<open>
  After start-up the managers of workspaces and outputs are those of \<open>sh_spaces\<close> and \<open>sh_out\<close>, which their
  \<open>finished\<close> events reset. \<open>Sh_capture\<close> is a call of one of the two capture functions with a handle; the last argument says whether the frame
  object could be made. A global announced later goes through the same registry handler.
\<close>

datatype shell_event =
    Sh_global global
  | Sh_windows win_step
  | Sh_spaces ws_event
  | Sh_outputs out_event
  | Sh_gamma gamma_event
  | Sh_preview preview_event
  | Sh_capture bool nat bool
  | Sh_feed feed_event

definition late_global :: "global \<Rightarrow> shell \<Rightarrow> shell" where
  "late_global g s =
     (let c = registry_handle_global g (sh_ctx s)
      in s\<lparr>sh_ctx := c, sh_win := sync_windows c (sh_win s),
           sh_spaces := (if gl_iface g = WORKSPACE_MANAGER then ws_step W_manager (sh_spaces s) else sh_spaces s),
           sh_out := (if gl_iface g = OUTPUT_MANAGER then (sh_out s)\<lparr>o_manager := True\<rparr> else sh_out s)\<rparr>)"

text \<open>The three checks, the request that names the window, and the rest of the call.\<close>

definition capture_window :: "bool \<Rightarrow> nat \<Rightarrow> bool \<Rightarrow> shell \<Rightarrow> shell" where
  "capture_window external h made s =
     (let checked = (sc_preview_manager (sh_ctx s) \<noteq> None \<and> sc_shm (sh_ctx s) \<noteq> None \<and> h \<in> w_valid (sh_win s));
          s1 = (if checked then s\<lparr>sh_captured := sh_captured s @ [h], sh_fault := sh_fault s \<or> h \<notin> w_live (sh_win s)\<rparr> else s)
      in s1\<lparr>sh_preview := capture_preview external (checked \<and> made) (sh_preview s1)\<rparr>)"

text \<open>
  Versions start at 1. The registry's branches of the gamma machine and the capture of the preview machine are reached
  through \<open>late_global\<close> and \<open>capture_window\<close> only.
\<close>

fun shell_step :: "shell_event \<Rightarrow> shell \<Rightarrow> shell" where
  "shell_step (Sh_global g) s = (if gl_version g = 0 then s else late_global g s)"
| "shell_step (Sh_windows e) s = s\<lparr>sh_win := on_step e (sh_win s)\<rparr>"
| "shell_step (Sh_spaces e) s = (if e = W_manager then s else s\<lparr>sh_spaces := ws_step e (sh_spaces s)\<rparr>)"
| "shell_step (Sh_outputs e) s = s\<lparr>sh_out := out_step e (sh_out s)\<rparr>"
| "shell_step (Sh_gamma e) s =
     (case e of
        G_manager \<Rightarrow> s
      | G_output \<Rightarrow> s
      | _ \<Rightarrow> s\<lparr>sh_ctx := (sh_ctx s)\<lparr>sc_gamma := gamma_step e (sc_gamma (sh_ctx s))\<rparr>\<rparr>)"
| "shell_step (Sh_preview e) s =
     (case e of Pv_capture a b \<Rightarrow> s | _ \<Rightarrow> s\<lparr>sh_preview := preview_step e (sh_preview s)\<rparr>)"
| "shell_step (Sh_capture external h made) s = capture_window external h made s"
| "shell_step (Sh_feed e) s = s\<lparr>sh_feed := feed_step e (sh_feed s)\<rparr>"

section \<open>The invariant\<close>

definition ctx_ok :: "shell_ctx \<Rightarrow> bool" where
  "ctx_ok c \<longleftrightarrow> gamma_inv (sc_gamma c) \<and> (\<forall>b. sc_tiling_manager c = Some b \<longrightarrow> 0 < bd_version b \<and> bd_version b \<le> 11)"

definition shell_inv :: "shell \<Rightarrow> bool" where
  "shell_inv s \<longleftrightarrow> ctx_ok (sh_ctx s) \<and> win_inv (sh_win s) \<and> ws_inv (sh_spaces s) \<and> out_inv (sh_out s) \<and> preview_inv (sh_preview s) \<and>
     w_tiling (sh_win s) = map_option bd_version (sc_tiling_manager (sh_ctx s)) \<and> \<not> sh_fault s"

lemma shell_inv_parts:
  assumes "shell_inv s"
  shows "ctx_ok (sh_ctx s)" "win_inv (sh_win s)" "ws_inv (sh_spaces s)" "out_inv (sh_out s)" "preview_inv (sh_preview s)"
    "w_tiling (sh_win s) = map_option bd_version (sc_tiling_manager (sh_ctx s))" "\<not> sh_fault s"
  using assms unfolding shell_inv_def by blast+

lemma registry_ctx_ok:
  assumes "ctx_ok c" and "gl_version g > 0"
  shows "ctx_ok (registry_handle_global g c)"
proof -
  have "gamma_inv (registry_gamma_manager (sc_gamma c))" "gamma_inv (registry_output (sc_gamma c))"
    using assms(1) gamma_step_inv [of "sc_gamma c" G_manager] gamma_step_inv [of "sc_gamma c" G_output] by (simp_all add: ctx_ok_def)
  then show ?thesis using assms by (simp add: ctx_ok_def registry_handle_global_def registry_bind_def add_listener_def Let_def)
qed

lemma start_ctx_ok: "list_all (\<lambda>g. gl_version g > 0) gs \<Longrightarrow> ctx_ok (fold registry_handle_global gs ctx_init)"
proof (induction gs rule: rev_induct)
  case Nil
  show ?case using gamma_init_inv by (simp add: ctx_ok_def ctx_init_def)
next
  case (snoc g gs)
  then show ?case using registry_ctx_ok by simp
qed

text \<open>The windows keep their invariant when the managers change; their requests do not touch the tiling version.\<close>

lemma sync_inv: "win_inv w \<Longrightarrow> ctx_ok c \<Longrightarrow> win_inv (sync_windows c w)"
  by (auto simp: win_inv_def sync_windows_def ctx_ok_def)

lemma out_manager_inv: "out_inv s \<Longrightarrow> out_inv (s\<lparr>o_manager := m\<rparr>)"
  by (simp add: out_inv_parts)


lemma send_tiling [simp]: "w_tiling (send r s) = w_tiling s" "w_tiling (notify n s) = w_tiling s"
  by (simp_all add: send_def notify_def)

lemma do_call_tiling [simp]: "w_tiling (do_call c s) = w_tiling s"
  by (cases c) (simp_all add: call_defs)

lemma do_calls_tiling [simp]: "w_tiling (fold do_call cs s) = w_tiling s"
  by (induction cs arbitrary: s) simp_all

lemma focus_tiling [simp]: "w_tiling (fold (\<lambda>_. notify n) es s) = w_tiling s"
  by (induction es arbitrary: s) simp_all

lemma on_event_tiling [simp]: "w_tiling (on_event e s) = w_tiling s"
  by (cases e) (simp_all add: to_window_def toplevel_handle_title_def toplevel_handle_app_id_def toplevel_handle_output_enter_def
    toplevel_handle_output_leave_def invalidate_toplevel_tileable_def toplevel_manager_toplevel_def toplevel_handle_state_def
    toplevel_handle_closed_def tiling_handle_geometry_def tiling_handle_workarea_def tiling_handle_tileable_def
    tiling_handle_layout_workarea_def tiling_handle_layout_output_workarea_def tiling_handle_layout_workarea_done_def geom_update_def
    Let_def split: option.split)

lemma on_events_tiling [simp]: "w_tiling (fold on_event es s) = w_tiling s"
  by (induction es arbitrary: s) simp_all

lemma on_step_tiling [simp]: "w_tiling (on_step e s) = w_tiling s"
  by (cases e) (simp_all add: get_window_geometry_def get_window_workarea_def get_layout_workarea_def window_is_tileable_def
    Let_def case_prod_beta split: option.split)

lemma late_global_inv:
  assumes "shell_inv s" and "gl_version g > 0"
  shows "shell_inv (late_global g s)"
proof -
  note i = shell_inv_parts [OF assms(1)]
  have c: "ctx_ok (registry_handle_global g (sh_ctx s))" by (rule registry_ctx_ok [OF i(1) assms(2)])
  show ?thesis using i c sync_inv [OF i(2) c] out_manager_inv [OF i(4)] ws_step_inv [OF i(3)]
    by (simp add: shell_inv_def late_global_def Let_def sync_windows_def)
qed

lemma capture_window_inv: "shell_inv s \<Longrightarrow> shell_inv (capture_window external h made s)"
  using capture_inv by (auto simp: shell_inv_def capture_window_def Let_def win_inv_def)

lemma gamma_part_inv: "shell_inv s \<Longrightarrow> shell_inv (s\<lparr>sh_ctx := (sh_ctx s)\<lparr>sc_gamma := gamma_step e (sc_gamma (sh_ctx s))\<rparr>\<rparr>)"
  by (simp add: shell_inv_def ctx_ok_def gamma_step_inv)

lemma preview_part_inv: "shell_inv s \<Longrightarrow> shell_inv (s\<lparr>sh_preview := preview_step e (sh_preview s)\<rparr>)"
  by (simp add: shell_inv_def preview_step_inv)

lemma shell_step_inv: "shell_inv s \<Longrightarrow> shell_inv (shell_step e s)"
proof (cases e)
  case (Sh_gamma g)
  assume "shell_inv s"
  then show ?thesis using Sh_gamma gamma_part_inv by (cases g) (simp_all del: gamma_step.simps)
next
  case (Sh_preview p)
  assume "shell_inv s"
  then show ?thesis using Sh_preview preview_part_inv by (cases p) (simp_all del: preview_step.simps)
qed (simp_all add: late_global_inv capture_window_inv, simp_all add: shell_inv_def on_step_inv ws_step_inv out_step_inv)

interpretation shell: event_machine shell_step shell_inv
  by unfold_locales (rule shell_step_inv)

lemma shell_start_inv:
  assumes "wayland_init env = Started c" and "list_all (\<lambda>g. gl_version g > 0) (ce_globals env)"
  shows "shell_inv (shell_start c)"
proof -
  have c: "c = fold registry_handle_global (ce_globals env) ctx_init"
    using assms(1) by (auto simp: wayland_init_def Let_def split: if_splits)
  have ok: "ctx_ok c" unfolding c by (rule start_ctx_ok [OF assms(2)])
  then have "w_tiling (start_windows c) = map_option bd_version (sc_tiling_manager c)"
    by (cases "sc_tiling_manager c") (auto simp: start_windows_def win_init_def ctx_ok_def)
  moreover have "win_inv (start_windows c)"
    using ok by (cases "sc_tiling_manager c") (auto simp: start_windows_def win_inv_def win_init_def ctx_ok_def)
  moreover have "ws_inv (sh_spaces (shell_start c))"
    using ws_init_inv ws_step_inv by (simp add: shell_start_def del: ws_inv.simps)
  ultimately show ?thesis using ok out_inv_init preview_inv_init by (simp add: shell_inv_def shell_start_def del: ws_inv.simps)
qed

section \<open>Properties\<close>


definition demo_globals :: "global list" where
  "demo_globals = [\<lparr>gl_name = 1, gl_iface = SHM, gl_version = 1\<rparr>, \<lparr>gl_name = 2, gl_iface = PREVIEW_MANAGER, gl_version = 1\<rparr>,
     \<lparr>gl_name = 3, gl_iface = TILING_MANAGER, gl_version = 5\<rparr>]"

definition demo_shell :: "shell_event list" where
  "demo_shell = [Sh_windows (Event (win_event.W_toplevel 7)), Sh_capture True 7 True,
     Sh_windows (Event (W_closed 7 [])), Sh_capture False 7 True]"


text \<open>
  The monitor of a window in a running shell. When the compositor has named the window's output and a monitor has
  that name, the result is the first such monitor, with one reference for the caller.
\<close>

theorem shell_monitor:
  assumes "wayland_init env = Started c" and "list_all (\<lambda>g. gl_version g > 0) (ce_globals env)"
    and "s = fold shell_step es (shell_start c)"
    and "w_output (sh_win s) h = Some out" and "out \<noteq> 0" and "c_names (snd (sh_spaces s)) out = Some name"
    and "first_index (\<lambda>m. mo_connector m = Some name) ms = Some i"
  shows "h \<in> w_live (sh_win s) \<and>
    get_window_monitor h True ms pid (sh_win s) (fst (sh_spaces s)) refs = (Some i, refs(i := refs i + 1))"
proof -
  have "shell_inv s" unfolding assms(3) by (rule shell.run_inv [OF shell_start_inv [OF assms(1,2)]])
  note i = shell_inv_parts [OF this]
  have "ws_connectors (fst (sh_spaces s)) out = Some name" using i(3) assms(6) by (cases "sh_spaces s") (simp add: objects_agree_def)
  then show ?thesis using i(2) assms(4,7) by (auto simp: get_window_monitor_first [OF assms(4,5)] win_inv_def)
qed

end
